(* ===== verification/Prelude.thy ===== *)
theory Prelude
  imports Main "HOL-Library.AList" "HOL-Library.Char_ord" "HOL-Library.List_Lexorder"
begin

text \<open>
  What the components share. Go values are modelled as follows: a string is a byte sequence
  (\<^typ>\<open>string\<close>, one \<^typ>\<open>char\<close> per byte), an instant is the number of nanoseconds since Go's
  zero \<^verbatim>\<open>time.Time\<close> (so \<^verbatim>\<open>IsZero\<close> is equality with 0), a \<^verbatim>\<open>time.Duration\<close> is a number of
  nanoseconds, a Go map is an association list with distinct keys (its order stands for one of the
  iteration orders Go may choose), and an \<^verbatim>\<open>error\<close> is \<^term>\<open>Some msg\<close> with \<^term>\<open>None\<close>
  for \<^verbatim>\<open>nil\<close>. The theory holds the functions of the Go packages \<^verbatim>\<open>strings\<close>, \<^verbatim>\<open>slices\<close>,
  \<^verbatim>\<open>sort\<close>, \<^verbatim>\<open>path\<close> and \<^verbatim>\<open>time\<close> the sources call, the laws of Go maps as the locale
  \<open>go_map\<close>, and the locales \<open>keyed_store\<close> and \<open>keyed_local\<close> which state what a table
  keyed by session id promises to each session.
\<close>

type_synonym time = int
type_synonym duration = int
type_synonym go_error = "string option"

named_theorems go_map_laws \<open>lookup laws of Go maps\<close>
named_theorems scan_simps \<open>unfolding rules of the byte scanners\<close>

section \<open>Durations and instants\<close>

definition zero_time :: time where
  "zero_time = 0"

definition second :: duration where
  "second = 1000000000"

definition minute :: duration where
  "minute = 60 * second"

definition hour :: duration where
  "hour = 60 * minute"

lemmas duration_defs = second_def minute_def hour_def

definition max_duration :: duration where
  "max_duration = 2 ^ 63 - 1"

definition min_duration :: duration where
  "min_duration = - (2 ^ 63)"

text \<open>\<^verbatim>\<open>time.Time.Sub\<close> saturates at the bounds of \<^verbatim>\<open>int64\<close>.\<close>

definition time_Sub :: "time \<Rightarrow> time \<Rightarrow> duration" where
  "time_Sub t u = max min_duration (min max_duration (t - u))"

text \<open>Arithmetic on \<^verbatim>\<open>int64\<close> wraps; \<^verbatim>\<open>time.Duration(n) * time.Second\<close> is such a product.\<close>

definition int64 :: "int \<Rightarrow> int" where
  "int64 x = (x + 2 ^ 63) mod 2 ^ 64 - 2 ^ 63"

definition dur_seconds :: "int \<Rightarrow> duration" where
  "dur_seconds n = int64 (n * second)"

section \<open>Package strings, on bytes\<close>

definition hasPrefix :: "string \<Rightarrow> string \<Rightarrow> bool" where
  "hasPrefix s p = (take (length p) s = p)"

definition hasSuffix :: "string \<Rightarrow> string \<Rightarrow> bool" where
  "hasSuffix s p = (length p \<le> length s \<and> drop (length s - length p) s = p)"

definition trimPrefix :: "string \<Rightarrow> string \<Rightarrow> string" where
  "trimPrefix s p = (if hasPrefix s p then drop (length p) s else s)"

fun contains_sub :: "string \<Rightarrow> string \<Rightarrow> bool" where
  "contains_sub [] sub = (sub = [])"
| "contains_sub (c # s) sub = (hasPrefix (c # s) sub \<or> contains_sub s sub)"

definition contains_byte :: "string \<Rightarrow> char \<Rightarrow> bool" where
  "contains_byte s b = list_ex (\<lambda>c. c = b) s"

text \<open>\<^verbatim>\<open>strings.Cut\<close> with a one-byte separator: the text before and after the first separator.\<close>

fun str_cut :: "string \<Rightarrow> char \<Rightarrow> (string \<times> string) option" where
  "str_cut [] sep = None"
| "str_cut (c # s) sep =
     (if c = sep then Some ([], s)
      else map_option (\<lambda>(b, a). (c # b, a)) (str_cut s sep))"

text \<open>\<^verbatim>\<open>strings.Split\<close> with a one-byte separator; the result is never empty.\<close>

fun split_on :: "char \<Rightarrow> string \<Rightarrow> string list" where
  "split_on sep [] = [[]]"
| "split_on sep (c # s) =
     (if c = sep then [] # split_on sep s
      else (case split_on sep s of [] \<Rightarrow> [[c]] | w # ws \<Rightarrow> (c # w) # ws))"

fun join :: "string list \<Rightarrow> string \<Rightarrow> string" where
  "join [] sep = []"
| "join [x] sep = x"
| "join (x # y # xs) sep = x @ sep @ join (y # xs) sep"

text \<open>
  \<^verbatim>\<open>strings.TrimSpace\<close> removes the runes of \<^verbatim>\<open>unicode.IsSpace\<close>: six ASCII bytes and the
  white space beyond ASCII, given here by its UTF-8 encoding.
\<close>

definition ascii_space :: "char \<Rightarrow> bool" where
  "ascii_space c = (c \<in> {CHR '' '', CHR 0x09, CHR 0x0A, CHR 0x0B, CHR 0x0C, CHR 0x0D})"

definition wide_spaces :: "string list" where
  "wide_spaces =
     [[CHR 0xC2, CHR 0x85], [CHR 0xC2, CHR 0xA0], [CHR 0xE1, CHR 0x9A, CHR 0x80],
      [CHR 0xE2, CHR 0x80, CHR 0x80], [CHR 0xE2, CHR 0x80, CHR 0x81],
      [CHR 0xE2, CHR 0x80, CHR 0x82], [CHR 0xE2, CHR 0x80, CHR 0x83],
      [CHR 0xE2, CHR 0x80, CHR 0x84], [CHR 0xE2, CHR 0x80, CHR 0x85],
      [CHR 0xE2, CHR 0x80, CHR 0x86], [CHR 0xE2, CHR 0x80, CHR 0x87],
      [CHR 0xE2, CHR 0x80, CHR 0x88], [CHR 0xE2, CHR 0x80, CHR 0x89],
      [CHR 0xE2, CHR 0x80, CHR 0x8A], [CHR 0xE2, CHR 0x80, CHR 0xA8],
      [CHR 0xE2, CHR 0x80, CHR 0xA9], [CHR 0xE2, CHR 0x80, CHR 0xAF],
      [CHR 0xE2, CHR 0x81, CHR 0x9F], [CHR 0xE3, CHR 0x80, CHR 0x80]]"

text \<open>The length of the white-space rune a string starts with, 0 when it starts with none.\<close>

fun lead_space :: "string list \<Rightarrow> string \<Rightarrow> nat" where
  "lead_space ws [] = 0"
| "lead_space ws (c # s) =
     (if ascii_space c then 1
      else (case find (hasPrefix (c # s)) ws of None \<Rightarrow> 0 | Some w \<Rightarrow> length w))"

function trim_left :: "string list \<Rightarrow> string \<Rightarrow> string" where
  "trim_left ws s =
     (if lead_space ws s = 0 \<or> s = [] then s else trim_left ws (drop (lead_space ws s) s))"
  by pat_completeness auto
termination
  by (relation "measure (\<lambda>(ws, s). length s)") auto

declare trim_left.simps [simp del]

definition trimSpace :: "string \<Rightarrow> string" where
  "trimSpace s = rev (trim_left (map rev wide_spaces) (rev (trim_left wide_spaces s)))"

text \<open>\<^verbatim>\<open>strings.TrimRight\<close> with an ASCII cut set.\<close>

definition trim_right_set :: "char list \<Rightarrow> string \<Rightarrow> string" where
  "trim_right_set cs s = rev (dropWhile (\<lambda>c. c \<in> set cs) (rev s))"

text \<open>Lower case of ASCII letters, which is all that comparisons with ASCII words see.\<close>

definition ascii_lower :: "char \<Rightarrow> char" where
  "ascii_lower c =
     (if 65 \<le> (of_char c :: nat) \<and> (of_char c :: nat) \<le> 90 then char_of ((of_char c :: nat) + 32) else c)"

definition toLower :: "string \<Rightarrow> string" where
  "toLower s = map ascii_lower s"

definition is_digit :: "char \<Rightarrow> bool" where
  "is_digit c = (48 \<le> (of_char c :: nat) \<and> (of_char c :: nat) \<le> 57)"

definition is_alpha :: "char \<Rightarrow> bool" where
  "is_alpha c =
     ((65 \<le> (of_char c :: nat) \<and> (of_char c :: nat) \<le> 90) \<or>
      (97 \<le> (of_char c :: nat) \<and> (of_char c :: nat) \<le> 122))"

definition is_alnum :: "char \<Rightarrow> bool" where
  "is_alnum c = (is_alpha c \<or> is_digit c)"

text \<open>
  \<^verbatim>\<open>path.Base\<close> and \<^verbatim>\<open>filepath.Base\<close> on Unix: the text after the last slash, once trailing
  slashes are gone; an empty path gives a dot and a path of slashes gives one slash.
\<close>

definition path_base :: "string \<Rightarrow> string" where
  "path_base p =
     (if p = [] then ''.''
      else let q = trim_right_set ''/'' p;
               b = rev (takeWhile (\<lambda>c. c \<noteq> CHR ''/'') (rev q))
           in if b = [] then ''/'' else b)"

section \<open>Go maps\<close>

type_synonym 'v smap = "(string \<times> 'v) list"

abbreviation mget :: "'v smap \<Rightarrow> string \<Rightarrow> 'v option" where
  "mget m k \<equiv> map_of m k"

abbreviation mput :: "'v smap \<Rightarrow> string \<Rightarrow> 'v \<Rightarrow> 'v smap" where
  "mput m k v \<equiv> AList.update k v m"

abbreviation mdel :: "'v smap \<Rightarrow> string \<Rightarrow> 'v smap" where
  "mdel m k \<equiv> AList.delete k m"

definition wf_map :: "'v smap \<Rightarrow> bool" where
  "wf_map m = distinct (map fst m)"

locale go_map =
  fixes get :: "'m \<Rightarrow> 'k \<Rightarrow> 'v option"
    and put :: "'m \<Rightarrow> 'k \<Rightarrow> 'v \<Rightarrow> 'm"
    and del :: "'m \<Rightarrow> 'k \<Rightarrow> 'm"
    and len :: "'m \<Rightarrow> nat"
    and invar :: "'m \<Rightarrow> bool"
  assumes get_put: "get (put m k v) k' = (if k' = k then Some v else get m k')"
    and get_del: "get (del m k) k' = (if k' = k then None else get m k')"
    and invar_put: "invar m \<Longrightarrow> invar (put m k v)"
    and invar_del: "invar m \<Longrightarrow> invar (del m k)"
    and len_put: "invar m \<Longrightarrow> len (put m k v) = (if get m k = None then Suc (len m) else len m)"
    and len_del: "invar m \<Longrightarrow> len (del m k) = (if get m k = None then len m else len m - 1)"
begin

lemma put_same: "get (put m k v) k = Some v"
  by (simp add: get_put)

lemma put_other: "k' \<noteq> k \<Longrightarrow> get (put m k v) k' = get m k'"
  by (simp add: get_put)

lemma del_same: "get (del m k) k = None"
  by (simp add: get_del)

lemma del_other: "k' \<noteq> k \<Longrightarrow> get (del m k) k' = get m k'"
  by (simp add: get_del)

lemma len_put_le: "invar m \<Longrightarrow> len (put m k v) \<le> Suc (len m)"
  by (simp add: len_put)

lemma len_del_le: "invar m \<Longrightarrow> len (del m k) \<le> len m"
  by (simp add: len_del)

end

lemma map_of_delete [simp]: "map_of (AList.delete k m) k' = (if k' = k then None else map_of m k')"
  by (simp add: delete_conv')

lemma map_of_update [simp]: "map_of (AList.update k v m) k' = (if k' = k then Some v else map_of m k')"
  by (simp add: update_conv')

lemma set_delete: "set (AList.delete k m) = {e \<in> set m. fst e \<noteq> k}"
  by (auto simp: AList.delete_eq)

lemma wf_map_update: "wf_map m \<Longrightarrow> wf_map (AList.update k v m)"
  by (simp add: wf_map_def distinct_update)

lemma wf_map_delete: "wf_map m \<Longrightarrow> wf_map (AList.delete k m)"
  by (simp add: wf_map_def distinct_delete)

lemma wf_map_filter: "wf_map m \<Longrightarrow> wf_map (filter P m)"
  unfolding wf_map_def by (rule distinct_map_filter)

lemma wf_map_Nil [simp]: "wf_map []"
  by (simp add: wf_map_def)

lemma length_eq_card_dom: "wf_map m \<Longrightarrow> length m = card (dom (map_of m))"
  using distinct_card [of "map fst m"] by (simp add: wf_map_def dom_map_of_conv_image_fst)

lemma length_update:
  assumes "wf_map m"
  shows "length (AList.update k v m) = (if map_of m k = None then Suc (length m) else length m)"
proof -
  have "length (AList.update k v m) = card (dom (map_of (AList.update k v m)))"
    by (rule length_eq_card_dom [OF wf_map_update [OF assms]])
  also have "dom (map_of (AList.update k v m)) = insert k (dom (map_of m))"
    by (auto simp: domIff split: if_splits)
  also have "card \<dots> = (if map_of m k = None then Suc (card (dom (map_of m))) else card (dom (map_of m)))"
    by (simp add: finite_dom_map_of card_insert_if domIff)
  finally show ?thesis
    by (simp add: length_eq_card_dom [OF assms])
qed

lemma length_delete:
  assumes "wf_map m"
  shows "length (AList.delete k m) = (if map_of m k = None then length m else length m - 1)"
proof -
  have "length (AList.delete k m) = card (dom (map_of (AList.delete k m)))"
    by (rule length_eq_card_dom [OF wf_map_delete [OF assms]])
  also have "dom (map_of (AList.delete k m)) = dom (map_of m) - {k}"
    by (auto simp: domIff split: if_splits)
  also have "card \<dots> = (if map_of m k = None then card (dom (map_of m)) else card (dom (map_of m)) - 1)"
    by (simp add: finite_dom_map_of card_Diff_singleton_if domIff)
  finally show ?thesis
    by (simp add: length_eq_card_dom [OF assms])
qed

interpretation smap: go_map map_of "\<lambda>m k v. AList.update k v m" "\<lambda>m k. AList.delete k m" length wf_map
  by unfold_locales (simp_all add: wf_map_update wf_map_delete length_update length_delete)

lemmas [go_map_laws] = smap.get_put smap.get_del smap.len_put smap.len_del

lemma map_of_filter_wf:
  "wf_map m \<Longrightarrow> map_of (filter (\<lambda>(k, v). P k v) m) k =
     (case map_of m k of None \<Rightarrow> None | Some v \<Rightarrow> if P k v then Some v else None)"
  by (induction m) (auto simp: wf_map_def rev_image_eqI dest: map_of_SomeD split: option.splits)

section \<open>Tables keyed by session id\<close>

text \<open>
  Several tables of the engine hold one entry per session: identity bindings, change tickets,
  change-management patterns, denials, agent budgets, environment overlays. What each promises is
  that an operation issued for one session does not show in another one (\<open>keyed_store\<close>), and, where
  the new entry is a function of the old entry alone, that what a session sees is the result of its
  own operations (\<open>keyed_local\<close>).
\<close>

locale keyed_store =
  fixes view :: "'s \<Rightarrow> string \<Rightarrow> 'v"
    and op :: "'c \<Rightarrow> string \<Rightarrow> 's \<Rightarrow> 's"
  assumes frame: "k' \<noteq> k \<Longrightarrow> view (op c k s) k' = view s k'"
begin

lemma others_invisible:
  "\<forall>(k', c) \<in> set ops. k' \<noteq> k \<Longrightarrow> view (fold (\<lambda>(k', c). op c k') ops s) k = view s k"
  by (induction ops arbitrary: s) (auto simp: frame)

end

locale keyed_local = keyed_store view op
  for view :: "'s \<Rightarrow> string \<Rightarrow> 'v" and op :: "'c \<Rightarrow> string \<Rightarrow> 's \<Rightarrow> 's" +
  fixes own :: "'c \<Rightarrow> 'v \<Rightarrow> 'v"
  assumes local_step: "view (op c k s) k = own c (view s k)"
begin

lemma own_history:
  "view (fold (\<lambda>(k', c). op c k') ops s) k =
     fold own (map snd (filter (\<lambda>(k', c). k' = k) ops)) (view s k)"
  by (induction ops arbitrary: s) (auto simp: frame local_step)

lemma noninterference:
  assumes "view s k = view t k"
    and "filter (\<lambda>(k', c). k' = k) ops = filter (\<lambda>(k', c). k' = k) ops'"
  shows "view (fold (\<lambda>(k', c). op c k') ops s) k = view (fold (\<lambda>(k', c). op c k') ops' t) k"
  by (simp add: own_history assms)

end

section \<open>Shared lemmas\<close>

lemma hasPrefix_append [simp]: "hasPrefix (p @ s) p"
  by (simp add: hasPrefix_def)

lemma hasPrefix_iff: "hasPrefix s p \<longleftrightarrow> (\<exists>r. s = p @ r)"
  by (metis append_take_drop_id hasPrefix_append hasPrefix_def)

lemma trimPrefix_append [simp]: "trimPrefix (p @ s) p = s"
  by (simp add: trimPrefix_def)

lemma contains_byte_iff [simp]: "contains_byte s b \<longleftrightarrow> b \<in> set s"
  by (auto simp: contains_byte_def list_ex_iff)

lemma cut_None_iff: "str_cut s sep = None \<longleftrightarrow> sep \<notin> set s"
  by (induction s) auto

lemma cut_Some: "str_cut s sep = Some (b, a) \<Longrightarrow> s = b @ sep # a \<and> sep \<notin> set b"
  by (induction s arbitrary: b) (auto split: if_splits)

lemma cut_append: "sep \<notin> set b \<Longrightarrow> str_cut (b @ sep # a) sep = Some (b, a)"
  by (induction b) auto

lemma split_on_nonempty [simp]: "split_on sep s \<noteq> []"
  by (cases s) (auto split: list.splits)

lemma split_on_line: "sep \<notin> set a \<Longrightarrow> split_on sep (a @ sep # b) = a # split_on sep b"
  by (induction a) auto

end
