(* ===== verification/Sessions.thy ===== *)
theory Sessions
  imports Prelude
begin

text \<open>
  The session object and the process-wide session table of \<^verbatim>\<open>internal/sys/session.go\<close>, and the
  directory stack of \<^verbatim>\<open>internal/sys/dirstack.go\<close>. A session carries the principal a command is
  authorized as, the time-boxed elevation, the managed-agent binding, the environment overlay and
  the name of the admin key that controls it. The fields that are handles of the operating system
  (the PTY, the output broadcaster, the cancel function, the prompt writer, the recorder) are not
  part of the record. The instant \<^verbatim>\<open>time.Now()\<close> is an argument. Mutexes serialise the methods,
  so each method is one atomic step.
\<close>

section \<open>State\<close>

record elevation =
  elev_Role :: string
  elev_Reason :: string
  elev_ExpiresAt :: time

record managed_agent =
  agent_ID :: string
  agent_FlightID :: string
  agent_Worktree :: string
  agent_Allow :: "string list"
  agent_ExpiresAt :: time

record session =
  sess_ID :: string
  sess_User :: string
  sess_Principals :: "string list"
  sess_CreatedAt :: time
  sess_Recording :: string
  sess_lastActive :: time
  sess_currentCommand :: string
  sess_terminated :: bool
  sess_elevation :: "elevation option"
  sess_oidcProvider :: string
  sess_eligibleRoles :: "string list"
  sess_agentBinding :: "managed_agent option"
  sess_envOverlay :: "string smap"
  sess_dropPrivileges :: bool
  sess_identitySource :: string
  sess_controller :: string

record session_info =
  info_ID :: string
  info_User :: string
  info_Principals :: "string list"
  info_CreatedAt :: time
  info_LastActive :: time
  info_CurrentCommand :: string
  info_Terminated :: bool
  info_Recording :: string
  info_Elevation :: "elevation option"
  info_OIDCProvider :: string
  info_EligibleRoles :: "string list"
  info_AgentID :: string

datatype sess_err =
    InvalidEnvKey
  | InvalidEnvValue
  | EnvTooLarge
  | OverlayFull
  | SessionIdRegistered
  | SessionCapInvalid
  | SessionCapReached nat

definition maxEnvKeyLen :: nat where
  "maxEnvKeyLen = 4 * 1024"

definition maxEnvValueLen :: nat where
  "maxEnvValueLen = 256 * 1024"

definition maxEnvOverlayEntries :: nat where
  "maxEnvOverlayEntries = 1024"

section \<open>Methods of a session\<close>

definition touchLocked :: "time \<Rightarrow> session \<Rightarrow> session" where
  "touchLocked now s = s\<lparr>sess_lastActive := now\<rparr>"

definition SetCurrentCommand :: "time \<Rightarrow> string \<Rightarrow> session \<Rightarrow> session" where
  "SetCurrentCommand now command s = touchLocked now (s\<lparr>sess_currentCommand := command\<rparr>)"

definition SetIdentity :: "time \<Rightarrow> string \<Rightarrow> string list \<Rightarrow> session \<Rightarrow> session" where
  "SetIdentity now user principals s =
     (let s1 = (if user \<noteq> '''' then s\<lparr>sess_User := user\<rparr> else s)
      in touchLocked now (s1\<lparr>sess_Principals := principals, sess_identitySource := ''asserted''\<rparr>))"

definition PrincipalList :: "session \<Rightarrow> string list" where
  "PrincipalList s = sess_Principals s"

definition AddPrincipal :: "time \<Rightarrow> string \<Rightarrow> session \<Rightarrow> bool \<times> session" where
  "AddPrincipal now role s =
     (if role \<in> set (sess_Principals s) then (False, s)
      else (True, touchLocked now (s\<lparr>sess_Principals := sess_Principals s @ [role]\<rparr>)))"

definition RemovePrincipal :: "time \<Rightarrow> string \<Rightarrow> session \<Rightarrow> bool \<times> session" where
  "RemovePrincipal now role s =
     (let kept = filter (\<lambda>p. p \<noteq> role) (sess_Principals s)
      in if length kept = length (sess_Principals s) then (False, s)
         else (True, touchLocked now (s\<lparr>sess_Principals := kept\<rparr>)))"

definition SetIdentitySource :: "string \<Rightarrow> session \<Rightarrow> session" where
  "SetIdentitySource source s = s\<lparr>sess_identitySource := source\<rparr>"

definition ClaimController :: "string \<Rightarrow> session \<Rightarrow> bool \<times> session" where
  "ClaimController name s =
     (if sess_controller s \<noteq> '''' \<or> name = '''' then (False, s)
      else (True, s\<lparr>sess_controller := name\<rparr>))"

definition ReleaseController :: "string \<Rightarrow> session \<Rightarrow> session" where
  "ReleaseController name s =
     (if sess_controller s = name then s\<lparr>sess_controller := ''''\<rparr> else s)"

definition SetOIDC :: "time \<Rightarrow> string \<Rightarrow> string list \<Rightarrow> session \<Rightarrow> session" where
  "SetOIDC now provider eligible s =
     touchLocked now (s\<lparr>sess_oidcProvider := provider, sess_eligibleRoles := eligible\<rparr>)"

definition BindManagedAgent :: "time \<Rightarrow> managed_agent option \<Rightarrow> session \<Rightarrow> session" where
  "BindManagedAgent now agent s = touchLocked now (s\<lparr>sess_agentBinding := agent\<rparr>)"

definition ManagedAgent :: "session \<Rightarrow> managed_agent option" where
  "ManagedAgent s = sess_agentBinding s"

definition ClearManagedAgent :: "time \<Rightarrow> session \<Rightarrow> session" where
  "ClearManagedAgent now s = touchLocked now (s\<lparr>sess_agentBinding := None\<rparr>)"

definition Terminate :: "time \<Rightarrow> session \<Rightarrow> session" where
  "Terminate now s = touchLocked now (s\<lparr>sess_terminated := True\<rparr>)"

definition activeElevationLocked :: "time \<Rightarrow> session \<Rightarrow> elevation option \<times> session" where
  "activeElevationLocked now s =
     (case sess_elevation s of
        None \<Rightarrow> (None, s)
      | Some e \<Rightarrow>
          if \<not> now < elev_ExpiresAt e then (None, s\<lparr>sess_elevation := None\<rparr>)
          else (Some e, s))"

definition ActiveElevation :: "time \<Rightarrow> session \<Rightarrow> elevation option \<times> session" where
  "ActiveElevation now s = activeElevationLocked now s"

definition ActivateElevation :: "time \<Rightarrow> string \<Rightarrow> string \<Rightarrow> time \<Rightarrow> session \<Rightarrow> session" where
  "ActivateElevation now role reason expiresAt s =
     touchLocked now (s\<lparr>sess_elevation :=
        Some \<lparr>elev_Role = role, elev_Reason = reason, elev_ExpiresAt = expiresAt\<rparr>\<rparr>)"

definition DropElevation :: "time \<Rightarrow> session \<Rightarrow> elevation option \<times> session" where
  "DropElevation now s =
     (case sess_elevation s of
        None \<Rightarrow> (None, s)
      | Some e \<Rightarrow> (Some e, touchLocked now (s\<lparr>sess_elevation := None\<rparr>)))"

text \<open>\<^verbatim>\<open>Info\<close> drops an expired elevation, as \<^verbatim>\<open>activeElevationLocked\<close> does.\<close>

definition Info :: "time \<Rightarrow> session \<Rightarrow> session_info \<times> session" where
  "Info now s =
     (let (elevation, s1) = activeElevationLocked now s;
          agentID = (case sess_agentBinding s1 of None \<Rightarrow> '''' | Some a \<Rightarrow> agent_ID a)
      in (\<lparr>info_ID = sess_ID s1, info_User = sess_User s1, info_Principals = sess_Principals s1,
           info_CreatedAt = sess_CreatedAt s1, info_LastActive = sess_lastActive s1,
           info_CurrentCommand = sess_currentCommand s1, info_Terminated = sess_terminated s1,
           info_Recording = sess_Recording s1, info_Elevation = elevation,
           info_OIDCProvider = sess_oidcProvider s1, info_EligibleRoles = sess_eligibleRoles s1,
           info_AgentID = agentID\<rparr>, s1))"

definition SetDropPrivileges :: "bool \<Rightarrow> session \<Rightarrow> session" where
  "SetDropPrivileges on s = s\<lparr>sess_dropPrivileges := on\<rparr>"

section \<open>The environment overlay\<close>

definition SetEnv :: "string \<Rightarrow> string \<Rightarrow> session \<Rightarrow> sess_err option \<times> session" where
  "SetEnv key value s =
     (if key = '''' \<or> contains_byte key (CHR ''='') \<or> contains_byte key (CHR 0x00)
      then (Some InvalidEnvKey, s)
      else if contains_byte value (CHR 0x00) then (Some InvalidEnvValue, s)
      else if length key > maxEnvKeyLen \<or> length value > maxEnvValueLen then (Some EnvTooLarge, s)
      else if mget (sess_envOverlay s) key = None \<and> length (sess_envOverlay s) \<ge> maxEnvOverlayEntries
      then (Some OverlayFull, s)
      else (None, s\<lparr>sess_envOverlay := mput (sess_envOverlay s) key value\<rparr>))"

definition OverlayGet :: "string \<Rightarrow> session \<Rightarrow> string option" where
  "OverlayGet key s = mget (sess_envOverlay s) key"

text \<open>The process environment is an argument: \<^verbatim>\<open>os.LookupEnv\<close> and \<^verbatim>\<open>os.Environ\<close>.\<close>

definition LookupEnv :: "(string \<Rightarrow> string option) \<Rightarrow> string \<Rightarrow> session \<Rightarrow> string option" where
  "LookupEnv os_env key s =
     (case mget (sess_envOverlay s) key of Some v \<Rightarrow> Some v | None \<Rightarrow> os_env key)"

text \<open>The name of an environment entry; \<^verbatim>\<open>strings.Cut\<close> fails or gives an empty name otherwise.\<close>

definition env_name :: "string \<Rightarrow> string option" where
  "env_name kv = (case str_cut kv (CHR ''='') of
      None \<Rightarrow> None
    | Some (name, _) \<Rightarrow> if name = '''' then None else Some name)"

definition mergeEnviron :: "string list \<Rightarrow> string smap \<Rightarrow> string list" where
  "mergeEnviron base overlay =
     filter (\<lambda>kv. case env_name kv of None \<Rightarrow> False | Some name \<Rightarrow> mget overlay name = None) base @
     map (\<lambda>key. key @ ''='' @ the (mget overlay key)) (sort (map fst overlay))"

definition Environ :: "string list \<Rightarrow> session \<Rightarrow> string list" where
  "Environ os_environ s = mergeEnviron os_environ (sess_envOverlay s)"

fun last_env_loop :: "string list \<Rightarrow> nat smap \<Rightarrow> string list \<Rightarrow> string list" where
  "last_env_loop [] index out = out"
| "last_env_loop (kv # list) index out =
     (if kv = '''' then last_env_loop list index out
      else case env_name kv of
          None \<Rightarrow> last_env_loop list index out
        | Some name \<Rightarrow>
            (case mget index name of
               Some i \<Rightarrow> last_env_loop list index (out[i := kv])
             | None \<Rightarrow> last_env_loop list (mput index name (length out)) (out @ [kv])))"

definition LastEnvWins :: "string list \<Rightarrow> string list" where
  "LastEnvWins list = last_env_loop list [] []"

section \<open>The session table\<close>

record registry =
  globalSessions :: "session smap"
  sessionCap :: nat
  sessionCapRefuse :: bool

definition RegisterSession :: "time \<Rightarrow> session \<Rightarrow> registry \<Rightarrow> sess_err option \<times> registry" where
  "RegisterSession now s r =
     (if mget (globalSessions r) (sess_ID s) \<noteq> None then (Some SessionIdRegistered, r)
      else if sessionCapRefuse r then (Some SessionCapInvalid, r)
      else if sessionCap r > 0 \<and> length (globalSessions r) \<ge> sessionCap r
      then (Some (SessionCapReached (sessionCap r)), r)
      else
        (let s1 = (if sess_CreatedAt s = zero_time then s\<lparr>sess_CreatedAt := now\<rparr> else s);
             s2 = (if sess_lastActive s1 = zero_time then s1\<lparr>sess_lastActive := now\<rparr> else s1)
         in (None, r\<lparr>globalSessions := mput (globalSessions r) (sess_ID s2) s2\<rparr>)))"

definition UnregisterSession :: "string \<Rightarrow> registry \<Rightarrow> registry" where
  "UnregisterSession sid r = r\<lparr>globalSessions := mdel (globalSessions r) sid\<rparr>"

definition GetSession :: "registry \<Rightarrow> string \<Rightarrow> session option" where
  "GetSession r sid = mget (globalSessions r) sid"

definition ListSessions :: "registry \<Rightarrow> string list" where
  "ListSessions r = sort (map fst (globalSessions r))"

text \<open>A method call on the session registered under \<^verbatim>\<open>id\<close>; the table holds pointers.\<close>

definition on_session :: "string \<Rightarrow> (session \<Rightarrow> session) \<Rightarrow> registry \<Rightarrow> registry" where
  "on_session sid f r =
     (case mget (globalSessions r) sid of
        None \<Rightarrow> r
      | Some s \<Rightarrow> r\<lparr>globalSessions := mput (globalSessions r) sid (f s)\<rparr>)"

section \<open>The directory stack\<close>

record dir_stack =
  ds_stack :: "string list"
  ds_oldpwd :: string

definition ds_Init :: "string \<Rightarrow> dir_stack \<Rightarrow> dir_stack" where
  "ds_Init cwd d = d\<lparr>ds_stack := [cwd]\<rparr>"

definition ds_Push :: "string \<Rightarrow> dir_stack \<Rightarrow> dir_stack" where
  "ds_Push dir d =
     (let d1 = (if length (ds_stack d) > 0
                then d\<lparr>ds_oldpwd := ds_stack d ! (length (ds_stack d) - 1)\<rparr> else d)
      in d1\<lparr>ds_stack := ds_stack d1 @ [dir]\<rparr>)"

definition ds_Pop :: "dir_stack \<Rightarrow> string \<times> dir_stack" where
  "ds_Pop d =
     (if length (ds_stack d) \<le> 1 then ('''', d)
      else (ds_stack d ! (length (ds_stack d) - 1),
            d\<lparr>ds_stack := take (length (ds_stack d) - 1) (ds_stack d)\<rparr>))"

definition ds_SetOldPwd :: "string \<Rightarrow> dir_stack \<Rightarrow> dir_stack" where
  "ds_SetOldPwd dir d = d\<lparr>ds_oldpwd := dir\<rparr>"

definition ds_Dirs :: "dir_stack \<Rightarrow> string list" where
  "ds_Dirs d = rev (ds_stack d)"

section \<open>Well-formed sessions\<close>

definition wf_overlay :: "string smap \<Rightarrow> bool" where
  "wf_overlay m =
     (wf_map m \<and> length m \<le> maxEnvOverlayEntries \<and>
      (\<forall>(k, v) \<in> set m. k \<noteq> '''' \<and> CHR ''='' \<notin> set k \<and> CHR 0x00 \<notin> set k \<and> CHR 0x00 \<notin> set v \<and>
         length k \<le> maxEnvKeyLen \<and> length v \<le> maxEnvValueLen))"

datatype sess_op =
    OpSetCurrentCommand time string
  | OpSetIdentity time string "string list"
  | OpAddPrincipal time string
  | OpRemovePrincipal time string
  | OpSetIdentitySource string
  | OpClaimController string
  | OpReleaseController string
  | OpSetOIDC time string "string list"
  | OpBindManagedAgent time "managed_agent option"
  | OpClearManagedAgent time
  | OpTouch time
  | OpTerminate time
  | OpActivateElevation time string string time
  | OpDropElevation time
  | OpActiveElevation time
  | OpInfo time
  | OpSetDropPrivileges bool
  | OpSetEnv string string

fun sess_step :: "sess_op \<Rightarrow> session \<Rightarrow> session" where
  "sess_step (OpSetCurrentCommand now c) s = SetCurrentCommand now c s"
| "sess_step (OpSetIdentity now u ps) s = SetIdentity now u ps s"
| "sess_step (OpAddPrincipal now r) s = snd (AddPrincipal now r s)"
| "sess_step (OpRemovePrincipal now r) s = snd (RemovePrincipal now r s)"
| "sess_step (OpSetIdentitySource src) s = SetIdentitySource src s"
| "sess_step (OpClaimController n) s = snd (ClaimController n s)"
| "sess_step (OpReleaseController n) s = ReleaseController n s"
| "sess_step (OpSetOIDC now p rs) s = SetOIDC now p rs s"
| "sess_step (OpBindManagedAgent now a) s = BindManagedAgent now a s"
| "sess_step (OpClearManagedAgent now) s = ClearManagedAgent now s"
| "sess_step (OpTouch now) s = touchLocked now s"
| "sess_step (OpTerminate now) s = Terminate now s"
| "sess_step (OpActivateElevation now r w x) s = ActivateElevation now r w x s"
| "sess_step (OpDropElevation now) s = snd (DropElevation now s)"
| "sess_step (OpActiveElevation now) s = snd (ActiveElevation now s)"
| "sess_step (OpInfo now) s = snd (Info now s)"
| "sess_step (OpSetDropPrivileges b) s = SetDropPrivileges b s"
| "sess_step (OpSetEnv k v) s = snd (SetEnv k v s)"

definition sess_run :: "sess_op list \<Rightarrow> session \<Rightarrow> session" where
  "sess_run ops s = fold sess_step ops s"

lemmas session_method_defs =
  touchLocked_def SetCurrentCommand_def SetIdentity_def AddPrincipal_def RemovePrincipal_def
  SetIdentitySource_def ClaimController_def ReleaseController_def SetOIDC_def BindManagedAgent_def
  ClearManagedAgent_def Terminate_def activeElevationLocked_def ActiveElevation_def
  ActivateElevation_def DropElevation_def Info_def SetDropPrivileges_def

section \<open>The overlay stays bounded and well formed\<close>

lemma SetEnv_wf: "wf_overlay (sess_envOverlay s) \<Longrightarrow> wf_overlay (sess_envOverlay (snd (SetEnv k v s)))"
proof -
  assume wf: "wf_overlay (sess_envOverlay s)"
  have set_upd: "set (mput m k v) \<subseteq> insert (k, v) (set m)" for m :: "string smap"
    by (induction m) auto
  show ?thesis
    using wf set_upd [of "sess_envOverlay s"]
    by (auto simp: SetEnv_def wf_overlay_def wf_map_update length_update split: if_splits)
qed

lemma sess_step_overlay:
  "wf_overlay (sess_envOverlay s) \<Longrightarrow> wf_overlay (sess_envOverlay (sess_step op s))"
  by (cases op) (auto simp: session_method_defs SetEnv_wf Let_def split: option.splits if_splits)

lemma sess_run_overlay:
  "wf_overlay (sess_envOverlay s) \<Longrightarrow> wf_overlay (sess_envOverlay (sess_run ops s))"
  unfolding sess_run_def by (induction ops arbitrary: s) (auto simp: sess_step_overlay)

section \<open>LastEnvWins\<close>

definition env_find :: "string list \<Rightarrow> string \<Rightarrow> string option" where
  "env_find l n = find (\<lambda>kv. env_name kv = Some n) l"

definition idx_ok :: "nat smap \<Rightarrow> string list \<Rightarrow> bool" where
  "idx_ok index out =
     ((\<forall>n i. mget index n = Some i \<longleftrightarrow> i < length out \<and> env_name (out ! i) = Some n) \<and>
      (\<forall>kv \<in> set out. env_name kv \<noteq> None))"

lemma env_name_Nil [simp]: "env_name [] = None"
  by (simp add: env_name_def)

lemma find_append: "find P (xs @ ys) = (case find P xs of None \<Rightarrow> find P ys | Some x \<Rightarrow> Some x)"
  by (induction xs) auto

lemma idx_ok_find:
  assumes "idx_ok index out"
  shows "env_find out n = map_option (\<lambda>i. out ! i) (mget index n)"
proof (cases "mget index n")
  case None
  with assms have "\<forall>i < length out. env_name (out ! i) \<noteq> Some n"
    by (metis idx_ok_def option.discI)
  then have "env_find out n = None"
    by (auto simp: env_find_def find_None_iff in_set_conv_nth)
  with None show ?thesis by simp
next
  case (Some i)
  with assms have i: "i < length out" "env_name (out ! i) = Some n"
    by (auto simp: idx_ok_def)
  have "\<forall>j < i. env_name (out ! j) \<noteq> Some n"
    using assms Some i by (metis (no_types, lifting) idx_ok_def less_irrefl less_trans option.inject)
  with i have "env_find out n = Some (out ! i)"
    unfolding env_find_def find_Some_iff by blast
  with Some show ?thesis by simp
qed

lemma idx_ok_distinct:
  assumes "idx_ok index out"
  shows "distinct (map env_name out)"
proof -
  have "i = j" if "i < length out" "j < length out" "env_name (out ! i) = env_name (out ! j)" for i j
  proof -
    have "out ! i \<in> set out" using that(1) by simp
    then obtain n where n: "env_name (out ! i) = Some n"
      using assms unfolding idx_ok_def by blast
    have "mget index n = Some i" using assms that(1) n unfolding idx_ok_def by blast
    moreover have "mget index n = Some j"
      using assms that(2) n that(3) unfolding idx_ok_def by simp
    ultimately show ?thesis by simp
  qed
  then show ?thesis
    by (auto simp: distinct_conv_nth)
qed

lemma idx_ok_overwrite:
  "idx_ok index out \<Longrightarrow> env_name kv = Some n \<Longrightarrow> mget index n = Some i \<Longrightarrow> idx_ok index (out[i := kv])"
  unfolding idx_ok_def
  by (auto simp: nth_list_update dest: set_update_subset_insert [THEN subsetD])

lemma env_find_overwrite:
  assumes ok: "idx_ok index out" and kv: "env_name kv = Some nm" and i: "mget index nm = Some i"
  shows "env_find (out[i := kv]) n = (if n = nm then Some kv else env_find out n)"
proof -
  have len: "i < length out" using ok i by (simp add: idx_ok_def)
  have other: "j \<noteq> i" if "mget index n = Some j" "n \<noteq> nm" for j
    using ok i that unfolding idx_ok_def by (metis option.inject)
  show ?thesis
    using idx_ok_find [OF idx_ok_overwrite [OF ok kv i], of n] idx_ok_find [OF ok, of n] len i other
    by (cases "mget index n") (auto simp: nth_list_update)
qed

lemma idx_ok_append:
  "idx_ok index out \<Longrightarrow> env_name kv = Some n \<Longrightarrow> mget index n = None \<Longrightarrow>
   idx_ok (mput index n (length out)) (out @ [kv])"
  unfolding idx_ok_def
  by (auto simp: nth_append less_Suc_eq split: if_splits) (metis option.distinct(1))+

lemma last_env_loop_correct:
  assumes "idx_ok index out"
  shows "distinct (map env_name (last_env_loop l index out)) \<and>
     env_find (last_env_loop l index out) n =
       (case env_find (rev l) n of Some kv \<Rightarrow> Some kv | None \<Rightarrow> env_find out n)"
  using assms
proof (induction l arbitrary: index out)
  case Nil
  then show ?case by (simp add: env_find_def idx_ok_distinct)
next
  case (Cons kv l)
  show ?case
  proof (cases "env_name kv")
    case None
    then show ?thesis
      using Cons.IH [OF Cons.prems]
      by (cases "kv = ''''") (auto simp: env_find_def find_append split: option.splits)
  next
    case (Some nm)
    then have ne: "kv \<noteq> ''''" by auto
    show ?thesis
    proof (cases "mget index nm")
      case None
      note ok = idx_ok_append [OF Cons.prems Some None]
      have "env_find (out @ [kv]) n = (if n = nm then Some kv else env_find out n)"
        using idx_ok_find [OF Cons.prems, of n] None Some
        by (auto simp: env_find_def find_append split: option.splits)
      then show ?thesis
        using Cons.IH [OF ok] Some None ne
        by (auto simp: env_find_def find_append split: option.splits)
    next
      case i: (Some i)
      note ok = idx_ok_overwrite [OF Cons.prems Some i]
      have "env_find (out[i := kv]) n = (if n = nm then Some kv else env_find out n)"
        by (rule env_find_overwrite [OF Cons.prems Some i])
      then show ?thesis
        using Cons.IH [OF ok] Some i ne
        by (auto simp: env_find_def find_append split: option.splits)
    qed
  qed
qed

section \<open>What a child process reads\<close>

definition env_lookup :: "string list \<Rightarrow> string \<Rightarrow> string option" where
  "env_lookup l n = (case env_find l n of None \<Rightarrow> None | Some kv \<Rightarrow> map_option snd (str_cut kv (CHR ''='')))"

lemma env_name_assign: "k \<noteq> '''' \<Longrightarrow> CHR ''='' \<notin> set k \<Longrightarrow> env_name (k @ ''='' @ v) = Some k"
  by (simp add: env_name_def cut_append)

lemma find_map_conv: "find P (map f xs) = map_option f (find (\<lambda>x. P (f x)) xs)"
  by (induction xs) auto

lemma find_filter_conv:
  "find P (filter Q xs) = find (\<lambda>x. Q x \<and> P x) xs"
  by (induction xs) auto

lemma find_eq_const: "find (\<lambda>x. x = a) xs = (if a \<in> set xs then Some a else None)"
  by (induction xs) auto

lemma find_conj_const: "find (\<lambda>x. b \<and> P x) xs = (if b then find P xs else None)"
  by (induction xs) auto

lemma find_cong_set: "(\<And>x. x \<in> set xs \<Longrightarrow> P x = Q x) \<Longrightarrow> find P xs = find Q xs"
  by (induction xs) auto

lemma merge_base_find:
  "env_find (filter (\<lambda>kv. case env_name kv of None \<Rightarrow> False | Some name \<Rightarrow> mget m name = None) base) n
      = (if mget m n = None then env_find base n else None)"
proof -
  have "env_find (filter (\<lambda>kv. case env_name kv of None \<Rightarrow> False | Some name \<Rightarrow> mget m name = None) base) n
      = find (\<lambda>kv. mget m n = None \<and> env_name kv = Some n) base"
    unfolding env_find_def find_filter_conv by (rule find_cong_set) (auto split: option.splits)
  then show ?thesis by (simp add: find_conj_const env_find_def)
qed

lemma merge_overlay_find:
  assumes "wf_overlay m"
  shows "env_find (map (\<lambda>key. key @ ''='' @ the (mget m key)) (sort (map fst m))) n
      = map_option (\<lambda>v. n @ ''='' @ v) (mget m n)"
proof -
  have names: "k \<noteq> '''' \<and> CHR ''='' \<notin> set k" if "k \<in> set (map fst m)" for k
    using assms that by (auto simp: wf_overlay_def)
  have "find (\<lambda>k. env_name (k @ ''='' @ the (mget m k)) = Some n) (sort (map fst m))
      = find (\<lambda>k. k = n) (sort (map fst m))"
    by (rule find_cong_set) (use names in \<open>auto simp: env_name_assign [simplified]\<close>)
  then have "env_find (map (\<lambda>key. key @ ''='' @ the (mget m key)) (sort (map fst m))) n
     = map_option (\<lambda>key. key @ ''='' @ the (mget m key)) (find (\<lambda>k. k = n) (sort (map fst m)))"
    unfolding env_find_def find_map_conv by simp
  moreover have "n \<in> set (map fst m) \<longleftrightarrow> mget m n \<noteq> None"
    by (simp add: map_of_eq_None_iff)
  ultimately show ?thesis
    by (auto simp: find_eq_const split: if_splits)
qed

lemma merge_find:
  assumes "wf_overlay m"
  shows "env_find (mergeEnviron base m) n =
     (case mget m n of Some v \<Rightarrow> Some (n @ ''='' @ v) | None \<Rightarrow> env_find base n)"
  using merge_base_find [of m base n] merge_overlay_find [OF assms, of n]
  unfolding mergeEnviron_def by (auto simp: env_find_def find_append split: option.splits if_splits)

section \<open>Properties\<close>

text \<open>
  \<^verbatim>\<open>LastEnvWins\<close> leaves every name once and keeps its last assignment: what \<^verbatim>\<open>getenv\<close>
  (which returns the first entry) finds in the result is the last well-formed entry of that name
  in the input, so an earlier duplicate cannot hide a later overlay or export.
\<close>

theorem LastEnvWins_correct:
  "distinct (map env_name (LastEnvWins l)) \<and>
   env_find (LastEnvWins l) n = env_find (rev l) n"
proof -
  have "idx_ok [] []" by (simp add: idx_ok_def)
  from last_env_loop_correct [OF this, of l n] show ?thesis
    by (auto simp: LastEnvWins_def env_find_def split: option.splits)
qed

text \<open>
  The environment a session hands to a child agrees with \<^verbatim>\<open>LookupEnv\<close>: for every name, what
  the child reads with \<^verbatim>\<open>getenv\<close> is the overlay value when there is one and the value of the
  process environment otherwise, after any sequence of session operations from an empty overlay.
\<close>

theorem Environ_refines_LookupEnv:
  assumes "wf_overlay (sess_envOverlay s0)" and "s = sess_run ops s0"
  shows "env_lookup (Environ os_environ s) n = LookupEnv (env_lookup os_environ) n s"
proof -
  have wf: "wf_overlay (sess_envOverlay s)"
    using assms by (simp add: sess_run_overlay)
  show ?thesis
  proof (cases "mget (sess_envOverlay s) n")
    case None
    with merge_find [OF wf, of os_environ n] show ?thesis
      by (simp add: env_lookup_def Environ_def LookupEnv_def)
  next
    case (Some v)
    then have "CHR ''='' \<notin> set n"
      using wf by (auto simp: wf_overlay_def dest: map_of_SomeD)
    with Some merge_find [OF wf, of os_environ n] show ?thesis
      by (simp add: env_lookup_def Environ_def LookupEnv_def cut_append)
  qed
qed

definition demo_session :: session where
  "demo_session =
     \<lparr>sess_ID = ''s1'', sess_User = ''amy'', sess_Principals = [''dev''], sess_CreatedAt = 5,
      sess_Recording = '''', sess_lastActive = 5, sess_currentCommand = '''', sess_terminated = False,
      sess_elevation = None, sess_oidcProvider = '''', sess_eligibleRoles = [],
      sess_agentBinding = None, sess_envOverlay = [], sess_dropPrivileges = False,
      sess_identitySource = '''', sess_controller = ''''\<rparr>"

theorem Environ_refines_LookupEnv_witness:
  "wf_overlay (sess_envOverlay demo_session) \<and>
   env_lookup (Environ [''PATH=/bin''] (sess_run [OpSetEnv ''PATH'' ''/opt''] demo_session)) ''PATH''
     = Some ''/opt''"
proof
  show wf: "wf_overlay (sess_envOverlay demo_session)"
    by (simp add: demo_session_def wf_overlay_def maxEnvOverlayEntries_def)
  show "env_lookup (Environ [''PATH=/bin''] (sess_run [OpSetEnv ''PATH'' ''/opt''] demo_session)) ''PATH''
     = Some ''/opt''"
    unfolding Environ_refines_LookupEnv [OF wf refl]
    by (simp add: sess_run_def SetEnv_def demo_session_def LookupEnv_def maxEnvKeyLen_def
        maxEnvValueLen_def maxEnvOverlayEntries_def)
qed

lemma sess_step_controller:
  "sess_controller s = n \<Longrightarrow> n \<noteq> '''' \<Longrightarrow> op \<noteq> OpReleaseController n \<Longrightarrow>
   sess_controller (sess_step op s) = n"
  by (cases op) (auto simp: session_method_defs SetEnv_def Let_def split: option.splits if_splits)

text \<open>
  C30. Exclusive control. Once an admin key holds a session, every sequence of session operations
  without that key's own release keeps it the controller and refuses every other claim.
\<close>

theorem controller_exclusive:
  assumes "ClaimController n s = (True, s1)" and "OpReleaseController n \<notin> set ops"
  shows "sess_controller (sess_run ops s1) = n \<and>
         fst (ClaimController m (sess_run ops s1)) = False"
proof -
  have n: "n \<noteq> ''''" "sess_controller s1 = n"
    using assms(1) by (auto simp: ClaimController_def split: if_splits)
  have "sess_controller (sess_run ops s1) = n"
    using assms(2) n unfolding sess_run_def
    by (induction ops arbitrary: s1) (auto simp: sess_step_controller)
  with n(1) show ?thesis by (auto simp: ClaimController_def)
qed

theorem controller_exclusive_witness:
  "ClaimController ''k1'' demo_session = (True, demo_session\<lparr>sess_controller := ''k1''\<rparr>) \<and>
   fst (ClaimController ''k2''
     (sess_run [OpReleaseController ''k2'', OpTouch 9] (demo_session\<lparr>sess_controller := ''k1''\<rparr>))) = False"
proof
  show c: "ClaimController ''k1'' demo_session = (True, demo_session\<lparr>sess_controller := ''k1''\<rparr>)"
    by (simp add: ClaimController_def demo_session_def)
  show "fst (ClaimController ''k2''
     (sess_run [OpReleaseController ''k2'', OpTouch 9] (demo_session\<lparr>sess_controller := ''k1''\<rparr>))) = False"
    by (rule controller_exclusive [OF c, THEN conjunct2]) simp
qed

fun activates :: "sess_op \<Rightarrow> bool" where
  "activates (OpActivateElevation now r w x) = True"
| "activates _ = False"

lemma sess_step_elevation:
  "sess_elevation s = None \<or> sess_elevation s = Some e \<Longrightarrow> \<not> activates op \<Longrightarrow>
   sess_elevation (sess_step op s) = None \<or> sess_elevation (sess_step op s) = Some e"
  by (cases op) (auto simp: session_method_defs SetEnv_def Let_def split: option.splits if_splits)

lemma sess_run_elevation:
  "sess_elevation s = None \<or> sess_elevation s = Some e \<Longrightarrow> \<not> list_ex activates ops \<Longrightarrow>
   sess_elevation (sess_run ops s) = None \<or> sess_elevation (sess_run ops s) = Some e"
  unfolding sess_run_def
proof (induction ops arbitrary: s)
  case Nil
  then show ?case by simp
next
  case (Cons op ops)
  then have "sess_elevation (sess_step op s) = None \<or> sess_elevation (sess_step op s) = Some e"
    by (intro sess_step_elevation) auto
  with Cons show ?case by simp
qed

text \<open>
  An elevation is never active at or after its expiry, whatever happened to the session since
  it was granted, unless a new elevation is activated: the expired one is dropped when it is read
  and cannot come back.
\<close>

theorem elevation_expires:
  assumes "\<not> list_ex activates ops"
    and "elev_ExpiresAt e \<le> now" and "sess_elevation s = Some e"
  shows "fst (ActiveElevation now (sess_run ops s)) = None \<and>
         sess_elevation (snd (ActiveElevation now (sess_run ops s))) = None"
proof -
  have "sess_elevation (sess_run ops s) = None \<or> sess_elevation (sess_run ops s) = Some e"
    by (rule sess_run_elevation) (use assms in simp_all)
  with assms(2) show ?thesis
    by (auto simp: ActiveElevation_def activeElevationLocked_def)
qed

definition demo_elevation :: elevation where
  "demo_elevation = \<lparr>elev_Role = ''dba'', elev_Reason = ''T-1'', elev_ExpiresAt = 100\<rparr>"

theorem elevation_expires_witness:
  "fst (ActiveElevation 100 (sess_run [OpTouch 50, OpInfo 60] (demo_session\<lparr>sess_elevation := Some demo_elevation\<rparr>))) = None \<and>
   fst (ActiveElevation 99 (sess_run [OpTouch 50, OpInfo 60] (demo_session\<lparr>sess_elevation := Some demo_elevation\<rparr>)))
     = Some demo_elevation"
proof
  have "elev_ExpiresAt demo_elevation \<le> 100" by (simp add: demo_elevation_def)
  then show "fst (ActiveElevation 100 (sess_run [OpTouch 50, OpInfo 60]
      (demo_session\<lparr>sess_elevation := Some demo_elevation\<rparr>))) = None"
    by (intro elevation_expires [THEN conjunct1]) auto
  show "fst (ActiveElevation 99 (sess_run [OpTouch 50, OpInfo 60]
      (demo_session\<lparr>sess_elevation := Some demo_elevation\<rparr>))) = Some demo_elevation"
    by (simp add: sess_run_def session_method_defs demo_elevation_def)
qed

end
