(* ===== verification/Entitlements.thy ===== *)
theory Entitlements
  imports Prelude
begin

text \<open>
  Role-based access control: the entitlements file of \<^verbatim>\<open>security/entitlements.go\<close> and the role
  names of \<^verbatim>\<open>security/roles.go\<close>. The three YAML maps of the file are the fields of the record;
  reading and parsing the file is outside the model, \<open>LoadEntitlements\<close> takes its outcome.
\<close>

section \<open>Entitlements\<close>

record EntitlementsConfig =
  Groups :: "string list smap"
  Users :: "string list smap"
  Menus :: "string smap"

record entitlements_state =
  entitlements :: EntitlementsConfig
  entitlementsLoaded :: bool

definition no_entitlements :: EntitlementsConfig where
  "no_entitlements = \<lparr>Groups = [], Users = [], Menus = []\<rparr>"

datatype file_read = FileMissing | FileError string | FileData string

datatype ent_err = NoEntitlementsFile | EntReadError string | EntParseError string

text \<open>
  \<open>unmarshal\<close> is \<^verbatim>\<open>yaml.Unmarshal\<close> into the current configuration: an error, or the configuration
  afterwards. Like the Go call it may leave a partly updated value behind on an error.
\<close>

definition LoadEntitlements ::
  "(string \<Rightarrow> EntitlementsConfig \<Rightarrow> string option \<times> EntitlementsConfig) \<Rightarrow> file_read \<Rightarrow>
   entitlements_state \<Rightarrow> ent_err option \<times> entitlements_state" where
  "LoadEntitlements unmarshal file e =
     (case file of
        FileMissing \<Rightarrow> (Some NoEntitlementsFile, e)
      | FileError m \<Rightarrow> (Some (EntReadError m), e)
      | FileData data \<Rightarrow>
          (case unmarshal data (entitlements e) of
             (Some m, cfg) \<Rightarrow> (Some (EntParseError m), e\<lparr>entitlements := cfg\<rparr>)
           | (None, cfg) \<Rightarrow> (None, e\<lparr>entitlements := cfg, entitlementsLoaded := True\<rparr>)))"

definition hasEntitlements :: "entitlements_state \<Rightarrow> bool" where
  "hasEntitlements e = entitlementsLoaded e"

definition cmd_listed :: "string \<Rightarrow> string list \<Rightarrow> bool" where
  "cmd_listed command cmds = list_ex (\<lambda>cmd. cmd = command \<or> cmd = ''*'') cmds"

definition IsAuthorized :: "entitlements_state \<Rightarrow> string \<Rightarrow> string list \<Rightarrow> string \<Rightarrow> bool" where
  "IsAuthorized e user principals command =
     (if length (Groups (entitlements e)) = 0 \<and> length (Users (entitlements e)) = 0 then False
      else if (case mget (Users (entitlements e)) user of
                 Some allowedCmds \<Rightarrow> cmd_listed command allowedCmds | None \<Rightarrow> False)
      then True
      else list_ex (\<lambda>principal.
             case mget (Groups (entitlements e)) principal of
               Some allowedCmds \<Rightarrow> cmd_listed command allowedCmds | None \<Rightarrow> False) principals)"

definition sortedKeys :: "bool smap \<Rightarrow> string list" where
  "sortedKeys s = sort (map fst s)"

definition EntitlementsHeld :: "entitlements_state \<Rightarrow> string \<Rightarrow> string list \<Rightarrow> string list" where
  "EntitlementsHeld e user principals =
     (let seen0 = (if mget (Users (entitlements e)) user \<noteq> None \<and> user \<noteq> ''''
                   then [(''user:'' @ user, True)] else []);
          seen = fold (\<lambda>principal seen.
                   if mget (Groups (entitlements e)) principal \<noteq> None
                   then mput seen (''group:'' @ principal) True else seen) principals seen0
      in sortedKeys seen)"

definition grant_loop :: "string \<Rightarrow> string \<Rightarrow> string list smap \<Rightarrow> bool smap \<Rightarrow> bool smap" where
  "grant_loop command kind entries seen =
     fold (\<lambda>(name, cmds) seen. if cmd_listed command cmds then mput seen (kind @ name) True else seen)
       entries seen"

definition EntitlementsGranting :: "entitlements_state \<Rightarrow> string \<Rightarrow> string list" where
  "EntitlementsGranting e command =
     sortedKeys (grant_loop command ''group:'' (Groups (entitlements e))
                  (grant_loop command ''user:'' (Users (entitlements e)) []))"

definition add_cmds :: "string list option \<Rightarrow> bool smap \<Rightarrow> bool smap" where
  "add_cmds cmds seen = (case cmds of None \<Rightarrow> seen | Some cs \<Rightarrow> fold (\<lambda>c s. mput s c True) cs seen)"

definition EntitledCommands :: "entitlements_state \<Rightarrow> string \<Rightarrow> string list \<Rightarrow> string list" where
  "EntitledCommands e user principals =
     (let seen0 = (if user \<noteq> '''' then add_cmds (mget (Users (entitlements e)) user) [] else [])
      in sortedKeys (fold (\<lambda>p seen. add_cmds (mget (Groups (entitlements e)) p) seen) principals seen0))"

fun first_menu :: "string smap \<Rightarrow> string list \<Rightarrow> string" where
  "first_menu menus [] = ''''"
| "first_menu menus (p # ps) = (case mget menus p of Some m \<Rightarrow> m | None \<Rightarrow> first_menu menus ps)"

definition GetMenuForUser :: "entitlements_state \<Rightarrow> string \<Rightarrow> string list \<Rightarrow> string" where
  "GetMenuForUser e user principals =
     (if length (Menus (entitlements e)) = 0 then ''''
      else case mget (Menus (entitlements e)) user of
          Some menuPath \<Rightarrow> menuPath
        | None \<Rightarrow> first_menu (Menus (entitlements e)) principals)"

definition HasExplicitEntitlement :: "entitlements_state \<Rightarrow> string \<Rightarrow> string \<Rightarrow> bool" where
  "HasExplicitEntitlement e user command =
     (if user = '''' \<or> command = '''' \<or> command = ''*'' then False
      else case mget (Users (entitlements e)) user of
          None \<Rightarrow> False | Some cmds \<Rightarrow> list_ex (\<lambda>cmd. cmd = command) cmds)"

section \<open>Roles\<close>

definition RoleAdsshAdmin :: string where "RoleAdsshAdmin = ''adssh-admin''"
definition RoleOSRoot :: string where "RoleOSRoot = ''os-root''"
definition RoleGridOps :: string where "RoleGridOps = ''gridops''"

definition agentAllow :: "string list" where
  "agentAllow = [''worktree'', ''repo'', ''runbook'', ''par'', ''why'', ''??'', ''evidence'', ''lease'']"

definition IsPrivilegedRole :: "string \<Rightarrow> bool" where
  "IsPrivilegedRole role = (role = RoleAdsshAdmin \<or> role = RoleOSRoot \<or> role = RoleGridOps)"

fun FilterUnprivileged :: "string list \<Rightarrow> string list" where
  "FilterUnprivileged [] = []"
| "FilterUnprivileged (g # gs) =
     (if IsPrivilegedRole g then FilterUnprivileged gs else g # FilterUnprivileged gs)"

fun privileged_loop :: "string list \<Rightarrow> string list \<Rightarrow> string list" where
  "privileged_loop [] out = out"
| "privileged_loop (g # gs) out =
     (if \<not> IsPrivilegedRole g \<or> g \<in> set out then privileged_loop gs out
      else privileged_loop gs (out @ [g]))"

definition PrivilegedEligible :: "string list \<Rightarrow> string list" where
  "PrivilegedEligible groups = privileged_loop groups []"

definition AgentCommandAllowed :: "string \<Rightarrow> bool" where
  "AgentCommandAllowed name = list_ex (\<lambda>allowed. allowed = name) agentAllow"

section \<open>What the lists say\<close>

definition grants :: "string \<Rightarrow> string list option \<Rightarrow> bool" where
  "grants command cmds = (case cmds of None \<Rightarrow> False | Some cs \<Rightarrow> cmd_listed command cs)"

lemma grants_Some: "grants c o' \<Longrightarrow> \<exists>y. o' = Some y"
  by (cases o') (auto simp: grants_def)

lemma cmd_listed_iff: "cmd_listed c cs \<longleftrightarrow> c \<in> set cs \<or> ''*'' \<in> set cs"
  by (auto simp: cmd_listed_def list_ex_iff)

lemma grants_iff: "grants c o' \<longleftrightarrow> (\<exists>cs. o' = Some cs \<and> (c \<in> set cs \<or> ''*'' \<in> set cs))"
  by (cases o') (auto simp: grants_def cmd_listed_iff)

lemma IsAuthorized_iff:
  "IsAuthorized e u ps c \<longleftrightarrow>
     grants c (mget (Users (entitlements e)) u) \<or> (\<exists>p \<in> set ps. grants c (mget (Groups (entitlements e)) p))"
  by (auto simp: IsAuthorized_def grants_def list_ex_iff split: option.splits)

lemma set_mput_keys: "fst ` set (mput m k v) = insert k (fst ` set m)"
  by (simp add: dom_update)

lemma held_loop_keys:
  "fst ` set (fold (\<lambda>p seen. if mget g p \<noteq> None then mput seen (''group:'' @ p) True else seen) ps seen)
     = fst ` set seen \<union> {''group:'' @ p | p. p \<in> set ps \<and> mget g p \<noteq> None}"
  by (induction ps arbitrary: seen) (auto simp: set_mput_keys)

lemma grant_loop_keys:
  "fst ` set (grant_loop c kind es seen) =
     fst ` set seen \<union> {kind @ n | n cs. (n, cs) \<in> set es \<and> cmd_listed c cs}"
  unfolding grant_loop_def
proof (induction es arbitrary: seen)
  case Nil
  then show ?case by simp
next
  case (Cons x es)
  obtain n cs where "x = (n, cs)" by (cases x)
  then show ?case
    by (cases "cmd_listed c cs") (auto simp: Cons.IH set_mput_keys simp del: image_iff)
qed

lemma add_cmds_keys:
  "fst ` set (add_cmds o' seen) = fst ` set seen \<union> (case o' of None \<Rightarrow> {} | Some cs \<Rightarrow> set cs)"
proof -
  have "fst ` set (fold (\<lambda>c s. mput s c True) cs seen) = fst ` set seen \<union> set cs" for cs
    by (induction cs arbitrary: seen) (auto simp: set_mput_keys)
  then show ?thesis by (auto simp: add_cmds_def split: option.splits)
qed

lemma listed_iff_grants:
  assumes "wf_map m"
  shows "(\<exists>cs. (n, cs) \<in> set m \<and> cmd_listed c cs) \<longleftrightarrow> grants c (mget m n)"
proof (cases "mget m n")
  case None
  then have "n \<notin> fst ` set m" by (simp add: map_of_eq_None_iff)
  with None show ?thesis by (force simp: grants_def)
next
  case (Some y)
  have "(n, cs) \<in> set m \<longleftrightarrow> cs = y" for cs
    using map_of_eq_Some_iff [of m n cs] assms Some unfolding wf_map_def by auto
  with Some show ?thesis by (simp add: grants_def)
qed

lemma mem_EntitlementsHeld:
  "x \<in> set (EntitlementsHeld e u ps) \<longleftrightarrow>
     (x = ''user:'' @ u \<and> u \<noteq> '''' \<and> mget (Users (entitlements e)) u \<noteq> None) \<or>
     (\<exists>p \<in> set ps. x = ''group:'' @ p \<and> mget (Groups (entitlements e)) p \<noteq> None)"
  unfolding EntitlementsHeld_def sortedKeys_def Let_def set_sort set_map held_loop_keys by auto

lemma mem_EntitlementsGranting:
  assumes "wf_map (Users (entitlements e))" and "wf_map (Groups (entitlements e))"
  shows "x \<in> set (EntitlementsGranting e c) \<longleftrightarrow>
     (\<exists>n. x = ''user:'' @ n \<and> grants c (mget (Users (entitlements e)) n)) \<or>
     (\<exists>n. x = ''group:'' @ n \<and> grants c (mget (Groups (entitlements e)) n))"
  unfolding EntitlementsGranting_def sortedKeys_def set_sort set_map grant_loop_keys
    listed_iff_grants [OF assms(1), symmetric] listed_iff_grants [OF assms(2), symmetric]
  by auto

lemma set_EntitledCommands:
  "set (EntitledCommands e u ps) =
     {c. u \<noteq> '''' \<and> (\<exists>cs. mget (Users (entitlements e)) u = Some cs \<and> c \<in> set cs)} \<union>
     {c. \<exists>p \<in> set ps. \<exists>cs. mget (Groups (entitlements e)) p = Some cs \<and> c \<in> set cs}"
proof -
  have "fst ` set (fold (\<lambda>p seen. add_cmds (mget g p) seen) ps seen) =
      fst ` set seen \<union> {c. \<exists>p \<in> set ps. \<exists>cs. mget g p = Some cs \<and> c \<in> set cs}" for g seen
    by (induction ps arbitrary: seen) (auto simp: add_cmds_keys split: option.splits)
  then show ?thesis
    unfolding EntitledCommands_def sortedKeys_def Let_def set_sort set_map
    by (cases "u = ''''") (auto simp: add_cmds_keys simp del: image_iff split: option.splits)
qed

section \<open>Properties\<close>

text \<open>
  What \<^verbatim>\<open>why\<close> reports is what the gate decides: for a named user, the entitlements check
  passes exactly when one of the entries the session holds (\<^verbatim>\<open>EntitlementsHeld\<close>) is among the
  entries that grant the command (\<^verbatim>\<open>EntitlementsGranting\<close>), and exactly when the command or the
  wildcard is among the commands \<^verbatim>\<open>EntitledCommands\<close> lists.
\<close>

theorem authorized_iff_held_grants:
  assumes "u \<noteq> ''''" and "wf_map (Users (entitlements e))" and "wf_map (Groups (entitlements e))"
  shows "(IsAuthorized e u ps c \<longleftrightarrow>
           set (EntitlementsHeld e u ps) \<inter> set (EntitlementsGranting e c) \<noteq> {}) \<and>
         (IsAuthorized e u ps c \<longleftrightarrow>
           c \<in> set (EntitledCommands e u ps) \<or> ''*'' \<in> set (EntitledCommands e u ps))"
proof -
  note held = mem_EntitlementsHeld [of _ e u ps]
  note granting = mem_EntitlementsGranting [OF assms(2,3), of _ c]
  have user: "''user:'' @ u \<in> set (EntitlementsHeld e u ps) \<inter> set (EntitlementsGranting e c)"
    if "grants c (mget (Users (entitlements e)) u)"
    unfolding Int_iff held granting using that assms(1) grants_Some [OF that] by simp
  have group: "''group:'' @ p \<in> set (EntitlementsHeld e u ps) \<inter> set (EntitlementsGranting e c)"
    if "p \<in> set ps" "grants c (mget (Groups (entitlements e)) p)" for p
    unfolding Int_iff held granting using that grants_Some [OF that(2)] by simp
  have sound: "IsAuthorized e u ps c"
    if "x \<in> set (EntitlementsHeld e u ps) \<inter> set (EntitlementsGranting e c)" for x
    using that unfolding Int_iff held granting IsAuthorized_iff by auto
  have 1: "IsAuthorized e u ps c \<longleftrightarrow>
      set (EntitlementsHeld e u ps) \<inter> set (EntitlementsGranting e c) \<noteq> {}"
  proof
    assume "IsAuthorized e u ps c"
    then show "set (EntitlementsHeld e u ps) \<inter> set (EntitlementsGranting e c) \<noteq> {}"
      unfolding IsAuthorized_iff using user group by blast
  next
    assume "set (EntitlementsHeld e u ps) \<inter> set (EntitlementsGranting e c) \<noteq> {}"
    then show "IsAuthorized e u ps c" using sound by blast
  qed
  have 2: "IsAuthorized e u ps c \<longleftrightarrow>
      c \<in> set (EntitledCommands e u ps) \<or> ''*'' \<in> set (EntitledCommands e u ps)"
    unfolding IsAuthorized_iff set_EntitledCommands
    using assms(1) unfolding grants_iff by blast
  from 1 2 show ?thesis ..
qed

definition demo_entitlements :: entitlements_state where
  "demo_entitlements =
     \<lparr>entitlements = \<lparr>Groups = [(''ops'', [''unit'', ''host'']), (''root'', [''*''])],
                       Users = [(''amy'', [''gateway''])], Menus = []\<rparr>,
      entitlementsLoaded = True\<rparr>"

theorem authorized_iff_held_grants_witness:
  "IsAuthorized demo_entitlements ''amy'' [''ops''] ''unit'' \<and>
   set (EntitlementsHeld demo_entitlements ''amy'' [''ops'']) \<inter> set (EntitlementsGranting demo_entitlements ''unit'') \<noteq> {}"
proof -
  have wf: "wf_map (Users (entitlements demo_entitlements))" "wf_map (Groups (entitlements demo_entitlements))"
    by (simp_all add: demo_entitlements_def wf_map_def)
  have a: "IsAuthorized demo_entitlements ''amy'' [''ops''] ''unit''"
    by (simp add: IsAuthorized_def demo_entitlements_def cmd_listed_def)
  show ?thesis
    using a authorized_iff_held_grants [OF _ wf, of "''amy''" "[''ops'']" "''unit''"] by simp
qed

lemma FilterUnprivileged_filter: "FilterUnprivileged gs = filter (\<lambda>g. \<not> IsPrivilegedRole g) gs"
  by (induction gs) auto

lemma privileged_loop_spec:
  "distinct out \<Longrightarrow> distinct (privileged_loop gs out) \<and>
     set (privileged_loop gs out) = set out \<union> {g \<in> set gs. IsPrivilegedRole g} \<and>
     (\<exists>r. privileged_loop gs out = out @ r)"
proof (induction gs arbitrary: out)
  case Nil
  then show ?case by simp
next
  case (Cons g gs)
  show ?case
  proof (cases "\<not> IsPrivilegedRole g \<or> g \<in> set out")
    case True
    with Cons.IH [OF Cons.prems] show ?thesis by auto
  next
    case False
    then have "distinct (out @ [g])" using Cons.prems by simp
    from Cons.IH [OF this] False show ?thesis by fastforce
  qed
qed

text \<open>
  The roles that only an admin audience may carry never survive \<^verbatim>\<open>FilterUnprivileged\<close>, and
  nothing else is lost: the groups of a login are exactly the filtered list and the privileged
  roles, which \<^verbatim>\<open>PrivilegedEligible\<close> returns once each.
\<close>

theorem privileged_split:
  "\<not> list_ex IsPrivilegedRole (FilterUnprivileged gs) \<and>
   set (FilterUnprivileged gs) \<union> set (PrivilegedEligible gs) = set gs \<and>
   set (FilterUnprivileged gs) \<inter> set (PrivilegedEligible gs) = {} \<and>
   distinct (PrivilegedEligible gs) \<and> length (PrivilegedEligible gs) \<le> 3"
proof -
  have spec: "distinct (PrivilegedEligible gs)"
    "set (PrivilegedEligible gs) = {g \<in> set gs. IsPrivilegedRole g}"
    using privileged_loop_spec [of "[]" gs] by (auto simp: PrivilegedEligible_def)
  have "set (PrivilegedEligible gs) \<subseteq> {RoleAdsshAdmin, RoleOSRoot, RoleGridOps}"
    unfolding spec(2) by (auto simp: IsPrivilegedRole_def)
  then have "card (set (PrivilegedEligible gs)) \<le> card {RoleAdsshAdmin, RoleOSRoot, RoleGridOps}"
    by (intro card_mono) auto
  also have "\<dots> \<le> 3" by (simp add: card_insert_if)
  finally have "length (PrivilegedEligible gs) \<le> 3"
    using spec(1) by (simp add: distinct_card)
  with spec show ?thesis
    by (auto simp: FilterUnprivileged_filter list_ex_iff)
qed

text \<open>
  An explicit per-user grant is stronger than authorization, and a loaded but empty file
  authorizes nobody: with neither groups nor users every command is refused.
\<close>

theorem explicit_and_empty:
  "(HasExplicitEntitlement e u c \<longrightarrow> IsAuthorized e u ps c) \<and>
   (Groups (entitlements e) = [] \<and> Users (entitlements e) = [] \<longrightarrow> \<not> IsAuthorized e u ps c)"
  by (auto simp: HasExplicitEntitlement_def IsAuthorized_iff grants_def cmd_listed_iff list_ex_iff
      split: option.splits if_splits)

theorem explicit_and_empty_witness:
  "HasExplicitEntitlement demo_entitlements ''amy'' ''gateway'' \<and>
   IsAuthorized demo_entitlements ''amy'' [] ''gateway'' \<and>
   \<not> IsAuthorized (demo_entitlements\<lparr>entitlements := no_entitlements\<rparr>) ''amy'' [] ''gateway''"
proof -
  have h: "HasExplicitEntitlement demo_entitlements ''amy'' ''gateway''"
    by (simp add: HasExplicitEntitlement_def demo_entitlements_def)
  show ?thesis
    using h explicit_and_empty [of demo_entitlements "''amy''" "''gateway''" "[]"]
      explicit_and_empty [of "demo_entitlements\<lparr>entitlements := no_entitlements\<rparr>" "''amy''" "''gateway''" "[]"]
    by (simp add: no_entitlements_def)
qed

end
