(* ===== verification/Capabilities.thy ===== *)
theory Capabilities
  imports Prelude
begin

text \<open>
  \<^verbatim>\<open>security/capabilities.go\<close>: the capability groups a governed command touches. A path
  \<^verbatim>\<open>starlark.<namespace>.<function>\<close> is classified by namespace, the \<^verbatim>\<open>sys\<close> namespace by
  function; the network redirections \<^verbatim>\<open>/dev/tcp\<close> and \<^verbatim>\<open>/dev/udp\<close> are classified by name; every
  other command has no capabilities.
\<close>

definition starlarkPrefix :: string where
  "starlarkPrefix = ''starlark.''"

definition CapUnclassified :: string where
  "CapUnclassified = ''unclassified''"

definition CapDNS :: string where
  "CapDNS = ''dns''"

definition nsCapabilities :: "string list smap" where
  "nsCapabilities =
     [(''net'', [''net'', ''tcp'']), (''re'', [''regex'']), (''db'', [''databases'']),
      (''fs'', [''fileops'']), (''crypto'', [''crypto'']), (''data'', [''data'']),
      (''cloud'', [''cloud'']), (''aws'', [''cloud'']), (''gcp'', [''cloud'']),
      (''azure'', [''cloud'']), (''oci'', [''cloud'']), (''k8s'', [''k8s'']),
      (''docker'', [''containers'']), (''containers'', [''containers'']),
      (''secrets'', [''secrets'', ''security'']), (''sec'', [''security'']), (''vcs'', [''vcs'']),
      (''notify'', [''notify'']), (''template'', [''template'']), (''i18n'', [''template'']),
      (''str'', [''strings'']), (''expect'', [''proc'', ''stdio'']), (''log'', [''audit''])]"

definition netDeviceCapabilities :: "string list smap" where
  "netDeviceCapabilities = [(''/dev/tcp'', [''net'', ''tcp'']), (''/dev/udp'', [''net''])]"

definition sysCapabilities :: "string \<Rightarrow> string list" where
  "sysCapabilities fn =
     (if fn \<in> {''read_file'', ''write_file''} then [''fileops'']
      else if fn \<in> {''exec_cmd'', ''exec_async'', ''exec_json'', ''parallel'', ''load_plugin'',
                     ''load_plugins'', ''load_agent''} then [''proc'', ''stdio'']
      else if fn \<in> {''register_command'', ''register_completer''} then [''stdio'']
      else if fn \<in> {''getenv'', ''setenv'', ''''} then [''stdio'']
      else [''stdio''])"

definition dnsMutation :: "string list \<Rightarrow> bool" where
  "dnsMutation parts =
     (if length parts < 3 \<or> parts ! 0 \<noteq> ''aws'' \<or> parts ! 1 \<noteq> ''route53'' then False
      else parts ! 2 = ''upsert_record'' \<or> parts ! 2 = ''delete_record'')"

fun dedupe_loop :: "string list \<Rightarrow> string list \<Rightarrow> string list" where
  "dedupe_loop [] out = out"
| "dedupe_loop (s # ss) out = (if s \<in> set out then dedupe_loop ss out else dedupe_loop ss (out @ [s]))"

definition dedupeSorted :: "string list \<Rightarrow> string list" where
  "dedupeSorted ss = (if length ss = 0 then [] else sort (dedupe_loop ss []))"

definition ClassifyCapabilities :: "string \<Rightarrow> string list" where
  "ClassifyCapabilities command =
     (case mget netDeviceCapabilities command of
        Some caps \<Rightarrow> dedupeSorted caps
      | None \<Rightarrow>
          if \<not> hasPrefix command starlarkPrefix then []
          else
            (let rest = trimPrefix command starlarkPrefix
             in if rest = '''' then [CapUnclassified]
                else
                  (let parts = split_on (CHR ''.'') rest; ns = parts ! 0
                   in if ns = ''sys''
                      then dedupeSorted (sysCapabilities (if length parts > 1 then parts ! 1 else ''''))
                      else case mget nsCapabilities ns of
                          Some caps \<Rightarrow>
                            dedupeSorted (if dnsMutation parts then caps @ [CapDNS] else caps)
                        | None \<Rightarrow> [CapUnclassified])))"

section \<open>Properties\<close>

lemma dedupe_loop_spec:
  "distinct out \<Longrightarrow> distinct (dedupe_loop ss out) \<and> set (dedupe_loop ss out) = set out \<union> set ss"
  by (induction ss arbitrary: out) auto

lemma dedupeSorted_spec:
  "sorted (dedupeSorted ss) \<and> distinct (dedupeSorted ss) \<and> set (dedupeSorted ss) = set ss"
  using dedupe_loop_spec [of "[]" ss] by (auto simp: dedupeSorted_def)

lemma sysCapabilities_nonempty: "sysCapabilities fn \<noteq> []"
  by (simp add: sysCapabilities_def)

lemma sysCapabilities_no_dns: "CapDNS \<notin> set (sysCapabilities fn)"
  by (simp add: sysCapabilities_def CapDNS_def)

lemma nsCapabilities_range: "mget nsCapabilities ns = Some caps \<Longrightarrow> caps \<noteq> [] \<and> CapDNS \<notin> set caps"
  by (auto simp: nsCapabilities_def CapDNS_def split: if_splits)

lemma netDevice_range: "mget netDeviceCapabilities c = Some caps \<Longrightarrow> caps \<noteq> [] \<and> CapDNS \<notin> set caps"
  by (auto simp: netDeviceCapabilities_def CapDNS_def split: if_splits)

lemma dedupeSorted_Nil [simp]: "dedupeSorted ss = [] \<longleftrightarrow> ss = []"
  using dedupeSorted_spec [of ss] by (metis set_empty)

lemma dnsMutation_aws: "dnsMutation parts \<Longrightarrow> parts ! 0 = ''aws''"
  by (simp add: dnsMutation_def split: if_splits)

lemma aws_known: "mget nsCapabilities ''aws'' = Some [''cloud'']"
  by (simp add: nsCapabilities_def)

lemma classify_starlark:
  "ClassifyCapabilities (starlarkPrefix @ tail) =
     (if tail = '''' then [CapUnclassified]
      else let parts = split_on (CHR ''.'') tail
           in if parts ! 0 = ''sys''
              then dedupeSorted (sysCapabilities (if length parts > 1 then parts ! 1 else ''''))
              else case mget nsCapabilities (parts ! 0) of
                  Some caps \<Rightarrow> dedupeSorted (if dnsMutation parts then caps @ [CapDNS] else caps)
                | None \<Rightarrow> [CapUnclassified])"
proof -
  have "mget netDeviceCapabilities (starlarkPrefix @ tail) = None"
    by (simp add: netDeviceCapabilities_def starlarkPrefix_def)
  then show ?thesis
    unfolding ClassifyCapabilities_def by (simp add: Let_def)
qed

lemma classify_starlark_dns:
  "CapDNS \<in> set (ClassifyCapabilities (starlarkPrefix @ tail)) \<longleftrightarrow> dnsMutation (split_on (CHR ''.'') tail)"
proof -
  define parts where "parts = split_on (CHR ''.'') tail"
  have unc: "CapDNS \<noteq> CapUnclassified" by (simp add: CapDNS_def CapUnclassified_def)
  have mem: "CapDNS \<in> set (dedupeSorted ss) \<longleftrightarrow> CapDNS \<in> set ss" for ss
    using dedupeSorted_spec [of ss] by simp
  consider (empty) "tail = ''''" | (sys) "tail \<noteq> ''''" "parts ! 0 = ''sys''"
    | (ns) "tail \<noteq> ''''" "parts ! 0 \<noteq> ''sys''" by blast
  then show ?thesis
  proof cases
    case empty
    then show ?thesis using unc classify_starlark [of "''''"] by (simp add: dnsMutation_def)
  next
    case sys
    then have "\<not> dnsMutation parts" by (auto simp: dnsMutation_def)
    with sys show ?thesis
      by (simp add: classify_starlark mem sysCapabilities_no_dns flip: parts_def)
  next
    case ns
    show ?thesis
    proof (cases "mget nsCapabilities (parts ! 0)")
      case None
      then have "\<not> dnsMutation parts" using aws_known dnsMutation_aws [of parts] by auto
      with None ns unc show ?thesis by (simp add: classify_starlark flip: parts_def)
    next
      case (Some caps)
      with ns nsCapabilities_range [OF Some] show ?thesis
        by (simp add: classify_starlark mem flip: parts_def)
    qed
  qed
qed

text \<open>
  Classification is total on governed builtins: the result is sorted without duplicates, and it
  is empty exactly for a command that is neither a network device nor a \<^verbatim>\<open>starlark.\<close> path, so a
  policy that denies \<^verbatim>\<open>unclassified\<close> leaves no governed builtin without a capability.
\<close>

theorem classify_total:
  "sorted (ClassifyCapabilities c) \<and> distinct (ClassifyCapabilities c) \<and>
   (ClassifyCapabilities c = [] \<longleftrightarrow>
      c \<notin> {''/dev/tcp'', ''/dev/udp''} \<and> \<not> hasPrefix c starlarkPrefix)"
proof -
  have dev: "mget netDeviceCapabilities c = None \<longleftrightarrow> c \<notin> {''/dev/tcp'', ''/dev/udp''}"
    by (auto simp: netDeviceCapabilities_def)
  show ?thesis
  proof (cases "mget netDeviceCapabilities c")
    case (Some caps)
    then show ?thesis
      using dev netDevice_range [OF Some] dedupeSorted_spec [of caps]
      by (simp add: ClassifyCapabilities_def)
  next
    case None
    then show ?thesis
      using dev dedupeSorted_spec
      by (auto simp: ClassifyCapabilities_def Let_def sysCapabilities_nonempty
          dest: nsCapabilities_range split: option.splits)
  qed
qed

text \<open>
  The \<^verbatim>\<open>dns\<close> capability marks exactly the two builtins that change DNS records, whatever
  follows their name in the path: a policy that denies \<^verbatim>\<open>dns\<close> stops them and nothing else.
\<close>

theorem dns_exact:
  "CapDNS \<in> set (ClassifyCapabilities c) \<longleftrightarrow>
     (\<exists>tail. c = starlarkPrefix @ tail \<and> dnsMutation (split_on (CHR ''.'') tail))"
proof (cases "hasPrefix c starlarkPrefix")
  case False
  then have "CapDNS \<notin> set (ClassifyCapabilities c)"
    using netDevice_range [of c] dedupeSorted_spec
    by (auto simp: ClassifyCapabilities_def split: option.splits)
  with False show ?thesis by (auto simp: hasPrefix_iff)
next
  case True
  then obtain tail where c: "c = starlarkPrefix @ tail" by (auto simp: hasPrefix_iff)
  with classify_starlark_dns [of tail] show ?thesis by simp
qed

end
