(* ===== verification/Identity.thy ===== *)
theory Identity
  imports Prelude
begin

text \<open>
  The identity bindings of an engine (\<^verbatim>\<open>security/engine.go\<close>): \<^verbatim>\<open>BindSessionIdentity\<close> ties a session
  id to one principal, counts repeated bindings to the same principal and refuses a rebinding;
  \<^verbatim>\<open>UnbindSessionIdentity\<close> releases one of them.
\<close>

record sessionIdentity =
  id_user :: string
  id_groups :: "string list"
  id_refs :: int

type_synonym identity_table = "sessionIdentity smap"

datatype bind_err = EmptySessionID | EmptyUser | BoundToAnother string

definition BindSessionIdentity ::
  "string \<Rightarrow> string \<Rightarrow> string list \<Rightarrow> identity_table \<Rightarrow> bind_err option \<times> identity_table" where
  "BindSessionIdentity sessionID user groups t =
     (if sessionID = '''' then (Some EmptySessionID, t)
      else if user = '''' then (Some EmptyUser, t)
      else case mget t sessionID of
          Some cur \<Rightarrow>
            if id_user cur \<noteq> user \<or> id_groups cur \<noteq> groups then (Some (BoundToAnother sessionID), t)
            else (None, mput t sessionID (cur\<lparr>id_refs := id_refs cur + 1\<rparr>))
        | None \<Rightarrow> (None, mput t sessionID \<lparr>id_user = user, id_groups = groups, id_refs = 1\<rparr>))"

definition UnbindSessionIdentity :: "string \<Rightarrow> identity_table \<Rightarrow> identity_table" where
  "UnbindSessionIdentity sessionID t =
     (case mget t sessionID of
        None \<Rightarrow> t
      | Some cur \<Rightarrow>
          (let cur' = cur\<lparr>id_refs := id_refs cur - 1\<rparr>
           in if id_refs cur' \<le> 0 then mdel t sessionID else mput t sessionID cur'))"

definition boundIdentity :: "string \<Rightarrow> identity_table \<Rightarrow> (string \<times> string list) option" where
  "boundIdentity sessionID t =
     map_option (\<lambda>cur. (id_user cur, id_groups cur)) (mget t sessionID)"

datatype id_op = IdBind string "string list" | IdUnbind

fun id_step :: "id_op \<Rightarrow> string \<Rightarrow> identity_table \<Rightarrow> identity_table" where
  "id_step (IdBind user groups) sid t = snd (BindSessionIdentity sid user groups t)"
| "id_step IdUnbind sid t = UnbindSessionIdentity sid t"

section \<open>The table as seen by one session\<close>

text \<open>The specification: one session's own entry, without the table.\<close>

fun id_own :: "bool \<Rightarrow> id_op \<Rightarrow> sessionIdentity option \<Rightarrow> sessionIdentity option" where
  "id_own ok (IdBind user groups) v =
     (if \<not> ok \<or> user = '''' then v
      else case v of
          None \<Rightarrow> Some \<lparr>id_user = user, id_groups = groups, id_refs = 1\<rparr>
        | Some cur \<Rightarrow> if id_user cur \<noteq> user \<or> id_groups cur \<noteq> groups then v
                      else Some (cur\<lparr>id_refs := id_refs cur + 1\<rparr>))"
| "id_own ok IdUnbind v =
     (case v of
        None \<Rightarrow> None
      | Some cur \<Rightarrow> if id_refs cur - 1 \<le> 0 then None else Some (cur\<lparr>id_refs := id_refs cur - 1\<rparr>))"

lemma id_step_frame: "k' \<noteq> k \<Longrightarrow> mget (id_step op k t) k' = mget t k'"
  by (cases op) (auto simp: BindSessionIdentity_def UnbindSessionIdentity_def Let_def split: option.splits)

lemma id_step_own: "mget (id_step op k t) k = id_own (k \<noteq> '''') op (mget t k)"
  by (cases op) (auto simp: BindSessionIdentity_def UnbindSessionIdentity_def Let_def split: option.splits)

interpretation ident: keyed_store "\<lambda>t k. mget t k" id_step
  by unfold_locales (rule id_step_frame)

interpretation identl: keyed_local "\<lambda>t k. (k, mget t k)" id_step "\<lambda>op (k, v). (k, id_own (k \<noteq> '''') op v)"
  by unfold_locales (simp_all add: id_step_frame id_step_own)

definition wf_identities :: "identity_table \<Rightarrow> bool" where
  "wf_identities t =
     (\<forall>k cur. mget t k = Some cur \<longrightarrow> k \<noteq> '''' \<and> id_user cur \<noteq> '''' \<and> 1 \<le> id_refs cur)"

lemma id_step_wf: "wf_identities t \<Longrightarrow> wf_identities (id_step op k t)"
proof (cases op)
  case (IdBind u g)
  then show "wf_identities t \<Longrightarrow> ?thesis"
    by (force simp: BindSessionIdentity_def wf_identities_def split: option.splits if_splits)
next
  case IdUnbind
  then show "wf_identities t \<Longrightarrow> ?thesis"
    by (auto simp: UnbindSessionIdentity_def wf_identities_def Let_def split: option.splits if_splits)
qed

definition id_run :: "(string \<times> id_op) list \<Rightarrow> identity_table \<Rightarrow> identity_table" where
  "id_run ops t = fold (\<lambda>(k, op). id_step op k) ops t"

lemma id_run_wf: "wf_identities t \<Longrightarrow> wf_identities (id_run ops t)"
  unfolding id_run_def by (induction ops arbitrary: t) (auto simp: id_step_wf)

section \<open>Properties\<close>

text \<open>
  Session isolation: the identity a session authorizes as is the result of the bind and unbind
  calls made for that session alone. Two interleavings of calls for many sessions that agree on
  one session's calls leave it with the same binding.
\<close>

theorem identity_noninterference:
  assumes "mget s k = mget t k"
    and "filter (\<lambda>(k', c). k' = k) ops = filter (\<lambda>(k', c). k' = k) ops'"
  shows "boundIdentity k (id_run ops s) = boundIdentity k (id_run ops' t)"
proof -
  have "(k, mget (id_run ops s) k) = (k, mget (id_run ops' t) k)"
    unfolding id_run_def by (rule identl.noninterference [OF _ assms(2)]) (simp add: assms(1))
  then show ?thesis by (simp add: boundIdentity_def)
qed

theorem identity_noninterference_witness:
  "boundIdentity ''a'' (id_run [(''b'', IdBind ''eve'' []), (''a'', IdBind ''amy'' [''dev'']), (''b'', IdUnbind)] []) =
   boundIdentity ''a'' (id_run [(''a'', IdBind ''amy'' [''dev'']), (''c'', IdBind ''mallory'' [])] [])"
  by (rule identity_noninterference) simp_all

lemma id_run_bind_only:
  assumes "mget t k = Some cur" and "(k, IdUnbind) \<notin> set ops"
  shows "\<exists>r \<ge> id_refs cur. mget (id_run ops t) k = Some (cur\<lparr>id_refs := r\<rparr>)"
  using assms unfolding id_run_def
proof (induction ops arbitrary: t cur)
  case Nil
  then show ?case by (intro exI [of _ "id_refs cur"]) simp
next
  case (Cons x ops)
  obtain k' op where x: "x = (k', op)" by (cases x)
  have "\<exists>r \<ge> id_refs cur. mget (id_step op k' t) k = Some (cur\<lparr>id_refs := r\<rparr>)"
  proof (cases "k' = k")
    case False
    with Cons.prems(1) show ?thesis
      by (intro exI [of _ "id_refs cur"]) (simp add: id_step_frame)
  next
    case True
    with Cons.prems x obtain u g where "op = IdBind u g" by (cases op) auto
    with True Cons.prems(1) show ?thesis
      by (intro exI [of _ "if k \<noteq> '''' \<and> u \<noteq> '''' \<and> id_user cur = u \<and> id_groups cur = g then id_refs cur + 1 else id_refs cur"])
         (auto simp: BindSessionIdentity_def)
  qed
  then obtain r where r: "r \<ge> id_refs cur" "mget (id_step op k' t) k = Some (cur\<lparr>id_refs := r\<rparr>)"
    by blast
  from Cons.IH [OF r(2)] Cons.prems(2) obtain r' where
    "r' \<ge> r" "mget (fold (\<lambda>(k, op). id_step op k) ops (id_step op k' t)) k = Some (cur\<lparr>id_refs := r'\<rparr>)"
    by auto
  with r x show ?case by (intro exI [of _ r']) simp
qed

text \<open>
  A live binding is never moved: until the session's own unbind, no bind call, of any user for
  any session, changes the principal a bound session id authorizes as, and a bind to another
  principal is refused.
\<close>

theorem bind_never_moves:
  assumes "boundIdentity k t = Some (u, g)" and "(k, IdUnbind) \<notin> set ops"
  shows "boundIdentity k (id_run ops t) = Some (u, g) \<and>
         (k \<noteq> '''' \<and> u' \<noteq> '''' \<and> (u', g') \<noteq> (u, g) \<longrightarrow>
            fst (BindSessionIdentity k u' g' (id_run ops t)) = Some (BoundToAnother k))"
proof -
  obtain cur where cur: "mget t k = Some cur" "id_user cur = u" "id_groups cur = g"
    using assms(1) by (auto simp: boundIdentity_def)
  from id_run_bind_only [OF cur(1) assms(2)] obtain r where
    "mget (id_run ops t) k = Some (cur\<lparr>id_refs := r\<rparr>)" by blast
  with cur show ?thesis
    by (auto simp: boundIdentity_def BindSessionIdentity_def)
qed

theorem bind_never_moves_witness:
  "boundIdentity ''a'' (id_run [(''a'', IdBind ''eve'' []), (''b'', IdUnbind)]
      [(''a'', \<lparr>id_user = ''amy'', id_groups = [''dev''], id_refs = 1\<rparr>)]) = Some (''amy'', [''dev''])"
  by (rule bind_never_moves [THEN conjunct1]) (simp_all add: boundIdentity_def)

lemma unbind_many:
  assumes "mget t k = Some cur" and "id_refs cur = int m" and "j < m"
  shows "mget ((UnbindSessionIdentity k ^^ j) t) k = Some (cur\<lparr>id_refs := int (m - j)\<rparr>)"
  using assms(3)
proof (induction j)
  case 0
  then show ?case using assms by (cases cur) simp
next
  case (Suc j)
  then show ?case by (auto simp: UnbindSessionIdentity_def Let_def of_nat_diff)
qed

lemma bind_many:
  assumes "k \<noteq> ''''" and "u \<noteq> ''''" and "mget t k = None"
  shows "mget (((\<lambda>t. snd (BindSessionIdentity k u g t)) ^^ Suc n) t) k =
           Some \<lparr>id_user = u, id_groups = g, id_refs = int (Suc n)\<rparr>"
proof (induction n)
  case 0
  then show ?case using assms by (simp add: BindSessionIdentity_def)
next
  case (Suc n)
  then show ?case using assms by (simp add: BindSessionIdentity_def)
qed

text \<open>
  Reference counting: from an unbound id, \<open>n + 1\<close> binds to one principal need exactly \<open>n + 1\<close>
  unbinds; after fewer the principal is still bound, and after all of them the id is unknown again.
\<close>

theorem bind_refcount:
  assumes "k \<noteq> ''''" and "u \<noteq> ''''" and "mget t k = None" and "j \<le> Suc n"
  shows "boundIdentity k ((UnbindSessionIdentity k ^^ j)
            (((\<lambda>t. snd (BindSessionIdentity k u g t)) ^^ Suc n) t)) =
         (if j = Suc n then None else Some (u, g))"
proof -
  define t1 where "t1 = ((\<lambda>t. snd (BindSessionIdentity k u g t)) ^^ Suc n) t"
  note b = bind_many [OF assms(1-3), where g = g and n = n, folded t1_def]
  have "boundIdentity k ((UnbindSessionIdentity k ^^ j) t1) = (if j = Suc n then None else Some (u, g))"
  proof (cases "j = Suc n")
    case False
    then have "j < Suc n" using assms(4) by simp
    from unbind_many [OF b _ this] False show ?thesis
      by (simp add: boundIdentity_def)
  next
    case True
    from unbind_many [OF b, of "Suc n" n] have
      "mget ((UnbindSessionIdentity k ^^ n) t1) k = Some \<lparr>id_user = u, id_groups = g, id_refs = 1\<rparr>"
      by simp
    with True show ?thesis
      by (simp add: boundIdentity_def UnbindSessionIdentity_def Let_def)
  qed
  then show ?thesis unfolding t1_def .
qed

theorem bind_refcount_witness:
  "boundIdentity ''a'' ((UnbindSessionIdentity ''a'' ^^ 1)
     (((\<lambda>t. snd (BindSessionIdentity ''a'' ''amy'' [] t)) ^^ Suc 1) [])) = Some (''amy'', [])"
  using bind_refcount [of "''a''" "''amy''" "[]" 1 1 "[]"] by simp

end
