(* ===== verification/Guard_Net.thy ===== *)
theory Guard_Net
  imports Prelude "HOL-Library.Word"
begin

text \<open>
  Addresses, keys and configuration of the SSH listener jail, \<^verbatim>\<open>internal/guard/guard.go\<close>. A
  \<^verbatim>\<open>net.IP\<close> is its 128-bit value; \<^verbatim>\<open>To4\<close> is the test for the IPv4-mapped block. The textual
  functions of the packages \<^verbatim>\<open>net\<close> and \<^verbatim>\<open>time\<close> (parsing and printing of addresses, networks
  and durations) are the fields of the record \<open>golib\<close>, an argument of the definitions. A file
  the jail reads is an \<open>fs_entry\<close>: what the system calls of \<^verbatim>\<open>internal/safefile\<close> report of it,
  with its decoded content.
\<close>

unbundle bit_operations_syntax

section \<open>Opening and reading a trusted file: internal/safefile\<close>

record file_info =
  fi_regular :: bool
  fi_mode :: "32 word"
  fi_mtime :: time
  fi_size :: int

text \<open>
  \<open>FsFile info r\<close>: the descriptor's \<^verbatim>\<open>fstat\<close> is \<open>info\<close>, and reading to the end fails or yields
  \<open>n\<close> bytes that decode to a value of type \<open>'d\<close>.
\<close>

datatype 'd fs_entry = FsMissing | FsSymlink | FsErr string | FsFile file_info "string + (int \<times> 'd)"

datatype file_err = NotExist | ErrSymlink | ErrNotRegular | ErrTooLarge | OsErr string | ModeErr "32 word"

definition safe_Open :: "'d fs_entry \<Rightarrow> file_err + (file_info \<times> (string + (int \<times> 'd)))" where
  "safe_Open f =
     (case f of
        FsMissing \<Rightarrow> Inl NotExist
      | FsSymlink \<Rightarrow> Inl ErrSymlink
      | FsErr e \<Rightarrow> Inl (OsErr e)
      | FsFile info r \<Rightarrow> if \<not> fi_regular info then Inl ErrNotRegular else Inr (info, r))"

definition safe_ReadAll :: "file_info \<Rightarrow> string + (int \<times> 'd) \<Rightarrow> int \<Rightarrow> file_err + 'd" where
  "safe_ReadAll info r mx =
     (if fi_size info > mx then Inl ErrTooLarge
      else case r of
          Inl e \<Rightarrow> Inl (OsErr e)
        | Inr (n, d) \<Rightarrow> if n > mx then Inl ErrTooLarge else Inr d)"

definition readRegular ::
  "'d fs_entry \<Rightarrow> int \<Rightarrow> (32 word \<Rightarrow> bool) \<Rightarrow> file_err + ('d \<times> file_info)" where
  "readRegular f mx modeOK =
     (case safe_Open f of
        Inl e \<Rightarrow> Inl e
      | Inr (info, r) \<Rightarrow>
          if \<not> modeOK (fi_mode info) then Inl (ModeErr (fi_mode info))
          else map_sum (\<lambda>e. e) (\<lambda>d. (d, info)) (safe_ReadAll info r mx))"

text \<open>\<^verbatim>\<open>FileMode.Perm\<close>: the nine permission bits.\<close>

definition perm :: "32 word \<Rightarrow> 32 word" where
  "perm m = m AND 0x1FF"

section \<open>Addresses\<close>

type_synonym ip = "128 word"

definition to4 :: "ip \<Rightarrow> 32 word option" where
  "to4 ip = (if drop_bit 32 ip = 0xFFFF then Some (ucast ip) else None)"

record ipnet =
  net_ip :: ip
  net_ones :: nat
  net_bits :: nat

record golib =
  gl_ParseIP :: "string \<Rightarrow> ip option"
  gl_String4 :: "32 word \<Rightarrow> string"
  gl_String6 :: "ip \<Rightarrow> string"
  gl_SplitHostPort :: "string \<Rightarrow> string option"
  gl_ParseCIDR :: "string \<Rightarrow> (ip \<times> ipnet) option"
  gl_ParseDuration :: "string \<Rightarrow> duration option"

text \<open>\<^verbatim>\<open>IP.String\<close> prints the dotted form whenever \<^verbatim>\<open>To4\<close> succeeds.\<close>

definition ip_String :: "golib \<Rightarrow> ip \<Rightarrow> string" where
  "ip_String gl ip = (case to4 ip of Some v4 \<Rightarrow> gl_String4 gl v4 | None \<Rightarrow> gl_String6 gl ip)"

text \<open>\<^verbatim>\<open>IP.Mask\<close> with \<^verbatim>\<open>net.CIDRMask(prefix, 128)\<close>.\<close>

definition mask6 :: "nat \<Rightarrow> ip \<Rightarrow> ip" where
  "mask6 prefix ip = push_bit (128 - prefix) (drop_bit (128 - prefix) ip)"

text \<open>
  \<^verbatim>\<open>IPNet.Contains\<close>: both sides are reduced to four bytes when \<^verbatim>\<open>To4\<close> succeeds, a length
  mismatch is no match, and the leading bits of the mask are compared. A 128-bit mask over a
  four-byte address uses its last four bytes.
\<close>

definition net_Contains :: "ipnet \<Rightarrow> ip \<Rightarrow> bool" where
  "net_Contains n ip =
     (case (to4 (net_ip n), to4 ip) of
        (Some a, Some b) \<Rightarrow>
          (let ones = (if net_bits n = 32 then net_ones n else net_ones n - 96)
           in drop_bit (32 - ones) a = drop_bit (32 - ones) b)
      | (None, None) \<Rightarrow> drop_bit (128 - net_ones n) (net_ip n) = drop_bit (128 - net_ones n) ip
      | _ \<Rightarrow> False)"

fun digits_of :: "nat \<Rightarrow> string" where
  "digits_of n = (if n < 10 then [char_of (48 + n)] else digits_of (n div 10) @ [char_of (48 + n mod 10)])"

declare digits_of.simps [simp del]

definition canonicalIP :: "golib \<Rightarrow> ip \<Rightarrow> string" where
  "canonicalIP gl ip =
     (case to4 ip of Some v4 \<Rightarrow> gl_String4 gl v4 | None \<Rightarrow> gl_String6 gl ip)"

definition peerKey :: "golib \<Rightarrow> ip \<Rightarrow> int \<Rightarrow> string" where
  "peerKey gl ip prefix =
     (if to4 ip \<noteq> None \<or> prefix \<le> 0 \<or> prefix \<ge> 128 then canonicalIP gl ip
      else ip_String gl (mask6 (nat prefix) ip) @ ''/'' @ digits_of (nat prefix))"

definition prefixKey :: "golib \<Rightarrow> string \<Rightarrow> string option" where
  "prefixKey gl raw =
     (case gl_ParseCIDR gl raw of
        None \<Rightarrow> None
      | Some (ip, network) \<Rightarrow>
          if net_bits network \<noteq> 128 \<or> to4 ip \<noteq> None \<or> net_ones network < 32 \<or> net_ones network > 127
          then None
          else
            (let key = peerKey gl ip (int (net_ones network))
             in if key \<noteq> raw then None else Some key))"

definition stateKey :: "golib \<Rightarrow> string \<Rightarrow> string option" where
  "stateKey gl raw =
     (let addr = trimSpace raw
      in if contains_byte addr (CHR ''/'') then prefixKey gl addr
         else map_option (canonicalIP gl) (gl_ParseIP gl addr))"

definition parsePeer :: "golib \<Rightarrow> string \<Rightarrow> (string \<times> ip) option" where
  "parsePeer gl addr =
     (let host = trimSpace addr;
          host = (case gl_SplitHostPort gl host of Some h \<Rightarrow> h | None \<Rightarrow> host)
      in map_option (\<lambda>ip. (canonicalIP gl ip, ip)) (gl_ParseIP gl (trimSpace host)))"

datatype unban_target = UTKey string | UTAddr ip

definition parseUnbanAddr :: "golib \<Rightarrow> string \<Rightarrow> unban_target option" where
  "parseUnbanAddr gl addr =
     (let text = trimSpace addr
      in if contains_byte text (CHR ''/'') then map_option UTKey (prefixKey gl text)
         else map_option (\<lambda>(_, ip). UTAddr ip) (parsePeer gl text))"

section \<open>The ignore list\<close>

text \<open>The candidates are the address and, for IPv4, its mapped form; both have the same value here.\<close>

definition ipCandidates :: "ip \<Rightarrow> ip list" where
  "ipCandidates ip = (if to4 ip \<noteq> None then [ip, ip] else [ip])"

definition ignored :: "ipnet list \<Rightarrow> ip \<Rightarrow> bool" where
  "ignored nets ip = list_ex (\<lambda>n. list_ex (net_Contains n) (ipCandidates ip)) nets"

datatype cfg_err =
    IgnoreBadCIDR string
  | IgnoreMaskZero string
  | DurInvalid string
  | DurRange string duration
  | IntRange string int
  | BadTableFull string
  | ConfigEmpty
  | ConfigMultiple
  | ConfigDecode string
  | ConfigFile file_err

fun parseIgnore :: "golib \<Rightarrow> string list \<Rightarrow> cfg_err + (ipnet list \<times> string list)" where
  "parseIgnore gl [] = Inr ([], [])"
| "parseIgnore gl (raw # rest) =
     (let item = trimSpace raw
      in case gl_ParseCIDR gl item of
           None \<Rightarrow> Inl (IgnoreBadCIDR item)
         | Some (_, n) \<Rightarrow>
             if net_ones n = 0 then Inl (IgnoreMaskZero item)
             else case parseIgnore gl rest of
                 Inl e \<Rightarrow> Inl e
               | Inr (nets, text) \<Rightarrow> Inr (n # nets, item # text))"

section \<open>Configuration\<close>

record fileConfig =
  fc_Enabled :: "bool option"
  fc_FindTime :: "string option"
  fc_MaxRetry :: "int option"
  fc_BanTime :: "string option"
  fc_RateLimit :: "int option"
  fc_RateWindow :: "string option"
  fc_MaxEntries :: "int option"
  fc_TableFull :: "string option"
  fc_IPv6Prefix :: "int option"
  fc_Ignore :: "string list option"

record guard_config =
  cfg_enabled :: bool
  cfg_findTime :: duration
  cfg_maxRetry :: int
  cfg_banTime :: duration
  cfg_rateLimit :: int
  cfg_rateWindow :: duration
  cfg_maxEntries :: int
  cfg_tableFull :: string
  cfg_ipv6Prefix :: int
  cfg_ignore :: "ipnet list"
  cfg_ignoreText :: "string list"

definition tableFullEvict :: string where "tableFullEvict = ''evict''"
definition tableFullRefuse :: string where "tableFullRefuse = ''refuse''"

text \<open>
  The two default networks, \<^verbatim>\<open>127.0.0.0/8\<close> and \<^verbatim>\<open>::1/128\<close>, are constants of the source: the
  call of \<^verbatim>\<open>parseIgnore\<close> on them in \<^verbatim>\<open>defaultConfig\<close> is evaluated here.
\<close>

definition default_ignore :: "ipnet list" where
  "default_ignore =
     [\<lparr>net_ip = 0xFFFF7F000000, net_ones = 8, net_bits = 32\<rparr>,
      \<lparr>net_ip = 1, net_ones = 128, net_bits = 128\<rparr>]"

definition defaultConfig :: guard_config where
  "defaultConfig =
     \<lparr>cfg_enabled = True, cfg_findTime = 10 * minute, cfg_maxRetry = 5, cfg_banTime = hour,
      cfg_rateLimit = 30, cfg_rateWindow = minute, cfg_maxEntries = 10000,
      cfg_tableFull = tableFullEvict, cfg_ipv6Prefix = 64, cfg_ignore = default_ignore,
      cfg_ignoreText = [''127.0.0.0/8'', ''::1/128'']\<rparr>"

definition parseDur ::
  "golib \<Rightarrow> string \<Rightarrow> string option \<Rightarrow> duration \<Rightarrow> duration \<Rightarrow> duration \<Rightarrow> cfg_err + duration" where
  "parseDur gl name raw def lo hi =
     (case raw of
        None \<Rightarrow> Inr def
      | Some r \<Rightarrow>
          (case gl_ParseDuration gl (trimSpace r) of
             None \<Rightarrow> Inl (DurInvalid name)
           | Some d \<Rightarrow> if d < lo \<or> d > hi then Inl (DurRange name d) else Inr d))"

definition int_in :: "string \<Rightarrow> int option \<Rightarrow> int \<Rightarrow> int \<Rightarrow> int \<Rightarrow> cfg_err + int" where
  "int_in name raw def lo hi =
     (case raw of
        None \<Rightarrow> Inr def
      | Some n \<Rightarrow> if n < lo \<or> n > hi then Inl (IntRange name n) else Inr n)"

definition table_mode :: "string option \<Rightarrow> string \<Rightarrow> cfg_err + string" where
  "table_mode raw def =
     (case raw of
        None \<Rightarrow> Inr def
      | Some r \<Rightarrow>
          (let mode = trimSpace r
           in if mode = tableFullEvict \<or> mode = tableFullRefuse then Inr mode
              else Inl (BadTableFull mode)))"

definition bindE :: "'e + 'a \<Rightarrow> ('a \<Rightarrow> 'e + 'b) \<Rightarrow> 'e + 'b" where
  "bindE m f = (case m of Inl e \<Rightarrow> Inl e | Inr x \<Rightarrow> f x)"

definition buildConfig :: "golib \<Rightarrow> fileConfig \<Rightarrow> bool \<Rightarrow> cfg_err + guard_config" where
  "buildConfig gl fc ignoreEmpty =
     (let cfg = defaultConfig;
          cfg = (case fc_Enabled fc of None \<Rightarrow> cfg | Some b \<Rightarrow> cfg\<lparr>cfg_enabled := b\<rparr>)
      in bindE (parseDur gl ''find_time'' (fc_FindTime fc) (cfg_findTime cfg) second (24 * hour)) (\<lambda>d.
         let cfg = cfg\<lparr>cfg_findTime := d\<rparr>
         in bindE (parseDur gl ''ban_time'' (fc_BanTime fc) (cfg_banTime cfg) second (8760 * hour)) (\<lambda>d.
         let cfg = cfg\<lparr>cfg_banTime := d\<rparr>
         in bindE (parseDur gl ''rate_window'' (fc_RateWindow fc) (cfg_rateWindow cfg) second hour) (\<lambda>d.
         let cfg = cfg\<lparr>cfg_rateWindow := d\<rparr>
         in bindE (int_in ''max_retry'' (fc_MaxRetry fc) (cfg_maxRetry cfg) 1 100) (\<lambda>n.
         let cfg = cfg\<lparr>cfg_maxRetry := n\<rparr>
         in bindE (int_in ''rate_limit'' (fc_RateLimit fc) (cfg_rateLimit cfg) 1 10000) (\<lambda>n.
         let cfg = cfg\<lparr>cfg_rateLimit := n\<rparr>
         in bindE (int_in ''max_entries'' (fc_MaxEntries fc) (cfg_maxEntries cfg) 1 100000) (\<lambda>n.
         let cfg = cfg\<lparr>cfg_maxEntries := n\<rparr>
         in bindE (table_mode (fc_TableFull fc) (cfg_tableFull cfg)) (\<lambda>m.
         let cfg = cfg\<lparr>cfg_tableFull := m\<rparr>
         in bindE (int_in ''ipv6_prefix'' (fc_IPv6Prefix fc) (cfg_ipv6Prefix cfg) 32 128) (\<lambda>n.
         let cfg = cfg\<lparr>cfg_ipv6Prefix := n\<rparr>
         in if ignoreEmpty then Inr (cfg\<lparr>cfg_ignore := [], cfg_ignoreText := []\<rparr>)
            else case fc_Ignore fc of
                None \<Rightarrow> Inr cfg
              | Some l \<Rightarrow> bindE (parseIgnore gl l) (\<lambda>(nets, text).
                  Inr (cfg\<lparr>cfg_ignore := nets, cfg_ignoreText := text\<rparr>)))))))))))"

text \<open>
  The YAML tree of the document, as \<^verbatim>\<open>yaml.Node\<close>: its kind, tag, scalar value and children. A
  mapping lists keys and values alternately.
\<close>

datatype yaml_kind = DocumentNode | SequenceNode | MappingNode | ScalarNode | AliasNode

datatype yaml_node = YNode (yn_Kind: yaml_kind) (yn_Tag: string) (yn_Value: string) (yn_Content: "yaml_node list")

fun ignore_scan :: "yaml_node list \<Rightarrow> bool" where
  "ignore_scan (k # v # rest) =
     (if yn_Value k \<noteq> ''ignore'' then ignore_scan rest
      else if yn_Kind v = SequenceNode \<and> yn_Content v = [] then True
      else if yn_Tag v = ''!!null'' \<or> (yn_Kind v = ScalarNode \<and> yn_Value v \<in> {'''', ''~'', ''null''}) then True
      else False)"
| "ignore_scan _ = False"

definition ignoreExplicitEmpty :: "string + yaml_node \<Rightarrow> string + bool" where
  "ignoreExplicitEmpty data =
     (case data of
        Inl e \<Rightarrow> Inl e
      | Inr node \<Rightarrow>
          (let doc = (case yn_Content node of
                        [d] \<Rightarrow> if yn_Kind node = DocumentNode then d else node
                      | _ \<Rightarrow> node)
           in if yn_Kind doc \<noteq> MappingNode then Inr False else Inr (ignore_scan (yn_Content doc))))"

text \<open>
  The content of the YAML config as the decoder reports it. \<open>CfgDoc fc rest tree\<close> is one decoded
  document, with what the second \<^verbatim>\<open>Decode\<close> returns and the tree of the third.
\<close>

datatype doc_rest = RestEOF | RestMore | RestErr string

datatype config_doc =
    CfgBlank
  | CfgBadYAML string
  | CfgDoc fileConfig doc_rest "string + yaml_node"

definition parseConfigDocument :: "golib \<Rightarrow> config_doc \<Rightarrow> cfg_err + guard_config" where
  "parseConfigDocument gl f =
     (case f of
        CfgBlank \<Rightarrow> Inl ConfigEmpty
      | CfgBadYAML m \<Rightarrow> Inl (ConfigDecode m)
      | CfgDoc fc rest tree \<Rightarrow>
          (case rest of
             RestEOF \<Rightarrow>
               (case ignoreExplicitEmpty tree of
                  Inl m \<Rightarrow> Inl (ConfigDecode m)
                | Inr explicitEmpty \<Rightarrow> buildConfig gl fc explicitEmpty)
           | RestMore \<Rightarrow> Inl ConfigMultiple
           | RestErr m \<Rightarrow> Inl (ConfigDecode m)))"

definition maxConfigBytes :: int where "maxConfigBytes = 64 * 1024"

definition loadConfig :: "golib \<Rightarrow> string \<Rightarrow> config_doc fs_entry \<Rightarrow> cfg_err + guard_config" where
  "loadConfig gl path f =
     (if path = '''' then Inr defaultConfig
      else case readRegular f maxConfigBytes (\<lambda>m. perm m AND 0x12 = 0) of
          Inl NotExist \<Rightarrow> Inr defaultConfig
        | Inl e \<Rightarrow> Inl (ConfigFile e)
        | Inr (data, _) \<Rightarrow> parseConfigDocument gl data)"

definition ParseSwitch :: "string \<Rightarrow> (bool \<times> bool) option" where
  "ParseSwitch raw =
     (let v = toLower (trimSpace raw)
      in if v = '''' then Some (False, False)
         else if v \<in> {''0'', ''false'', ''no'', ''off''} then Some (True, False)
         else if v \<in> {''1'', ''true'', ''yes'', ''on''} then Some (False, True)
         else None)"

section \<open>Validity of a configuration\<close>

definition wf_config :: "guard_config \<Rightarrow> bool" where
  "wf_config c =
     (second \<le> cfg_findTime c \<and> cfg_findTime c \<le> 24 * hour \<and>
      second \<le> cfg_banTime c \<and> cfg_banTime c \<le> 8760 * hour \<and>
      second \<le> cfg_rateWindow c \<and> cfg_rateWindow c \<le> hour \<and>
      1 \<le> cfg_maxRetry c \<and> cfg_maxRetry c \<le> 100 \<and>
      1 \<le> cfg_rateLimit c \<and> cfg_rateLimit c \<le> 10000 \<and>
      1 \<le> cfg_maxEntries c \<and> cfg_maxEntries c \<le> 100000 \<and>
      cfg_tableFull c \<in> {tableFullEvict, tableFullRefuse} \<and>
      32 \<le> cfg_ipv6Prefix c \<and> cfg_ipv6Prefix c \<le> 128 \<and>
      list_all (\<lambda>n. 0 < net_ones n) (cfg_ignore c))"

text \<open>\<open>okE P m\<close>: whatever \<open>m\<close> returns without an error satisfies \<open>P\<close>.\<close>

definition okE :: "('a \<Rightarrow> bool) \<Rightarrow> 'e + 'a \<Rightarrow> bool" where
  "okE P m = (case m of Inl _ \<Rightarrow> True | Inr x \<Rightarrow> P x)"

lemma okE_simps [simp]: "okE P (Inl e)" "okE P (Inr x) = P x"
  by (simp_all add: okE_def)

lemma okE_bind: "okE Q m \<Longrightarrow> (\<And>x. Q x \<Longrightarrow> okE P (f x)) \<Longrightarrow> okE P (bindE m f)"
  by (cases m) (auto simp: bindE_def)

lemma okE_D: "okE P m \<Longrightarrow> m = Inr x \<Longrightarrow> P x"
  by simp

lemma parseDur_ok:
  "lo \<le> def \<Longrightarrow> def \<le> hi \<Longrightarrow> okE (\<lambda>d. lo \<le> d \<and> d \<le> hi) (parseDur gl n raw def lo hi)"
  by (auto simp: parseDur_def split: option.splits)

lemma int_in_ok:
  "lo \<le> def \<Longrightarrow> def \<le> hi \<Longrightarrow> okE (\<lambda>d. lo \<le> d \<and> d \<le> hi) (int_in n raw def lo hi)"
  by (auto simp: int_in_def split: option.splits)

lemma table_mode_ok:
  "def \<in> {tableFullEvict, tableFullRefuse} \<Longrightarrow>
   okE (\<lambda>m. m \<in> {tableFullEvict, tableFullRefuse}) (table_mode raw def)"
  by (auto simp: table_mode_def Let_def split: option.splits)

lemma parseIgnore_ok: "okE (\<lambda>(nets, tx). list_all (\<lambda>n. 0 < net_ones n) nets) (parseIgnore gl l)"
  by (induction gl l rule: parseIgnore.induct)
     (auto simp: Let_def okE_def split: option.splits if_splits sum.splits)

lemma defaultConfig_wf: "wf_config defaultConfig"
  by (simp add: wf_config_def defaultConfig_def duration_defs default_ignore_def)

lemma wf_config_update:
  assumes "wf_config c"
  shows "wf_config (c\<lparr>cfg_enabled := b\<rparr>)"
    "second \<le> d \<and> d \<le> 24 * hour \<Longrightarrow> wf_config (c\<lparr>cfg_findTime := d\<rparr>)"
    "second \<le> d \<and> d \<le> 8760 * hour \<Longrightarrow> wf_config (c\<lparr>cfg_banTime := d\<rparr>)"
    "second \<le> d \<and> d \<le> hour \<Longrightarrow> wf_config (c\<lparr>cfg_rateWindow := d\<rparr>)"
    "1 \<le> n \<and> n \<le> 100 \<Longrightarrow> wf_config (c\<lparr>cfg_maxRetry := n\<rparr>)"
    "1 \<le> n \<and> n \<le> 10000 \<Longrightarrow> wf_config (c\<lparr>cfg_rateLimit := n\<rparr>)"
    "1 \<le> n \<and> n \<le> 100000 \<Longrightarrow> wf_config (c\<lparr>cfg_maxEntries := n\<rparr>)"
    "m \<in> {tableFullEvict, tableFullRefuse} \<Longrightarrow> wf_config (c\<lparr>cfg_tableFull := m\<rparr>)"
    "32 \<le> n \<and> n \<le> 128 \<Longrightarrow> wf_config (c\<lparr>cfg_ipv6Prefix := n\<rparr>)"
    "list_all (\<lambda>n. 0 < net_ones n) nets \<Longrightarrow> wf_config (c\<lparr>cfg_ignore := nets, cfg_ignoreText := tx\<rparr>)"
  using assms by (simp_all add: wf_config_def)

lemma wf_config_bounds:
  assumes "wf_config c"
  shows "second \<le> cfg_findTime c" "cfg_findTime c \<le> 24 * hour"
    "second \<le> cfg_banTime c" "cfg_banTime c \<le> 8760 * hour"
    "second \<le> cfg_rateWindow c" "cfg_rateWindow c \<le> hour"
    "1 \<le> cfg_maxRetry c" "cfg_maxRetry c \<le> 100"
    "1 \<le> cfg_rateLimit c" "cfg_rateLimit c \<le> 10000"
    "1 \<le> cfg_maxEntries c" "cfg_maxEntries c \<le> 100000"
    "cfg_tableFull c \<in> {tableFullEvict, tableFullRefuse}"
    "32 \<le> cfg_ipv6Prefix c" "cfg_ipv6Prefix c \<le> 128"
    "list_all (\<lambda>n. 0 < net_ones n) (cfg_ignore c)"
  using assms by (simp_all add: wf_config_def)

text \<open>One step per field: the value is in range, and storing it keeps the configuration valid.\<close>

lemma buildConfig_ok: "okE wf_config (buildConfig gl fc b)"
proof -
  let ?c0 = "case fc_Enabled fc of None \<Rightarrow> defaultConfig | Some b \<Rightarrow> defaultConfig\<lparr>cfg_enabled := b\<rparr>"
  have c0: "wf_config ?c0"
    by (simp add: defaultConfig_wf wf_config_update(1) split: option.split)
  note step = okE_bind [OF parseDur_ok] okE_bind [OF int_in_ok] okE_bind [OF table_mode_ok]
  show ?thesis
    unfolding buildConfig_def Let_def
    apply (rule step(1), (rule wf_config_bounds c0)+, drule wf_config_update(2) [OF c0])
    apply (rule step(1), (rule wf_config_bounds, assumption)+, drule (1) wf_config_update(3))
    apply (rule step(1), (rule wf_config_bounds, assumption)+, drule (1) wf_config_update(4))
    apply (rule step(2), (rule wf_config_bounds, assumption)+, drule (1) wf_config_update(5))
    apply (rule step(2), (rule wf_config_bounds, assumption)+, drule (1) wf_config_update(6))
    apply (rule step(2), (rule wf_config_bounds, assumption)+, drule (1) wf_config_update(7))
    apply (rule step(3), (rule wf_config_bounds, assumption)+, drule (1) wf_config_update(8))
    apply (rule step(2), (rule wf_config_bounds, assumption)+, drule (1) wf_config_update(9))
    apply (auto simp: wf_config_update(10) intro!: okE_bind [OF parseIgnore_ok] split: option.split)
    done
qed

lemma loadConfig_wf: "loadConfig gl path f = Inr cfg \<Longrightarrow> wf_config cfg"
  by (auto simp: loadConfig_def parseConfigDocument_def defaultConfig_wf
      dest: okE_D [OF buildConfig_ok]
      split: if_splits config_doc.splits doc_rest.splits sum.splits file_err.splits prod.splits)

section \<open>Properties\<close>

text \<open>
  C36. Every configuration the jail can run with is within its documented limits: whatever the file
  says, loading it either fails or yields durations, counters, table mode, IPv6 prefix and ignore
  masks inside their ranges. The limits are what the bounds on the tables and on the ban horizon
  rest on.
\<close>

theorem loadConfig_in_range:
  assumes "loadConfig gl path f = Inr cfg"
  shows "wf_config cfg"
  using assms
  by (auto simp: loadConfig_def parseConfigDocument_def defaultConfig_wf
      dest: okE_D [OF buildConfig_ok]
      split: if_splits config_doc.splits doc_rest.splits sum.splits file_err.splits prod.splits)

definition demo_file_config :: fileConfig where
  "demo_file_config =
     \<lparr>fc_Enabled = Some True, fc_FindTime = None, fc_MaxRetry = Some 3, fc_BanTime = None,
      fc_RateLimit = None, fc_RateWindow = None, fc_MaxEntries = Some 2, fc_TableFull = Some ''refuse'',
      fc_IPv6Prefix = Some 56, fc_Ignore = None\<rparr>"

definition demo_config_file :: "config_doc fs_entry" where
  "demo_config_file =
     FsFile \<lparr>fi_regular = True, fi_mode = 0x180, fi_mtime = 7, fi_size = 60\<rparr>
       (Inr (60, CfgDoc demo_file_config RestEOF (Inr (YNode DocumentNode [] [] [YNode MappingNode [] [] []]))))"

text \<open>A concrete instance of the textual functions, used by the examples: addresses as bit strings.\<close>

definition bits_show :: "nat \<Rightarrow> 'a::len word \<Rightarrow> string" where
  "bits_show n w = map (\<lambda>i. if bit w i then CHR ''1'' else CHR ''0'') [0..<n]"

definition bits_parse :: "string \<Rightarrow> ip option" where
  "bits_parse s =
     (case s of
        t # r \<Rightarrow>
          if t = CHR ''4'' \<and> length r = 32 \<and> set r \<subseteq> {CHR ''0'', CHR ''1''}
          then Some (push_bit 32 0xFFFF + horner_sum of_bool 2 (map (\<lambda>c. c = CHR ''1'') r))
          else if t = CHR ''6'' \<and> length r = 128 \<and> set r \<subseteq> {CHR ''0'', CHR ''1''}
          then Some (horner_sum of_bool 2 (map (\<lambda>c. c = CHR ''1'') r))
          else None
      | [] \<Rightarrow> None)"

definition bits_lib :: golib where
  "bits_lib =
     \<lparr>gl_ParseIP = bits_parse, gl_String4 = (\<lambda>v. CHR ''4'' # bits_show 32 v),
      gl_String6 = (\<lambda>v. CHR ''6'' # bits_show 128 v),
      gl_SplitHostPort = (\<lambda>s. map_option fst (str_cut s (CHR '':''))),
      gl_ParseCIDR = (\<lambda>s. None), gl_ParseDuration = (\<lambda>s. None)\<rparr>"

theorem loadConfig_in_range_witness:
  "\<exists>cfg. loadConfig bits_lib ''guard.yaml'' demo_config_file = Inr cfg \<and>
     cfg_maxEntries cfg = 2 \<and> wf_config cfg"
proof -
  have "\<exists>cfg. loadConfig bits_lib ''guard.yaml'' demo_config_file = Inr cfg \<and> cfg_maxEntries cfg = 2"
    by (simp add: loadConfig_def demo_config_file_def readRegular_def safe_Open_def safe_ReadAll_def
        perm_def maxConfigBytes_def ignoreExplicitEmpty_def parseConfigDocument_def buildConfig_def demo_file_config_def
        parseDur_def int_in_def table_mode_def bindE_def defaultConfig_def tableFullEvict_def
        tableFullRefuse_def trimSpace_def trim_left.simps wide_spaces_def ascii_space_def hasPrefix_def)
  then show ?thesis using loadConfig_in_range by blast
qed

text \<open>
  What the documentation of \<^verbatim>\<open>IP.String\<close> promises of the printed forms: each address has its own
  text, an IPv4 text is never an IPv6 text, and no text holds a slash.
\<close>

definition ip_text_laws :: "golib \<Rightarrow> bool" where
  "ip_text_laws gl \<longleftrightarrow>
     inj (gl_String4 gl) \<and> inj (gl_String6 gl) \<and> range (gl_String4 gl) \<inter> range (gl_String6 gl) = {} \<and>
     (\<forall>v. CHR ''/'' \<notin> set (gl_String4 gl v)) \<and> (\<forall>v. CHR ''/'' \<notin> set (gl_String6 gl v))"

definition same_peer :: "int \<Rightarrow> ip \<Rightarrow> ip \<Rightarrow> bool" where
  "same_peer p a b =
     (case (to4 a, to4 b) of
        (Some x, Some y) \<Rightarrow> x = y
      | (None, None) \<Rightarrow> drop_bit (128 - nat p) a = drop_bit (128 - nat p) b
      | _ \<Rightarrow> False)"

lemma bit_mask6: "bit (mask6 p a) n \<longleftrightarrow> n < 128 \<and> 128 - p \<le> n \<and> bit a n"
  by (auto simp: mask6_def bit_simps)

lemma mask6_eq_iff:
  "mask6 p a = mask6 p b \<longleftrightarrow> drop_bit (128 - p) a = drop_bit (128 - p) b"
proof
  assume "mask6 p a = mask6 p b"
  then have "bit a (128 - p + n) = bit b (128 - p + n)" if "128 - p + n < 128" for n
    using bit_mask6 [of p a "128 - p + n"] bit_mask6 [of p b "128 - p + n"] that by simp
  then show "drop_bit (128 - p) a = drop_bit (128 - p) b"
    by (intro bit_word_eqI) (fastforce simp: bit_drop_bit_eq dest: bit_imp_le_length)
qed (simp add: mask6_def)

lemma to4_None_iff: "to4 a = None \<longleftrightarrow> drop_bit 32 a \<noteq> 0xFFFF"
  by (simp add: to4_def)

lemma FFFF_mask: "(0xFFFF :: ip) = mask 16"
  by (simp add: mask_eq_exp_minus_1)

lemma bit_FFFF: "bit (0xFFFF :: ip) n \<longleftrightarrow> n < 16"
  unfolding FFFF_mask by (auto simp: bit_mask_iff)

lemma to4_mask6:
  assumes "to4 a = None" shows "to4 (mask6 p a) = None"
proof (rule ccontr)
  assume "to4 (mask6 p a) \<noteq> None"
  then have m: "drop_bit 32 (mask6 p a) = 0xFFFF" by (simp add: to4_None_iff)
  have eq: "bit (mask6 p a) (32 + n) = (n < 16)" for n
    using arg_cong [OF m, of "\<lambda>w. bit w n"] unfolding bit_FFFF by (simp add: bit_drop_bit_eq)
  from eq [of 0] have p: "128 - p \<le> 32" by (simp add: bit_mask6)
  have "bit (drop_bit 32 a) n = bit (0xFFFF :: ip) n" if "n < 128" for n
    using eq [of n] p unfolding bit_FFFF by (auto simp: bit_mask6 bit_drop_bit_eq dest: bit_imp_le_length)
  then have "drop_bit 32 a = 0xFFFF" by (intro bit_word_eqI) simp
  with assms show False by (simp add: to4_None_iff)
qed

lemma to4_inject: "to4 a = Some x \<Longrightarrow> to4 b = Some x \<Longrightarrow> a = b"
proof -
  assume *: "to4 a = Some x" "to4 b = Some x"
  then have hi: "drop_bit 32 a = drop_bit 32 b" and lo: "(ucast a :: 32 word) = ucast b"
    by (auto simp: to4_def split: if_splits)
  have "bit a n = bit b n" if "n < 128" for n
  proof (cases "n < 32")
    case True then show ?thesis using arg_cong [OF lo, of "\<lambda>w. bit w n"] by (simp add: bit_simps)
  next
    case False then show ?thesis
      using arg_cong [OF hi, of "\<lambda>w. bit w (n - 32)"] by (simp add: bit_simps)
  qed
  then show "a = b" by (intro bit_word_eqI) simp
qed

lemma bits_show_inj: "inj (bits_show (LENGTH('a)) :: 'a::len word \<Rightarrow> string)"
proof (rule injI)
  fix a b :: "'a word" assume "bits_show (LENGTH('a)) a = bits_show (LENGTH('a)) b"
  then have "\<forall>i\<in>{0..<LENGTH('a)}. bit a i = bit b i"
    by (auto simp: bits_show_def split: if_splits)
  then show "a = b" by (intro bit_word_eqI) simp
qed

lemma bits_lib_laws: "ip_text_laws bits_lib"
  using bits_show_inj [where ?'a = 32] bits_show_inj [where ?'a = 128]
  by (auto simp: ip_text_laws_def bits_lib_def inj_def bits_show_def)

text \<open>
  The jail counts peers by the key of their network: two addresses share a key exactly when
  both are IPv4 and equal, or both are IPv6 and agree on the first \<open>ipv6_prefix\<close> bits. So an attacker
  who owns an IPv6 network cannot spread strikes over its addresses, and nobody else is counted with
  them.
\<close>

theorem peerKey_groups:
  assumes "ip_text_laws gl" and "0 < p" and "p \<le> 128"
  shows "peerKey gl a p = peerKey gl b p \<longleftrightarrow> same_peer p a b"
proof -
  have slash: "CHR ''/'' \<notin> set (gl_String4 gl v)" "CHR ''/'' \<notin> set (gl_String6 gl w)" for v w
    using assms(1) by (auto simp: ip_text_laws_def)
  have inj: "gl_String4 gl v = gl_String4 gl v' \<longleftrightarrow> v = v'" "gl_String6 gl w = gl_String6 gl w' \<longleftrightarrow> w = w'"
      "gl_String4 gl v \<noteq> gl_String6 gl w" for v v' w w'
    using assms(1) by (fastforce simp: ip_text_laws_def inj_def)+
  have net: "gl_String4 gl v \<noteq> s @ ''/'' @ t" "s @ ''/'' @ t \<noteq> gl_String4 gl v" for v s t
    using slash(1) [of v] by (metis append_Cons append_Nil in_set_conv_decomp)+
  show ?thesis
  proof (cases "p = 128")
    case True
    then show ?thesis
      by (auto simp: peerKey_def canonicalIP_def same_peer_def inj inj(3) [symmetric] split: option.splits)
  next
    case False
    then show ?thesis using assms(2,3)
      by (auto simp: peerKey_def canonicalIP_def ip_String_def to4_mask6 same_peer_def mask6_eq_iff inj
          net [simplified] split: option.splits)
  qed
qed

theorem peerKey_groups_witness:
  "peerKey bits_lib 0x20010db8000000000000000000000001 64 = peerKey bits_lib 0x20010db800000000000000000000beef 64 \<and>
   peerKey bits_lib 0x20010db8000000000000000000000001 64 \<noteq> peerKey bits_lib 0x20010db8000000010000000000000001 64"
  using peerKey_groups [OF bits_lib_laws, of 64] by (simp add: same_peer_def to4_def)

end
