(* ===== verification/Guard.thy ===== *)
theory Guard
  imports Guard_Net "HOL-Library.Product_Lexorder"
begin

text \<open>
  The SSH listener jail of \<^verbatim>\<open>internal/guard/guard.go\<close>: the ban table, the peer table with its two
  sliding windows, the ban file, and the exported operations. The record \<open>guard_io\<close> holds what one
  operation observes of the outside: the clock at each of its readings, what \<^verbatim>\<open>os.Lstat\<close> and the
  open of the state file report, the config file, the outcome of the write, and the order in which Go
  iterates over a map. Each operation is a function of the jail and of these observations.
\<close>

section \<open>State\<close>

record banRec =
  br_until :: time
  br_reason :: string

record peerState =
  ps_strikes :: "time list"
  ps_rates :: "time list"

record stateMeta =
  sm_saw :: bool
  sm_mtime :: time
  sm_size :: int

datatype guard_err =
    BadSwitch string
  | StatePathEmpty
  | CfgErr cfg_err
  | FileErr file_err
  | StateErr string
  | IOErr string
  | StateGone
  | Unavailable guard_err
  | NotBanned
  | BadPeer
  | Inactive
  | ForcedOff
  | NotConfigured

record service =
  sv_configured :: bool
  sv_cfg :: guard_config
  sv_configPath :: string
  sv_statePath :: string
  sv_forceOff :: bool
  sv_forceOn :: bool
  sv_tripped :: "guard_err option"
  sv_sawState :: bool
  sv_stateMtime :: time
  sv_stateSize :: int
  sv_bans :: "banRec smap"
  sv_peers :: "peerState smap"
  sv_peerSweep :: time

record stateBan =
  sb_Addr :: string
  sb_Until :: time
  sb_Reason :: string

record stateFile =
  sf_V :: int
  sf_Bans :: "stateBan list"

text \<open>The state file as the JSON decoder reports it: an error, or a document and what follows it.\<close>

datatype state_doc = StBadJSON string | StDoc stateFile doc_rest

datatype lstat_result = LsMissing | LsErr string | LsInfo time int

text \<open>
  The outcome of writing the temporary file and renaming it: an error before the rename, or the
  rename done and the result of the \<^verbatim>\<open>Lstat\<close> after it.
\<close>

datatype write_result = WFail string | WRenamed "string + (time \<times> int)"

record guard_io =
  io_load_now :: time
  io_now :: time
  io_save_now :: time
  io_lstat :: lstat_result
  io_state :: "state_doc fs_entry"
  io_config :: "config_doc fs_entry"
  io_write :: write_result
  io_range :: "string list \<Rightarrow> string list"
  io_recorder :: bool

record decision =
  d_Allow :: bool
  d_Reason :: string
  d_Addr :: string

record event =
  ev_Action :: string
  ev_Addr :: string
  ev_Reason :: string

definition peersPerBan :: int where "peersPerBan = 4"
definition minPeerCap :: int where "minPeerCap = 1024"
definition maxStateBytes :: int where "maxStateBytes = 2 ^ 20"
definition stateVersion :: int where "stateVersion = 1"
definition maxBanHorizon :: duration where "maxBanHorizon = 366 * 24 * hour"

section \<open>Reading the ban file\<close>

fun state_loop ::
  "golib \<Rightarrow> time \<Rightarrow> stateBan list \<Rightarrow> banRec smap \<Rightarrow> guard_err + banRec smap" where
  "state_loop gl t [] out = Inr out"
| "state_loop gl t (b # rest) out =
     (case stateKey gl (sb_Addr b) of
        None \<Rightarrow> Inl (StateErr ''addr'')
      | Some key \<Rightarrow>
          if mget out key \<noteq> None then Inl (StateErr ''duplicate addr'')
          else if sb_Reason b \<noteq> ''handshake'' \<and> sb_Reason b \<noteq> ''rate'' then Inl (StateErr ''reason'')
          else if sb_Until b = zero_time then Inl (StateErr ''until is zero'')
          else if sb_Until b > t + maxBanHorizon then Inl (StateErr ''until is too far ahead'')
          else if \<not> sb_Until b > t then state_loop gl t rest out
          else state_loop gl t rest (mput out key \<lparr>br_until = sb_Until b, br_reason = sb_Reason b\<rparr>))"

definition parseState :: "golib \<Rightarrow> time \<Rightarrow> state_doc \<Rightarrow> guard_err + banRec smap" where
  "parseState gl t data =
     (case data of
        StBadJSON e \<Rightarrow> Inl (StateErr e)
      | StDoc doc rest \<Rightarrow>
          (case rest of
             RestMore \<Rightarrow> Inl (StateErr ''trailing data'')
           | RestErr e \<Rightarrow> Inl (StateErr e)
           | RestEOF \<Rightarrow>
               if sf_V doc \<noteq> stateVersion then Inl (StateErr ''version'')
               else state_loop gl t (sf_Bans doc) []))"

definition loadState :: "golib \<Rightarrow> guard_io \<Rightarrow> guard_err + (banRec smap \<times> stateMeta)" where
  "loadState gl io =
     (case readRegular (io_state io) maxStateBytes (\<lambda>m. perm m = 0x180) of
        Inl e \<Rightarrow> Inl (FileErr e)
      | Inr (data, info) \<Rightarrow>
          (case parseState gl (io_load_now io) data of
             Inl e \<Rightarrow> Inl e
           | Inr bans \<Rightarrow> Inr (bans, \<lparr>sm_saw = True, sm_mtime = fi_mtime info, sm_size = fi_size info\<rparr>)))"

definition loadOptionalState :: "golib \<Rightarrow> guard_io \<Rightarrow> guard_err + (banRec smap \<times> stateMeta)" where
  "loadOptionalState gl io =
     (case loadState gl io of
        Inl (FileErr NotExist) \<Rightarrow> Inr ([], \<lparr>sm_saw = False, sm_mtime = zero_time, sm_size = - 1\<rparr>)
      | r \<Rightarrow> r)"

definition CheckState :: "golib \<Rightarrow> guard_io \<Rightarrow> string \<Rightarrow> guard_err option" where
  "CheckState gl io path =
     (if path = '''' then Some StatePathEmpty
      else case loadState gl io of Inl e \<Rightarrow> Some e | Inr _ \<Rightarrow> None)"

definition CheckConfig :: "golib \<Rightarrow> guard_io \<Rightarrow> string \<Rightarrow> guard_err option" where
  "CheckConfig gl io path =
     (case loadConfig gl path (io_config io) of Inl e \<Rightarrow> Some (CfgErr e) | Inr _ \<Rightarrow> None)"

definition ValidateSwitch :: "string \<Rightarrow> guard_err option" where
  "ValidateSwitch raw = (case ParseSwitch raw of None \<Rightarrow> Some (BadSwitch raw) | Some _ \<Rightarrow> None)"

section \<open>Windows and peers\<close>

definition appendWindow :: "time list \<Rightarrow> time \<Rightarrow> duration \<Rightarrow> int \<Rightarrow> time list" where
  "appendWindow samples t window capN =
     (let cutoff = t - window;
          kept = filter (\<lambda>ts. ts > cutoff) samples @ [t]
      in if capN > 0 \<and> int (length kept) > capN then drop (length kept - nat capN) kept else kept)"

definition peerIdle :: "service \<Rightarrow> peerState \<Rightarrow> time \<Rightarrow> bool" where
  "peerIdle s p t =
     (if ps_strikes p \<noteq> [] \<and> last (ps_strikes p) > t - cfg_findTime (sv_cfg s) then False
      else if ps_rates p \<noteq> [] \<and> last (ps_rates p) > t - cfg_rateWindow (sv_cfg s) then False
      else True)"

definition peerCapLocked :: "service \<Rightarrow> int" where
  "peerCapLocked s =
     (let limit = cfg_maxEntries (sv_cfg s) * peersPerBan
      in if limit < minPeerCap then minPeerCap else limit)"

text \<open>\<open>range\<close> over a map, in the order the run chooses.\<close>

definition range_map :: "guard_io \<Rightarrow> 'v smap \<Rightarrow> (string \<times> 'v) list" where
  "range_map io m = List.map_filter (\<lambda>k. map_option (Pair k) (mget m k)) (io_range io (map fst m))"

fun victim_loop :: "(peerState \<Rightarrow> bool) \<Rightarrow> (string \<times> peerState) list \<Rightarrow> string \<Rightarrow> nat \<Rightarrow> string" where
  "victim_loop idle [] victim scanned = victim"
| "victim_loop idle ((k, other) # rest) victim scanned =
     (let victim = (if victim = '''' then k else victim)
      in if idle other then k
         else if scanned + 1 \<ge> 16 then victim
         else victim_loop idle rest victim (scanned + 1))"

definition peerLocked :: "guard_io \<Rightarrow> string \<Rightarrow> time \<Rightarrow> service \<Rightarrow> service \<times> peerState" where
  "peerLocked io key t s =
     (case mget (sv_peers s) key of
        Some p \<Rightarrow> (s, p)
      | None \<Rightarrow>
          (let peers = (if int (length (sv_peers s)) \<ge> peerCapLocked s
                        then mdel (sv_peers s)
                               (victim_loop (\<lambda>p. peerIdle s p t) (range_map io (sv_peers s)) '''' 0)
                        else sv_peers s);
               p = \<lparr>ps_strikes = [], ps_rates = []\<rparr>
           in (s\<lparr>sv_peers := mput peers key p\<rparr>, p)))"

definition sweepLocked :: "time \<Rightarrow> service \<Rightarrow> service" where
  "sweepLocked t s =
     (let s = s\<lparr>sv_bans := filter (\<lambda>(addr, b). br_until b > t) (sv_bans s)\<rparr>;
          every = (if cfg_rateWindow (sv_cfg s) < cfg_findTime (sv_cfg s) then cfg_rateWindow (sv_cfg s)
                   else cfg_findTime (sv_cfg s))
      in if time_Sub t (sv_peerSweep s) < every then s
         else s\<lparr>sv_peerSweep := t, sv_peers := filter (\<lambda>(key, p). \<not> peerIdle s p t) (sv_peers s)\<rparr>)"

section \<open>Writing the ban file\<close>

text \<open>
  \<^verbatim>\<open>json.Marshal\<close> of a \<^verbatim>\<open>time.Time\<close> fails from the year 10000 on: 3652059 days after the zero
  time.
\<close>

definition json_time_end :: time where
  "json_time_end = 3652059 * 24 * hour"

definition marshalStateLocked :: "guard_io \<Rightarrow> service \<Rightarrow> guard_err + stateFile" where
  "marshalStateLocked io s =
     (let t = io_save_now io;
          keys = sort (map fst (filter (\<lambda>(addr, b). br_until b > t) (range_map io (sv_bans s))));
          doc = \<lparr>sf_V = stateVersion,
                 sf_Bans = List.map_filter (\<lambda>addr. map_option (\<lambda>b.
                   \<lparr>sb_Addr = addr, sb_Until = br_until b, sb_Reason = br_reason b\<rparr>) (mget (sv_bans s) addr)) keys\<rparr>
      in if list_ex (\<lambda>b. sb_Until b \<ge> json_time_end) (sf_Bans doc) then Inl (IOErr ''json'') else Inr doc)"

text \<open>The result carries the document the rename published, if it was reached.\<close>

definition persistLocked :: "guard_io \<Rightarrow> service \<Rightarrow> service \<times> guard_err option \<times> stateFile option" where
  "persistLocked io s =
     (if sv_statePath s = '''' then (s, Some StatePathEmpty, None)
      else case marshalStateLocked io s of
          Inl e \<Rightarrow> (s, Some e, None)
        | Inr doc \<Rightarrow>
            (case io_write io of
               WFail e \<Rightarrow> (s, Some (IOErr e), None)
             | WRenamed (Inl e) \<Rightarrow> (s, Some (IOErr e), Some doc)
             | WRenamed (Inr (mtime, sz)) \<Rightarrow>
                 (s\<lparr>sv_stateMtime := mtime, sv_stateSize := sz, sv_sawState := True\<rparr>, None, Some doc)))"

section \<open>Following the ban file\<close>

definition forget_peers :: "banRec smap \<Rightarrow> banRec smap \<Rightarrow> peerState smap \<Rightarrow> peerState smap" where
  "forget_peers old new peers =
     foldl (\<lambda>ps addr. if mget new addr = None then mdel ps addr else ps) peers (map fst old)"

definition adopt_state :: "banRec smap \<Rightarrow> stateMeta \<Rightarrow> service \<Rightarrow> service" where
  "adopt_state bans meta s =
     s\<lparr>sv_peers := forget_peers (sv_bans s) bans (sv_peers s), sv_bans := bans,
       sv_stateMtime := sm_mtime meta, sv_stateSize := sm_size meta, sv_sawState := True\<rparr>"

definition trip :: "guard_err \<Rightarrow> service \<Rightarrow> service \<times> guard_err option" where
  "trip e s = (s\<lparr>sv_tripped := Some e\<rparr>, Some e)"

definition refreshLocked :: "golib \<Rightarrow> guard_io \<Rightarrow> service \<Rightarrow> service \<times> guard_err option" where
  "refreshLocked gl io s =
     (if sv_forceOff s \<or> sv_statePath s = '''' then (s, None)
      else case io_lstat io of
          LsMissing \<Rightarrow> if sv_sawState s then trip (Unavailable StateGone) s else (s, None)
        | LsErr e \<Rightarrow> trip (Unavailable (IOErr e)) s
        | LsInfo mtime sz \<Rightarrow>
            if sv_sawState s \<and> mtime = sv_stateMtime s \<and> sz = sv_stateSize s then (s, None)
            else case loadState gl io of
                Inl e \<Rightarrow> trip (Unavailable e) s
              | Inr (bans, meta) \<Rightarrow> (adopt_state bans meta s, None))"

definition reloadLocked :: "golib \<Rightarrow> guard_io \<Rightarrow> service \<Rightarrow> service \<times> event list \<times> guard_err option" where
  "reloadLocked gl io s =
     (if sv_forceOff s then (s, [], Some ForcedOff)
      else case loadConfig gl (sv_configPath s) (io_config io) of
          Inl e \<Rightarrow> (s, [], Some (CfgErr e))
        | Inr cfg \<Rightarrow>
            (let cfg = (if sv_forceOn s then cfg\<lparr>cfg_enabled := True\<rparr> else cfg);
                 s = s\<lparr>sv_cfg := cfg, sv_stateMtime := zero_time, sv_stateSize := - 1\<rparr>;
                 done_ev = [\<lparr>ev_Action = ''reload'', ev_Addr = '''', ev_Reason = ''config''\<rparr>];
                 fail = (\<lambda>e. case trip e s of (s, err) \<Rightarrow> (s, [], err))
             in if sv_statePath s = '''' then fail StatePathEmpty
                else case io_lstat io of
                    LsMissing \<Rightarrow>
                      if sv_sawState s then fail (Unavailable StateGone)
                      else (s\<lparr>sv_bans := [], sv_peers := [], sv_tripped := None\<rparr>, done_ev, None)
                  | LsErr e \<Rightarrow> fail (Unavailable (IOErr e))
                  | LsInfo _ _ \<Rightarrow>
                      (case loadState gl io of
                         Inl e \<Rightarrow> fail (Unavailable e)
                       | Inr (bans, meta) \<Rightarrow> ((adopt_state bans meta s)\<lparr>sv_tripped := None\<rparr>, done_ev, None))))"

section \<open>Bans\<close>

definition keyLocked :: "golib \<Rightarrow> service \<Rightarrow> ip \<Rightarrow> string" where
  "keyLocked gl s ip = peerKey gl ip (cfg_ipv6Prefix (sv_cfg s))"

definition active_ban :: "service \<Rightarrow> string \<Rightarrow> time \<Rightarrow> bool" where
  "active_ban s key t = (case mget (sv_bans s) key of None \<Rightarrow> False | Some b \<Rightarrow> br_until b > t)"

definition bannedLocked :: "golib \<Rightarrow> service \<Rightarrow> string \<Rightarrow> ip \<Rightarrow> time \<Rightarrow> string option" where
  "bannedLocked gl s key ip t =
     (if active_ban s key t then Some key
      else let exact = canonicalIP gl ip
           in if exact \<noteq> key \<and> active_ban s exact t then Some exact else None)"

definition oldest_step :: "string \<times> time \<Rightarrow> string \<times> banRec \<Rightarrow> string \<times> time" where
  "oldest_step acc entry =
     (case acc of (oldest, until) \<Rightarrow> case entry of (addr, b) \<Rightarrow>
        if oldest = '''' \<or> br_until b < until \<or> (br_until b = until \<and> addr < oldest)
        then (addr, br_until b) else (oldest, until))"

definition oldest_ban :: "(string \<times> banRec) list \<Rightarrow> string" where
  "oldest_ban entries = fst (foldl oldest_step ('''', zero_time) entries)"

text \<open>
  The loop that evicts until the table has room. On a limit below 1 it would never end, so it is a
  partial function; its result is \<open>None\<close> exactly when the Go loop does not return.
\<close>

partial_function (option) evict_loop :: "guard_io \<Rightarrow> int \<Rightarrow> banRec smap \<Rightarrow> banRec smap option" where
  "evict_loop io n bans =
     (if int (length bans) \<ge> n then evict_loop io n (mdel bans (oldest_ban (range_map io bans)))
      else Some bans)"

definition roomForBanLocked :: "guard_io \<Rightarrow> string \<Rightarrow> service \<Rightarrow> (service \<times> bool) option" where
  "roomForBanLocked io key s =
     (if mget (sv_bans s) key \<noteq> None \<or> int (length (sv_bans s)) < cfg_maxEntries (sv_cfg s)
      then Some (s, True)
      else if cfg_tableFull (sv_cfg s) = tableFullRefuse then Some (s, False)
      else map_option (\<lambda>bans. (s\<lparr>sv_bans := bans\<rparr>, True))
             (evict_loop io (cfg_maxEntries (sv_cfg s)) (sv_bans s)))"

definition applyBanLocked :: "guard_io \<Rightarrow> string \<Rightarrow> string \<Rightarrow> time \<Rightarrow> service \<Rightarrow> service \<times> event list" where
  "applyBanLocked io key reason t s =
     (let s = s\<lparr>sv_bans := mput (sv_bans s) key
                 \<lparr>br_until = t + cfg_banTime (sv_cfg s), br_reason = reason\<rparr>\<rparr>
      in case persistLocked io s of
           (s, err, _) \<Rightarrow>
             ((case err of None \<Rightarrow> s | Some e \<Rightarrow> s\<lparr>sv_tripped := Some (Unavailable e)\<rparr>),
              [\<lparr>ev_Action = ''threshold'', ev_Addr = key, ev_Reason = reason\<rparr>,
               \<lparr>ev_Action = ''ban'', ev_Addr = key, ev_Reason = reason\<rparr>]))"

definition noteRateLocked ::
  "guard_io \<Rightarrow> string \<Rightarrow> time \<Rightarrow> service \<Rightarrow> (service \<times> event list \<times> bool) option" where
  "noteRateLocked io key t s =
     (case peerLocked io key t s of (s, p) \<Rightarrow>
        let p = p\<lparr>ps_rates := appendWindow (ps_rates p) t (cfg_rateWindow (sv_cfg s)) (cfg_rateLimit (sv_cfg s))\<rparr>;
            s = s\<lparr>sv_peers := mput (sv_peers s) key p\<rparr>
        in if int (length (ps_rates p)) < cfg_rateLimit (sv_cfg s) then Some (s, [], False)
           else case roomForBanLocked io key s of
               None \<Rightarrow> None
             | Some (s, room) \<Rightarrow>
                 if \<not> room then Some (s, [], False)
                 else case applyBanLocked io key ''rate'' t s of (s, evs) \<Rightarrow> Some (s, evs, True))"

definition noteHandshakeLocked ::
  "golib \<Rightarrow> guard_io \<Rightarrow> string \<Rightarrow> service \<Rightarrow> (service \<times> event list) option" where
  "noteHandshakeLocked gl io addr s =
     (if sv_forceOff s \<or> \<not> cfg_enabled (sv_cfg s) \<or> sv_tripped s \<noteq> None then Some (s, [])
      else case refreshLocked gl io s of
          (s, Some _) \<Rightarrow> Some (s, [])
        | (s, None) \<Rightarrow>
            (case parsePeer gl addr of
               None \<Rightarrow> Some (s, [])
             | Some (_, ip) \<Rightarrow>
                 if ignored (cfg_ignore (sv_cfg s)) ip then Some (s, [])
                 else let key = keyLocked gl s ip; t = io_now io; s = sweepLocked t s
                      in if bannedLocked gl s key ip t \<noteq> None then Some (s, [])
                         else case peerLocked io key t s of (s, p) \<Rightarrow>
                           let p = p\<lparr>ps_strikes := appendWindow (ps_strikes p) t
                                       (cfg_findTime (sv_cfg s)) (cfg_maxRetry (sv_cfg s))\<rparr>;
                               s = s\<lparr>sv_peers := mput (sv_peers s) key p\<rparr>
                           in if int (length (ps_strikes p)) < cfg_maxRetry (sv_cfg s) then Some (s, [])
                              else case roomForBanLocked io key s of
                                  None \<Rightarrow> None
                                | Some (s, room) \<Rightarrow>
                                    if \<not> room then Some (s, [])
                                    else Some (applyBanLocked io key ''handshake'' t s)))"

definition deny :: "string \<Rightarrow> string \<Rightarrow> decision" where
  "deny reason addr = \<lparr>d_Allow = False, d_Reason = reason, d_Addr = addr\<rparr>"

definition allow :: "string \<Rightarrow> decision" where
  "allow addr = \<lparr>d_Allow = True, d_Reason = '''', d_Addr = addr\<rparr>"

definition admitLocked ::
  "golib \<Rightarrow> guard_io \<Rightarrow> string \<Rightarrow> service \<Rightarrow> (service \<times> decision \<times> event list) option" where
  "admitLocked gl io addr s =
     (if sv_forceOff s \<or> \<not> cfg_enabled (sv_cfg s) then Some (s, allow addr, [])
      else case parsePeer gl addr of
          None \<Rightarrow> Some (s, deny ''bad_peer'' '''', [])
        | Some (_, ip) \<Rightarrow>
            (let key = keyLocked gl s ip
             in if ignored (cfg_ignore (sv_cfg s)) ip then Some (s, allow key, [])
                else if sv_tripped s \<noteq> None then Some (s, deny ''guard_unavailable'' key, [])
                else case refreshLocked gl io s of
                    (s, Some _) \<Rightarrow> Some (s, deny ''guard_unavailable'' key, [])
                  | (s, None) \<Rightarrow>
                      (let t = io_now io; s = sweepLocked t s
                       in case bannedLocked gl s key ip t of
                            Some banned \<Rightarrow> Some (s, deny ''banned'' banned, [])
                          | None \<Rightarrow>
                              if cfg_tableFull (sv_cfg s) = tableFullRefuse \<and>
                                 int (length (sv_bans s)) \<ge> cfg_maxEntries (sv_cfg s)
                              then Some (s, deny ''table_full'' key, [])
                              else case noteRateLocked io key t s of
                                  None \<Rightarrow> None
                                | Some (s, evs, banned) \<Rightarrow>
                                    if banned then Some (s, deny ''rate'' key, evs)
                                    else Some (s, allow key, []))))"

definition unbanLocked ::
  "golib \<Rightarrow> guard_io \<Rightarrow> string \<Rightarrow> service \<Rightarrow> service \<times> event list \<times> guard_err option" where
  "unbanLocked gl io key s =
     (if sv_forceOff s then (s, [], Some Inactive)
      else if sv_tripped s \<noteq> None then (s, [], sv_tripped s)
      else case refreshLocked gl io s of
          (s, Some e) \<Rightarrow> (s, [], Some e)
        | (s, None) \<Rightarrow>
            (let s = sweepLocked (io_now io) s
             in if mget (sv_bans s) key = None then (s, [], Some NotBanned)
                else let prev = sv_bans s;
                         s = s\<lparr>sv_bans := filter (\<lambda>(k, v). k \<noteq> key) prev\<rparr>
                     in case persistLocked io s of
                          (s, Some e, _) \<Rightarrow> (s\<lparr>sv_bans := prev\<rparr>, [], Some e)
                        | (s, None, _) \<Rightarrow>
                            (s\<lparr>sv_peers := mdel (sv_peers s) key\<rparr>,
                             [\<lparr>ev_Action = ''unban'', ev_Addr = key, ev_Reason = ''operator''\<rparr>], None)))"

section \<open>The operator view\<close>

record guard_ban =
  gb_Addr :: string
  gb_Until :: time
  gb_Reason :: string

record guard_snapshot =
  sn_Enabled :: bool
  sn_ForcedOff :: bool
  sn_Tripped :: "guard_err option"
  sn_ConfigPath :: string
  sn_StatePath :: string
  sn_FindTime :: duration
  sn_MaxRetry :: int
  sn_BanTime :: duration
  sn_RateLimit :: int
  sn_RateWindow :: duration
  sn_MaxEntries :: int
  sn_TableFull :: string
  sn_IPv6Prefix :: int
  sn_Ignore :: "string list"
  sn_Bans :: "guard_ban list"
  sn_Configured :: bool
  sn_Note :: string

definition NotConfiguredNote :: string where
  "NotConfiguredNote = ''not configured in this process''"

definition guard_snapshot_of ::
  "guard_io \<Rightarrow> guard_config \<Rightarrow> string \<Rightarrow> string \<Rightarrow> bool \<Rightarrow> guard_err option \<Rightarrow> banRec smap \<Rightarrow> guard_snapshot" where
  "guard_snapshot_of io cfg configPath statePath forceOff tripped bans =
     \<lparr>sn_Enabled = (\<not> forceOff \<and> cfg_enabled cfg), sn_ForcedOff = forceOff, sn_Tripped = tripped,
      sn_ConfigPath = configPath, sn_StatePath = statePath, sn_FindTime = cfg_findTime cfg,
      sn_MaxRetry = cfg_maxRetry cfg, sn_BanTime = cfg_banTime cfg, sn_RateLimit = cfg_rateLimit cfg,
      sn_RateWindow = cfg_rateWindow cfg, sn_MaxEntries = cfg_maxEntries cfg,
      sn_TableFull = cfg_tableFull cfg, sn_IPv6Prefix = cfg_ipv6Prefix cfg,
      sn_Ignore = cfg_ignoreText cfg,
      sn_Bans = sort_key gb_Addr (map (\<lambda>(addr, b). \<lparr>gb_Addr = addr, gb_Until = br_until b, gb_Reason = br_reason b\<rparr>)
                  (filter (\<lambda>(addr, b). br_until b > io_save_now io) (range_map io bans))),
      sn_Configured = False, sn_Note = ''''\<rparr>"

definition snapshotLocked :: "guard_io \<Rightarrow> service \<Rightarrow> guard_snapshot" where
  "snapshotLocked io s =
     (let st = guard_snapshot_of io (sv_cfg s) (sv_configPath s) (sv_statePath s) (sv_forceOff s)
                 (sv_tripped s) (sv_bans s);
          st = st\<lparr>sn_Configured := sv_configured s\<rparr>
      in if \<not> sv_configured s
         then st\<lparr>sn_Note := NotConfiguredNote @ ''; built-in defaults, bans in memory only''\<rparr> else st)"

section \<open>The process jail\<close>

record options =
  opt_ConfigPath :: string
  opt_StatePath :: string
  opt_Switch :: string

definition newService :: "options \<Rightarrow> guard_config \<Rightarrow> bool \<Rightarrow> bool \<Rightarrow> guard_err option \<Rightarrow> service" where
  "newService opt cfg forceOff forceOn tripped =
     \<lparr>sv_configured = True, sv_cfg = cfg, sv_configPath = opt_ConfigPath opt, sv_statePath = opt_StatePath opt,
      sv_forceOff = forceOff, sv_forceOn = forceOn, sv_tripped = tripped, sv_sawState = False,
      sv_stateMtime = zero_time, sv_stateSize = - 1, sv_bans = [], sv_peers = [], sv_peerSweep = zero_time\<rparr>"

definition default_service :: service where
  "default_service =
     \<lparr>sv_configured = False, sv_cfg = defaultConfig, sv_configPath = '''', sv_statePath = '''',
      sv_forceOff = False, sv_forceOn = False, sv_tripped = None, sv_sawState = False,
      sv_stateMtime = zero_time, sv_stateSize = - 1, sv_bans = [], sv_peers = [], sv_peerSweep = zero_time\<rparr>"

text \<open>\<^verbatim>\<open>current(true)\<close> creates the unconfigured jail; \<^verbatim>\<open>current(false)\<close> is the option itself.\<close>

definition guard_current :: "service option \<Rightarrow> service" where
  "guard_current svc = (case svc of Some s \<Rightarrow> s | None \<Rightarrow> default_service)"

definition Configure :: "golib \<Rightarrow> guard_io \<Rightarrow> options \<Rightarrow> service \<times> guard_err option" where
  "Configure gl io opt =
     (case ParseSwitch (opt_Switch opt) of
        None \<Rightarrow> (let e = Some (BadSwitch (opt_Switch opt)) in (newService opt defaultConfig False False e, e))
      | Some (forceOff, forceOn) \<Rightarrow>
          if forceOff then (newService opt defaultConfig True False None, None)
          else if opt_StatePath opt = ''''
          then (newService opt defaultConfig False forceOn (Some StatePathEmpty), Some StatePathEmpty)
          else case loadConfig gl (opt_ConfigPath opt) (io_config io) of
              Inl e \<Rightarrow> (newService opt defaultConfig False forceOn (Some (CfgErr e)), Some (CfgErr e))
            | Inr cfg \<Rightarrow>
                (let cfg = (if forceOn then cfg\<lparr>cfg_enabled := True\<rparr> else cfg)
                 in case loadOptionalState gl io of
                      Inl e \<Rightarrow> (newService opt cfg False forceOn (Some e), Some e)
                    | Inr (bans, meta) \<Rightarrow>
                        ((newService opt cfg False forceOn None)
                           \<lparr>sv_bans := bans, sv_sawState := sm_saw meta, sv_stateMtime := sm_mtime meta,
                            sv_stateSize := sm_size meta\<rparr>, None)))"

definition guard_Ready :: "service option \<Rightarrow> guard_err option" where
  "guard_Ready svc =
     (case svc of None \<Rightarrow> None | Some s \<Rightarrow> if sv_forceOff s then None else sv_tripped s)"

definition guard_Status :: "golib \<Rightarrow> guard_io \<Rightarrow> service option \<Rightarrow> service option \<times> guard_snapshot" where
  "guard_Status gl io svc =
     (case svc of
        None \<Rightarrow>
          (None, (guard_snapshot_of io defaultConfig '''' '''' False None [])
                   \<lparr>sn_Enabled := False, sn_Note := NotConfiguredNote\<rparr>)
      | Some s \<Rightarrow>
          (let s = (if sv_tripped s = None \<and> \<not> sv_forceOff s
                    then case refreshLocked gl io s of
                        (s, None) \<Rightarrow> sweepLocked (io_now io) s
                      | (s, Some _) \<Rightarrow> s
                    else s)
           in (Some s, snapshotLocked io s)))"

definition stripControls :: "string \<Rightarrow> string" where
  "stripControls s = filter (\<lambda>c. \<not> ((of_char c :: nat) < 0x20 \<or> (of_char c :: nat) = 0x7f)) s"

definition allowedAction :: "string \<Rightarrow> bool" where
  "allowedAction action = (action \<in> {''ban'', ''unban'', ''reload'', ''threshold''})"

definition allowedReason :: "string \<Rightarrow> bool" where
  "allowedReason reason = (reason \<in> {''handshake'', ''rate'', ''operator'', ''config''})"

text \<open>The events the installed recorder receives; without a recorder none are sent.\<close>

definition emitAll :: "bool \<Rightarrow> event list \<Rightarrow> event list" where
  "emitAll recorder evs =
     (if \<not> recorder then []
      else filter (\<lambda>ev. allowedAction (ev_Action ev) \<and> allowedReason (ev_Reason ev))
             (map (\<lambda>ev. \<lparr>ev_Action = stripControls (ev_Action ev), ev_Addr = stripControls (ev_Addr ev),
                         ev_Reason = stripControls (ev_Reason ev)\<rparr>) evs))"

definition Admit ::
  "golib \<Rightarrow> guard_io \<Rightarrow> string \<Rightarrow> service option \<Rightarrow> (service option \<times> decision \<times> event list) option" where
  "Admit gl io addr svc =
     map_option (\<lambda>(s, d, evs). (Some s, d, emitAll (io_recorder io) evs)) (admitLocked gl io addr (guard_current svc))"

definition NoteHandshake ::
  "golib \<Rightarrow> guard_io \<Rightarrow> string \<Rightarrow> bool \<Rightarrow> service option \<Rightarrow> (service option \<times> event list) option" where
  "NoteHandshake gl io addr ok svc =
     (if ok then Some (svc, [])
      else map_option (\<lambda>(s, evs). (Some s, emitAll (io_recorder io) evs))
             (noteHandshakeLocked gl io addr (guard_current svc)))"

definition Unban ::
  "golib \<Rightarrow> guard_io \<Rightarrow> string \<Rightarrow> service option \<Rightarrow> service option \<times> event list \<times> (guard_err + string)" where
  "Unban gl io addr svc =
     (case parseUnbanAddr gl addr of
        None \<Rightarrow> (svc, [], Inl BadPeer)
      | Some target \<Rightarrow>
          (case svc of
             None \<Rightarrow> (None, [], Inl Inactive)
           | Some s \<Rightarrow>
               (let key = (case target of
                             UTKey network \<Rightarrow> network
                           | UTAddr ip \<Rightarrow>
                               (let key = keyLocked gl s ip; exact = canonicalIP gl ip
                                in if mget (sv_bans s) key = None \<and> exact \<noteq> key \<and> mget (sv_bans s) exact \<noteq> None
                                   then exact else key))
                in case unbanLocked gl io key s of
                     (s, evs, err) \<Rightarrow>
                       (Some s, emitAll (io_recorder io) evs, (case err of Some e \<Rightarrow> Inl e | None \<Rightarrow> Inr key)))))"

definition Reload ::
  "golib \<Rightarrow> guard_io \<Rightarrow> service option \<Rightarrow> service option \<times> event list \<times> guard_err option" where
  "Reload gl io svc =
     (case svc of
        None \<Rightarrow> (None, [], Some NotConfigured)
      | Some s \<Rightarrow> (case reloadLocked gl io s of (s, evs, err) \<Rightarrow> (Some s, emitAll (io_recorder io) evs, err)))"

section \<open>Sliding windows\<close>

text \<open>
  The samples a window must count: those of the whole history that lie after the cutoff. The
  implementation keeps at most \<open>cap\<close> of them and forgets the rest for good.
\<close>

definition window_hits :: "time list \<Rightarrow> time \<Rightarrow> duration \<Rightarrow> time list" where
  "window_hits hist t window = filter (\<lambda>ts. ts > t - window) hist"

definition last_n :: "nat \<Rightarrow> 'a list \<Rightarrow> 'a list" where
  "last_n n xs = drop (length xs - n) xs"

lemma last_n_append: "last_n n (xs @ ys) = last_n (n - length ys) xs @ last_n n ys"
  by (cases "n \<le> length ys") (simp_all add: last_n_def)

lemma length_last_n [simp]: "length (last_n n xs) = min n (length xs)"
  by (simp add: last_n_def min_def)

lemma last_n_snoc: "0 < n \<Longrightarrow> last_n n (xs @ [x]) = last_n (n - 1) xs @ [x]"
  by (cases n) (simp_all add: last_n_append, simp add: last_n_def)

lemma last_n_last_n: "n \<le> m \<Longrightarrow> last_n n (last_n m xs) = last_n n xs"
  by (cases "m \<le> length xs") (simp_all add: last_n_def)

text \<open>On an ascending history the samples after a cutoff are a suffix, so cutting commutes.\<close>

lemma filter_last_n:
  "sorted xs \<Longrightarrow> filter (\<lambda>x. x > c) (last_n n xs) = last_n n (filter (\<lambda>x. x > (c::int)) xs)"
proof (induction xs)
  case (Cons x xs)
  show ?case
  proof (cases "n \<le> length xs")
    case True
    then have "last_n n (x # xs) = last_n n xs" by (simp add: last_n_def Suc_diff_le)
    moreover have "last_n n (filter (\<lambda>x. x > c) (x # xs)) = last_n n (filter (\<lambda>x. x > c) xs)"
    proof (cases "x > c")
      case True
      then have "filter (\<lambda>x. x > c) xs = xs" using Cons.prems by (auto simp: filter_id_conv)
      then show ?thesis using \<open>n \<le> length xs\<close> True by (simp add: last_n_def Suc_diff_le)
    qed simp
    ultimately show ?thesis using Cons by simp
  next
    case False
    then have "n \<ge> length (x # xs)" by simp
    moreover have "length (filter (\<lambda>x. x > c) (x # xs)) \<le> length (x # xs)" by (rule length_filter_le)
    ultimately show ?thesis by (simp add: last_n_def)
  qed
qed (simp add: last_n_def)

lemma appendWindow_last_n:
  "0 < cap \<Longrightarrow> appendWindow xs t w cap = last_n (nat cap) (window_hits xs t w @ [t])"
  by (auto simp: appendWindow_def last_n_def window_hits_def Let_def)

lemma window_hits_window_hits:
  "t \<le> t' \<Longrightarrow> window_hits (window_hits xs t w) t' w = window_hits xs t' w"
  by (simp add: window_hits_def filter_filter) (rule filter_cong, auto)

lemma window_hits_snoc: "0 < w \<Longrightarrow> window_hits (xs @ [t]) t w = window_hits xs t w @ [t]"
  by (simp add: window_hits_def)

lemma sorted_window_hits: "sorted xs \<Longrightarrow> sorted (window_hits xs t w)"
  by (simp add: window_hits_def sorted_filter [where f = id, simplified])

text \<open>
  The bounded strike and rate lists lose nothing that matters: when samples arrive in
  chronological order, feeding a history \<open>hist\<close> sample by sample into \<open>appendWindow\<close> leaves exactly the
  last \<open>cap\<close> samples of the full history that fall inside the window. So the list reaches \<open>cap\<close>
  elements, which is what triggers a ban, exactly when the full history has \<open>cap\<close> samples in the window.
\<close>

theorem window_counts_history:
  assumes "sorted (hist @ [t])" and "0 < w" and "0 < cap"
  defines "kept \<equiv> fold (\<lambda>ts acc. appendWindow acc ts w cap) (hist @ [t]) []"
  shows "kept = last_n (nat cap) (window_hits (hist @ [t]) t w) \<and>
    (int (length kept) \<ge> cap \<longleftrightarrow> int (length (window_hits (hist @ [t]) t w)) \<ge> cap)"
proof -
  have "fold (\<lambda>ts acc. appendWindow acc ts w cap) (hist @ [t]) [] =
      last_n (nat cap) (window_hits (hist @ [t]) t w)" using assms(1)
  proof (induction hist arbitrary: t rule: rev_induct)
    case Nil
    show ?case using assms(2,3) by (simp add: appendWindow_last_n window_hits_def)
  next
    case (snoc u hist)
    let ?all = "hist @ [u]"
    have le: "u \<le> t" and srt: "sorted ?all" using snoc.prems by (simp_all add: sorted_append)
    have "window_hits (last_n (nat cap) (window_hits ?all u w)) t w =
        last_n (nat cap) (window_hits (window_hits ?all u w) t w)"
      using filter_last_n [OF sorted_window_hits [OF srt, of u w], of "t - w" "nat cap"]
      unfolding window_hits_def .
    also have "\<dots> = last_n (nat cap) (window_hits ?all t w)"
      by (simp only: window_hits_window_hits [OF le])
    finally have cut: "window_hits (last_n (nat cap) (window_hits ?all u w)) t w =
        last_n (nat cap) (window_hits ?all t w)" .
    have "fold (\<lambda>ts acc. appendWindow acc ts w cap) (?all @ [t]) [] =
        appendWindow (last_n (nat cap) (window_hits ?all u w)) t w cap"
      using snoc.IH [OF srt] by simp
    also have "\<dots> = last_n (nat cap) (last_n (nat cap) (window_hits ?all t w) @ [t])"
      using assms(3) by (simp only: appendWindow_last_n cut)
    also have "\<dots> = last_n (nat cap) (window_hits ?all t w @ [t])"
      using assms(3) by (simp add: last_n_snoc last_n_last_n)
    finally show ?case using assms(2) by (simp only: window_hits_snoc)
  qed
  then show ?thesis unfolding kept_def using assms(3) by (simp only: length_last_n) (auto simp: min_def)
qed

theorem window_counts_history_witness:
  "fold (\<lambda>ts acc. appendWindow acc ts 10 3) ([1, 4, 9] @ [12]) [] =
     last_n 3 (window_hits [1, 4, 9, 12] 12 10)"
  using window_counts_history [of "[1, 4, 9]" 12 10 3] by simp

section \<open>Eviction\<close>

text \<open>Go iterates over a map in an order of its choice, each entry once.\<close>

definition fair_range :: "guard_io \<Rightarrow> bool" where
  "fair_range io \<longleftrightarrow> (\<forall>ks. distinct ks \<longrightarrow> distinct (io_range io ks) \<and> set (io_range io ks) = set ks)"

definition expiry_key :: "string \<times> banRec \<Rightarrow> time \<times> string" where
  "expiry_key e = (br_until (snd e), fst e)"

lemma range_map_set:
  assumes "fair_range io" and "wf_map m"
  shows "set (range_map io m) = set m"
proof -
  have "set (io_range io (map fst m)) = fst ` set m"
    using assms by (simp add: fair_range_def wf_map_def)
  then have "(k, v) \<in> set (range_map io m) \<longleftrightarrow> k \<in> fst ` set m \<and> map_of m k = Some v" for k v
    by (force simp: range_map_def List.map_filter_def)
  then have "set (range_map io m) = {(k, v). k \<in> fst ` set m \<and> map_of m k = Some v}" by auto
  also have "\<dots> = set m"
    using assms(2) by (auto simp: wf_map_def rev_image_eqI dest: map_of_SomeD)
  finally show ?thesis .
qed

lemma oldest_step_min:
  "a \<noteq> '''' \<Longrightarrow> oldest_step (a, u) e = prod.swap (min (expiry_key e) (u, a))"
  by (auto simp: oldest_step_def expiry_key_def min_def split: prod.splits)

lemma fold_min_addr:
  "'''' \<notin> fst ` set es \<Longrightarrow> snd x \<noteq> '''' \<Longrightarrow> snd (fold min (map expiry_key es) x) \<noteq> ''''"
  by (induction es arbitrary: x) (auto simp: expiry_key_def min_def)

lemma foldl_oldest_min:
  "'''' \<notin> fst ` set es \<Longrightarrow> a \<noteq> '''' \<Longrightarrow>
   foldl oldest_step (a, u) es = prod.swap (fold min (map expiry_key es) (u, a))"
proof (induction es arbitrary: a u)
  case (Cons e es)
  obtain u' a' where m: "min (expiry_key e) (u, a) = (u', a')" by fastforce
  have "a' \<noteq> ''''" using m Cons.prems by (auto simp: min_def expiry_key_def split: if_splits)
  then show ?case
    using Cons m by (simp add: oldest_step_min)
qed simp

lemma oldest_ban_Min:
  assumes "es \<noteq> []" and "'''' \<notin> fst ` set es"
  shows "oldest_ban es = snd (Min (expiry_key ` set es))"
proof -
  obtain e rest where es: "es = e # rest" using assms(1) by (cases es) auto
  have "foldl oldest_step ('''', zero_time) es = foldl oldest_step (fst e, br_until (snd e)) rest"
    by (simp add: es oldest_step_def split: prod.splits)
  also have "\<dots> = prod.swap (fold min (map expiry_key rest) (expiry_key e))"
    using assms(2) by (subst foldl_oldest_min) (auto simp: es expiry_key_def)
  also have "fold min (map expiry_key rest) (expiry_key e) = Min (expiry_key ` set es)"
    using Min.set_eq_fold [of "expiry_key e" "map expiry_key rest"] by (simp add: es)
  finally show ?thesis by (simp add: oldest_ban_def)
qed

text \<open>The entry an eviction removes: the least expiry, ties broken by address.\<close>

definition first_to_expire :: "banRec smap \<Rightarrow> string" where
  "first_to_expire bans = snd (Min (expiry_key ` set bans))"

lemma oldest_ban_range:
  assumes "fair_range io" and "wf_map bans" and "bans \<noteq> []" and "'''' \<notin> fst ` set bans"
  shows "oldest_ban (range_map io bans) = first_to_expire bans"
proof -
  have "set (range_map io bans) = set bans" by (rule range_map_set [OF assms(1,2)])
  moreover from this have "range_map io bans \<noteq> []" using assms(3) by (metis set_empty)
  ultimately show ?thesis
    using oldest_ban_Min [of "range_map io bans"] assms(4) by (simp add: first_to_expire_def)
qed

lemma first_to_expire_mem:
  assumes "bans \<noteq> []"
  obtains b where "(first_to_expire bans, b) \<in> set bans"
    "\<forall>(k, v) \<in> set bans. (br_until b, first_to_expire bans) \<le> (br_until v, k)"
proof -
  have "Min (expiry_key ` set bans) \<in> expiry_key ` set bans" using assms by (intro Min_in) auto
  then obtain e where e: "e \<in> set bans" "Min (expiry_key ` set bans) = expiry_key e" by auto
  have "\<forall>x\<in>set bans. expiry_key e \<le> expiry_key x" using e(2) by (metis Min_le finite_imageI List.finite_set imageI)
  then show ?thesis using e that [of "snd e"]
    by (fastforce simp: first_to_expire_def expiry_key_def)
qed

text \<open>The reference: drop the entry that expires first until fewer than \<open>n\<close> are left.\<close>

fun evict_spec :: "nat \<Rightarrow> banRec smap \<Rightarrow> banRec smap" where
  "evict_spec 0 bans = bans"
| "evict_spec (Suc k) bans = evict_spec k (mdel bans (first_to_expire bans))"

lemma delete_first_to_expire:
  assumes "wf_map bans" and "bans \<noteq> []"
  shows "Suc (length (mdel bans (first_to_expire bans))) = length bans"
proof -
  obtain b where "(first_to_expire bans, b) \<in> set bans" using first_to_expire_mem [OF assms(2)] .
  then have "map_of bans (first_to_expire bans) \<noteq> None" by (metis weak_map_of_SomeI option.distinct(1))
  then show ?thesis using assms by (simp add: length_delete)
qed

lemma set_delete_sub: "set (mdel m k) \<subseteq> set m"
  by (simp add: set_delete)

lemma evict_loop_spec:
  assumes "fair_range io" and "1 \<le> n" and "wf_map bans" and "'''' \<notin> fst ` set bans"
    and "length bans = k + nat n - 1"
  shows "evict_loop io n bans = Some (evict_spec k bans)"
  using assms(3-5)
proof (induction k arbitrary: bans)
  case 0
  then show ?case using assms(2) by (subst evict_loop.simps) auto
next
  case (Suc k)
  let ?d = "mdel bans (first_to_expire bans)"
  have ne: "bans \<noteq> []" using Suc.prems assms(2) by auto
  have "wf_map ?d" "'''' \<notin> fst ` set ?d"
    using Suc.prems set_delete_sub [of "first_to_expire bans" bans] by (auto simp: wf_map_delete)
  moreover have "length ?d = k + nat n - 1"
    using delete_first_to_expire [OF Suc.prems(1) ne] Suc.prems(3) by simp
  ultimately have "evict_loop io n ?d = Some (evict_spec k ?d)" by (rule Suc.IH)
  then show ?case
    using Suc.prems assms(2) oldest_ban_range [OF assms(1) Suc.prems(1) ne Suc.prems(2)]
    by (subst evict_loop.simps) simp
qed

lemma evict_spec_props:
  "wf_map bans \<Longrightarrow> k \<le> length bans \<Longrightarrow> '''' \<notin> fst ` set bans \<Longrightarrow>
   wf_map (evict_spec k bans) \<and> length (evict_spec k bans) = length bans - k \<and>
   set (evict_spec k bans) \<subseteq> set bans"
proof (induction k arbitrary: bans)
  case (Suc k)
  let ?d = "mdel bans (first_to_expire bans)"
  have ne: "bans \<noteq> []" using Suc.prems by auto
  have "length bans = Suc (length ?d)" using delete_first_to_expire [OF Suc.prems(1) ne] by simp
  then show ?case
    using Suc.IH [of ?d] Suc.prems set_delete_sub [of "first_to_expire bans" bans]
    by (auto simp: wf_map_delete)
qed simp

lemma evict_spec_sub: "set (evict_spec k bans) \<subseteq> set bans"
proof (induction k arbitrary: bans)
  case (Suc k)
  then show ?case using set_delete_sub by fastforce
qed simp

lemma evict_spec_least:
  assumes "wf_map bans" and "k \<le> length bans" and "(x, b) \<in> set bans" and "x \<notin> fst ` set (evict_spec k bans)"
    and "(y, c) \<in> set (evict_spec k bans)"
  shows "(br_until b, x) \<le> (br_until c, y)"
  using assms
proof (induction k arbitrary: bans)
  case 0
  then show ?case by force
next
  case (Suc k)
  let ?f = "first_to_expire bans"
  let ?d = "mdel bans ?f"
  have ne: "bans \<noteq> []" using Suc.prems by auto
  have len: "length bans = Suc (length ?d)" using delete_first_to_expire [OF Suc.prems(1) ne] by simp
  have wfd: "wf_map ?d" using Suc.prems by (simp add: wf_map_delete)
  obtain bf where bf: "(?f, bf) \<in> set bans" "\<forall>(k, v) \<in> set bans. (br_until bf, ?f) \<le> (br_until v, k)"
    using first_to_expire_mem [OF ne] .
  show ?case
  proof (cases "x = ?f")
    case True
    then have "b = bf" using Suc.prems(1,3) bf(1) by (auto simp: wf_map_def eq_key_imp_eq_value)
    moreover have "(y, c) \<in> set bans"
      using Suc.prems(5) evict_spec_sub [of "Suc k" bans] by blast
    ultimately show ?thesis using bf(2) True by auto
  next
    case False
    then have "(x, b) \<in> set ?d" using Suc.prems(3) by (simp add: set_delete)
    then show ?thesis using Suc.IH [OF wfd] Suc.prems len by simp
  qed
qed

text \<open>
  Making room in the ban table. Whatever order Go iterates in, on a table that is full the loop
  ends, and what is left is what dropping the first-to-expire entry the right number of times leaves:
  a sub-table one short of the limit in which no survivor expires before a dropped entry.
\<close>

theorem evict_first_to_expire:
  assumes "fair_range io" and "1 \<le> n" and "wf_map bans" and "'''' \<notin> fst ` set bans"
    and "n \<le> int (length bans)"
  shows "\<exists>left. evict_loop io n bans = Some left \<and>
    left = evict_spec (Suc (length bans) - nat n) bans \<and>
    int (length left) = n - 1 \<and> set left \<subseteq> set bans \<and>
    (\<forall>(x, b) \<in> set bans - set left. \<forall>(y, c) \<in> set left. (br_until b, x) \<le> (br_until c, y))"
proof -
  let ?k = "Suc (length bans) - nat n"
  have k: "length bans = ?k + nat n - 1" "?k \<le> length bans" using assms(2,5) by linarith+
  have dropped: "x \<notin> fst ` set (evict_spec ?k bans)" if "(x, b) \<in> set bans - set (evict_spec ?k bans)" for x b
    using that assms(3) evict_spec_sub [of ?k bans] by (auto simp: wf_map_def dest: eq_key_imp_eq_value)
  have least: "\<forall>(x, b) \<in> set bans - set (evict_spec ?k bans). \<forall>(y, c) \<in> set (evict_spec ?k bans).
      (br_until b, x) \<le> (br_until c, y)"
    using evict_spec_least [OF assms(3) k(2)] dropped by blast
  have "int (length (evict_spec ?k bans)) = n - 1" "set (evict_spec ?k bans) \<subseteq> set bans"
    using evict_spec_props [OF assms(3) k(2) assms(4)] assms(2,5) by auto
  with evict_loop_spec [OF assms(1-4) k(1)] least show ?thesis by blast
qed

definition demo_io :: guard_io where
  "demo_io =
     \<lparr>io_load_now = 100, io_now = 100, io_save_now = 100, io_lstat = LsMissing, io_state = FsMissing,
      io_config = FsMissing, io_write = WRenamed (Inr (100, 50)), io_range = rev, io_recorder = True\<rparr>"

definition demo_bans :: "banRec smap" where
  "demo_bans =
     [(''a'', \<lparr>br_until = 300, br_reason = ''rate''\<rparr>), (''b'', \<lparr>br_until = 200, br_reason = ''rate''\<rparr>),
      (''c'', \<lparr>br_until = 200, br_reason = ''handshake''\<rparr>)]"

lemma demo_io_fair: "fair_range demo_io"
  by (simp add: fair_range_def demo_io_def)

theorem evict_first_to_expire_witness:
  "\<exists>left. evict_loop demo_io 3 demo_bans = Some left \<and> length left = 2"
  using evict_first_to_expire [OF demo_io_fair, of 3 demo_bans]
  by (auto simp: demo_bans_def wf_map_def)

section \<open>The ban file\<close>

text \<open>What a ban needs to be accepted when the file is read at time \<open>t\<close>.\<close>

definition ban_entry_ok :: "golib \<Rightarrow> time \<Rightarrow> string \<times> banRec \<Rightarrow> bool" where
  "ban_entry_ok gl t e =
     (case e of (k, b) \<Rightarrow>
        stateKey gl k = Some k \<and> br_reason b \<in> {''handshake'', ''rate''} \<and> br_until b \<noteq> zero_time \<and>
        br_until b \<le> t + maxBanHorizon)"

definition to_stateBan :: "string \<times> banRec \<Rightarrow> stateBan" where
  "to_stateBan e = \<lparr>sb_Addr = fst e, sb_Until = br_until (snd e), sb_Reason = br_reason (snd e)\<rparr>"

lemma to_stateBan_sel [simp]:
  "sb_Addr (to_stateBan e) = fst e" "sb_Until (to_stateBan e) = br_until (snd e)"
  "sb_Reason (to_stateBan e) = br_reason (snd e)"
  by (simp_all add: to_stateBan_def)

lemma state_loop_lookup:
  assumes "distinct (map fst l)" and "list_all (ban_entry_ok gl t) l"
    and "\<forall>k \<in> fst ` set l. map_of out k = None"
  shows "\<exists>out'. state_loop gl t (map to_stateBan l) out = Inr out' \<and>
    (\<forall>k. map_of out' k = (case map_of l k of
        None \<Rightarrow> map_of out k
      | Some b \<Rightarrow> if br_until b > t then Some b else map_of out k))"
  using assms
proof (induction l arbitrary: out)
  case (Cons e l)
  obtain k b where e: "e = (k, b)" by (cases e)
  let ?out = "if br_until b > t then mput out k b else out"
  have ok: "stateKey gl k = Some k" "br_reason b = ''handshake'' \<or> br_reason b = ''rate''"
      "br_until b \<noteq> zero_time" "\<not> br_until b > t + maxBanHorizon" "map_of out k = None"
    using Cons.prems by (auto simp: e ban_entry_ok_def)
  have step: "state_loop gl t (map to_stateBan (e # l)) out = state_loop gl t (map to_stateBan l) ?out"
    using ok by (cases b) (auto simp: e to_stateBan_def)
  have "\<forall>k' \<in> fst ` set l. map_of ?out k' = None"
    using Cons.prems(1,3) by (auto simp: e rev_image_eqI)
  then obtain out' where out': "state_loop gl t (map to_stateBan l) ?out = Inr out'"
      "\<forall>k. map_of out' k = (case map_of l k of None \<Rightarrow> map_of ?out k
         | Some b \<Rightarrow> if br_until b > t then Some b else map_of ?out k)"
    using Cons.IH [of ?out] Cons.prems by auto
  have "map_of l k = None" using Cons.prems(1) by (simp add: e map_of_eq_None_iff)
  then have "map_of out' k' = (case map_of (e # l) k' of None \<Rightarrow> map_of out k'
      | Some b \<Rightarrow> if br_until b > t then Some b else map_of out k')" for k'
    using out'(2) ok(5) by (auto simp: e split: option.splits)
  then show ?case using step out'(1) by auto
qed simp

lemma marshal_entries:
  assumes "marshalStateLocked io s = Inr doc" and "fair_range io" and "wf_map (sv_bans s)"
  obtains l where "doc = \<lparr>sf_V = stateVersion, sf_Bans = map to_stateBan l\<rparr>" and "distinct (map fst l)"
    and "set l = {(k, b). (k, b) \<in> set (sv_bans s) \<and> br_until b > io_save_now io}"
proof -
  let ?act = "filter (\<lambda>(addr, b). br_until b > io_save_now io) (range_map io (sv_bans s))"
  let ?keys = "sort (map fst ?act)"
  let ?l = "List.map_filter (\<lambda>k. map_option (Pair k) (mget (sv_bans s) k)) ?keys"
  have "distinct (io_range io (map fst (sv_bans s)))"
    using assms(2,3) by (simp add: fair_range_def wf_map_def)
  then have "distinct (map fst (range_map io (sv_bans s)))"
    by (auto simp: range_map_def List.map_filter_def comp_def distinct_map inj_on_def)
  then have dk: "distinct ?keys" by (simp add: distinct_map_filter)
  have rng: "set (range_map io (sv_bans s)) = set (sv_bans s)" by (rule range_map_set [OF assms(2,3)])
  have mem: "(k, b) \<in> set ?l \<longleftrightarrow> k \<in> set ?keys \<and> map_of (sv_bans s) k = Some b" for k b
    by (force simp: List.map_filter_def)
  have keys: "k \<in> set ?keys \<longleftrightarrow> (\<exists>b. (k, b) \<in> set (sv_bans s) \<and> br_until b > io_save_now io)" for k
    using rng by (force simp: image_iff)
  have "(k, b) \<in> set ?l \<longleftrightarrow> (k, b) \<in> set (sv_bans s) \<and> br_until b > io_save_now io" for k b
    unfolding mem keys using assms(3)
    by (auto simp: wf_map_def dest: map_of_SomeD eq_key_imp_eq_value)
  then have "set ?l = {(k, b). (k, b) \<in> set (sv_bans s) \<and> br_until b > io_save_now io}" by auto
  moreover have "distinct (map fst ?l)"
    using dk by (auto simp: List.map_filter_def comp_def distinct_map inj_on_def)
  moreover have "doc = \<lparr>sf_V = stateVersion, sf_Bans = map to_stateBan ?l\<rparr>"
    using assms(1)
    by (auto simp: marshalStateLocked_def Let_def List.map_filter_def to_stateBan_def comp_def
        split: if_splits)
  ultimately show ?thesis using that by blast
qed

lemma parse_published:
  assumes "persistLocked io s = (s', None, Some doc)"
    and "fair_range io" and "wf_map (sv_bans s)" and "list_all (ban_entry_ok gl t) (sv_bans s)"
    and "io_save_now io \<le> t"
  shows "\<exists>bans. parseState gl t (StDoc doc RestEOF) = Inr bans \<and>
    (\<forall>k. mget bans k = (case mget (sv_bans s) k of
        None \<Rightarrow> None
      | Some b \<Rightarrow> if br_until b > t then Some b else None))"
proof -
  have m: "marshalStateLocked io s = Inr doc"
    using assms(1) by (auto simp: persistLocked_def split: if_splits sum.splits write_result.splits)
  obtain l where l: "doc = \<lparr>sf_V = stateVersion, sf_Bans = map to_stateBan l\<rparr>" "distinct (map fst l)"
      "set l = {(k, b). (k, b) \<in> set (sv_bans s) \<and> br_until b > io_save_now io}"
    using marshal_entries [OF m assms(2,3)] .
  have "list_all (ban_entry_ok gl t) l" using assms(4) l(3) by (auto simp: list_all_iff)
  then obtain bans where bans: "state_loop gl t (map to_stateBan l) [] = Inr bans"
      "\<forall>k. map_of bans k = (case map_of l k of None \<Rightarrow> None | Some b \<Rightarrow> if br_until b > t then Some b else None)"
    using state_loop_lookup [OF l(2), of gl t "[]", unfolded map_of.simps(1)] by auto
  have "map_of l k = Some b \<longleftrightarrow> map_of (sv_bans s) k = Some b \<and> br_until b > io_save_now io" for k b
    using l(2,3) assms(3) by (auto simp: wf_map_def)
  then have "map_of bans k = (case mget (sv_bans s) k of None \<Rightarrow> None
      | Some b \<Rightarrow> if br_until b > t then Some b else None)" for k
    using bans(2) assms(5) by (cases "map_of l k"; cases "map_of (sv_bans s) k") force+
  then show ?thesis using bans(1) l(1) by (simp add: parseState_def)
qed

definition demo_key :: string where
  "demo_key = gl_String4 bits_lib 0x0A000001"

definition demo_service :: service where
  "demo_service =
     default_service
       \<lparr>sv_configured := True, sv_statePath := ''/var/lib/adssh/guard.json'',
        sv_bans := [(demo_key, \<lparr>br_until = 300, br_reason = ''rate''\<rparr>)]\<rparr>"

lemma demo_key_state: "stateKey bits_lib demo_key = Some demo_key"
  by code_simp

section \<open>Reachable jails\<close>

datatype guard_op =
    GConfigure options
  | GAdmit string
  | GHandshake string bool
  | GUnban string
  | GReload
  | GStatus

definition guard_exec :: "golib \<Rightarrow> guard_io \<Rightarrow> guard_op \<Rightarrow> service option \<Rightarrow> service option option" where
  "guard_exec gl io op svc =
     (case op of
        GConfigure opt \<Rightarrow> Some (Some (fst (Configure gl io opt)))
      | GAdmit addr \<Rightarrow> map_option fst (Admit gl io addr svc)
      | GHandshake addr ok \<Rightarrow> map_option fst (NoteHandshake gl io addr ok svc)
      | GUnban addr \<Rightarrow> Some (fst (Unban gl io addr svc))
      | GReload \<Rightarrow> Some (fst (Reload gl io svc))
      | GStatus \<Rightarrow> Some (fst (guard_Status gl io svc)))"

text \<open>The jails a process can reach when what each operation observes satisfies \<open>P\<close>.\<close>

inductive guard_reach :: "golib \<Rightarrow> (guard_io \<Rightarrow> bool) \<Rightarrow> service option \<Rightarrow> bool" for gl P where
  start: "guard_reach gl P None"
| step: "guard_reach gl P svc \<Longrightarrow> fair_range io \<Longrightarrow> P io \<Longrightarrow> guard_exec gl io op svc = Some svc' \<Longrightarrow> guard_reach gl P svc'"

definition peers_ok :: "peerState smap \<Rightarrow> bool" where
  "peers_ok ps \<longleftrightarrow>
     wf_map ps \<and> int (length ps) \<le> 400000 \<and>
     (\<forall>(k, p) \<in> set ps. length (ps_strikes p) \<le> 100 \<and> length (ps_rates p) \<le> 10000)"

definition guard_inv :: "service \<Rightarrow> bool" where
  "guard_inv s \<longleftrightarrow> wf_config (sv_cfg s) \<and> wf_map (sv_bans s) \<and> peers_ok (sv_peers s)"

lemma peers_ok_Nil [simp]: "peers_ok []"
  by (simp add: peers_ok_def)

lemma peers_ok_filter: "peers_ok ps \<Longrightarrow> peers_ok (filter P ps)"
  by (auto simp: peers_ok_def wf_map_filter intro: order_trans [OF length_filter_le])

lemma peers_ok_delete: "peers_ok ps \<Longrightarrow> peers_ok (mdel ps k)"
  by (auto simp: peers_ok_def wf_map_delete length_delete set_delete)

lemma set_update_cases: "wf_map m \<Longrightarrow> e \<in> set (mput m k v) \<Longrightarrow> e = (k, v) \<or> e \<in> set m"
proof -
  assume m: "wf_map m" "e \<in> set (mput m k v)"
  then have "map_of (mput m k v) (fst e) = Some (snd e)"
    using wf_map_update [of m k v] by (cases e) (simp add: wf_map_def del: map_of_update)
  then show ?thesis
    by (cases e) (auto split: if_splits dest: map_of_SomeD)
qed

lemma peers_ok_update:
  assumes "peers_ok ps" and "length (ps_strikes p) \<le> 100" and "length (ps_rates p) \<le> 10000"
    and "map_of ps k \<noteq> None \<or> int (length ps) < 400000"
  shows "peers_ok (mput ps k p)"
  using assms set_update_cases [of ps _ k p]
  by (fastforce simp: peers_ok_def wf_map_update length_update)

lemma peers_ok_forget: "peers_ok ps \<Longrightarrow> peers_ok (forget_peers old new ps)"
  unfolding forget_peers_def
  by (induction old arbitrary: ps) (auto simp: peers_ok_delete)

lemma appendWindow_length: "0 < cap \<Longrightarrow> cap \<le> m \<Longrightarrow> int (length (appendWindow xs t w cap)) \<le> m"
  by (simp add: appendWindow_last_n)

lemma victim_loop_mem:
  "es \<noteq> [] \<Longrightarrow> v = '''' \<or> v \<in> K \<Longrightarrow> fst ` set es \<subseteq> K \<Longrightarrow> victim_loop idle es v n \<in> K"
proof (induction idle es v n rule: victim_loop.induct)
  case (2 idle k other rest v n)
  show ?case
  proof (cases rest)
    case Nil
    then show ?thesis using "2.prems" by (auto simp: Let_def)
  next
    case (Cons e es)
    then show ?thesis using "2.IH" [of "if v = '''' then k else v"] "2.prems" by (auto simp: Let_def)
  qed
qed simp

lemma peerCap_bound: "wf_config (sv_cfg s) \<Longrightarrow> 1024 \<le> peerCapLocked s \<and> peerCapLocked s \<le> 400000"
  by (auto simp: peerCapLocked_def wf_config_def peersPerBan_def minPeerCap_def Let_def)

lemma peerLocked_ok:
  assumes "fair_range io" and "guard_inv s" and "peerLocked io key t s = (s', p)"
  shows "\<exists>ps. s' = s\<lparr>sv_peers := ps\<rparr> \<and> peers_ok ps \<and> map_of ps key = Some p \<and>
    length (ps_strikes p) \<le> 100 \<and> length (ps_rates p) \<le> 10000"
proof (cases "map_of (sv_peers s) key")
  case None
  let ?ps = "if int (length (sv_peers s)) \<ge> peerCapLocked s
    then mdel (sv_peers s) (victim_loop (\<lambda>p. peerIdle s p t) (range_map io (sv_peers s)) '''' 0) else sv_peers s"
  have wf: "wf_map (sv_peers s)" and ok: "peers_ok (sv_peers s)"
    using assms(2) by (auto simp: guard_inv_def peers_ok_def)
  have cap: "1024 \<le> peerCapLocked s" "peerCapLocked s \<le> 400000"
    using peerCap_bound assms(2) by (auto simp: guard_inv_def)
  have "int (length ?ps) < 400000"
  proof (cases "int (length (sv_peers s)) \<ge> peerCapLocked s")
    case True
    let ?v = "victim_loop (\<lambda>p. peerIdle s p t) (range_map io (sv_peers s)) '''' 0"
    have "set (range_map io (sv_peers s)) = set (sv_peers s)" by (rule range_map_set [OF assms(1) wf])
    then have "?v \<in> fst ` set (sv_peers s)"
      using True cap by (intro victim_loop_mem) auto
    then have "map_of (sv_peers s) ?v \<noteq> None" by (simp add: map_of_eq_None_iff)
    then show ?thesis using True ok cap by (auto simp: length_delete [OF wf] peers_ok_def)
  qed (use cap in simp)
  moreover have "peers_ok ?ps" using ok by (simp add: peers_ok_delete)
  ultimately show ?thesis
    using assms(3) None by (auto simp: peerLocked_def Let_def intro!: peers_ok_update)
next
  case (Some q)
  then have "(key, q) \<in> set (sv_peers s)" by (rule map_of_SomeD)
  then show ?thesis
    using assms(2,3) Some by (auto simp: peerLocked_def guard_inv_def peers_ok_def intro!: exI [of _ "sv_peers s"])
qed

lemma state_loop_wf: "wf_map out \<Longrightarrow> state_loop gl t bs out = Inr out' \<Longrightarrow> wf_map out'"
  by (induction gl t bs out rule: state_loop.induct)
     (auto simp: wf_map_update split: option.splits if_splits)

lemma parseState_wf: "parseState gl t d = Inr bans \<Longrightarrow> wf_map bans"
  by (auto simp: parseState_def intro: state_loop_wf [of "[]"] split: state_doc.splits doc_rest.splits if_splits)

lemma loadState_wf: "loadState gl io = Inr (bans, meta) \<Longrightarrow> wf_map bans"
  by (auto simp: loadState_def dest: parseState_wf split: sum.splits prod.splits)

lemma loadOptionalState_wf: "loadOptionalState gl io = Inr (bans, meta) \<Longrightarrow> wf_map bans"
  by (auto simp: loadOptionalState_def dest: loadState_wf split: sum.splits guard_err.splits file_err.splits)

lemma adopt_state_inv: "guard_inv s \<Longrightarrow> wf_map bans \<Longrightarrow> guard_inv (adopt_state bans meta s)"
  by (simp add: guard_inv_def adopt_state_def peers_ok_forget)

lemma guard_inv_tripped [simp]: "guard_inv (s\<lparr>sv_tripped := e\<rparr>) = guard_inv s"
  by (simp add: guard_inv_def)

lemma refreshLocked_inv: "guard_inv s \<Longrightarrow> refreshLocked gl io s = (s', e) \<Longrightarrow> guard_inv s'"
  by (auto simp: refreshLocked_def trip_def dest: loadState_wf intro!: adopt_state_inv
      split: if_splits lstat_result.splits sum.splits)

lemma sweepLocked_inv: "guard_inv s \<Longrightarrow> guard_inv (sweepLocked t s)"
  by (simp add: guard_inv_def sweepLocked_def Let_def wf_map_filter peers_ok_filter)

lemma persistLocked_frame:
  "persistLocked io s = (s', e, d) \<Longrightarrow>
   sv_cfg s' = sv_cfg s \<and> sv_bans s' = sv_bans s \<and> sv_peers s' = sv_peers s \<and> sv_tripped s' = sv_tripped s \<and>
   sv_forceOff s' = sv_forceOff s \<and> sv_statePath s' = sv_statePath s"
  by (auto simp: persistLocked_def split: if_splits sum.splits write_result.splits)

lemma applyBanLocked_frame:
  assumes "applyBanLocked io key reason t s = (s', evs)"
  shows "sv_cfg s' = sv_cfg s" "sv_peers s' = sv_peers s" "sv_forceOff s' = sv_forceOff s"
    "sv_bans s' = mput (sv_bans s) key \<lparr>br_until = t + cfg_banTime (sv_cfg s), br_reason = reason\<rparr>"
  using assms by (auto simp: applyBanLocked_def Let_def dest!: persistLocked_frame split: prod.splits option.splits)

lemma applyBanLocked_inv: "guard_inv s \<Longrightarrow> applyBanLocked io key reason t s = (s', evs) \<Longrightarrow> guard_inv s'"
  using applyBanLocked_frame [of io key reason t s s' evs] by (simp add: guard_inv_def wf_map_update)

lemma oldest_step_mem: "fst (oldest_step acc e) \<in> {fst acc, fst e}"
  by (auto simp: oldest_step_def split: prod.splits)

lemma foldl_oldest_mem: "fst (foldl oldest_step acc es) \<in> insert (fst acc) (fst ` set es)"
proof (induction es arbitrary: acc)
  case (Cons e es)
  have "fst (foldl oldest_step (oldest_step acc e) es) \<in> insert (fst (oldest_step acc e)) (fst ` set es)"
    by (rule Cons.IH)
  then show ?case using oldest_step_mem [of acc e] by auto
qed simp

lemma oldest_ban_mem: "es \<noteq> [] \<Longrightarrow> oldest_ban es \<in> fst ` set es"
  using foldl_oldest_mem [of "oldest_step ('''', zero_time) (hd es)" "tl es"]
  by (cases es) (auto simp: oldest_ban_def oldest_step_def split: prod.splits)

lemma evict_loop_returns:
  assumes "fair_range io" and "1 \<le> n"
  shows "wf_map bans \<Longrightarrow> \<exists>left. evict_loop io n bans = Some left \<and> wf_map left \<and> int (length left) < n \<and> set left \<subseteq> set bans"
proof (induction "length bans" arbitrary: bans)
  case 0
  then show ?case using assms(2) by (auto simp: evict_loop.simps [of io n "[]"])
next
  case (Suc m)
  let ?d = "mdel bans (oldest_ban (range_map io bans))"
  have "set (range_map io bans) = set bans" by (rule range_map_set [OF assms(1) Suc.prems])
  moreover have "bans \<noteq> []" using Suc.hyps(2) by auto
  ultimately have "oldest_ban (range_map io bans) \<in> fst ` set bans"
    using oldest_ban_mem [of "range_map io bans"] by (metis set_empty)
  then have "m = length ?d" using Suc.hyps(2) by (simp add: length_delete [OF Suc.prems] map_of_eq_None_iff)
  then show ?case
    using Suc.hyps(1) [of ?d] Suc.prems set_delete_sub [of "oldest_ban (range_map io bans)" bans]
    by (subst (1) evict_loop.simps) (auto simp: wf_map_delete)
qed

lemma roomForBanLocked_returns:
  assumes "fair_range io" and "guard_inv s"
  shows "\<exists>bans room. roomForBanLocked io key s = Some (s\<lparr>sv_bans := bans\<rparr>, room) \<and> wf_map bans \<and> set bans \<subseteq> set (sv_bans s) \<and>
    (room \<longrightarrow> map_of bans key \<noteq> None \<or> int (length bans) < cfg_maxEntries (sv_cfg s))"
proof -
  have n: "1 \<le> cfg_maxEntries (sv_cfg s)" and wf: "wf_map (sv_bans s)"
    using assms(2) by (auto simp: guard_inv_def dest: wf_config_bounds)
  obtain left where "evict_loop io (cfg_maxEntries (sv_cfg s)) (sv_bans s) = Some left" "wf_map left"
      "int (length left) < cfg_maxEntries (sv_cfg s)" "set left \<subseteq> set (sv_bans s)"
    using evict_loop_returns [OF assms(1) n wf] by blast
  note left = this
  consider (fits) "map_of (sv_bans s) key \<noteq> None \<or> int (length (sv_bans s)) < cfg_maxEntries (sv_cfg s)"
    | (refuse) "\<not> (map_of (sv_bans s) key \<noteq> None \<or> int (length (sv_bans s)) < cfg_maxEntries (sv_cfg s))"
        "cfg_tableFull (sv_cfg s) = tableFullRefuse"
    | (evict) "\<not> (map_of (sv_bans s) key \<noteq> None \<or> int (length (sv_bans s)) < cfg_maxEntries (sv_cfg s))"
        "cfg_tableFull (sv_cfg s) \<noteq> tableFullRefuse" by blast
  then show ?thesis
  proof cases
    case fits
    then show ?thesis using wf unfolding roomForBanLocked_def
      by (intro exI [of _ "sv_bans s"] exI [of _ True]) simp
  next
    case refuse
    then show ?thesis using wf unfolding roomForBanLocked_def
      by (intro exI [of _ "sv_bans s"] exI [of _ False]) simp
  next
    case evict
    then show ?thesis using left unfolding roomForBanLocked_def
      by (intro exI [of _ left] exI [of _ True]) simp
  qed
qed

lemma guard_inv_update:
  "guard_inv s \<Longrightarrow> wf_map bans \<Longrightarrow> guard_inv (s\<lparr>sv_bans := bans\<rparr>)"
  "guard_inv s \<Longrightarrow> peers_ok ps \<Longrightarrow> guard_inv (s\<lparr>sv_peers := ps\<rparr>)"
  by (simp_all add: guard_inv_def)

text \<open>Recording a sample for a peer, the step shared by the two counters.\<close>

lemma note_sample_inv:
  assumes "fair_range io" and "guard_inv s" and "peerLocked io key t s = (s1, p)"
    and "length (ps_strikes q) \<le> max 100 (length (ps_strikes p))" and "length (ps_rates q) \<le> max 10000 (length (ps_rates p))"
  shows "guard_inv (s1\<lparr>sv_peers := mput (sv_peers s1) key q\<rparr>)" and "sv_cfg s1 = sv_cfg s" and "sv_bans s1 = sv_bans s"
proof -
  obtain ps where "s1 = s\<lparr>sv_peers := ps\<rparr>" "peers_ok ps" "map_of ps key = Some p"
      "length (ps_strikes p) \<le> 100" "length (ps_rates p) \<le> 10000"
    using peerLocked_ok [OF assms(1-3)] by blast
  then show "guard_inv (s1\<lparr>sv_peers := mput (sv_peers s1) key q\<rparr>)" "sv_cfg s1 = sv_cfg s" "sv_bans s1 = sv_bans s"
    using assms(2,4,5) by (auto intro!: guard_inv_update peers_ok_update)
qed

lemma noteRateLocked_returns:
  assumes "fair_range io" and "guard_inv s"
  shows "\<exists>s' evs banned. noteRateLocked io key t s = Some (s', evs, banned) \<and> guard_inv s'"
proof -
  obtain s1 p where p: "peerLocked io key t s = (s1, p)" by fastforce
  define q where "q = p\<lparr>ps_rates := appendWindow (ps_rates p) t (cfg_rateWindow (sv_cfg s1)) (cfg_rateLimit (sv_cfg s1))\<rparr>"
  define s2 where "s2 = s1\<lparr>sv_peers := mput (sv_peers s1) key q\<rparr>"
  have cfg: "wf_config (sv_cfg s)" using assms(2) by (simp add: guard_inv_def)
  have "sv_cfg s1 = sv_cfg s" using peerLocked_ok [OF assms p] by auto
  then have "length (ps_rates q) \<le> 10000"
    using wf_config_bounds(9,10) [OF cfg]
      appendWindow_length [of "cfg_rateLimit (sv_cfg s)" 10000 "ps_rates p" t "cfg_rateWindow (sv_cfg s)"]
    by (simp add: q_def)
  then have inv2: "guard_inv s2"
    unfolding s2_def by (intro note_sample_inv(1) [OF assms p]) (auto simp: q_def)
  obtain bans room where room: "roomForBanLocked io key s2 = Some (s2\<lparr>sv_bans := bans\<rparr>, room)" "wf_map bans"
    using roomForBanLocked_returns [OF assms(1) inv2] by blast
  obtain s3 evs where ban: "applyBanLocked io key ''rate'' t (s2\<lparr>sv_bans := bans\<rparr>) = (s3, evs)" by fastforce
  have inv3: "guard_inv (s2\<lparr>sv_bans := bans\<rparr>)" by (rule guard_inv_update(1) [OF inv2 room(2)])
  then have "guard_inv s3" using applyBanLocked_inv ban by blast
  then show ?thesis
    using p room ban inv2 inv3
    by (simp add: noteRateLocked_def Let_def flip: q_def s2_def) blast
qed

lemma noteHandshakeLocked_returns:
  assumes "fair_range io" and "guard_inv s"
  shows "\<exists>s' evs. noteHandshakeLocked gl io addr s = Some (s', evs) \<and> guard_inv s'"
proof -
  obtain r e where r: "refreshLocked gl io s = (r, e)" by fastforce
  define t where "t = io_now io"
  have invr: "guard_inv (sweepLocked t r)" "guard_inv r"
    using refreshLocked_inv [OF assms(2) r] by (simp_all add: sweepLocked_inv)
  have core: "\<exists>s' evs. (case peerLocked io key t (sweepLocked t r) of (s, p) \<Rightarrow>
      let p = p\<lparr>ps_strikes := appendWindow (ps_strikes p) t (cfg_findTime (sv_cfg s)) (cfg_maxRetry (sv_cfg s))\<rparr>;
          s = s\<lparr>sv_peers := mput (sv_peers s) key p\<rparr>
      in if int (length (ps_strikes p)) < cfg_maxRetry (sv_cfg s) then Some (s, [])
         else case roomForBanLocked io key s of None \<Rightarrow> None
           | Some (s, room) \<Rightarrow> if \<not> room then Some (s, []) else Some (applyBanLocked io key ''handshake'' t s))
      = Some (s', evs) \<and> guard_inv s'" for key
  proof -
    obtain s1 p where p: "peerLocked io key t (sweepLocked t r) = (s1, p)" by fastforce
    define q where "q = p\<lparr>ps_strikes := appendWindow (ps_strikes p) t (cfg_findTime (sv_cfg s1)) (cfg_maxRetry (sv_cfg s1))\<rparr>"
    define s2 where "s2 = s1\<lparr>sv_peers := mput (sv_peers s1) key q\<rparr>"
    have cfg: "wf_config (sv_cfg s1)"
      using peerLocked_ok [OF assms(1) invr(1) p] invr(1) by (auto simp: guard_inv_def)
    then have "length (ps_strikes q) \<le> 100"
      using wf_config_bounds(7,8) [OF cfg]
        appendWindow_length [of "cfg_maxRetry (sv_cfg s1)" 100 "ps_strikes p" t "cfg_findTime (sv_cfg s1)"]
      by (simp add: q_def)
    then have inv2: "guard_inv s2"
      unfolding s2_def by (intro note_sample_inv(1) [OF assms(1) invr(1) p]) (auto simp: q_def)
    obtain bans room where room: "roomForBanLocked io key s2 = Some (s2\<lparr>sv_bans := bans\<rparr>, room)" "wf_map bans"
      using roomForBanLocked_returns [OF assms(1) inv2] by blast
    obtain s3 evs where ban: "applyBanLocked io key ''handshake'' t (s2\<lparr>sv_bans := bans\<rparr>) = (s3, evs)" by fastforce
    have inv3: "guard_inv (s2\<lparr>sv_bans := bans\<rparr>)" by (rule guard_inv_update(1) [OF inv2 room(2)])
    then have "guard_inv s3" using applyBanLocked_inv ban by blast
    then show ?thesis
      using p room ban inv2 inv3 by (simp add: Let_def flip: q_def s2_def)
  qed
  then show ?thesis
    using r invr assms(2)
    by (auto simp: noteHandshakeLocked_def t_def [symmetric] Let_def split: option.splits)
qed

lemma admitLocked_returns:
  assumes "fair_range io" and "guard_inv s"
  shows "\<exists>s' d evs. admitLocked gl io addr s = Some (s', d, evs) \<and> guard_inv s'"
proof -
  obtain r e where r: "refreshLocked gl io s = (r, e)" by fastforce
  have invr: "guard_inv (sweepLocked t r)" "guard_inv r" for t
    using refreshLocked_inv [OF assms(2) r] by (simp_all add: sweepLocked_inv)
  define t where "t = io_now io"
  show ?thesis
  proof (cases "sv_forceOff s \<or> \<not> cfg_enabled (sv_cfg s) \<or> parsePeer gl addr = None")
    case True
    then show ?thesis using assms(2) by (auto simp: admitLocked_def)
  next
    case False
    then obtain c ip where ip: "parsePeer gl addr = Some (c, ip)" by auto
    obtain s' evs banned where "noteRateLocked io (keyLocked gl s ip) t (sweepLocked t r) = Some (s', evs, banned)" "guard_inv s'"
      using noteRateLocked_returns [OF assms(1) invr(1) [of t]] by blast
    then show ?thesis
      using False ip r invr(1) [of t] invr(2) assms(2)
      by (cases e; cases "bannedLocked gl (sweepLocked t r) (keyLocked gl s ip) ip t")
         (auto simp: admitLocked_def Let_def simp flip: t_def)
  qed
qed

lemma unbanLocked_inv: "guard_inv s \<Longrightarrow> unbanLocked gl io key s = (s', evs, e) \<Longrightarrow> guard_inv s'"
proof -
  assume s: "guard_inv s" and u: "unbanLocked gl io key s = (s', evs, e)"
  obtain r e' where r: "refreshLocked gl io s = (r, e')" by fastforce
  define w where "w = sweepLocked (io_now io) r"
  have inv: "guard_inv r" "guard_inv w"
    using refreshLocked_inv [OF s r] by (simp_all add: w_def sweepLocked_inv)
  obtain w' pe d where p: "persistLocked io (w\<lparr>sv_bans := filter (\<lambda>(k, v). k \<noteq> key) (sv_bans w)\<rparr>) = (w', pe, d)"
    by (cases "persistLocked io (w\<lparr>sv_bans := filter (\<lambda>(k, v). k \<noteq> key) (sv_bans w)\<rparr>)")
  have "guard_inv (w'\<lparr>sv_bans := sv_bans w\<rparr>)" "guard_inv (w'\<lparr>sv_peers := mdel (sv_peers w') key\<rparr>)"
    using persistLocked_frame [OF p] inv(2) by (simp_all add: guard_inv_def wf_map_filter peers_ok_delete)
  then show ?thesis
    using u s r inv p
    by (auto simp: unbanLocked_def Let_def simp flip: w_def split: if_splits option.splits)
qed

lemma reloadLocked_inv: "guard_inv s \<Longrightarrow> reloadLocked gl io s = (s', evs, e) \<Longrightarrow> guard_inv s'"
proof -
  assume s: "guard_inv s" and u: "reloadLocked gl io s = (s', evs, e)"
  show ?thesis
  proof (cases "loadConfig gl (sv_configPath s) (io_config io)")
    case (Inl c)
    then show ?thesis using s u by (auto simp: reloadLocked_def split: if_splits)
  next
    case (Inr cfg)
    define c1 where "c1 = (if sv_forceOn s then cfg\<lparr>cfg_enabled := True\<rparr> else cfg)"
    define s1 where "s1 = s\<lparr>sv_cfg := c1, sv_stateMtime := zero_time, sv_stateSize := - 1\<rparr>"
    have "wf_config c1"
      using loadConfig_wf [OF Inr] by (simp add: c1_def wf_config_update(1))
    then have inv1: "guard_inv s1" using s by (simp add: s1_def guard_inv_def)
    moreover have "guard_inv (s1\<lparr>sv_bans := [], sv_peers := [], sv_tripped := None\<rparr>)"
      using inv1 by (simp add: guard_inv_def)
    moreover have "guard_inv (adopt_state bans meta s1)" if "loadState gl io = Inr (bans, meta)" for bans meta
      by (rule adopt_state_inv [OF inv1 loadState_wf [OF that]])
    ultimately show ?thesis
      using u Inr s
      by (auto simp: reloadLocked_def Let_def trip_def simp flip: c1_def s1_def
          split: if_splits lstat_result.splits sum.splits)
  qed
qed

lemma newService_inv: "wf_config cfg \<Longrightarrow> guard_inv (newService opt cfg off on e)"
  by (simp add: guard_inv_def newService_def)

lemma Configure_inv: "guard_inv (fst (Configure gl io opt))"
proof -
  have 1: "guard_inv ((newService opt cfg off on e)\<lparr>sv_bans := bans, sv_sawState := a, sv_stateMtime := b, sv_stateSize := c\<rparr>)"
    if "wf_config cfg" "wf_map bans" for cfg off on e bans a b c
    using that by (simp add: guard_inv_def newService_def)
  show ?thesis
    by (auto simp: Configure_def Let_def defaultConfig_wf wf_config_update(1) intro!: newService_inv 1
        dest: loadConfig_wf loadOptionalState_wf split: option.splits prod.splits sum.splits)
qed

lemma guard_current_inv: "(case svc of None \<Rightarrow> True | Some s \<Rightarrow> guard_inv s) \<Longrightarrow> guard_inv (guard_current svc)"
  by (auto simp: guard_current_def default_service_def guard_inv_def defaultConfig_wf split: option.splits)

definition svc_inv :: "service option \<Rightarrow> bool" where
  "svc_inv svc = (case svc of None \<Rightarrow> True | Some s \<Rightarrow> guard_inv s)"

lemma guard_exec_inv:
  assumes "svc_inv svc" and "fair_range io"
  shows "\<exists>svc'. guard_exec gl io op svc = Some svc' \<and> svc_inv svc'"
proof -
  have cur: "guard_inv (guard_current svc)" using assms(1) guard_current_inv by (simp add: svc_inv_def)
  show ?thesis
  proof (cases op)
    case (GConfigure opt)
    then show ?thesis using Configure_inv by (simp add: guard_exec_def svc_inv_def)
  next
    case (GAdmit addr)
    then show ?thesis using admitLocked_returns [OF assms(2) cur, of gl addr]
      by (auto simp: guard_exec_def Admit_def svc_inv_def)
  next
    case (GHandshake addr ok)
    then show ?thesis using noteHandshakeLocked_returns [OF assms(2) cur, of gl addr] assms(1)
      by (cases ok) (auto simp: guard_exec_def NoteHandshake_def svc_inv_def)
  next
    case (GUnban addr)
    have "svc_inv (fst (Unban gl io addr svc))"
    proof (cases svc)
      case None
      then show ?thesis by (simp add: Unban_def svc_inv_def split: option.split)
    next
      case (Some s)
      then have "guard_inv (fst (unbanLocked gl io key s))" for key
        using assms(1) unbanLocked_inv by (metis prod.collapse svc_inv_def option.simps(5))
      then show ?thesis using assms(1) Some
        by (simp add: Unban_def svc_inv_def Let_def split_beta split: option.split)
    qed
    then show ?thesis by (simp add: GUnban guard_exec_def)
  next
    case GReload
    have "svc_inv (fst (Reload gl io svc))"
    proof (cases svc)
      case None
      then show ?thesis by (simp add: Reload_def svc_inv_def)
    next
      case (Some s)
      obtain s' evs e where r: "reloadLocked gl io s = (s', evs, e)" by (cases "reloadLocked gl io s")
      then have "guard_inv s'" using assms(1) Some by (intro reloadLocked_inv [OF _ r]) (simp add: svc_inv_def)
      then show ?thesis by (simp add: Some r Reload_def svc_inv_def)
    qed
    then show ?thesis by (simp add: GReload guard_exec_def)
  next
    case GStatus
    have "svc_inv (fst (guard_Status gl io svc))"
    proof (cases svc)
      case None
      then show ?thesis by (simp add: guard_Status_def svc_inv_def)
    next
      case (Some s)
      obtain r e where r: "refreshLocked gl io s = (r, e)" by fastforce
      then have "guard_inv s" "guard_inv r" "guard_inv (sweepLocked (io_now io) r)"
        using assms(1) Some refreshLocked_inv by (auto simp: svc_inv_def intro: sweepLocked_inv)
      then show ?thesis
        by (simp add: Some r guard_Status_def svc_inv_def Let_def split: option.split)
    qed
    then show ?thesis by (simp add: GStatus guard_exec_def)
  qed
qed

lemma reach_inv: "guard_reach gl P svc \<Longrightarrow> svc_inv svc"
proof (induction rule: guard_reach.induct)
  case start
  show ?case by (simp add: svc_inv_def)
next
  case (step svc io op svc')
  then show ?case using guard_exec_inv [of svc io gl op] by auto
qed

section \<open>What the ban table holds\<close>

text \<open>
  At most \<open>n\<close> bans, or as many as a configuration may allow, all of them with the property \<open>Q\<close>; and the
  observations that keep it: a ban file with at most \<open>n\<close> entries, whose bans have the property, and a clock at
  which a new ban has it.
\<close>

definition bans_kept :: "(string \<times> banRec \<Rightarrow> bool) \<Rightarrow> nat \<Rightarrow> banRec smap \<Rightarrow> bool" where
  "bans_kept Q n bans \<longleftrightarrow> int (length bans) \<le> max (int n) 100000 \<and> (\<forall>e \<in> set bans. Q e)"

definition feeds :: "(string \<times> banRec \<Rightarrow> bool) \<Rightarrow> nat \<Rightarrow> golib \<Rightarrow> guard_io \<Rightarrow> bool" where
  "feeds Q n gl io \<longleftrightarrow>
     (\<forall>bans meta. loadState gl io = Inr (bans, meta) \<longrightarrow> bans_kept Q n bans) \<and>
     (\<forall>ip p d reason. 32 \<le> p \<longrightarrow> p \<le> 128 \<longrightarrow> second \<le> d \<longrightarrow> d \<le> 8760 * hour \<longrightarrow> reason \<in> {''handshake'', ''rate''} \<longrightarrow>
        Q (peerKey gl ip p, \<lparr>br_until = io_now io + d, br_reason = reason\<rparr>))"

lemma kept_Nil [simp]: "bans_kept Q n []"
  by (simp add: bans_kept_def)

lemma kept_sub:
  assumes "bans_kept Q n bans" "set bans' \<subseteq> set bans" "wf_map bans'"
  shows "bans_kept Q n bans'"
proof -
  have "distinct bans'" using assms(3) by (simp add: wf_map_def distinct_map)
  then have "length bans' = card (set bans')" by (simp add: distinct_card)
  also have "\<dots> \<le> card (set bans)" by (rule card_mono) (use assms(2) in simp_all)
  also have "\<dots> \<le> length bans" by (rule card_length)
  finally show ?thesis using assms(1,2) unfolding bans_kept_def by fastforce
qed

lemma sweep_kept: "bans_kept Q n (sv_bans s) \<Longrightarrow> bans_kept Q n (sv_bans (sweepLocked t s))"
  by (auto simp: bans_kept_def sweepLocked_def Let_def intro: order_trans [OF of_nat_mono [OF length_filter_le]])

lemma sweep_cfg [simp]: "sv_cfg (sweepLocked t s) = sv_cfg s"
  by (simp add: sweepLocked_def Let_def)

lemma refresh_kept:
  assumes "refreshLocked gl io s = (s', e)" "bans_kept Q n (sv_bans s)" "feeds Q n gl io"
  shows "bans_kept Q n (sv_bans s') \<and> sv_cfg s' = sv_cfg s"
  using assms by (auto simp: refreshLocked_def trip_def adopt_state_def feeds_def split: if_splits lstat_result.splits sum.splits)

text \<open>A key that a new ban may take, at the time of the operation.\<close>

definition peer_key :: "golib \<Rightarrow> string \<Rightarrow> bool" where
  "peer_key gl key \<longleftrightarrow> (\<exists>ip p. key = peerKey gl ip p \<and> 32 \<le> p \<and> p \<le> 128)"

lemma keyLocked_peer: "wf_config (sv_cfg s) \<Longrightarrow> peer_key gl (keyLocked gl s ip)"
  unfolding peer_key_def keyLocked_def using wf_config_bounds(14,15) by blast

lemma ban_kept:
  assumes "fair_range io" "guard_inv s" "bans_kept Q n (sv_bans s)" "feeds Q n gl io" "peer_key gl key"
    and "roomForBanLocked io key s = Some (s1, room)"
  shows "bans_kept Q n (sv_bans s1) \<and>
    (room \<longrightarrow> reason \<in> {''handshake'', ''rate''} \<longrightarrow> bans_kept Q n (sv_bans (fst (applyBanLocked io key reason (io_now io) s1))))"
proof -
  obtain bans where b: "s1 = s\<lparr>sv_bans := bans\<rparr>" "wf_map bans" "set bans \<subseteq> set (sv_bans s)"
      "room \<longrightarrow> map_of bans key \<noteq> None \<or> int (length bans) < cfg_maxEntries (sv_cfg s)"
    using roomForBanLocked_returns [OF assms(1,2), of key] assms(6) by auto
  have k: "bans_kept Q n bans" by (rule kept_sub [OF assms(3) b(3,2)])
  have wf: "wf_config (sv_cfg s)" using assms(2) by (simp add: guard_inv_def)
  have "bans_kept Q n (sv_bans (fst (applyBanLocked io key reason (io_now io) s1)))" if "room" "reason \<in> {''handshake'', ''rate''}"
  proof -
    let ?b = "\<lparr>br_until = io_now io + cfg_banTime (sv_cfg s), br_reason = reason\<rparr>"
    obtain s2 evs where ap: "applyBanLocked io key reason (io_now io) s1 = (s2, evs)" by fastforce
    have s2: "sv_bans s2 = mput bans key ?b" using applyBanLocked_frame(4) [OF ap] b(1) by simp
    have q: "Q (key, ?b)"
      using assms(4,5) that(2) wf_config_bounds(3,4) [OF wf] unfolding feeds_def peer_key_def by blast
    have "int (length (mput bans key ?b)) \<le> max (int n) 100000"
      using b(4) that(1) k wf_config_bounds(12) [OF wf] by (auto simp: length_update [OF b(2)] bans_kept_def)
    moreover have "\<forall>e \<in> set (mput bans key ?b). Q e"
      using set_update_cases [OF b(2)] q k unfolding bans_kept_def by blast
    ultimately show ?thesis by (simp add: ap s2 bans_kept_def)
  qed
  then show ?thesis using k b(1) by simp
qed

lemma peer_frame:
  assumes "peerLocked io key t s = (s1, p)"
  shows "sv_cfg s1 = sv_cfg s" "sv_bans s1 = sv_bans s"
  using assms by (auto simp: peerLocked_def Let_def split: option.splits)

lemma rate_kept:
  assumes "fair_range io" "guard_inv s" "bans_kept Q n (sv_bans s)" "feeds Q n gl io" "peer_key gl key"
    and "noteRateLocked io key (io_now io) s = Some (s', evs, banned)"
  shows "bans_kept Q n (sv_bans s')"
proof -
  let ?t = "io_now io"
  obtain s1 p where p: "peerLocked io key ?t s = (s1, p)" by fastforce
  define q where "q = p\<lparr>ps_rates := appendWindow (ps_rates p) ?t (cfg_rateWindow (sv_cfg s1)) (cfg_rateLimit (sv_cfg s1))\<rparr>"
  define s2 where "s2 = s1\<lparr>sv_peers := mput (sv_peers s1) key q\<rparr>"
  have cfg: "wf_config (sv_cfg s)" using assms(2) by (simp add: guard_inv_def)
  have "length (ps_rates q) \<le> 10000"
    using wf_config_bounds(9,10) [OF cfg] peer_frame(1) [OF p]
      appendWindow_length [of "cfg_rateLimit (sv_cfg s)" 10000 "ps_rates p" ?t "cfg_rateWindow (sv_cfg s)"]
    by (simp add: q_def)
  then have inv2: "guard_inv s2" unfolding s2_def by (intro note_sample_inv(1) [OF assms(1,2) p]) (auto simp: q_def)
  have k2: "bans_kept Q n (sv_bans s2)" using assms(3) peer_frame(2) [OF p] by (simp add: s2_def)
  have eq: "noteRateLocked io key ?t s =
      (if int (length (ps_rates q)) < cfg_rateLimit (sv_cfg s2) then Some (s2, [], False)
       else case roomForBanLocked io key s2 of
           None \<Rightarrow> None
         | Some (s, room) \<Rightarrow>
             if \<not> room then Some (s, [], False)
             else case applyBanLocked io key ''rate'' ?t s of (s, evs) \<Rightarrow> Some (s, evs, True))"
    by (simp add: noteRateLocked_def p Let_def q_def s2_def)
  show ?thesis
  proof (cases "int (length (ps_rates q)) < cfg_rateLimit (sv_cfg s2)")
    case True
    then show ?thesis using assms(6) k2 eq by simp
  next
    case False
    then obtain s3 room where room: "roomForBanLocked io key s2 = Some (s3, room)"
      using assms(6) eq by (auto split: option.splits)
    note b = ban_kept [OF assms(1) inv2 k2 assms(4,5) room, of "''rate''"]
    show ?thesis using assms(6) eq False room b by (cases room) (auto split: prod.splits)
  qed
qed

lemma admit_kept:
  assumes "fair_range io" "guard_inv s" "bans_kept Q n (sv_bans s)" "feeds Q n gl io" "admitLocked gl io addr s = Some (s', d, evs)"
  shows "bans_kept Q n (sv_bans s')"
proof -
  obtain r e where r: "refreshLocked gl io s = (r, e)" by fastforce
  let ?w = "sweepLocked (io_now io) r"
  note k = refresh_kept [OF r assms(3,4)]
  have w: "guard_inv ?w" "bans_kept Q n (sv_bans ?w)"
    using refreshLocked_inv [OF assms(2) r] k by (simp_all add: sweepLocked_inv sweep_kept)
  have key: "peer_key gl (keyLocked gl s ip)" for ip using keyLocked_peer assms(2) by (simp add: guard_inv_def)
  show ?thesis
    using assms(3,5) k w(2) rate_kept [OF assms(1) w assms(4) key]
    by (auto simp: admitLocked_def Let_def r split: if_splits option.splits prod.splits)
qed

lemma handshake_kept:
  assumes "fair_range io" "guard_inv s" "bans_kept Q n (sv_bans s)" "feeds Q n gl io" "noteHandshakeLocked gl io addr s = Some (s', evs)"
  shows "bans_kept Q n (sv_bans s')"
proof -
  let ?t = "io_now io"
  obtain r e where r: "refreshLocked gl io s = (r, e)" by fastforce
  define w where "w = sweepLocked ?t r"
  note k = refresh_kept [OF r assms(3,4)]
  have w: "guard_inv w" "bans_kept Q n (sv_bans w)"
    using refreshLocked_inv [OF assms(2) r] k by (simp_all add: w_def sweepLocked_inv sweep_kept)
  have core: "bans_kept Q n (sv_bans u)"
    if c: "(case peerLocked io key ?t w of (s, p) \<Rightarrow>
      let p = p\<lparr>ps_strikes := appendWindow (ps_strikes p) ?t (cfg_findTime (sv_cfg s)) (cfg_maxRetry (sv_cfg s))\<rparr>;
          s = s\<lparr>sv_peers := mput (sv_peers s) key p\<rparr>
      in if int (length (ps_strikes p)) < cfg_maxRetry (sv_cfg s) then Some (s, [])
         else case roomForBanLocked io key s of None \<Rightarrow> None
           | Some (s, room) \<Rightarrow> if \<not> room then Some (s, []) else Some (applyBanLocked io key ''handshake'' ?t s)) = Some (u, vs)"
      and key: "peer_key gl key" for key u vs
  proof -
    obtain s1 p where p: "peerLocked io key ?t w = (s1, p)" by fastforce
    define q where "q = p\<lparr>ps_strikes := appendWindow (ps_strikes p) ?t (cfg_findTime (sv_cfg s1)) (cfg_maxRetry (sv_cfg s1))\<rparr>"
    define s2 where "s2 = s1\<lparr>sv_peers := mput (sv_peers s1) key q\<rparr>"
    have cfg: "wf_config (sv_cfg w)" using w(1) by (simp add: guard_inv_def)
    have "length (ps_strikes q) \<le> 100"
      using wf_config_bounds(7,8) [OF cfg] peer_frame(1) [OF p]
        appendWindow_length [of "cfg_maxRetry (sv_cfg s1)" 100 "ps_strikes p" ?t "cfg_findTime (sv_cfg s1)"]
      by (simp add: q_def)
    then have inv2: "guard_inv s2" unfolding s2_def by (intro note_sample_inv(1) [OF assms(1) w(1) p]) (auto simp: q_def)
    have k2: "bans_kept Q n (sv_bans s2)" using w(2) peer_frame(2) [OF p] by (simp add: s2_def)
    have eq: "(if int (length (ps_strikes q)) < cfg_maxRetry (sv_cfg s2) then Some (s2, [])
        else case roomForBanLocked io key s2 of None \<Rightarrow> None
          | Some (s, room) \<Rightarrow> if \<not> room then Some (s, []) else Some (applyBanLocked io key ''handshake'' ?t s)) = Some (u, vs)"
      using c by (simp only: p prod.case Let_def q_def s2_def)
    show ?thesis
    proof (cases "int (length (ps_strikes q)) < cfg_maxRetry (sv_cfg s2)")
      case True
      then show ?thesis using eq k2 by simp
    next
      case False
      then obtain s3 room where room: "roomForBanLocked io key s2 = Some (s3, room)"
        using eq by (auto split: option.splits)
      note b = ban_kept [OF assms(1) inv2 k2 assms(4) key room, of "''handshake''"]
      show ?thesis using eq False room b by (cases room) auto
    qed
  qed
  have "sv_cfg r = sv_cfg s" using k by blast
  then have key: "peer_key gl (keyLocked gl r ip)" for ip using keyLocked_peer assms(2) by (simp add: guard_inv_def)
  show ?thesis
  proof (cases "sv_forceOff s \<or> \<not> cfg_enabled (sv_cfg s) \<or> sv_tripped s \<noteq> None")
    case True
    then show ?thesis using assms(3,5) by (auto simp: noteHandshakeLocked_def)
  next
    case False
    then have n: "\<not> (sv_forceOff s \<or> \<not> cfg_enabled (sv_cfg s) \<or> sv_tripped s \<noteq> None)" .
    show ?thesis
    proof (cases "e = None \<and> parsePeer gl addr \<noteq> None \<and> \<not> ignored (cfg_ignore (sv_cfg r)) (snd (the (parsePeer gl addr)))")
      case False
      then have "s' = r" using assms(5) n unfolding noteHandshakeLocked_def r
        by (cases e; cases "parsePeer gl addr") auto
      then show ?thesis using k by simp
    next
      case True
      then obtain h ip where a: "parsePeer gl addr = Some (h, ip)" "e = None" "\<not> ignored (cfg_ignore (sv_cfg r)) ip" by auto
      show ?thesis
      proof (cases "bannedLocked gl w (keyLocked gl r ip) ip ?t = None")
        case False
        then have "s' = w" using assms(5) n a unfolding noteHandshakeLocked_def r by (simp add: Let_def flip: w_def)
        then show ?thesis using w(2) by simp
      next
        case True
        show ?thesis
          by (rule core [OF _ key, of ip s' evs]) (use assms(5) n a True in \<open>simp add: noteHandshakeLocked_def r Let_def flip: w_def\<close>)
      qed
    qed
  qed
qed

lemma unban_kept:
  assumes "guard_inv s" "bans_kept Q n (sv_bans s)" "feeds Q n gl io" "unbanLocked gl io key s = (s', evs, e)"
  shows "bans_kept Q n (sv_bans s')"
proof -
  obtain r e' where r: "refreshLocked gl io s = (r, e')" by fastforce
  define w where "w = sweepLocked (io_now io) r"
  note k = refresh_kept [OF r assms(2,3)]
  have w: "bans_kept Q n (sv_bans w)" "guard_inv w"
    using refreshLocked_inv [OF assms(1) r] k by (simp_all add: w_def sweep_kept sweepLocked_inv)
  have f: "bans_kept Q n (filter (\<lambda>(k, v). k \<noteq> key) (sv_bans w))"
    by (rule kept_sub [OF w(1)]) (use w(2) in \<open>auto simp: guard_inv_def wf_map_filter\<close>)
  obtain w' pe d where p: "persistLocked io (w\<lparr>sv_bans := filter (\<lambda>(k, v). k \<noteq> key) (sv_bans w)\<rparr>) = (w', pe, d)"
    by (cases "persistLocked io (w\<lparr>sv_bans := filter (\<lambda>(k, v). k \<noteq> key) (sv_bans w)\<rparr>)")
  have "sv_bans w' = filter (\<lambda>(k, v). k \<noteq> key) (sv_bans w)" using persistLocked_frame [OF p] by simp
  then show ?thesis
    using assms(2,4) k w(1) f p
    by (auto simp: unbanLocked_def r Let_def simp flip: w_def split: if_splits option.splits)
qed

lemma reload_kept:
  assumes "bans_kept Q n (sv_bans s)" "feeds Q n gl io" "reloadLocked gl io s = (s', evs, e)"
  shows "bans_kept Q n (sv_bans s')"
  using assms
  by (auto simp: reloadLocked_def Let_def trip_def adopt_state_def feeds_def split: if_splits lstat_result.splits sum.splits)

lemma configure_kept: "feeds Q n gl io \<Longrightarrow> bans_kept Q n (sv_bans (fst (Configure gl io opt)))"
  by (auto simp: Configure_def Let_def newService_def loadOptionalState_def feeds_def
      split: option.splits prod.splits sum.splits guard_err.splits file_err.splits)

lemma exec_kept:
  assumes "svc_inv svc" "fair_range io" "feeds Q n gl io" "guard_exec gl io op svc = Some svc'"
    and "\<forall>s. svc = Some s \<longrightarrow> bans_kept Q n (sv_bans s)" "svc' = Some s'"
  shows "bans_kept Q n (sv_bans s')"
proof -
  have cur: "guard_inv (guard_current svc)" "bans_kept Q n (sv_bans (guard_current svc))"
    using assms(1,5) guard_current_inv by (auto simp: svc_inv_def guard_current_def default_service_def split: option.splits)
  show ?thesis
  proof (cases op)
    case (GConfigure opt)
    then show ?thesis using configure_kept [OF assms(3)] assms(4,6) by (auto simp: guard_exec_def)
  next
    case (GAdmit addr)
    then show ?thesis using admit_kept [OF assms(2) cur assms(3)] assms(4,6) by (auto simp: guard_exec_def Admit_def)
  next
    case (GHandshake addr ok)
    then show ?thesis using handshake_kept [OF assms(2) cur assms(3)] assms(4-6)
      by (cases ok) (auto simp: guard_exec_def NoteHandshake_def)
  next
    case (GUnban addr)
    show ?thesis
    proof (cases svc)
      case None
      then show ?thesis using GUnban assms(4,6) by (auto simp: guard_exec_def Unban_def split: option.splits)
    next
      case (Some s)
      have i: "guard_inv s" "bans_kept Q n (sv_bans s)" using assms(1,5) Some by (simp_all add: svc_inv_def)
      have "bans_kept Q n (sv_bans (fst (unbanLocked gl io key s)))" for key
        using unban_kept [OF i assms(3)] by (metis prod.collapse)
      then show ?thesis using GUnban assms(4,6) Some i(2)
        by (auto simp: guard_exec_def Unban_def Let_def split_beta split: option.splits)
    qed
  next
    case GReload
    show ?thesis
    proof (cases svc)
      case None
      then show ?thesis using GReload assms(4,6) by (auto simp: guard_exec_def Reload_def)
    next
      case (Some s)
      obtain s1 evs e where r: "reloadLocked gl io s = (s1, evs, e)" by (cases "reloadLocked gl io s")
      then show ?thesis using GReload assms(4-6) Some reload_kept [OF _ assms(3) r] by (auto simp: guard_exec_def Reload_def)
    qed
  next
    case GStatus
    show ?thesis
    proof (cases svc)
      case None
      then show ?thesis using GStatus assms(4,6) by (auto simp: guard_exec_def guard_Status_def)
    next
      case (Some s)
      have kp: "bans_kept Q n (sv_bans s)" using assms(5) Some by simp
      obtain r e where r: "refreshLocked gl io s = (r, e)" by fastforce
      show ?thesis
        using GStatus assms(4,6) Some r kp refresh_kept [OF r kp assms(3)] sweep_kept [of Q n r]
        by (auto simp: guard_exec_def guard_Status_def Let_def split: if_splits option.splits)
    qed
  qed
qed

lemma reach_kept:
  assumes "guard_reach gl P svc" "\<And>io. P io \<Longrightarrow> feeds Q n gl io" "svc = Some s"
  shows "bans_kept Q n (sv_bans s)"
  using assms(1,3)
proof (induction arbitrary: s rule: guard_reach.induct)
  case (step svc io op svc')
  then show ?case using exec_kept [OF reach_inv [OF step(1)] step(2) assms(2) [OF step(3)] step(4)] by blast
qed simp

section \<open>Bounds\<close>

text \<open>The entries of the ban file an operation may read.\<close>

definition file_entries :: "guard_io \<Rightarrow> nat" where
  "file_entries io =
     (case io_state io of
        FsFile info (Inr (sz, StDoc doc rest)) \<Rightarrow> length (sf_Bans doc)
      | _ \<Rightarrow> 0)"

lemma put_length: "length (mput m k v) \<le> Suc (length m)"
  by (induction m) auto

lemma state_loop_length: "state_loop gl t bs out = Inr out' \<Longrightarrow> length out' \<le> length out + length bs"
proof (induction bs arbitrary: out)
  case (Cons b bs)
  then consider "state_loop gl t bs out = Inr out'" | k v where "state_loop gl t bs (mput out k v) = Inr out'"
    by (auto split: option.splits if_splits)
  then show ?case
  proof cases
    case 1
    then show ?thesis using Cons.IH [of out] by simp
  next
    case (2 k v)
    then show ?thesis using Cons.IH [of "mput out k v"] put_length [of k v out] by simp
  qed
qed simp

lemma loadState_length: "loadState gl io = Inr (bans, meta) \<Longrightarrow> length bans \<le> file_entries io"
  by (auto simp: loadState_def parseState_def readRegular_def safe_Open_def safe_ReadAll_def file_entries_def
      dest!: state_loop_length split: sum.splits prod.splits if_splits fs_entry.splits state_doc.splits doc_rest.splits)

text \<open>
  C34. Every jail a process can reach, by any sequence of configuration, connections, handshake
  outcomes, operator commands and file contents, has its tables within bounds: a valid configuration, one ban per key,
  at most 100000 bans - or, when a ban file it read held more, at most as many as that file held - at most 400000
  peers, at most 100 strikes and 10000 connection samples per peer; and no operation on such a jail gets stuck, the
  eviction loop included.
\<close>

theorem guard_bounded:
  assumes "guard_reach gl (\<lambda>io. file_entries io \<le> n) svc"
  shows "(\<forall>s. svc = Some s \<longrightarrow> guard_inv s \<and> int (length (sv_bans s)) \<le> max (int n) 100000) \<and>
    (\<forall>io op. fair_range io \<longrightarrow> (\<exists>svc'. guard_exec gl io op svc = Some svc'))"
proof -
  have inv: "svc_inv svc" by (rule reach_inv [OF assms])
  have "feeds (\<lambda>_. True) n gl io" if "file_entries io \<le> n" for io
    using that loadState_length by (fastforce simp: feeds_def bans_kept_def)
  then have "int (length (sv_bans s)) \<le> max (int n) 100000" if "svc = Some s" for s
    using reach_kept [OF assms _ that, of "\<lambda>_. True" n] by (simp add: bans_kept_def)
  then show ?thesis using inv guard_exec_inv [OF inv] by (auto simp: svc_inv_def) blast+
qed

definition demo_options :: options where
  "demo_options = \<lparr>opt_ConfigPath = '''', opt_StatePath = ''f'', opt_Switch = ''''\<rparr>"

theorem guard_bounded_witness:
  "\<exists>s. guard_reach bits_lib (\<lambda>io. file_entries io \<le> 2) (Some s) \<and> guard_inv s \<and> length (sv_bans s) \<le> 100000"
proof -
  obtain s where s: "guard_exec bits_lib demo_io (GConfigure demo_options) None = Some (Some s)"
    by (simp add: guard_exec_def)
  have "guard_reach bits_lib (\<lambda>io. file_entries io \<le> 2) (Some s)"
    by (rule guard_reach.step [OF guard_reach.start demo_io_fair _ s]) (simp add: file_entries_def demo_io_def)
  then show ?thesis using guard_bounded [of bits_lib 2 "Some s"] by auto
qed

section \<open>Keys are read back\<close>

text \<open>
  What the package \<^verbatim>\<open>net\<close> documents: an address prints to a text of hexadecimal digits, dots and colons that
  parses to the same address, and an IPv6 network in prefix notation parses to its own address and prefix.
\<close>

definition address_text :: "string \<Rightarrow> bool" where
  "address_text s \<longleftrightarrow> s \<noteq> '''' \<and> set s \<subseteq> set ''0123456789abcdef:.''"

definition net_laws :: "golib \<Rightarrow> bool" where
  "net_laws gl \<longleftrightarrow>
     (\<forall>v. address_text (gl_String4 gl v) \<and> (\<exists>ip. gl_ParseIP gl (gl_String4 gl v) = Some ip \<and> to4 ip = Some v)) \<and>
     (\<forall>ip. to4 ip = None \<longrightarrow> address_text (gl_String6 gl ip) \<and> gl_ParseIP gl (gl_String6 gl ip) = Some ip) \<and>
     (\<forall>ip p. to4 ip = None \<longrightarrow> 32 \<le> p \<longrightarrow> p \<le> 127 \<longrightarrow>
        gl_ParseCIDR gl (gl_String6 gl (mask6 p ip) @ ''/'' @ digits_of p) =
          Some (mask6 p ip, \<lparr>net_ip = mask6 p ip, net_ones = p, net_bits = 128\<rparr>))"

definition key_char :: "char \<Rightarrow> bool" where
  "key_char c \<longleftrightarrow> c \<in> set ''0123456789abcdef:./''"

lemma key_char_plain:
  assumes "key_char c"
  shows "\<not> ascii_space c" "(of_char c :: nat) < 128"
  using assms by (auto simp: key_char_def ascii_space_def)

lemma lead_space_key:
  assumes "key_char c" "\<forall>w \<in> set ws. w \<noteq> [] \<and> 128 \<le> (of_char (hd w) :: nat)"
  shows "lead_space ws (c # s) = 0"
proof -
  have "\<not> hasPrefix (c # s) w" if "w \<in> set ws" for w
  proof
    assume "hasPrefix (c # s) w"
    then have "hd w = c" using assms(2) that by (cases w) (auto simp: hasPrefix_def)
    then show False using assms that key_char_plain(2) by fastforce
  qed
  then have "find (hasPrefix (c # s)) ws = None" by (simp add: find_None_iff)
  then show ?thesis using key_char_plain(1) [OF assms(1)] by simp
qed

lemma trimSpace_key:
  assumes "list_all key_char s" "s \<noteq> ''''"
  shows "trimSpace s = s"
proof -
  have w: "\<forall>w \<in> set wide_spaces. w \<noteq> [] \<and> 128 \<le> (of_char (hd w) :: nat)"
      "\<forall>w \<in> set (map rev wide_spaces). w \<noteq> [] \<and> 128 \<le> (of_char (hd w) :: nat)"
    by code_simp+
  have stop: "trim_left ws t = t" if "lead_space ws t = 0" for ws t using that by (simp add: trim_left.simps [of ws t])
  have "lead_space wide_spaces s = 0" using lead_space_key [OF _ w(1)] assms by (cases s) simp_all
  moreover have "lead_space (map rev wide_spaces) (rev s) = 0"
  proof (cases "rev s")
    case (Cons c t)
    then have "c \<in> set s" by (metis list.set_intros(1) set_rev)
    then show ?thesis using lead_space_key [OF _ w(2)] assms(1) Cons by (simp add: list_all_iff)
  qed simp
  ultimately show ?thesis by (simp add: trimSpace_def stop)
qed

lemma digits_key: "list_all key_char (digits_of n) \<and> digits_of n \<noteq> ''''"
proof (induction n rule: digits_of.induct)
  case (1 n)
  have d: "key_char (char_of (48 + k))" if "k < 10" for k :: nat
  proof -
    have "\<forall>k \<in> set [0..<10]. key_char (char_of (48 + k :: nat))" by code_simp
    then show ?thesis using that by simp
  qed
  show ?case
  proof (cases "n < 10")
    case True
    then have "digits_of n = [char_of (48 + n)]" by (simp add: digits_of.simps [of n])
    then show ?thesis using d [OF True] by simp
  next
    case False
    then have n: "digits_of n = digits_of (n div 10) @ [char_of (48 + n mod 10)]" by (simp add: digits_of.simps [of n])
    have "key_char (char_of (48 + n mod 10))" by (rule d) simp
    then show ?thesis unfolding n list_all_append using 1 [OF False] by simp
  qed
qed

lemma address_key: "address_text s \<Longrightarrow> list_all key_char s \<and> s \<noteq> '''' \<and> CHR ''/'' \<notin> set s"
proof -
  assume a: "address_text s"
  have "\<forall>c \<in> set ''0123456789abcdef:.''. key_char c \<and> c \<noteq> CHR ''/''" by code_simp
  then show ?thesis using a unfolding address_text_def list_all_iff by blast
qed

lemma mask6_idem [simp]: "mask6 p (mask6 p a) = mask6 p a"
  by (rule bit_word_eqI) (simp add: bit_mask6)

text \<open>A key that prints an address or a network is the key that reading it gives.\<close>

lemma stateKey_peerKey:
  assumes "net_laws gl" "32 \<le> p" "p \<le> 128"
  shows "stateKey gl (peerKey gl ip p) = Some (peerKey gl ip p)"
proof (cases "to4 ip")
  case (Some v)
  then have k: "peerKey gl ip p = gl_String4 gl v" by (simp add: peerKey_def canonicalIP_def)
  obtain ip' where "address_text (gl_String4 gl v)" "gl_ParseIP gl (gl_String4 gl v) = Some ip'" "to4 ip' = Some v"
    using assms(1) unfolding net_laws_def by blast
  then show ?thesis using address_key [of "gl_String4 gl v"] trimSpace_key [of "gl_String4 gl v"]
    by (simp add: k stateKey_def Let_def contains_byte_def canonicalIP_def)
next
  case None
  have a: "address_text (gl_String6 gl x)" "gl_ParseIP gl (gl_String6 gl x) = Some x" if "to4 x = None" for x
    using assms(1) that unfolding net_laws_def by blast+
  show ?thesis
  proof (cases "p = 128")
    case True
    then have k: "peerKey gl ip p = gl_String6 gl ip" using None by (simp add: peerKey_def canonicalIP_def)
    show ?thesis using address_key [OF a(1) [OF None]] trimSpace_key [of "gl_String6 gl ip"] a(2) [OF None] None
      by (simp add: k stateKey_def Let_def contains_byte_def canonicalIP_def)
  next
    case False
    define q where "q = nat p"
    have q: "32 \<le> q" "q \<le> 127" "int q = p" using assms(2,3) False by (auto simp: q_def)
    have m: "to4 (mask6 q ip) = None" by (rule to4_mask6 [OF None])
    have pk: "peerKey gl x p = gl_String6 gl (mask6 q x) @ ''/'' @ digits_of q" if "to4 x = None" for x
      using that assms(2,3) False to4_mask6 [OF that, of q] by (simp add: peerKey_def ip_String_def flip: q_def)
    let ?k = "gl_String6 gl (mask6 q ip) @ ''/'' @ digits_of q"
    have "list_all key_char ?k \<and> ?k \<noteq> ''''"
      using address_key [OF a(1) [OF m]] digits_key [of q] by (simp add: key_char_def)
    then have t: "trimSpace ?k = ?k" using trimSpace_key by blast
    have "gl_ParseCIDR gl ?k = Some (mask6 q ip, \<lparr>net_ip = mask6 q ip, net_ones = q, net_bits = 128\<rparr>)"
      using assms(1) None q unfolding net_laws_def by blast
    then have "prefixKey gl ?k = Some ?k" using m q pk [OF m] by (simp add: prefixKey_def Let_def)
    then show ?thesis using t by (simp add: pk [OF None] stateKey_def Let_def contains_byte_def)
  qed
qed

lemma stateKey_idem:
  assumes "net_laws gl" "stateKey gl raw = Some k"
  shows "stateKey gl k = Some k"
proof -
  have "\<exists>ip p. k = peerKey gl ip p \<and> 32 \<le> p \<and> p \<le> 128"
  proof (cases "contains_byte (trimSpace raw) (CHR ''/'')")
    case True
    then obtain ip and n :: ipnet where "k = peerKey gl ip (int (net_ones n))" "32 \<le> net_ones n" "net_ones n \<le> 127"
      using assms(2) by (auto simp: stateKey_def Let_def prefixKey_def split: option.splits if_splits)
    then show ?thesis by (intro exI [of _ ip] exI [of _ "int (net_ones n)"]) auto
  next
    case False
    then obtain ip where "k = canonicalIP gl ip" using assms(2) by (auto simp: stateKey_def Let_def)
    then show ?thesis by (intro exI [of _ ip] exI [of _ 128]) (simp add: peerKey_def)
  qed
  then show ?thesis using stateKey_peerKey [OF assms(1)] by blast
qed

lemma state_loop_entries:
  assumes "net_laws gl" "state_loop gl t bs out = Inr out'" "t \<le> T" "wf_map out" "\<forall>e \<in> set out. ban_entry_ok gl T e"
  shows "\<forall>e \<in> set out'. ban_entry_ok gl T e"
  using assms(2,4,5)
proof (induction bs arbitrary: out)
  case (Cons b bs)
  obtain k where k: "stateKey gl (sb_Addr b) = Some k" using Cons.prems(1) by (auto split: option.splits)
  let ?v = "\<lparr>br_until = sb_Until b, br_reason = sb_Reason b\<rparr>"
  have "stateKey gl k = Some k" by (rule stateKey_idem [OF assms(1) k])
  then have v: "ban_entry_ok gl T (k, ?v)" if "sb_Reason b \<in> {''handshake'', ''rate''}" "sb_Until b \<noteq> zero_time" "sb_Until b \<le> t + maxBanHorizon"
    using that assms(3) by (simp add: ban_entry_ok_def)
  consider "state_loop gl t bs out = Inr out'" | "state_loop gl t bs (mput out k ?v) = Inr out'" "ban_entry_ok gl T (k, ?v)"
    using Cons.prems(1) k v by (auto split: if_splits)
  then show ?case
  proof cases
    case 1
    then show ?thesis using Cons.IH Cons.prems by blast
  next
    case 2
    have "\<forall>e \<in> set (mput out k ?v). ban_entry_ok gl T e" using set_update_cases [OF Cons.prems(2)] 2(2) Cons.prems(3) by blast
    then show ?thesis using Cons.IH [OF 2(1)] Cons.prems(2) by (simp add: wf_map_update)
  qed
qed simp

section \<open>The ban file of a jail\<close>

text \<open>No clock reading of the operation is past \<open>T\<close>, and the clock is set.\<close>

definition clocks_by :: "time \<Rightarrow> guard_io \<Rightarrow> bool" where
  "clocks_by T io \<longleftrightarrow> zero_time \<le> io_now io \<and> io_now io \<le> T \<and> io_load_now io \<le> T"

lemma clock_feeds:
  assumes "net_laws gl" "clocks_by T io" "file_entries io \<le> n"
  shows "feeds (ban_entry_ok gl T) n gl io"
proof -
  have "bans_kept (ban_entry_ok gl T) n bans" if l: "loadState gl io = Inr (bans, meta)" for bans meta
  proof -
    obtain doc :: stateFile where "state_loop gl (io_load_now io) (sf_Bans doc) [] = Inr bans"
      using l by (auto simp: loadState_def parseState_def split: sum.splits prod.splits state_doc.splits doc_rest.splits if_splits)
    then have "\<forall>e \<in> set bans. ban_entry_ok gl T e"
      using state_loop_entries [OF assms(1)] assms(2) by (fastforce simp: clocks_by_def)
    then show ?thesis using loadState_length [OF l] assms(3) by (simp add: bans_kept_def)
  qed
  moreover have "ban_entry_ok gl T (peerKey gl ip p, \<lparr>br_until = io_now io + d, br_reason = reason\<rparr>)"
    if "32 \<le> p" "p \<le> 128" "second \<le> d" "d \<le> 8760 * hour" "reason \<in> {''handshake'', ''rate''}" for ip p d reason
    using that stateKey_peerKey [OF assms(1) that(1,2)] assms(2)
    by (auto simp: ban_entry_ok_def clocks_by_def zero_time_def maxBanHorizon_def duration_defs)
  ultimately show ?thesis unfolding feeds_def by blast
qed


text \<open>The textual functions of the examples with networks: a bit string, a slash and a decimal number.\<close>

definition digits_value :: "string \<Rightarrow> nat" where
  "digits_value s = foldl (\<lambda>n c. 10 * n + (of_char c - 48)) 0 s"

lemma digits_value_of: "digits_value (digits_of n) = n"
proof (induction n rule: digits_of.induct)
  case (1 n)
  have c: "(of_char (char_of (48 + k) :: char) :: nat) - 48 = k" if "k < 10" for k :: nat
    using that by (simp add: of_char_of)
  show ?case
  proof (cases "n < 10")
    case True
    then have "digits_of n = [char_of (48 + n)]" by (simp add: digits_of.simps [of n])
    then show ?thesis using c [OF True] by (simp add: digits_value_def)
  next
    case False
    then have n: "digits_of n = digits_of (n div 10) @ [char_of (48 + n mod 10)]" by (simp add: digits_of.simps [of n])
    have "digits_value (digits_of n) = 10 * digits_value (digits_of (n div 10)) + (of_char (char_of (48 + n mod 10) :: char) - 48)"
      unfolding n by (simp add: digits_value_def)
    also have "\<dots> = 10 * (n div 10) + n mod 10" using 1 [OF False] c [of "n mod 10"] by simp
    finally show ?thesis by simp
  qed
qed

definition net_lib :: golib where
  "net_lib = bits_lib
     \<lparr>gl_ParseCIDR := (\<lambda>s.
        case str_cut s (CHR ''/'') of
          None \<Rightarrow> None
        | Some (a, r) \<Rightarrow> map_option (\<lambda>ip. (ip, \<lparr>net_ip = ip, net_ones = digits_value r, net_bits = 128\<rparr>)) (bits_parse a))\<rparr>"

lemma bits_show_text: "address_text (CHR ''4'' # bits_show n v)" "address_text (CHR ''6'' # bits_show n w)"
  by (auto simp: address_text_def bits_show_def)

lemma show_bits:
  "length (bits_show n v) = n" "set (bits_show n v) \<subseteq> {CHR ''0'', CHR ''1''}" "map (\<lambda>c. c = CHR ''1'') (bits_show n v) = map (bit v) [0..<n]"
  by (auto simp: bits_show_def)

lemma bits_parse_show:
  "\<exists>ip. bits_parse (CHR ''4'' # bits_show 32 v) = Some ip \<and> to4 ip = Some v"
  "bits_parse (CHR ''6'' # bits_show 128 w) = Some w"
proof -
  let ?h = "horner_sum of_bool 2 (map (bit v) [0..<32]) :: ip"
  define H :: ip where "H = push_bit 32 0xFFFF"
  have H: "bit H n \<longleftrightarrow> 32 \<le> n \<and> n < 48" for n
    unfolding H_def by (subst bit_push_bit_iff, unfold bit_FFFF) auto
  have h: "bit ?h n \<longleftrightarrow> n < 32 \<and> bit v n" for n by (auto simp: bit_horner_sum_bit_word_iff)
  have d: "H + ?h = or H ?h" by (rule disjunctive_add) (simp add: H h)
  have "drop_bit 32 (H + ?h) = 0xFFFF"
    unfolding d by (rule bit_word_eqI, unfold bit_FFFF) (auto simp: bit_drop_bit_eq bit_or_iff H h)
  moreover have "(ucast (H + ?h) :: 32 word) = v"
    unfolding d by (rule bit_word_eqI) (auto simp: bit_ucast_iff bit_or_iff H h)
  ultimately have "to4 (push_bit 32 0xFFFF + ?h) = Some v" unfolding to4_def H_def [symmetric] by simp
  then show "\<exists>ip. bits_parse (CHR ''4'' # bits_show 32 v) = Some ip \<and> to4 ip = Some v"
    using show_bits [of 32 v] by (simp add: bits_parse_def)
  have "horner_sum of_bool 2 (map (bit w) [0..<128]) = w"
    by (rule bit_word_eqI) (auto simp: bit_horner_sum_bit_word_iff)
  then show "bits_parse (CHR ''6'' # bits_show 128 w) = Some w"
    using show_bits [of 128 w] by (simp add: bits_parse_def)
qed

lemma net_lib_laws: "net_laws net_lib"
proof -
  have f: "gl_ParseIP net_lib = bits_parse" "gl_String4 net_lib v = CHR ''4'' # bits_show 32 v"
    "gl_String6 net_lib w = CHR ''6'' # bits_show 128 w" for v w
    by (simp_all add: net_lib_def bits_lib_def)
  have c: "gl_ParseCIDR net_lib s = (case str_cut s (CHR ''/'') of None \<Rightarrow> None
      | Some (a, r) \<Rightarrow> map_option (\<lambda>ip. (ip, \<lparr>net_ip = ip, net_ones = digits_value r, net_bits = 128\<rparr>)) (bits_parse a))" for s
    by (simp add: net_lib_def)
  have cut: "str_cut ((CHR ''6'' # bits_show 128 w) @ ''/'' @ digits_of p) (CHR ''/'') = Some (CHR ''6'' # bits_show 128 w, digits_of p)"
    for w :: ip and p
  proof -
    have e: "''/'' @ digits_of p = CHR ''/'' # digits_of p" by simp
    show ?thesis unfolding e by (rule cut_append) (auto simp: bits_show_def)
  qed
  have "gl_ParseCIDR net_lib (gl_String6 net_lib w @ ''/'' @ digits_of p) = Some (w, \<lparr>net_ip = w, net_ones = p, net_bits = 128\<rparr>)" for w p
    unfolding c f cut using bits_parse_show(2) [of w] by (simp add: digits_value_of)
  then show ?thesis unfolding net_laws_def f using bits_parse_show by (simp add: f bits_show_text)
qed

definition demo_file :: "int \<Rightarrow> stateFile \<Rightarrow> state_doc fs_entry" where
  "demo_file n doc = FsFile \<lparr>fi_regular = True, fi_mode = 0x180, fi_mtime = 7, fi_size = n\<rparr> (Inr (n, StDoc doc RestEOF))"

definition demo_doc :: stateFile where
  "demo_doc = \<lparr>sf_V = stateVersion, sf_Bans = [\<lparr>sb_Addr = demo_key, sb_Until = 300, sb_Reason = ''rate''\<rparr>]\<rparr>"


end
