(* ===== verification/Guard_Admit.thy ===== *)
theory Guard_Admit
  imports Guard
begin

text \<open>
  What the jail promises to the listener: which connections it admits, that it fails closed, that a
  ban holds until it expires, and what the operator commands do. The definitions are those of theory
  \<open>Guard\<close>; this theory adds the specification of an admission and runs of connection events.
\<close>

section \<open>Admission\<close>

text \<open>The samples the jail holds for a peer, none for an unknown peer.\<close>

definition rates_of :: "service \<Rightarrow> string \<Rightarrow> time list" where
  "rates_of s key = (case mget (sv_peers s) key of None \<Rightarrow> [] | Some p \<Rightarrow> ps_rates p)"

definition strikes_of :: "service \<Rightarrow> string \<Rightarrow> time list" where
  "strikes_of s key = (case mget (sv_peers s) key of None \<Rightarrow> [] | Some p \<Rightarrow> ps_strikes p)"

definition rate_reached :: "service \<Rightarrow> string \<Rightarrow> time \<Rightarrow> bool" where
  "rate_reached s key t \<longleftrightarrow>
     int (length (appendWindow (rates_of s key) t (cfg_rateWindow (sv_cfg s)) (cfg_rateLimit (sv_cfg s))))
       \<ge> cfg_rateLimit (sv_cfg s)"

definition strikes_reached :: "service \<Rightarrow> string \<Rightarrow> time \<Rightarrow> bool" where
  "strikes_reached s key t \<longleftrightarrow>
     int (length (appendWindow (strikes_of s key) t (cfg_findTime (sv_cfg s)) (cfg_maxRetry (sv_cfg s))))
       \<ge> cfg_maxRetry (sv_cfg s)"

definition refuses_new :: "service \<Rightarrow> bool" where
  "refuses_new s \<longleftrightarrow>
     cfg_tableFull (sv_cfg s) = tableFullRefuse \<and> int (length (sv_bans s)) \<ge> cfg_maxEntries (sv_cfg s)"

text \<open>The jail screens a peer when it is on, and the address parses and is not on the ignore list.\<close>

definition screened :: "golib \<Rightarrow> service \<Rightarrow> string \<Rightarrow> ip option" where
  "screened gl s addr =
     (if sv_forceOff s \<or> \<not> cfg_enabled (sv_cfg s) then None
      else case parsePeer gl addr of
          None \<Rightarrow> None
        | Some (_, ip) \<Rightarrow> if ignored (cfg_ignore (sv_cfg s)) ip then None else Some ip)"

lemma screenedE:
  assumes "screened gl s addr = Some ip"
  obtains c where "\<not> sv_forceOff s" "cfg_enabled (sv_cfg s)" "parsePeer gl addr = Some (c, ip)"
    "\<not> ignored (cfg_ignore (sv_cfg s)) ip"
  using assms by (auto simp: screened_def split: if_splits option.splits)

lemma peerLocked_samples:
  "peerLocked io key t s = (s', p) \<Longrightarrow>
   ps_rates p = rates_of s key \<and> ps_strikes p = strikes_of s key \<and> sv_cfg s' = sv_cfg s \<and> sv_bans s' = sv_bans s \<and>
   sv_tripped s' = sv_tripped s \<and> sv_forceOff s' = sv_forceOff s \<and> sv_statePath s' = sv_statePath s"
  by (auto simp: peerLocked_def rates_of_def strikes_of_def Let_def split: option.splits)

lemma roomForBanLocked_room:
  assumes "fair_range io" and "guard_inv s" and "roomForBanLocked io key s = Some (s', room)"
  shows "room \<longleftrightarrow> mget (sv_bans s) key \<noteq> None \<or> \<not> refuses_new s"
  using assms(3) by (auto simp: roomForBanLocked_def refuses_new_def split: if_splits)

lemma roomForBanLocked_keeps:
  assumes "roomForBanLocked io key s = Some (s', room)" and "cfg_tableFull (sv_cfg s) = tableFullRefuse"
  shows "s' = s"
  using assms by (auto simp: roomForBanLocked_def split: if_splits)

lemma sweepLocked_frame:
  "sv_cfg (sweepLocked t s) = sv_cfg s" "sv_tripped (sweepLocked t s) = sv_tripped s"
  "sv_forceOff (sweepLocked t s) = sv_forceOff s" "sv_statePath (sweepLocked t s) = sv_statePath s"
  "sv_bans (sweepLocked t s) = filter (\<lambda>(addr, b). br_until b > t) (sv_bans s)"
  by (simp_all add: sweepLocked_def Let_def)

lemma refreshLocked_frame:
  "refreshLocked gl io s = (s', e) \<Longrightarrow>
   sv_cfg s' = sv_cfg s \<and> sv_forceOff s' = sv_forceOff s \<and> (e = None \<longrightarrow> sv_tripped s' = sv_tripped s) \<and>
   (e \<noteq> None \<longrightarrow> sv_tripped s' = e)"
  by (auto simp: refreshLocked_def trip_def adopt_state_def split: if_splits lstat_result.splits sum.splits)

lemma noteRateLocked_result:
  assumes "fair_range io" and "guard_inv s" and "noteRateLocked io key t s = Some (s', evs, banned)"
    and "\<not> refuses_new s"
  shows "banned \<longleftrightarrow> rate_reached s key t"
proof -
  obtain s1 p where p: "peerLocked io key t s = (s1, p)" by fastforce
  define q where "q = p\<lparr>ps_rates := appendWindow (ps_rates p) t (cfg_rateWindow (sv_cfg s1)) (cfg_rateLimit (sv_cfg s1))\<rparr>"
  define s2 where "s2 = s1\<lparr>sv_peers := mput (sv_peers s1) key q\<rparr>"
  have fr: "ps_rates p = rates_of s key" "sv_cfg s1 = sv_cfg s" "sv_bans s1 = sv_bans s"
    using peerLocked_samples [OF p] by auto
  have reached: "int (length (appendWindow (ps_rates p) t (cfg_rateWindow (sv_cfg s1)) (cfg_rateLimit (sv_cfg s1))))
      < cfg_rateLimit (sv_cfg s1) \<longleftrightarrow> \<not> rate_reached s key t"
    by (auto simp: rate_reached_def fr)
  have room: "room" if "roomForBanLocked io key s2 = Some (s3, room)" for s3 room
    using that assms(4) by (auto simp: roomForBanLocked_def refuses_new_def s2_def fr split: if_splits)
  have "noteRateLocked io key t s =
      (if \<not> rate_reached s key t then Some (s2, [], False)
       else case roomForBanLocked io key s2 of None \<Rightarrow> None
         | Some (s, room) \<Rightarrow> if \<not> room then Some (s, [], False)
             else case applyBanLocked io key ''rate'' t s of (s, evs) \<Rightarrow> Some (s, evs, True))"
    using reached by (simp add: noteRateLocked_def p Let_def flip: q_def s2_def)
  then show ?thesis
    using assms(3) room by (auto split: if_splits option.splits prod.splits)
qed

lemma admit_iff_core:
  assumes "fair_range io" and "guard_inv s" and "admitLocked gl io addr s = Some (s', d, evs)"
  shows "d_Allow d \<longleftrightarrow>
    sv_forceOff s \<or> \<not> cfg_enabled (sv_cfg s) \<or>
    (\<exists>c ip. parsePeer gl addr = Some (c, ip) \<and>
       (ignored (cfg_ignore (sv_cfg s)) ip \<or>
        (sv_tripped s = None \<and>
         (\<exists>r. refreshLocked gl io s = (r, None) \<and>
            (let w = sweepLocked (io_now io) r; key = keyLocked gl s ip
             in bannedLocked gl w key ip (io_now io) = None \<and> \<not> refuses_new w \<and>
                \<not> rate_reached w key (io_now io))))))"
proof (cases "screened gl s addr")
  case None
  then show ?thesis using assms(3)
    by (auto simp: screened_def admitLocked_def Let_def allow_def deny_def split: if_splits option.splits)
next
  case (Some ip)
  then obtain c where on: "\<not> sv_forceOff s" "cfg_enabled (sv_cfg s)" "parsePeer gl addr = Some (c, ip)"
      "\<not> ignored (cfg_ignore (sv_cfg s)) ip"
    by (rule screenedE)
  obtain r e where r: "refreshLocked gl io s = (r, e)" by fastforce
  define t where "t = io_now io"
  define w where "w = sweepLocked t r"
  define key where "key = keyLocked gl s ip"
  have inv: "guard_inv w" using refreshLocked_inv [OF assms(2) r] by (simp add: w_def sweepLocked_inv)
  have adm: "admitLocked gl io addr s =
      (if sv_tripped s \<noteq> None \<or> e \<noteq> None then Some (if sv_tripped s \<noteq> None then s else r, deny ''guard_unavailable'' key, [])
       else case bannedLocked gl w key ip t of
           Some b \<Rightarrow> Some (w, deny ''banned'' b, [])
         | None \<Rightarrow> if refuses_new w then Some (w, deny ''table_full'' key, [])
             else case noteRateLocked io key t w of None \<Rightarrow> None
               | Some (s, evs, banned) \<Rightarrow> if banned then Some (s, deny ''rate'' key, evs) else Some (s, allow key, []))"
    using on r
    by (auto simp: admitLocked_def Let_def refuses_new_def t_def [symmetric] w_def [symmetric] key_def [symmetric]
        split: option.split)
  have rate: "banned \<longleftrightarrow> rate_reached w key t" if "noteRateLocked io key t w = Some (s1, evs1, banned)" "\<not> refuses_new w"
      for s1 evs1 banned
    using noteRateLocked_result [OF assms(1) inv that] .
  show ?thesis
    using assms(3) on r rate unfolding adm
    by (auto simp: Let_def allow_def deny_def t_def [symmetric] w_def [symmetric] key_def [symmetric]
        split: if_splits option.splits)
qed

text \<open>
  C31. The admission decision, exactly. On a valid jail a connection is let through when and only when
  the jail is off or disabled; or the address parses and is on the ignore list; or the jail is not
  tripped, the ban file could be followed, no unexpired ban covers the peer's key or its exact address,
  the table does not refuse new peers, and this connection does not complete the rate limit. Every
  other connection is denied: an unreadable peer address, a tripped jail and a failing ban file
  included.
\<close>

theorem admit_iff:
  assumes "fair_range io" and "guard_inv s" and "admitLocked gl io addr s = Some (s', d, evs)"
  shows "d_Allow d \<longleftrightarrow>
    sv_forceOff s \<or> \<not> cfg_enabled (sv_cfg s) \<or>
    (\<exists>c ip. parsePeer gl addr = Some (c, ip) \<and>
       (ignored (cfg_ignore (sv_cfg s)) ip \<or>
        (sv_tripped s = None \<and>
         (\<exists>r. refreshLocked gl io s = (r, None) \<and>
            (let w = sweepLocked (io_now io) r; key = keyLocked gl s ip
             in bannedLocked gl w key ip (io_now io) = None \<and> \<not> refuses_new w \<and>
                \<not> rate_reached w key (io_now io))))))"
  by (rule admit_iff_core [OF assms])

definition demo_peer :: string where
  "demo_peer = demo_key @ '':22''"

theorem admit_iff_witness:
  "\<exists>s' d evs. admitLocked bits_lib demo_io demo_peer demo_service = Some (s', d, evs) \<and> \<not> d_Allow d"
proof -
  have inv: "guard_inv demo_service"
    by (simp add: guard_inv_def demo_service_def default_service_def defaultConfig_wf wf_map_def)
  obtain s' d evs where a: "admitLocked bits_lib demo_io demo_peer demo_service = Some (s', d, evs)"
    using admitLocked_returns [OF demo_io_fair inv] by blast
  have p: "parsePeer bits_lib demo_peer = Some (demo_key, 0xFFFF0A000001)" by code_simp
  have ig: "\<not> ignored (cfg_ignore (sv_cfg demo_service)) 0xFFFF0A000001" by code_simp
  have r: "refreshLocked bits_lib demo_io demo_service = (demo_service, None)"
    by (simp add: refreshLocked_def demo_io_def demo_service_def default_service_def)
  have b: "bannedLocked bits_lib (sweepLocked (io_now demo_io) demo_service)
      (keyLocked bits_lib demo_service 0xFFFF0A000001) 0xFFFF0A000001 (io_now demo_io) \<noteq> None"
    by code_simp
  have "\<not> d_Allow d"
    using b unfolding admit_iff [OF demo_io_fair inv a]
    by (auto simp: p ig r Let_def) (simp_all add: demo_service_def default_service_def defaultConfig_def)
  then show ?thesis using a by blast
qed

section \<open>Failing closed\<close>

datatype conn_op = Connect string | HandshakeFailed string | AskUnban string | AskStatus

text \<open>One operation on a configured jail, everything but configuration and reload.\<close>

definition conn_step :: "golib \<Rightarrow> guard_io \<Rightarrow> conn_op \<Rightarrow> service \<Rightarrow> service option" where
  "conn_step gl io op s =
     (case op of
        Connect addr \<Rightarrow> map_option fst (admitLocked gl io addr s)
      | HandshakeFailed addr \<Rightarrow> map_option fst (noteHandshakeLocked gl io addr s)
      | AskUnban key \<Rightarrow> Some (fst (unbanLocked gl io key s))
      | AskStatus \<Rightarrow>
          Some (if sv_tripped s = None \<and> \<not> sv_forceOff s
                then case refreshLocked gl io s of
                    (s, None) \<Rightarrow> sweepLocked (io_now io) s
                  | (s, Some _) \<Rightarrow> s
                else s))"

fun conn_run :: "golib \<Rightarrow> (guard_io \<times> conn_op) list \<Rightarrow> service \<Rightarrow> service option" where
  "conn_run gl [] s = Some s"
| "conn_run gl ((io, op) # rest) s =
     (case conn_step gl io op s of None \<Rightarrow> None | Some s' \<Rightarrow> conn_run gl rest s')"

lemma tripped_step:
  assumes "sv_tripped s = Some e" and "conn_step gl io op s = Some s'"
  shows "s' = s"
  using assms
  by (cases op)
     (auto simp: conn_step_def admitLocked_def noteHandshakeLocked_def unbanLocked_def Let_def
       split: if_splits option.splits)

lemma tripped_run: "sv_tripped s = Some e \<Longrightarrow> conn_run gl ops s = Some s' \<Longrightarrow> s' = s"
  by (induction gl ops s rule: conn_run.induct) (auto split: option.splits dest: tripped_step)

text \<open>
  C32. A ban that cannot be written closes the listener. When persisting a new ban fails, for whatever
  reason, the jail is tripped; from then on no sequence of connections, handshakes, unban requests and
  status queries changes it, \<^verbatim>\<open>Ready\<close> reports the failure and every screened peer is denied with
  \<^verbatim>\<open>guard_unavailable\<close>, banned or not.
\<close>

theorem failed_ban_fails_closed:
  assumes "persistLocked io (s\<lparr>sv_bans := mput (sv_bans s) key \<lparr>br_until = t + cfg_banTime (sv_cfg s), br_reason = reason\<rparr>\<rparr>)
      = (p, Some e, doc)"
    and "applyBanLocked io key reason t s = (s1, evs)"
    and "conn_run gl ops s1 = Some s2"
    and "screened gl s2 addr = Some ip"
  shows "guard_Ready (Some s2) = Some (Unavailable e) \<and>
    admitLocked gl io' addr s2 = Some (s2, deny ''guard_unavailable'' (keyLocked gl s2 ip), [])"
proof -
  have trip: "sv_tripped s1 = Some (Unavailable e)"
    using assms(1,2) by (auto simp: applyBanLocked_def Let_def)
  then have "s2 = s1" using tripped_run assms(3) by blast
  then show ?thesis
    using trip assms(4)
    by (auto simp: guard_Ready_def screened_def admitLocked_def Let_def split: if_splits option.splits)
qed

theorem failed_ban_fails_closed_witness:
  "\<exists>s1 evs. applyBanLocked demo_io ''k'' ''rate'' 100 default_service = (s1, evs) \<and>
     admitLocked bits_lib demo_io demo_peer s1 =
       Some (s1, deny ''guard_unavailable'' (keyLocked bits_lib s1 0xFFFF0A000001), [])"
proof -
  obtain s1 evs where a: "applyBanLocked demo_io ''k'' ''rate'' 100 default_service = (s1, evs)" by fastforce
  have c: "sv_cfg s1 = defaultConfig" "sv_forceOff s1 = False"
    using applyBanLocked_frame [OF a] by (simp_all add: default_service_def)
  have p: "parsePeer bits_lib demo_peer = Some (demo_key, 0xFFFF0A000001)" by code_simp
  have ig: "\<not> ignored (cfg_ignore defaultConfig) 0xFFFF0A000001" by code_simp
  have scr: "screened bits_lib s1 demo_peer = Some 0xFFFF0A000001"
    using p ig by (simp add: screened_def c) (simp add: defaultConfig_def)
  have "guard_Ready (Some s1) = Some (Unavailable StatePathEmpty) \<and>
    admitLocked bits_lib demo_io demo_peer s1 =
      Some (s1, deny ''guard_unavailable'' (keyLocked bits_lib s1 0xFFFF0A000001), [])"
    by (rule failed_ban_fails_closed [OF _ a, where ops = "[]" and doc = None])
       (simp_all add: persistLocked_def default_service_def scr)
  then show ?thesis using a by blast
qed

section \<open>A ban holds\<close>

lemma applyBanLocked_lookup:
  "applyBanLocked io key reason t s = (s', evs) \<Longrightarrow> k \<noteq> key \<Longrightarrow> mget (sv_bans s') k = mget (sv_bans s) k"
  using applyBanLocked_frame(4) [of io key reason t s s' evs] by simp

lemma sweep_keeps:
  "wf_map (sv_bans s) \<Longrightarrow> mget (sv_bans s) k = Some b \<Longrightarrow> br_until b > t \<Longrightarrow>
   mget (sv_bans (sweepLocked t s)) k = Some b"
  by (simp add: sweepLocked_frame map_of_filter_wf)

lemma active_banI: "mget (sv_bans s) k = Some b \<Longrightarrow> br_until b > t \<Longrightarrow> active_ban s k t"
  by (simp add: active_ban_def)

lemma noteRateLocked_keeps:
  assumes "noteRateLocked io key t s = Some (s', evs, banned)" and "cfg_tableFull (sv_cfg s) = tableFullRefuse"
    and "k \<noteq> key"
  shows "mget (sv_bans s') k = mget (sv_bans s) k \<and> sv_cfg s' = sv_cfg s"
proof -
  obtain s1 p where p: "peerLocked io key t s = (s1, p)" by fastforce
  have "sv_cfg s1 = sv_cfg s" "sv_bans s1 = sv_bans s" using peerLocked_samples [OF p] by auto
  then show ?thesis
    using assms p
    by (auto simp: noteRateLocked_def Let_def dest!: roomForBanLocked_keeps
        dest: applyBanLocked_lookup applyBanLocked_frame(1) split: if_splits option.splits prod.splits)
qed

lemma connect_keeps_ban:
  assumes "refreshLocked gl io s = (s, None)" and "cfg_tableFull (sv_cfg s) = tableFullRefuse"
    and "wf_map (sv_bans s)" and "mget (sv_bans s) k = Some b" and "io_now io < br_until b"
    and "admitLocked gl io addr s = Some (s', d, evs)"
  shows "mget (sv_bans s') k = Some b \<and> sv_cfg s' = sv_cfg s"
proof -
  define t where "t = io_now io"
  define w where "w = sweepLocked t s"
  have w: "mget (sv_bans w) k = Some b" "sv_cfg w = sv_cfg s"
    using sweep_keeps [OF assms(3,4), of t] assms(5) by (simp_all add: w_def t_def sweepLocked_frame)
  have act: "active_ban w k t" using active_banI [OF w(1)] assms(5) by (simp add: t_def)
  have rate: "mget (sv_bans s1) k = Some b \<and> sv_cfg s1 = sv_cfg s"
    if "noteRateLocked io key t w = Some (s1, evs1, bb)" "bannedLocked gl w key ip t = None" for key ip s1 evs1 bb
  proof -
    have "k \<noteq> key" using act that(2) by (auto simp: bannedLocked_def Let_def split: if_splits)
    then show ?thesis using noteRateLocked_keeps [OF that(1)] assms(2) w by auto
  qed
  show ?thesis
    using assms(1,4,6) w rate
    by (auto simp: admitLocked_def Let_def t_def [symmetric] w_def [symmetric]
        split: if_splits option.splits prod.splits)
qed

lemma handshake_keeps_ban:
  assumes "refreshLocked gl io s = (s, None)" and "cfg_tableFull (sv_cfg s) = tableFullRefuse"
    and "wf_map (sv_bans s)" and "mget (sv_bans s) k = Some b" and "io_now io < br_until b"
    and "noteHandshakeLocked gl io addr s = Some (s', evs)"
  shows "mget (sv_bans s') k = Some b \<and> sv_cfg s' = sv_cfg s"
proof -
  define t where "t = io_now io"
  define w where "w = sweepLocked t s"
  have w: "mget (sv_bans w) k = Some b" "sv_cfg w = sv_cfg s"
    using sweep_keeps [OF assms(3,4), of t] assms(5) by (simp_all add: w_def t_def sweepLocked_frame)
  have act: "active_ban w k t" using active_banI [OF w(1)] assms(5) by (simp add: t_def)
  have key: "k \<noteq> key" if "bannedLocked gl w key ip t = None" for key ip
    using act that by (auto simp: bannedLocked_def Let_def split: if_splits)
  have peer: "sv_cfg s1 = sv_cfg s \<and> sv_bans s1 = sv_bans w" if "peerLocked io key t w = (s1, p)" for key s1 p
    using peerLocked_samples [OF that] w(2) by auto
  have ban: "mget (sv_bans s3) k = Some b \<and> sv_cfg s3 = sv_cfg s"
    if "applyBanLocked io key r t (s1\<lparr>sv_peers := P\<rparr>) = (s3, ev)" "peerLocked io key t w = (s1, p)"
      "bannedLocked gl w key ip t = None" for key r s1 P s3 ev p ip
    using applyBanLocked_lookup [OF that(1) key [OF that(3)]] applyBanLocked_frame(1) [OF that(1)]
      peer [OF that(2)] w(1) by simp
  show ?thesis
    using assms(1,2,4,6) w peer
    by (auto simp: noteHandshakeLocked_def Let_def t_def [symmetric] w_def [symmetric]
        dest!: roomForBanLocked_keeps dest: ban split: if_splits option.splits prod.splits)
qed

text \<open>
  A run of connections and failed handshakes before time \<open>until\<close>, during which the ban file on disk
  stays the one the jail knows.
\<close>

fun quiet_run :: "golib \<Rightarrow> time \<Rightarrow> (guard_io \<times> conn_op) list \<Rightarrow> service \<Rightarrow> bool" where
  "quiet_run gl until [] s = True"
| "quiet_run gl until ((io, op) # rest) s \<longleftrightarrow>
     fair_range io \<and> io_now io < until \<and> refreshLocked gl io s = (s, None) \<and>
     (case op of Connect _ \<Rightarrow> True | HandshakeFailed _ \<Rightarrow> True | _ \<Rightarrow> False) \<and>
     (case conn_step gl io op s of None \<Rightarrow> False | Some s' \<Rightarrow> quiet_run gl until rest s')"

lemma quiet_run_keeps:
  assumes "quiet_run gl (br_until b) ops s" and "guard_inv s" and "cfg_tableFull (sv_cfg s) = tableFullRefuse"
    and "mget (sv_bans s) k = Some b" and "conn_run gl ops s = Some s'"
  shows "mget (sv_bans s') k = Some b \<and> guard_inv s' \<and> sv_cfg s' = sv_cfg s"
  using assms
proof (induction gl "br_until b" ops s rule: quiet_run.induct)
  case (2 gl io op rest s)
  obtain s1 where s1: "conn_step gl io op s = Some s1" "quiet_run gl (br_until b) rest s1" "conn_run gl rest s1 = Some s'"
    using "2.prems" by (auto split: option.splits)
  have fair: "fair_range io" "io_now io < br_until b" "refreshLocked gl io s = (s, None)"
    using "2.prems" by auto
  have wf: "wf_map (sv_bans s)" using "2.prems" by (simp add: guard_inv_def)
  have "mget (sv_bans s1) k = Some b \<and> sv_cfg s1 = sv_cfg s \<and> guard_inv s1"
  proof (cases op)
    case (Connect addr)
    then obtain d evs where a: "admitLocked gl io addr s = Some (s1, d, evs)"
      using s1(1) by (auto simp: conn_step_def)
    then show ?thesis
      using connect_keeps_ban [OF fair(3) "2.prems"(3) wf "2.prems"(4) fair(2) a]
        admitLocked_returns [OF fair(1) "2.prems"(2), of gl addr] by auto
  next
    case (HandshakeFailed addr)
    then obtain evs where a: "noteHandshakeLocked gl io addr s = Some (s1, evs)"
      using s1(1) by (auto simp: conn_step_def)
    then show ?thesis
      using handshake_keeps_ban [OF fair(3) "2.prems"(3) wf "2.prems"(4) fair(2) a]
        noteHandshakeLocked_returns [OF fair(1) "2.prems"(2), of gl addr] by auto
  qed (use "2.prems"(1) in auto)
  then show ?case using "2.hyps" [OF s1(1)] s1 "2.prems" by auto
qed simp

text \<open>
  C33. A ban holds. In a jail whose table refuses rather than evicts, a ban survives every run of
  connections and failed handshakes, by any peers and in any number, up to its expiry; and at every
  such moment a connection from a peer it covers, by network key or by exact address, is denied.
\<close>

theorem ban_holds:
  assumes "guard_inv s" and "cfg_tableFull (sv_cfg s) = tableFullRefuse"
    and "mget (sv_bans s) k = Some b"
    and "quiet_run gl (br_until b) (ops @ [(io, Connect addr)]) s" and "conn_run gl ops s = Some s1"
    and "screened gl s1 addr = Some ip" and "k = keyLocked gl s1 ip \<or> k = canonicalIP gl ip"
    and "admitLocked gl io addr s1 = Some (s2, d, evs)"
  shows "mget (sv_bans s1) k = Some b \<and> \<not> d_Allow d"
proof -
  have "quiet_run gl (br_until b) ops s \<and>
      (fair_range io \<and> io_now io < br_until b \<and> refreshLocked gl io s1 = (s1, None))"
    using assms(4,5) by (induction gl "br_until b" ops s rule: quiet_run.induct) (auto split: option.splits)
  then have q: "quiet_run gl (br_until b) ops s" "fair_range io" "io_now io < br_until b"
      "refreshLocked gl io s1 = (s1, None)" by auto
  have s1: "mget (sv_bans s1) k = Some b" "guard_inv s1"
    using quiet_run_keeps [OF q(1) assms(1-3,5)] by auto
  define w where "w = sweepLocked (io_now io) s1"
  have "mget (sv_bans w) k = Some b"
    unfolding w_def using s1 q(3) by (intro sweep_keeps) (auto simp: guard_inv_def)
  then have "active_ban w k (io_now io)" using q(3) by (intro active_banI) auto
  then have "bannedLocked gl w (keyLocked gl s1 ip) ip (io_now io) \<noteq> None"
    using assms(7) by (auto simp: bannedLocked_def Let_def)
  then have "\<not> d_Allow d"
    using assms(6) q(4) unfolding admit_iff_core [OF q(2) s1(2) assms(8)]
    by (auto simp: w_def screened_def Let_def split: if_splits option.splits)
  then show ?thesis using s1 by blast
qed

definition refuse_service :: service where
  "refuse_service = demo_service\<lparr>sv_cfg := defaultConfig\<lparr>cfg_tableFull := tableFullRefuse\<rparr>\<rparr>"

theorem ban_holds_witness:
  "\<exists>s2 d evs. admitLocked bits_lib demo_io demo_peer refuse_service = Some (s2, d, evs) \<and> \<not> d_Allow d"
proof -
  have inv: "guard_inv refuse_service"
    by (simp add: guard_inv_def refuse_service_def demo_service_def default_service_def wf_map_def
        wf_config_update(8) [OF defaultConfig_wf])
  obtain s2 d evs where a: "admitLocked bits_lib demo_io demo_peer refuse_service = Some (s2, d, evs)"
    using admitLocked_returns [OF demo_io_fair inv] by blast
  have p: "parsePeer bits_lib demo_peer = Some (demo_key, 0xFFFF0A000001)" by code_simp
  have ig: "\<not> ignored (cfg_ignore defaultConfig) 0xFFFF0A000001" by code_simp
  have scr: "screened bits_lib refuse_service demo_peer = Some 0xFFFF0A000001"
    using p ig by (simp add: screened_def refuse_service_def demo_service_def default_service_def)
      (simp add: defaultConfig_def)
  have ref: "refreshLocked bits_lib demo_io refuse_service = (refuse_service, None)"
    by (simp add: refreshLocked_def demo_io_def refuse_service_def demo_service_def default_service_def)
  have key: "demo_key = canonicalIP bits_lib 0xFFFF0A000001" by code_simp
  have "mget (sv_bans refuse_service) demo_key = Some \<lparr>br_until = 300, br_reason = ''rate''\<rparr> \<and> \<not> d_Allow d"
    by (rule ban_holds [OF inv _ _ _ _ scr disjI2 [OF key] a, where ops = "[]"])
       (use a ref demo_io_fair in \<open>simp_all add: conn_step_def\<close>,
        simp_all add: refuse_service_def demo_service_def demo_io_def)
  then show ?thesis using a by blast
qed

section \<open>Strikes\<close>

lemma swept_table:
  "wf_map (sv_bans s) \<Longrightarrow> mget (sv_bans (sweepLocked t s)) k \<noteq> None \<Longrightarrow> active_ban (sweepLocked t s) k t"
  by (auto simp: active_ban_def sweepLocked_frame map_of_filter_wf split: option.splits if_splits)

text \<open>
  Failed handshakes ban at the configured count. For a screened peer that is not banned already, a
  failed handshake records a ban of exactly \<open>ban_time\<close>, with both audit events, when the strikes inside
  \<open>find_time\<close> reach \<open>max_retry\<close> and the table does not refuse; otherwise it changes no ban and emits
  nothing.
\<close>

theorem handshake_bans_at_limit:
  assumes "fair_range io" and "guard_inv s" and "screened gl s addr = Some ip" and "sv_tripped s = None"
    and "refreshLocked gl io s = (r, None)"
    and "bannedLocked gl (sweepLocked (io_now io) r) (keyLocked gl s ip) ip (io_now io) = None"
  defines "w \<equiv> sweepLocked (io_now io) r" and "key \<equiv> keyLocked gl s ip"
  shows "\<exists>s' evs. noteHandshakeLocked gl io addr s = Some (s', evs) \<and>
    (if strikes_reached w key (io_now io) \<and> \<not> refuses_new w
     then evs = [\<lparr>ev_Action = ''threshold'', ev_Addr = key, ev_Reason = ''handshake''\<rparr>,
                 \<lparr>ev_Action = ''ban'', ev_Addr = key, ev_Reason = ''handshake''\<rparr>] \<and>
          mget (sv_bans s') key = Some \<lparr>br_until = io_now io + cfg_banTime (sv_cfg s), br_reason = ''handshake''\<rparr>
     else evs = [] \<and> sv_bans s' = sv_bans w)"
proof -
  define t where "t = io_now io"
  have cfg: "sv_cfg r = sv_cfg s" "sv_cfg w = sv_cfg s"
    using refreshLocked_frame [OF assms(5)] by (simp_all add: w_def sweepLocked_frame)
  have inv: "guard_inv w" using refreshLocked_inv [OF assms(2,5)] by (simp add: w_def sweepLocked_inv)
  have wt: "w = sweepLocked t r" by (simp add: w_def t_def)
  have kr: "keyLocked gl r ip = key" by (simp add: key_def keyLocked_def cfg)
  obtain c where on: "\<not> sv_forceOff s" "cfg_enabled (sv_cfg s)" "parsePeer gl addr = Some (c, ip)"
      "\<not> ignored (cfg_ignore (sv_cfg s)) ip"
    using screenedE [OF assms(3)] .
  have nb: "bannedLocked gl w key ip t = None" using assms(6) by (simp add: w_def key_def t_def)
  have "\<not> active_ban w key t" using nb by (auto simp: bannedLocked_def split: if_splits)
  then have nokey: "mget (sv_bans w) key = None"
    using refreshLocked_inv [OF assms(2,5)] swept_table [of r t key] unfolding wt guard_inv_def by blast
  obtain s1 p where p: "peerLocked io key t w = (s1, p)" by fastforce
  define q where "q = p\<lparr>ps_strikes := appendWindow (ps_strikes p) t (cfg_findTime (sv_cfg s1)) (cfg_maxRetry (sv_cfg s1))\<rparr>"
  define s2 where "s2 = s1\<lparr>sv_peers := mput (sv_peers s1) key q\<rparr>"
  have fr: "ps_strikes p = strikes_of w key" "sv_cfg s1 = sv_cfg w" "sv_bans s1 = sv_bans w"
    using peerLocked_samples [OF p] by auto
  have cfg': "sv_cfg s2 = sv_cfg s" "sv_bans s2 = sv_bans w" by (simp_all add: s2_def fr cfg)
  have "length (ps_strikes q) \<le> 100"
    using inv wf_config_bounds(7,8) [of "sv_cfg w"]
      appendWindow_length [of "cfg_maxRetry (sv_cfg w)" 100 "ps_strikes p" t "cfg_findTime (sv_cfg w)"]
    by (simp add: q_def fr guard_inv_def)
  then have inv2: "guard_inv s2"
    unfolding s2_def by (intro note_sample_inv(1) [OF assms(1) inv p]) (auto simp: q_def)
  have reached: "int (length (appendWindow (ps_strikes p) t (cfg_findTime (sv_cfg s1)) (cfg_maxRetry (sv_cfg s1))))
      < cfg_maxRetry (sv_cfg s1) \<longleftrightarrow> \<not> strikes_reached w key t"
    by (auto simp: strikes_reached_def fr)
  obtain bans room where room: "roomForBanLocked io key s2 = Some (s2\<lparr>sv_bans := bans\<rparr>, room)"
    using roomForBanLocked_returns [OF assms(1) inv2] by blast
  have rm: "room \<longleftrightarrow> \<not> refuses_new w"
    using roomForBanLocked_room [OF assms(1) inv2 room] nokey by (simp add: refuses_new_def cfg cfg')
  have keep: "s2\<lparr>sv_bans := bans\<rparr> = s2" if "\<not> room"
    using room that by (auto simp: roomForBanLocked_def split: if_splits)
  obtain s3 evs where ban: "applyBanLocked io key ''handshake'' t (s2\<lparr>sv_bans := bans\<rparr>) = (s3, evs)" by fastforce
  have s3: "mget (sv_bans s3) key = Some \<lparr>br_until = t + cfg_banTime (sv_cfg s), br_reason = ''handshake''\<rparr>"
      "evs = [\<lparr>ev_Action = ''threshold'', ev_Addr = key, ev_Reason = ''handshake''\<rparr>,
              \<lparr>ev_Action = ''ban'', ev_Addr = key, ev_Reason = ''handshake''\<rparr>]"
    using applyBanLocked_frame(4) [OF ban] ban cfg' by (auto simp: applyBanLocked_def Let_def split: prod.splits)
  have "noteHandshakeLocked gl io addr s =
      (if \<not> strikes_reached w key t then Some (s2, [])
       else if \<not> room then Some (s2\<lparr>sv_bans := bans\<rparr>, []) else Some (s3, evs))"
    using on assms(4,5)
    by (simp add: noteHandshakeLocked_def Let_def kr nb p room ban reached cfg(1) flip: t_def wt q_def s2_def)
  then show ?thesis using s3 rm keep cfg' by (simp add: t_def)
qed

definition strict_service :: service where
  "strict_service = demo_service\<lparr>sv_bans := [], sv_cfg := defaultConfig\<lparr>cfg_maxRetry := 1\<rparr>\<rparr>"

theorem handshake_bans_at_limit_witness:
  "\<exists>s' evs. noteHandshakeLocked bits_lib demo_io demo_peer strict_service = Some (s', evs) \<and> length evs = 2"
proof -
  have inv: "guard_inv strict_service"
    by (simp add: guard_inv_def strict_service_def demo_service_def default_service_def
        wf_config_update(5) [OF defaultConfig_wf])
  have p: "parsePeer bits_lib demo_peer = Some (demo_key, 0xFFFF0A000001)" by code_simp
  have ig: "\<not> ignored (cfg_ignore defaultConfig) 0xFFFF0A000001" by code_simp
  have scr: "screened bits_lib strict_service demo_peer = Some 0xFFFF0A000001"
    using p ig by (simp add: screened_def strict_service_def demo_service_def default_service_def)
      (simp add: defaultConfig_def)
  have ref: "refreshLocked bits_lib demo_io strict_service = (strict_service, None)"
    by (simp add: refreshLocked_def demo_io_def strict_service_def demo_service_def default_service_def)
  have sw: "sweepLocked (io_now demo_io) strict_service = strict_service"
    by (simp add: sweepLocked_def strict_service_def demo_service_def default_service_def demo_io_def Let_def
        defaultConfig_def time_Sub_def zero_time_def duration_defs max_duration_def min_duration_def)
  have nb: "bannedLocked bits_lib (sweepLocked (io_now demo_io) strict_service)
      (keyLocked bits_lib strict_service 0xFFFF0A000001) 0xFFFF0A000001 (io_now demo_io) = None"
    unfolding sw by (simp add: bannedLocked_def active_ban_def strict_service_def Let_def)
  have "strikes_reached strict_service k 100" "\<not> refuses_new strict_service" for k
    by (simp_all add: strikes_reached_def strikes_of_def strict_service_def demo_service_def default_service_def
        appendWindow_def refuses_new_def defaultConfig_def tableFullEvict_def tableFullRefuse_def)
  moreover have "io_now demo_io = 100" by (simp add: demo_io_def)
  ultimately show ?thesis
    using handshake_bans_at_limit [OF demo_io_fair inv scr _ ref nb, unfolded sw]
    by (auto simp: strict_service_def demo_service_def default_service_def)
qed

section \<open>Operator commands\<close>

text \<open>
  Lifting a ban. When \<^verbatim>\<open>unbanLocked\<close> succeeds, the ban was in the followed and swept table, the
  new table holds every other ban unchanged and not this one, it is the table that was published on
  disk, and the peer's counters are gone; when it fails, no event is emitted and no ban is lost beyond
  what following the file and expiry removed.
\<close>

theorem unban_exact:
  assumes "unbanLocked gl io key s = (s', evs, err)" and "guard_inv s"
  shows "(err = None \<longrightarrow>
      (\<exists>r doc. refreshLocked gl io s = (r, None) \<and>
         (let w = sweepLocked (io_now io) r
          in mget (sv_bans w) key \<noteq> None \<and>
             (\<forall>k. mget (sv_bans s') k = (if k = key then None else mget (sv_bans w) k)) \<and>
             (\<forall>k. mget (sv_peers s') k = (if k = key then None else mget (sv_peers w) k)) \<and>
             snd (persistLocked io (w\<lparr>sv_bans := sv_bans s'\<rparr>)) = (None, Some doc) \<and>
             evs = [\<lparr>ev_Action = ''unban'', ev_Addr = key, ev_Reason = ''operator''\<rparr>]))) \<and>
    (err \<noteq> None \<longrightarrow> evs = [] \<and>
      (let r = fst (refreshLocked gl io s)
       in sv_bans s' \<in> {sv_bans s, sv_bans r, sv_bans (sweepLocked (io_now io) r)}))"
proof -
  obtain r e where r: "refreshLocked gl io s = (r, e)" by fastforce
  define w where "w = sweepLocked (io_now io) r"
  define n where "n = w\<lparr>sv_bans := filter (\<lambda>(k, v). k \<noteq> key) (sv_bans w)\<rparr>"
  obtain w' pe d where p: "persistLocked io n = (w', pe, d)" by (cases "persistLocked io n")
  have wf: "wf_map (sv_bans w)"
    using sweepLocked_inv [OF refreshLocked_inv [OF assms(2) r]] by (simp add: w_def guard_inv_def)
  have fr: "sv_bans w' = filter (\<lambda>(k, v). k \<noteq> key) (sv_bans w)" "sv_peers w' = sv_peers w"
    using persistLocked_frame [OF p] by (auto simp: n_def)
  have look: "mget (sv_bans w') k = (if k = key then None else mget (sv_bans w) k)" for k
    using map_of_filter_wf [OF wf, of "\<lambda>k v. k \<noteq> key" k] by (auto simp: fr split: option.splits)
  have doc: "\<exists>doc. snd (persistLocked io n) = (None, Some doc)" if "pe = None"
    using p that by (auto simp: persistLocked_def split: if_splits sum.splits write_result.splits)
  have n: "w\<lparr>sv_bans := sv_bans w'\<rparr> = n" by (simp add: n_def fr)
  have ub: "unbanLocked gl io key s =
      (if sv_forceOff s then (s, [], Some Inactive)
       else if sv_tripped s \<noteq> None then (s, [], sv_tripped s)
       else if e \<noteq> None then (r, [], e)
       else if mget (sv_bans w) key = None then (w, [], Some NotBanned)
       else if pe \<noteq> None then (w'\<lparr>sv_bans := sv_bans w\<rparr>, [], pe)
       else (w'\<lparr>sv_peers := mdel (sv_peers w') key\<rparr>,
             [\<lparr>ev_Action = ''unban'', ev_Addr = key, ev_Reason = ''operator''\<rparr>], None))"
    by (auto simp: unbanLocked_def r Let_def p w_def [symmetric] n_def [symmetric] split: option.split)
  consider (refused) "sv_forceOff s \<or> sv_tripped s \<noteq> None \<or> e \<noteq> None \<or> mget (sv_bans w) key = None"
    | (failed) pe' where "\<not> sv_forceOff s" "sv_tripped s = None" "e = None" "mget (sv_bans w) key \<noteq> None" "pe = Some pe'"
    | (lifted) "\<not> sv_forceOff s" "sv_tripped s = None" "e = None" "mget (sv_bans w) key \<noteq> None" "pe = None"
    by (cases pe) auto
  then show ?thesis
  proof cases
    case refused
    then have "evs = []" "err \<noteq> None" "sv_bans s' \<in> {sv_bans s, sv_bans r, sv_bans w}"
      using assms(1) unfolding ub by (cases "sv_tripped s"; auto split: if_splits)+
    then show ?thesis by (simp add: r w_def)
  next
    case failed
    then show ?thesis using assms(1) unfolding ub by (auto simp: r w_def)
  next
    case lifted
    then have s': "s' = w'\<lparr>sv_peers := mdel (sv_peers w') key\<rparr>"
        "evs = [\<lparr>ev_Action = ''unban'', ev_Addr = key, ev_Reason = ''operator''\<rparr>]" "err = None"
      using assms(1) unfolding ub by auto
    obtain doc where "snd (persistLocked io n) = (None, Some doc)" using doc lifted(5) by blast
    then show ?thesis
      using lifted s' look n fr(2) r by (simp add: Let_def flip: w_def)
  qed
qed

theorem unban_exact_witness:
  "\<exists>s' evs. unbanLocked bits_lib demo_io demo_key demo_service = (s', evs, None) \<and> mget (sv_bans s') demo_key = None"
proof -
  obtain s' evs err where u: "unbanLocked bits_lib demo_io demo_key demo_service = (s', evs, err)"
    by (cases "unbanLocked bits_lib demo_io demo_key demo_service")
  have inv: "guard_inv demo_service"
    by (simp add: guard_inv_def demo_service_def default_service_def defaultConfig_wf wf_map_def)
  have "snd (snd (unbanLocked bits_lib demo_io demo_key demo_service)) = None" by code_simp
  then have "err = None" using u by simp
  then show ?thesis using unban_exact [OF u inv] u by (auto simp: Let_def)
qed

text \<open>
  Starting the jail. \<^verbatim>\<open>Configure\<close> returns an error exactly when the installed jail is not ready,
  and it is the error \<^verbatim>\<open>Ready\<close> reports: a bad switch, an empty state path, an unreadable or invalid
  config, or a ban file that is there and cannot be trusted. The switch \<^verbatim>\<open>off\<close> is the one case in
  which no file is looked at: the result does not depend on their content.
\<close>

theorem configure_ready:
  "guard_Ready (Some (fst (Configure gl io opt))) = snd (Configure gl io opt) \<and>
   (snd (Configure gl io opt) = None \<longleftrightarrow>
      (\<exists>on. ParseSwitch (opt_Switch opt) = Some (True, on)) \<or>
      (ParseSwitch (opt_Switch opt) \<noteq> None \<and> opt_StatePath opt \<noteq> '''' \<and>
       CheckConfig gl io (opt_ConfigPath opt) = None \<and>
       CheckState gl io (opt_StatePath opt) \<in> {None, Some (FileErr NotExist)})) \<and>
   (\<forall>on io'. ParseSwitch (opt_Switch opt) = Some (True, on) \<longrightarrow> Configure gl io' opt = Configure gl io opt)"
proof -
  have opt: "loadOptionalState gl io = (case loadState gl io of
      Inl e \<Rightarrow> if e = FileErr NotExist then Inr ([], \<lparr>sm_saw = False, sm_mtime = zero_time, sm_size = - 1\<rparr>) else Inl e
    | Inr r \<Rightarrow> Inr r)"
    by (auto simp: loadOptionalState_def split: sum.splits guard_err.splits file_err.splits)
  show ?thesis
    by (auto simp: Configure_def Let_def newService_def guard_Ready_def CheckConfig_def CheckState_def opt
        split: option.splits sum.splits if_splits)
qed

theorem configure_ready_witness:
  "ParseSwitch ''Off'' = Some (True, False) \<and>
   guard_Ready (Some (fst (Configure bits_lib demo_io \<lparr>opt_ConfigPath = ''c'', opt_StatePath = ''s'', opt_Switch = ''Off''\<rparr>))) = None"
proof -
  have off: "ParseSwitch ''Off'' = Some (True, False)" by code_simp
  then show ?thesis
    using configure_ready [of bits_lib demo_io "\<lparr>opt_ConfigPath = ''c'', opt_StatePath = ''s'', opt_Switch = ''Off''\<rparr>"]
    by auto
qed

text \<open>
  A jail without a state path cannot ban. In a process that never called \<^verbatim>\<open>Configure\<close>, the first
  ban trips the jail instead of being kept in memory only, and reloading does not recover it, whatever
  the files hold.
\<close>

theorem pathless_ban_trips:
  assumes "sv_statePath s = ''''" and "\<not> sv_forceOff s"
    and "applyBanLocked io key reason t s = (s1, evs)" and "reloadLocked gl io' s1 = (s2, evs', err)"
  shows "sv_tripped s1 = Some (Unavailable StatePathEmpty) \<and> sv_tripped s2 \<noteq> None \<and> err \<noteq> None"
  using assms
  by (auto simp: applyBanLocked_def Let_def persistLocked_def reloadLocked_def trip_def split: sum.splits)

theorem pathless_ban_trips_witness:
  "\<exists>s1 evs. applyBanLocked demo_io ''k'' ''rate'' 100 default_service = (s1, evs) \<and>
     sv_tripped s1 = Some (Unavailable StatePathEmpty)"
proof -
  obtain s1 evs where a: "applyBanLocked demo_io ''k'' ''rate'' 100 default_service = (s1, evs)" by fastforce
  obtain s2 evs' err where b: "reloadLocked bits_lib demo_io s1 = (s2, evs', err)"
    by (cases "reloadLocked bits_lib demo_io s1")
  show ?thesis using pathless_ban_trips [OF _ _ a b] a by (simp add: default_service_def)
qed

end
