(* ===== verification/Policy.thy ===== *)
theory Policy
  imports Sessions Identity
begin

text \<open>
  The policy stage: the principal a command is judged for and the evaluation of the loaded Rego policy,
  \<^verbatim>\<open>security/policy.go\<close> and the policy part of \<^verbatim>\<open>NewEngine\<close> in \<^verbatim>\<open>security/engine.go\<close>. The OPA
  library is a parameter: a prepared query maps the input document to an error or to the values of its
  results, and compilation maps a source to an error or to a query.
\<close>

section \<open>Documents\<close>

datatype gval =
    GNull
  | GBool bool
  | GNum int
  | GStr string
  | GList "gval list"
  | GObj "(string \<times> gval) list"

type_synonym prepared = "gval \<Rightarrow> string + gval list"

record elevation_claim =
  ec_Role :: string
  ec_Reason :: string
  ec_ExpiresAt :: string

record gateway_claim =
  gc_Action :: string
  gc_Listen :: string
  gc_Name :: string
  gc_Target :: string
  gc_TargetHost :: string
  gc_TargetIP :: string
  gc_TargetPort :: string

record lease_claim =
  lc_ID :: string
  lc_SourceType :: string
  lc_SourceName :: string
  lc_Destination :: string
  lc_TTLSeconds :: int
  lc_Command :: "string list"
  lc_Delivery :: string

record exec_lease_claim =
  xc_Sub :: string
  xc_Host :: string
  xc_JTI :: string
  xc_Exp :: int

record agent_claim =
  ac_ID :: string
  ac_Kind :: string
  ac_Risk :: string
  ac_DryRun :: bool
  ac_SessionID :: string

record snoop_claim =
  sc_Purpose :: string
  sc_Mode :: string
  sc_User :: string
  sc_Session :: string

record policy_context =
  pc_User :: string
  pc_Groups :: "string list"
  pc_Command :: string
  pc_Args :: "string list"
  pc_Capabilities :: "string list"
  pc_Time :: string
  pc_SessionID :: string
  pc_Elevation :: "elevation_claim option"
  pc_Gateway :: "gateway_claim option"
  pc_Lease :: "lease_claim option"
  pc_ExecLease :: "exec_lease_claim option"
  pc_Agent :: "agent_claim option"
  pc_Snoop :: "snoop_claim option"
  pc_IdentityUnknown :: bool

record policy_decision =
  pd_Allowed :: bool
  pd_DenyReason :: string
  pd_RequiredRole :: string
  pd_Rule :: string
  pd_RequiredEntitlement :: string
  pd_Notify :: "bool option"

definition no_decision :: policy_decision where
  "no_decision =
     \<lparr>pd_Allowed = False, pd_DenyReason = '''', pd_RequiredRole = '''', pd_Rule = '''',
      pd_RequiredEntitlement = '''', pd_Notify = None\<rparr>"

section \<open>The input document\<close>

definition GStrs :: "string list \<Rightarrow> gval" where
  "GStrs xs = GList (map GStr xs)"

text \<open>An optional claim adds its key to the input.\<close>

definition claim :: "string \<Rightarrow> ('c \<Rightarrow> (string \<times> gval) list) \<Rightarrow> 'c option \<Rightarrow> (string \<times> gval) list" where
  "claim key f c = (case c of None \<Rightarrow> [] | Some x \<Rightarrow> [(key, GObj (f x))])"

definition policy_input :: "policy_context \<Rightarrow> gval" where
  "policy_input p = GObj
     ([(''user'', GStr (pc_User p)), (''groups'', GStrs (pc_Groups p)), (''command'', GStr (pc_Command p)),
       (''args'', GStrs (pc_Args p)), (''capabilities'', GStrs (pc_Capabilities p)),
       (''time'', GStr (pc_Time p)), (''session_id'', GStr (pc_SessionID p))] @
      claim ''elevation'' (\<lambda>c. [(''role'', GStr (ec_Role c)), (''reason'', GStr (ec_Reason c)),
        (''expires_at'', GStr (ec_ExpiresAt c))]) (pc_Elevation p) @
      claim ''gateway'' (\<lambda>c. [(''action'', GStr (gc_Action c)), (''listen'', GStr (gc_Listen c)),
        (''name'', GStr (gc_Name c)), (''target'', GStr (gc_Target c)), (''target_host'', GStr (gc_TargetHost c)),
        (''target_ip'', GStr (gc_TargetIP c)), (''target_port'', GStr (gc_TargetPort c))]) (pc_Gateway p) @
      claim ''lease'' (\<lambda>c. [(''id'', GStr (lc_ID c)), (''source_type'', GStr (lc_SourceType c)),
        (''source_name'', GStr (lc_SourceName c)), (''destination'', GStr (lc_Destination c)),
        (''ttl_seconds'', GNum (lc_TTLSeconds c)), (''command'', GStrs (lc_Command c)),
        (''delivery'', GStr (lc_Delivery c))]) (pc_Lease p) @
      claim ''exec_lease'' (\<lambda>c. [(''sub'', GStr (xc_Sub c)), (''host'', GStr (xc_Host c)),
        (''jti'', GStr (xc_JTI c)), (''exp'', GNum (xc_Exp c))]) (pc_ExecLease p) @
      claim ''agent'' (\<lambda>c. [(''id'', GStr (ac_ID c)), (''kind'', GStr (ac_Kind c)), (''risk'', GStr (ac_Risk c)),
        (''dry_run'', GBool (ac_DryRun c)), (''session_id'', GStr (ac_SessionID c))]) (pc_Agent p) @
      claim ''snoop'' (\<lambda>c. [(''purpose'', GStr (sc_Purpose c)), (''mode'', GStr (sc_Mode c)),
        (''user'', GStr (sc_User c)), (''session'', GStr (sc_Session c))]) (pc_Snoop p))"

section \<open>The decision\<close>

definition role_char :: "char \<Rightarrow> bool" where
  "role_char c = (is_alnum c \<or> c \<in> {CHR ''.'', CHR ''_'', CHR ''-''})"

text \<open>\<^verbatim>\<open>^[a-zA-Z0-9][a-zA-Z0-9._-]{0,64}$\<close>\<close>

definition roleNamePattern :: "string \<Rightarrow> bool" where
  "roleNamePattern s =
     (case s of [] \<Rightarrow> False | c # cs \<Rightarrow> is_alnum c \<and> list_all role_char cs \<and> length cs \<le> 64)"

definition roleFromValue :: "gval option \<Rightarrow> string option" where
  "roleFromValue v = (case v of Some (GStr t) \<Rightarrow> if roleNamePattern t then Some t else None | _ \<Rightarrow> None)"

definition decisionRequiredRole :: "(string \<times> gval) list \<Rightarrow> string" where
  "decisionRequiredRole m =
     (case roleFromValue (mget m ''required_role'') of
        Some role \<Rightarrow> role
      | None \<Rightarrow>
          (case mget m ''metadata'' of
             Some (GObj meta) \<Rightarrow>
               (case roleFromValue (mget meta ''required_role'') of Some role \<Rightarrow> role | None \<Rightarrow> '''')
           | _ \<Rightarrow> ''''))"

text \<open>One of the two optional string fields: absent, stored, or a final denial (\<open>Inl\<close>).\<close>

definition string_field ::
  "string \<Rightarrow> (string \<Rightarrow> policy_decision \<Rightarrow> policy_decision) \<Rightarrow> (string \<times> gval) list \<Rightarrow> policy_decision \<Rightarrow>
   policy_decision + policy_decision" where
  "string_field key store m d =
     (case mget m key of
        None \<Rightarrow> Inr d
      | Some (GStr t) \<Rightarrow> Inr (store t d)
      | Some _ \<Rightarrow> Inl (d\<lparr>pd_Rule := '''', pd_RequiredEntitlement := '''', pd_DenyReason := ''policy: non-string '' @ key\<rparr>))"

definition notify_field :: "(string \<times> gval) list \<Rightarrow> policy_decision \<Rightarrow> policy_decision" where
  "notify_field m d =
     (case mget m ''notify'' of
        None \<Rightarrow> d
      | Some (GBool b) \<Rightarrow> d\<lparr>pd_Notify := Some b\<rparr>
      | Some _ \<Rightarrow> d\<lparr>pd_Notify := Some True\<rparr>)"

definition decision_of :: "(string \<times> gval) list \<Rightarrow> policy_decision" where
  "decision_of m =
     (let d = no_decision\<lparr>pd_RequiredRole := decisionRequiredRole m\<rparr>;
          d = (case mget m ''deny_reason'' of Some (GStr t) \<Rightarrow> d\<lparr>pd_DenyReason := t\<rparr> | _ \<Rightarrow> d)
      in case string_field ''rule'' (\<lambda>t d. d\<lparr>pd_Rule := t\<rparr>) m d of
           Inl d \<Rightarrow> d
         | Inr d \<Rightarrow>
             (case string_field ''required_entitlement'' (\<lambda>t d. d\<lparr>pd_RequiredEntitlement := t\<rparr>) m d of
                Inl d \<Rightarrow> d
              | Inr d \<Rightarrow>
                  (let d = notify_field m d
                   in case mget m ''allow'' of
                        None \<Rightarrow>
                          if pd_DenyReason d = ''''
                          then d\<lparr>pd_DenyReason := ''policy: deny by default (no allow decision)''\<rparr> else d
                      | Some (GBool b) \<Rightarrow> d\<lparr>pd_Allowed := b\<rparr>
                      | Some _ \<Rightarrow> d\<lparr>pd_DenyReason := ''policy: non-boolean allow''\<rparr>)))"

definition errPolicyRemoteOnly :: string where
  "errPolicyRemoteOnly = ''policy is evaluated by the listener; not available in this process''"

definition EvaluatePolicyDecision ::
  "bool \<Rightarrow> prepared option \<Rightarrow> policy_context \<Rightarrow> policy_decision \<times> go_error" where
  "EvaluatePolicyDecision remote preparedQuery pctx =
     (if remote then (no_decision\<lparr>pd_DenyReason := errPolicyRemoteOnly\<rparr>, Some errPolicyRemoteOnly)
      else case preparedQuery of
          None \<Rightarrow> (no_decision\<lparr>pd_Allowed := True\<rparr>, None)
        | Some eval \<Rightarrow>
            (case eval (policy_input pctx) of
               Inl err \<Rightarrow> (no_decision, Some (''policy evaluation failed: '' @ err))
             | Inr [] \<Rightarrow> (no_decision\<lparr>pd_DenyReason := ''policy: no decision (empty result set)''\<rparr>, None)
             | Inr (GObj m # _) \<Rightarrow> (decision_of m, None)
             | Inr (_ # _) \<Rightarrow> (no_decision\<lparr>pd_DenyReason := ''policy: malformed decision document''\<rparr>, None)))"

definition EvaluatePolicy :: "bool \<Rightarrow> prepared option \<Rightarrow> policy_context \<Rightarrow> bool \<times> string \<times> go_error" where
  "EvaluatePolicy remote q pctx =
     (case EvaluatePolicyDecision remote q pctx of (d, err) \<Rightarrow> (pd_Allowed d, pd_DenyReason d, err))"

section \<open>Loading a policy\<close>

text \<open>
  \<open>compile\<close> stands for parsing and preparing a Rego source; a file is read as \<^verbatim>\<open>os.ReadFile\<close> reports
  it.
\<close>

datatype policy_read = PolMissing | PolReadErr string | PolData string

definition compilePolicy ::
  "(string \<Rightarrow> string \<Rightarrow> string + prepared) \<Rightarrow> string \<Rightarrow> string \<Rightarrow> prepared option \<Rightarrow> prepared option \<times> go_error" where
  "compilePolicy compile name data cur =
     (case compile name data of
        Inl e \<Rightarrow> (cur, Some (''failed to compile policy: '' @ e))
      | Inr q \<Rightarrow> (Some q, None))"

definition LoadPolicy ::
  "(string \<Rightarrow> string \<Rightarrow> string + prepared) \<Rightarrow> string \<Rightarrow> policy_read \<Rightarrow> prepared option \<Rightarrow> prepared option \<times> go_error" where
  "LoadPolicy compile path f cur =
     (case f of
        PolMissing \<Rightarrow> (cur, None)
      | PolReadErr e \<Rightarrow> (cur, Some (''failed to read policy: '' @ e))
      | PolData data \<Rightarrow> compilePolicy compile path data cur)"

definition PolicyLoaded :: "prepared option \<Rightarrow> bool" where
  "PolicyLoaded q = (q \<noteq> None)"

text \<open>The policy part of \<^verbatim>\<open>NewEngine\<close>: the prepared query of the new engine, or the error.\<close>

definition NewEngine_policy ::
  "(string \<Rightarrow> string \<Rightarrow> string + prepared) \<Rightarrow> string \<Rightarrow> string \<Rightarrow> bool \<Rightarrow> policy_read \<Rightarrow> string + prepared option" where
  "NewEngine_policy compile policyPath policySource requirePolicy f =
     (let result = (\<lambda>(q, err). case err of Some e \<Rightarrow> Inl e | None \<Rightarrow> Inr q)
      in if policySource \<noteq> '''' then
           result (compilePolicy compile (if policyPath \<noteq> '''' then policyPath else ''inline'') policySource None)
         else if policyPath \<noteq> '''' then
           (case f of
              PolMissing \<Rightarrow>
                if requirePolicy then Inl ''engine: RequirePolicy set but policy file does not exist'' else Inr None
            | PolReadErr e \<Rightarrow> Inl (''failed to read policy: '' @ e)
            | PolData data \<Rightarrow> result (compilePolicy compile policyPath data None))
         else if requirePolicy then Inl ''engine: RequirePolicy set but no policy configured''
         else Inr None)"

section \<open>The policy context\<close>

text \<open>
  What a context is built from: the clock, its textual forms, the engine's identity table, the process
  session registry and the operating-system identity.
\<close>

record policy_env =
  pe_now :: time
  pe_rfc3339 :: "time \<Rightarrow> string"
  pe_os_user :: string
  pe_os_groups :: "string list"

definition base_context :: "policy_env \<Rightarrow> string \<Rightarrow> string list \<Rightarrow> string \<Rightarrow> policy_context" where
  "base_context env command args sessionID =
     \<lparr>pc_User = '''', pc_Groups = [], pc_Command = command, pc_Args = args, pc_Capabilities = [],
      pc_Time = pe_rfc3339 env (pe_now env), pc_SessionID = sessionID, pc_Elevation = None, pc_Gateway = None,
      pc_Lease = None, pc_ExecLease = None, pc_Agent = None, pc_Snoop = None, pc_IdentityUnknown = False\<rparr>"

text \<open>The session is returned because \<^verbatim>\<open>ActiveElevation\<close> clears an expired elevation.\<close>

definition addSessionClaims :: "policy_env \<Rightarrow> session \<Rightarrow> policy_context \<Rightarrow> policy_context \<times> session" where
  "addSessionClaims env s p =
     (case ActiveElevation (pe_now env) s of
        (elev, s1) \<Rightarrow>
          (let p = (case elev of
                      None \<Rightarrow> p
                    | Some e \<Rightarrow>
                        p\<lparr>pc_Groups := pc_Groups p @ [elev_Role e],
                          pc_Elevation := Some \<lparr>ec_Role = elev_Role e, ec_Reason = elev_Reason e,
                            ec_ExpiresAt = pe_rfc3339 env (elev_ExpiresAt e)\<rparr>\<rparr>);
               p = (case ManagedAgent s1 of
                      None \<Rightarrow> p
                    | Some a \<Rightarrow>
                        if pe_now env < agent_ExpiresAt a
                        then p\<lparr>pc_Agent := Some \<lparr>ac_ID = agent_ID a, ac_Kind = ''cloud'', ac_Risk = ''worktree'',
                               ac_DryRun = False, ac_SessionID = sess_ID s1\<rparr>\<rparr>
                        else p)
           in (p, s1)))"

definition buildPolicyContext ::
  "policy_env \<Rightarrow> identity_table \<Rightarrow> string \<Rightarrow> string list \<Rightarrow> string \<Rightarrow> registry \<Rightarrow> policy_context \<times> registry" where
  "buildPolicyContext env ids command args sessionID r =
     (let p = base_context env command args sessionID
      in if sessionID \<noteq> '''' then
           (case boundIdentity sessionID ids of
              Some (user, groups) \<Rightarrow>
                (let p = p\<lparr>pc_User := user, pc_Groups := groups\<rparr>
                 in case GetSession r sessionID of
                      None \<Rightarrow> (p, r)
                    | Some s \<Rightarrow> (case addSessionClaims env s p of (p, s1) \<Rightarrow> (p, on_session sessionID (\<lambda>_. s1) r)))
            | None \<Rightarrow>
                (case GetSession r sessionID of
                   Some s \<Rightarrow>
                     (case addSessionClaims env s (p\<lparr>pc_User := sess_User s, pc_Groups := PrincipalList s\<rparr>) of
                        (p, s1) \<Rightarrow> (p, on_session sessionID (\<lambda>_. s1) r))
                 | None \<Rightarrow> (p\<lparr>pc_IdentityUnknown := True\<rparr>, r)))
         else (p\<lparr>pc_User := pe_os_user env, pc_Groups := pe_os_groups env\<rparr>, r))"

section \<open>Properties\<close>

definition string_or_absent :: "(string \<times> gval) list \<Rightarrow> string \<Rightarrow> bool" where
  "string_or_absent m key = (case mget m key of None \<Rightarrow> True | Some (GStr _) \<Rightarrow> True | Some _ \<Rightarrow> False)"

lemma notify_field_allowed [simp]: "pd_Allowed (notify_field m d) = pd_Allowed d"
  by (auto simp: notify_field_def split: option.splits gval.splits)

text \<open>The three steps of \<^verbatim>\<open>decision_of\<close>, each of which leaves an allowed flag as it is or decides.\<close>

definition decision_start :: "(string \<times> gval) list \<Rightarrow> policy_decision" where
  "decision_start m =
     (let d = no_decision\<lparr>pd_RequiredRole := decisionRequiredRole m\<rparr>
      in case mget m ''deny_reason'' of Some (GStr t) \<Rightarrow> d\<lparr>pd_DenyReason := t\<rparr> | _ \<Rightarrow> d)"

definition decision_allow :: "(string \<times> gval) list \<Rightarrow> policy_decision \<Rightarrow> policy_decision" where
  "decision_allow m d =
     (case mget m ''allow'' of
        None \<Rightarrow> if pd_DenyReason d = '''' then d\<lparr>pd_DenyReason := ''policy: deny by default (no allow decision)''\<rparr> else d
      | Some (GBool b) \<Rightarrow> d\<lparr>pd_Allowed := b\<rparr>
      | Some _ \<Rightarrow> d\<lparr>pd_DenyReason := ''policy: non-boolean allow''\<rparr>)"

lemma decision_of_steps:
  "decision_of m =
     (case string_field ''rule'' (\<lambda>t d. d\<lparr>pd_Rule := t\<rparr>) m (decision_start m) of
        Inl d \<Rightarrow> d
      | Inr d \<Rightarrow>
          (case string_field ''required_entitlement'' (\<lambda>t d. d\<lparr>pd_RequiredEntitlement := t\<rparr>) m d of
             Inl d \<Rightarrow> d
           | Inr d \<Rightarrow> decision_allow m (notify_field m d)))"
  unfolding decision_of_def decision_start_def decision_allow_def Let_def ..

lemma decision_start_denied: "\<not> pd_Allowed (decision_start m)"
  by (auto simp: decision_start_def no_decision_def Let_def split: option.splits gval.splits)

lemma decision_allow_iff: "\<not> pd_Allowed d \<Longrightarrow> pd_Allowed (decision_allow m d) \<longleftrightarrow> mget m ''allow'' = Some (GBool True)"
  by (auto simp: decision_allow_def split: option.splits gval.splits)

lemma string_field_denied:
  "(\<And>t d. pd_Allowed (store t d) = pd_Allowed d) \<Longrightarrow> \<not> pd_Allowed d \<Longrightarrow>
   (case string_field key store m d of Inl d' \<Rightarrow> \<not> pd_Allowed d' \<and> \<not> string_or_absent m key
      | Inr d' \<Rightarrow> \<not> pd_Allowed d' \<and> string_or_absent m key)"
  by (auto simp: string_field_def string_or_absent_def split: option.splits gval.splits)

lemma decision_allowed_iff:
  "pd_Allowed (decision_of m) \<longleftrightarrow>
     mget m ''allow'' = Some (GBool True) \<and> string_or_absent m ''rule'' \<and> string_or_absent m ''required_entitlement''"
proof -
  note rule = string_field_denied [of "\<lambda>t d. d\<lparr>pd_Rule := t\<rparr>" "decision_start m" m "''rule''"]
  show ?thesis
  proof (cases "string_field ''rule'' (\<lambda>t d. d\<lparr>pd_Rule := t\<rparr>) m (decision_start m)")
    case (Inl d)
    then show ?thesis using rule decision_start_denied by (simp add: decision_of_steps)
  next
    case (Inr d)
    then have d: "\<not> pd_Allowed d" "string_or_absent m ''rule''" using rule decision_start_denied by simp_all
    note ent = string_field_denied [of "\<lambda>t d. d\<lparr>pd_RequiredEntitlement := t\<rparr>" d m "''required_entitlement''"]
    show ?thesis
      using Inr d ent
      by (cases "string_field ''required_entitlement'' (\<lambda>t d. d\<lparr>pd_RequiredEntitlement := t\<rparr>) m d")
         (simp_all add: decision_of_steps decision_allow_iff)
  qed
qed

lemma evaluate_allowed_iff:
  "EvaluatePolicyDecision remote q pctx = (d, err) \<Longrightarrow>
   pd_Allowed d \<longleftrightarrow> \<not> remote \<and> (\<forall>eval. q = Some eval \<longrightarrow>
     (\<exists>m rest. eval (policy_input pctx) = Inr (GObj m # rest) \<and> mget m ''allow'' = Some (GBool True) \<and>
        string_or_absent m ''rule'' \<and> string_or_absent m ''required_entitlement''))"
  by (auto simp: EvaluatePolicyDecision_def no_decision_def decision_allowed_iff
      split: if_splits option.splits sum.splits list.splits gval.splits)

lemma evaluate_error_denies:
  "EvaluatePolicyDecision remote q pctx = (d, Some err) \<Longrightarrow> \<not> pd_Allowed d"
  by (auto simp: EvaluatePolicyDecision_def no_decision_def
      split: if_splits option.splits sum.splits list.splits gval.splits)

text \<open>
  C37. The policy fails closed. With a policy loaded, a command is allowed when and only when the query
  returns an object whose \<^verbatim>\<open>allow\<close> is the boolean \<^verbatim>\<open>true\<close> and whose \<^verbatim>\<open>rule\<close> and
  \<^verbatim>\<open>required_entitlement\<close>, if present, are strings; every other outcome, an evaluation error, no
  result, a non-object, a missing or non-boolean \<^verbatim>\<open>allow\<close>, denies. In an SSH session process every
  evaluation denies. An evaluation that returns an error never allows.
\<close>

theorem policy_fail_closed:
  assumes "EvaluatePolicyDecision remote q pctx = (d, err)"
  shows "(pd_Allowed d \<longleftrightarrow> \<not> remote \<and> (\<forall>eval. q = Some eval \<longrightarrow>
      (\<exists>m rest. eval (policy_input pctx) = Inr (GObj m # rest) \<and> mget m ''allow'' = Some (GBool True) \<and>
         string_or_absent m ''rule'' \<and> string_or_absent m ''required_entitlement''))) \<and>
    (err \<noteq> None \<longrightarrow> \<not> pd_Allowed d)"
  using evaluate_allowed_iff [OF assms] evaluate_error_denies [of remote q pctx d] assms by (cases err) simp_all

definition demo_query :: prepared where
  "demo_query = (\<lambda>inp. Inr [GObj [(''allow'', GStr ''yes'')]])"

definition demo_env :: policy_env where
  "demo_env = \<lparr>pe_now = 50, pe_rfc3339 = (\<lambda>t. ''t''), pe_os_user = ''root'', pe_os_groups = [''wheel'']\<rparr>"

theorem policy_fail_closed_witness:
  "\<not> pd_Allowed (fst (EvaluatePolicyDecision False (Some demo_query) (base_context demo_env ''ls'' [] '''')))"
proof -
  obtain d err where e: "EvaluatePolicyDecision False (Some demo_query) (base_context demo_env ''ls'' [] '''') = (d, err)"
    by fastforce
  show ?thesis using policy_fail_closed [OF e] unfolding e by (simp add: demo_query_def)
qed

lemma ActiveElevation_some:
  "ActiveElevation now s = (Some e, s1) \<Longrightarrow> sess_elevation s = Some e \<and> now < elev_ExpiresAt e"
  by (auto simp: ActiveElevation_def activeElevationLocked_def split: option.splits if_splits)

lemma addSessionClaims_principal:
  assumes "addSessionClaims env s p = (p', s1)"
  shows "pc_User p' = pc_User p \<and> pc_IdentityUnknown p' = pc_IdentityUnknown p \<and>
    (pc_Groups p' = pc_Groups p \<or>
     (\<exists>e. sess_elevation s = Some e \<and> pe_now env < elev_ExpiresAt e \<and> pc_Groups p' = pc_Groups p @ [elev_Role e]))"
proof -
  obtain el s2 where a: "ActiveElevation (pe_now env) s = (el, s2)" by fastforce
  show ?thesis
    using assms a ActiveElevation_some [of "pe_now env" s _ s2]
    by (cases el; cases "ManagedAgent s2") (auto simp: addSessionClaims_def Let_def split: if_splits)
qed

lemma addSessionClaims_os:
  "addSessionClaims (env\<lparr>pe_os_user := u, pe_os_groups := g\<rparr>) s p = addSessionClaims env s p"
  by (simp add: addSessionClaims_def Let_def split: prod.split option.split)

lemma base_context_os:
  "base_context (env\<lparr>pe_os_user := u, pe_os_groups := g\<rparr>) c a sid = base_context env c a sid"
  by (simp add: base_context_def)

text \<open>
  C38. A named session never borrows the host's identity. The context built for a non-empty session id
  does not depend on the process user or its groups; its user is the one bound on the engine, or else
  the registered session's, and its groups are that principal's, with at most the role of an elevation
  that has not expired added; an id that is neither bound nor registered is marked unknown, with an
  empty user and no groups.
\<close>

theorem named_session_principal:
  assumes "sid \<noteq> ''''" and "buildPolicyContext env ids cmd args sid r = (p, r')"
  shows "buildPolicyContext (env\<lparr>pe_os_user := u, pe_os_groups := g\<rparr>) ids cmd args sid r = (p, r') \<and>
    (let principal = (case boundIdentity sid ids of
           Some b \<Rightarrow> Some b
         | None \<Rightarrow> map_option (\<lambda>s. (sess_User s, sess_Principals s)) (GetSession r sid))
     in pc_IdentityUnknown p = (principal = None) \<and>
        pc_User p = (case principal of None \<Rightarrow> '''' | Some (user, _) \<Rightarrow> user) \<and>
        (pc_Groups p = (case principal of None \<Rightarrow> [] | Some (_, groups) \<Rightarrow> groups) \<or>
         (\<exists>s e. GetSession r sid = Some s \<and> sess_elevation s = Some e \<and> pe_now env < elev_ExpiresAt e \<and>
            pc_Groups p = (case principal of None \<Rightarrow> [] | Some (_, groups) \<Rightarrow> groups) @ [elev_Role e])))"
proof (cases "GetSession r sid")
  case None
  then show ?thesis using assms
    by (auto simp: buildPolicyContext_def Let_def base_context_os base_context_def split: option.splits)
next
  case (Some s)
  show ?thesis
  proof (cases "boundIdentity sid ids")
    case None
    obtain p1 s1 where a: "addSessionClaims env s
        ((base_context env cmd args sid)\<lparr>pc_User := sess_User s, pc_Groups := PrincipalList s\<rparr>) = (p1, s1)" by fastforce
    then have "p = p1" using assms Some None by (simp add: buildPolicyContext_def Let_def)
    then show ?thesis
      using addSessionClaims_principal [OF a] assms Some None a
      by (auto simp: buildPolicyContext_def Let_def addSessionClaims_os base_context_os base_context_def PrincipalList_def)
  next
    case (Some b)
    obtain user groups where b: "b = (user, groups)" by (cases b)
    obtain p1 s1 where a: "addSessionClaims env s
        ((base_context env cmd args sid)\<lparr>pc_User := user, pc_Groups := groups\<rparr>) = (p1, s1)" by fastforce
    then have "p = p1" using assms Some b \<open>GetSession r sid = Some s\<close> by (simp add: buildPolicyContext_def Let_def)
    then show ?thesis
      using addSessionClaims_principal [OF a] assms Some b \<open>GetSession r sid = Some s\<close> a
      by (auto simp: buildPolicyContext_def Let_def addSessionClaims_os base_context_os base_context_def)
  qed
qed

theorem named_session_principal_witness:
  "pc_IdentityUnknown (fst (buildPolicyContext demo_env [] ''ls'' [] ''s1'' \<lparr>globalSessions = [], sessionCap = 0, sessionCapRefuse = False\<rparr>))"
proof -
  obtain p r' where b: "buildPolicyContext demo_env [] ''ls'' [] ''s1'' \<lparr>globalSessions = [], sessionCap = 0, sessionCapRefuse = False\<rparr> = (p, r')"
    by fastforce
  show ?thesis
    using named_session_principal [OF _ b] by (simp add: b boundIdentity_def GetSession_def)
qed

text \<open>
  An engine built with \<open>RequirePolicy\<close> has a policy. Whatever the configuration and the file, the
  construction either fails or installs a query; without \<open>RequirePolicy\<close> an engine runs with no policy
  exactly when none is configured or the configured file does not exist.
\<close>

theorem require_policy:
  assumes "NewEngine_policy compile path src req f = Inr q"
  shows "(req \<longrightarrow> PolicyLoaded q) \<and> (\<not> PolicyLoaded q \<longleftrightarrow> src = '''' \<and> (path = '''' \<or> f = PolMissing))"
  using assms
  by (auto simp: NewEngine_policy_def PolicyLoaded_def compilePolicy_def Let_def
      split: if_splits policy_read.splits sum.splits)

theorem require_policy_witness:
  "\<exists>q. NewEngine_policy (\<lambda>n d. Inr demo_query) ''p.rego'' '''' True (PolData ''package adssh.authz'') = Inr q \<and> PolicyLoaded q"
proof -
  have "NewEngine_policy (\<lambda>n d. Inr demo_query) ''p.rego'' '''' True (PolData ''package adssh.authz'') = Inr (Some demo_query)"
    by (simp add: NewEngine_policy_def compilePolicy_def)
  then show ?thesis using require_policy by blast
qed

end
