(* ===== verification/Glob.thy ===== *)
theory Glob
  imports Prelude
begin

text \<open>
  Pattern matching as the approval layer uses it: \<^verbatim>\<open>utf8.DecodeRuneInString\<close>, \<^verbatim>\<open>filepath.Match\<close>
  (change-management patterns) and the anchored regular expression that \<^verbatim>\<open>globToRegexp\<close> builds for a
  four-eyes rule, in which a star matches any text and a question mark any rune. Strings are bytes.
\<close>

section \<open>Decoding runes\<close>

abbreviation byte :: "char \<Rightarrow> nat" where
  "byte c \<equiv> of_char c"

definition contb :: "nat \<Rightarrow> bool" where
  "contb b = (0x80 \<le> b \<and> b \<le> 0xBF)"

text \<open>The rune at the start of a string and its width; an ill-formed sequence is U+FFFD of width 1.\<close>

fun decode_rune :: "string \<Rightarrow> nat \<times> nat" where
  "decode_rune [] = (0xFFFD, 0)"
| "decode_rune (c # s) =
     (let b0 = byte c; bad = (0xFFFD, 1)
      in if b0 < 0x80 then (b0, 1)
         else if 0xC2 \<le> b0 \<and> b0 \<le> 0xDF then
           (case s of
              c1 # _ \<Rightarrow> if contb (byte c1) then ((b0 - 0xC0) * 64 + (byte c1 - 0x80), 2) else bad
            | _ \<Rightarrow> bad)
         else if 0xE0 \<le> b0 \<and> b0 \<le> 0xEF then
           (case s of
              c1 # c2 # _ \<Rightarrow>
                if contb (byte c1) \<and> contb (byte c2) \<and> \<not> (b0 = 0xE0 \<and> byte c1 < 0xA0) \<and>
                   \<not> (b0 = 0xED \<and> byte c1 > 0x9F)
                then ((b0 - 0xE0) * 4096 + (byte c1 - 0x80) * 64 + (byte c2 - 0x80), 3) else bad
            | _ \<Rightarrow> bad)
         else if 0xF0 \<le> b0 \<and> b0 \<le> 0xF4 then
           (case s of
              c1 # c2 # c3 # _ \<Rightarrow>
                if contb (byte c1) \<and> contb (byte c2) \<and> contb (byte c3) \<and> \<not> (b0 = 0xF0 \<and> byte c1 < 0x90) \<and>
                   \<not> (b0 = 0xF4 \<and> byte c1 > 0x8F)
                then ((b0 - 0xF0) * 262144 + (byte c1 - 0x80) * 4096 + (byte c2 - 0x80) * 64 + (byte c3 - 0x80), 4)
                else bad
            | _ \<Rightarrow> bad)
         else bad)"

lemma decode_rune_width: "s \<noteq> [] \<Longrightarrow> 1 \<le> snd (decode_rune s) \<and> snd (decode_rune s) \<le> length s"
  by (cases s rule: decode_rune.cases) (auto simp: Let_def split: list.splits)

function runes :: "string \<Rightarrow> nat list" where
  "runes s = (if s = [] then [] else fst (decode_rune s) # runes (drop (snd (decode_rune s)) s))"
  by pat_completeness auto
termination
  by (relation "measure length") (use decode_rune_width in \<open>fastforce\<close>)+

declare runes.simps [simp del]

lemma runes_Nil [simp]: "runes [] = []"
  by (simp add: runes.simps)

lemma runes_ascii: "byte c < 0x80 \<Longrightarrow> runes (c # s) = byte c # runes s"
  by (simp add: runes.simps [of "c # s"])

section \<open>Four-eyes patterns\<close>

text \<open>
  The regular expression \<^verbatim>\<open>^(?s:...)$\<close> over runes: a star is any run of runes, a question mark any
  rune, every other rune itself.
\<close>

fun glob_runes :: "nat list \<Rightarrow> nat list \<Rightarrow> bool" where
  "glob_runes [] s = (s = [])"
| "glob_runes (p # ps) s =
     (if p = 42 then glob_runes ps s \<or> (case s of [] \<Rightarrow> False | _ # s' \<Rightarrow> glob_runes (p # ps) s')
      else case s of [] \<Rightarrow> False | r # s' \<Rightarrow> (p = 63 \<or> p = r) \<and> glob_runes ps s')"

definition four_eyes_match :: "string \<Rightarrow> string \<Rightarrow> bool" where
  "four_eyes_match pattern cmd = glob_runes (runes pattern) (runes cmd)"

section \<open>filepath.Match\<close>

fun scan_star :: "string \<Rightarrow> bool \<times> string" where
  "scan_star [] = (False, [])"
| "scan_star (c # p) = (if c = CHR ''*'' then (True, snd (scan_star p)) else (False, c # p))"

fun scan_chunk :: "bool \<Rightarrow> string \<Rightarrow> string \<times> string" where
  "scan_chunk inrange [] = ([], [])"
| "scan_chunk inrange (c # p) =
     (if c = CHR 0x5C then
        (case p of
           [] \<Rightarrow> ([c], [])
         | d # q \<Rightarrow> (case scan_chunk inrange q of (chunk, rest) \<Rightarrow> (c # d # chunk, rest)))
      else if c = CHR ''*'' \<and> \<not> inrange then ([], c # p)
      else
        (let inrange = (if c = CHR ''['' then True else if c = CHR '']'' then False else inrange)
         in case scan_chunk inrange p of (chunk, rest) \<Rightarrow> (c # chunk, rest)))"

definition scanChunk :: "string \<Rightarrow> bool \<times> string \<times> string" where
  "scanChunk pattern = (case scan_star pattern of (star, p) \<Rightarrow> (star, scan_chunk False p))"

text \<open>\<^verbatim>\<open>None\<close> is \<^verbatim>\<open>ErrBadPattern\<close>.\<close>

definition getEsc :: "string \<Rightarrow> (nat \<times> string) option" where
  "getEsc chunk =
     (case chunk of
        [] \<Rightarrow> None
      | c # cs \<Rightarrow>
          if c = CHR ''-'' \<or> c = CHR '']'' then None
          else
            (let chunk = (if c = CHR 0x5C then cs else chunk);
                 (r, n) = decode_rune chunk;
                 rest = drop n chunk
             in if chunk = [] \<or> (r = 0xFFFD \<and> n = 1) \<or> rest = [] then None else Some (r, rest)))"

lemma getEsc_shorter: "getEsc chunk = Some (r, rest) \<Longrightarrow> length rest < length chunk"
proof -
  assume g: "getEsc chunk = Some (r, rest)"
  then obtain c cs where c: "chunk = c # cs" by (cases chunk) (auto simp: getEsc_def)
  let ?k = "if c = CHR 0x5C then cs else chunk"
  have r: "rest = drop (snd (decode_rune ?k)) ?k" "?k \<noteq> []"
    using g c by (auto simp: getEsc_def Let_def split: if_splits prod.splits)
  have "1 \<le> snd (decode_rune ?k)" "snd (decode_rune ?k) \<le> length ?k"
    using decode_rune_width [OF r(2)] by auto
  then show ?thesis using r(1) c by (auto split: if_splits)
qed

text \<open>The ranges of a class up to the closing bracket: whether \<open>r\<close> is in one, and the rest.\<close>

function class_loop :: "nat \<Rightarrow> bool \<Rightarrow> nat \<Rightarrow> string \<Rightarrow> (bool \<times> string) option" where
  "class_loop r found nrange chunk =
     (if chunk \<noteq> [] \<and> hd chunk = CHR '']'' \<and> nrange > 0 then Some (found, tl chunk)
      else case getEsc chunk of
          None \<Rightarrow> None
        | Some (lo, rest) \<Rightarrow>
            if rest \<noteq> [] \<and> hd rest = CHR ''-'' then
              (case getEsc (tl rest) of
                 None \<Rightarrow> None
               | Some (hi, rest') \<Rightarrow> class_loop r (found \<or> (lo \<le> r \<and> r \<le> hi)) (nrange + 1) rest')
            else class_loop r (found \<or> lo = r) (nrange + 1) rest)"
  by pat_completeness auto
termination
  by (relation "measure (\<lambda>(r, found, nrange, chunk). length chunk)")
     (auto dest!: getEsc_shorter simp: length_tl intro: order.strict_trans)

declare class_loop.simps [simp del]

lemma class_loop_shorter: "class_loop r f n chunk = Some (m, rest) \<Longrightarrow> length rest < length chunk"
proof (induction r f n chunk rule: class_loop.induct)
  case (1 r f n chunk)
  show ?case
  proof (cases "chunk \<noteq> [] \<and> hd chunk = CHR '']'' \<and> n > 0")
    case True
    then show ?thesis using "1.prems" by (auto simp: class_loop.simps [of r f n chunk] length_tl)
  next
    case False
    note close = this
    obtain lo rest1 where e: "getEsc chunk = Some (lo, rest1)"
      using "1.prems" close by (auto simp: class_loop.simps [of r f n chunk] split: option.splits)
    show ?thesis
    proof (cases "rest1 \<noteq> [] \<and> hd rest1 = CHR ''-''")
      case True
      then obtain hi rest2 where e2: "getEsc (tl rest1) = Some (hi, rest2)"
          and l: "class_loop r (f \<or> lo \<le> r \<and> r \<le> hi) (n + 1) rest2 = Some (m, rest)"
        using "1.prems" close e by (auto simp: class_loop.simps [of r f n chunk] split: option.splits)
      have "length rest < length rest2" by (rule "1.IH"(1) [OF close e refl True e2 refl l])
      then show ?thesis using getEsc_shorter [OF e2] getEsc_shorter [OF e] by (simp add: length_tl)
    next
      case no: False
      then have l: "class_loop r (f \<or> lo = r) (n + 1) rest1 = Some (m, rest)"
        using "1.prems" close e by (auto simp: class_loop.simps [of r f n chunk])
      have "length rest < length rest1" by (rule "1.IH"(2) [OF close e refl no l])
      then show ?thesis using getEsc_shorter [OF e] by simp
    qed
  qed
qed

text \<open>
  \<^verbatim>\<open>matchChunk\<close>: \<open>None\<close> is \<^verbatim>\<open>ErrBadPattern\<close>, \<open>Some None\<close> no match, \<open>Some (Some rest)\<close> a match
  that leaves \<open>rest\<close>. After a failure the rest of the chunk is still parsed.
\<close>

function matchChunk_loop :: "bool \<Rightarrow> string \<Rightarrow> string \<Rightarrow> string option option" where
  "matchChunk_loop failed chunk s =
     (case chunk of
        [] \<Rightarrow> Some (if failed then None else Some s)
      | c # cs \<Rightarrow>
          (let failed = (failed \<or> s = [])
           in if c = CHR ''['' then
                (let (r, n) = (if failed then (0, 0) else decode_rune s);
                     negated = (cs \<noteq> [] \<and> hd cs = CHR ''^'');
                     body = (if negated then tl cs else cs)
                 in case class_loop r False 0 body of
                      None \<Rightarrow> None
                    | Some (found, rest) \<Rightarrow> matchChunk_loop (failed \<or> found = negated) rest (drop n s))
              else if c = CHR ''?'' then
                (if failed then matchChunk_loop True cs s
                 else matchChunk_loop (hd s = CHR ''/'') cs (drop (snd (decode_rune s)) s))
              else if c = CHR 0x5C then
                (case cs of
                   [] \<Rightarrow> None
                 | d # ds \<Rightarrow> if failed then matchChunk_loop True ds s
                              else matchChunk_loop (d \<noteq> hd s) ds (tl s))
              else if failed then matchChunk_loop True cs s
              else matchChunk_loop (c \<noteq> hd s) cs (tl s)))"
  by pat_completeness auto
termination
  by (relation "measure (\<lambda>(failed, chunk, s). length chunk)")
     (auto dest!: class_loop_shorter simp: length_tl split: if_splits)

declare matchChunk_loop.simps [simp del]

definition matchChunk :: "string \<Rightarrow> string \<Rightarrow> string option option" where
  "matchChunk chunk s = matchChunk_loop False chunk s"

text \<open>The positions after a star, which may not skip a separator.\<close>

fun star_loop :: "bool \<Rightarrow> string \<Rightarrow> string \<Rightarrow> string option option" where
  "star_loop lastc chunk [] = Some None"
| "star_loop lastc chunk (c # name) =
     (if c = CHR ''/'' then Some None
      else case matchChunk chunk name of
          None \<Rightarrow> None
        | Some (Some t) \<Rightarrow> if lastc \<and> t \<noteq> [] then star_loop lastc chunk name else Some (Some t)
        | Some None \<Rightarrow> star_loop lastc chunk name)"

lemma scan_star_length: "length (snd (scan_star p)) \<le> length p"
  by (induction p) auto

lemma scan_star_progress: "fst (scan_star p) \<Longrightarrow> length (snd (scan_star p)) < length p"
  using scan_star_length [of "tl p"] by (cases p) (simp_all split: if_splits)

lemma scan_chunk_append: "fst (scan_chunk r p) @ snd (scan_chunk r p) = p"
proof (induction r p rule: scan_chunk.induct)
  case (2 inrange c p)
  show ?case
  proof (cases "c = CHR 0x5C")
    case True
    show ?thesis
    proof (cases p)
      case (Cons d q)
      then show ?thesis using "2.IH"(1) [OF True Cons] True by (simp add: split_beta)
    qed (simp add: True)
  next
    case False
    show ?thesis
    proof (cases "c = CHR ''*'' \<and> \<not> inrange")
      case no: False
      then show ?thesis using "2.IH"(2) [OF False no refl] False by (simp add: split_beta Let_def)
    qed (use False in simp)
  qed
qed simp

lemma scan_chunk_progress: "p \<noteq> [] \<Longrightarrow> hd p \<noteq> CHR ''*'' \<Longrightarrow> fst (scan_chunk False p) \<noteq> []"
  by (cases p) (simp_all add: Let_def split_beta split: list.split)

lemma scan_star_hd: "\<not> fst (scan_star p) \<Longrightarrow> p \<noteq> [] \<Longrightarrow> snd (scan_star p) = p \<and> hd p \<noteq> CHR ''*''"
  by (cases p) auto

lemma scanChunk_progress:
  assumes "pattern \<noteq> []" and "scanChunk pattern = (star, chunk, rest)"
  shows "length rest < length pattern"
proof -
  obtain p where p: "scan_star pattern = (star, p)" and c: "scan_chunk False p = (chunk, rest)"
    using assms(2) by (auto simp: scanChunk_def split: prod.splits)
  have len: "length p = length chunk + length rest"
    using scan_chunk_append [of False p] by (metis c fst_conv length_append snd_conv)
  show ?thesis
  proof (cases star)
    case True
    then show ?thesis using scan_star_progress [of pattern] p len by simp
  next
    case False
    then have "p = pattern" "hd p \<noteq> CHR ''*''" using scan_star_hd [of pattern] p assms(1) by auto
    then have "chunk \<noteq> []" using scan_chunk_progress [of p] c assms(1) by simp
    then show ?thesis using len \<open>p = pattern\<close> by (cases chunk) auto
  qed
qed

text \<open>Before a match fails without an error the rest of the pattern is still checked.\<close>

function rest_check :: "string \<Rightarrow> bool option" where
  "rest_check pattern =
     (if pattern = [] then Some False
      else
        (let (star, chunk, rest) = scanChunk pattern
         in case matchChunk chunk [] of None \<Rightarrow> None | Some _ \<Rightarrow> rest_check rest))"
  by pat_completeness auto
termination
  by (relation "measure length") (auto dest: scanChunk_progress [OF _ sym])

declare rest_check.simps [simp del]

function match_loop :: "string \<Rightarrow> string \<Rightarrow> bool option" where
  "match_loop pattern name =
     (if pattern = [] then Some (name = [])
      else
        (let (star, chunk, rest) = scanChunk pattern
         in if star \<and> chunk = [] then Some (\<not> contains_byte name (CHR ''/''))
            else case matchChunk chunk name of
                None \<Rightarrow> None
              | Some (Some t) \<Rightarrow>
                  if t = [] \<or> rest \<noteq> [] then match_loop rest t
                  else if star then
                    (case star_loop (rest = []) chunk name of
                       None \<Rightarrow> None
                     | Some None \<Rightarrow> rest_check rest
                     | Some (Some t) \<Rightarrow> match_loop rest t)
                  else rest_check rest
              | Some None \<Rightarrow>
                  if star then
                    (case star_loop (rest = []) chunk name of
                       None \<Rightarrow> None
                     | Some None \<Rightarrow> rest_check rest
                     | Some (Some t) \<Rightarrow> match_loop rest t)
                  else rest_check rest))"
  by pat_completeness auto
termination
  by (relation "measure (\<lambda>(pattern, name). length pattern)")
     (auto dest: scanChunk_progress [OF _ sym])

declare match_loop.simps [simp del]

text \<open>\<^verbatim>\<open>matched, _ := filepath.Match(pattern, name)\<close>: a malformed pattern does not match.\<close>

definition path_Match :: "string \<Rightarrow> string \<Rightarrow> bool" where
  "path_Match pattern name = (match_loop pattern name = Some True)"

section \<open>Shared lemmas\<close>

lemma glob_star_suffix: "glob_runes ps s \<Longrightarrow> glob_runes (42 # ps) (r @ s)"
  by (induction r) (cases s; auto)+

lemma glob_star_iff: "glob_runes (42 # ps) s \<longleftrightarrow> (\<exists>r s'. s = r @ s' \<and> glob_runes ps s')"
proof
  show "glob_runes (42 # ps) s \<Longrightarrow> \<exists>r s'. s = r @ s' \<and> glob_runes ps s'"
  proof (induction s)
    case (Cons a s)
    then consider "glob_runes ps (a # s)" | "glob_runes (42 # ps) s" by auto
    then show ?case
    proof cases
      case 2
      then obtain r s' where "s = r @ s'" "glob_runes ps s'" using Cons.IH by blast
      then show ?thesis by (intro exI [of _ "a # r"] exI [of _ s']) simp
    qed (rule exI [of _ "[]"], simp)
  qed auto
qed (auto simp del: glob_runes.simps intro: glob_star_suffix)

end
