(* ===== verification/FourEyes.thy ===== *)
theory FourEyes
  imports Sessions Glob
begin

text \<open>
  Four-eyes approval: the rules file (\<^verbatim>\<open>security/approval_gate.go\<close>), pending requests
  (\<^verbatim>\<open>security/foureyes_pending_ee.go\<close>), decisions and the requester's wait
  (\<^verbatim>\<open>security/foureyes_ee.go\<close>). The store holds the four directories by file name; what the file
  system and the audit log answer to one call is an argument (\<open>fe_io\<close>). A decision is modelled both as
  one function and as the sequence of its atomic phases, so that decisions by several processes can
  interleave.
\<close>

section \<open>Data\<close>

record fe_rule =
  fr_Pattern :: string
  fr_Approver :: string
  fr_TTL :: int
  fr_NotApprover :: string
  fr_Surface :: string

record fe_pending =
  fp_Token :: string
  fp_RequestID :: string
  fp_Command :: string
  fp_Requester :: string
  fp_Hostname :: string
  fp_Timestamp :: string
  fp_Rule :: fe_rule

datatype pending_file = PFUnreadable string | PFBad string | PFData fe_pending

datatype rules_file = RulesMissing | RulesUnreadable string | RulesBad string | RulesData "fe_rule list"

record fe_marker =
  fm_Approver :: string
  fm_Surface :: string
  fm_At :: time

datatype fe_event =
    FEDecision string string bool string
  | FEReverted string string
  | FEClaimExpired string

record fe_store =
  fe_pendings :: "pending_file smap"
  fe_claimed :: "(pending_file \<times> time) smap"
  fe_approved :: "fe_marker smap"
  fe_denied :: "fe_marker smap"
  fe_log :: "fe_event list"

datatype fe_err =
    FEForbidden
  | FEDirs string
  | FEBadToken
  | FENoIdentity
  | FENotPending
  | FEReadPending string
  | FEParsePending string
  | FETokenMismatch
  | FESelfDecision string
  | FERequiresApprover string
  | FEExcluded string
  | FEWrongSurface string
  | FEAlreadyDecided string
  | FEClaim string
  | FEAudit string
  | FEMarker string
  | FERestore fe_err string
  | FEAuditRevert fe_err string
  | FERemoveClaim string
  | FERules string
  | FERequester string
  | FERandom string
  | FEWritePending string
  | FEDenied string string
  | FECanceled string string
  | FETimedOut string int string

text \<open>
  The answers of the outside to one decision: the clock, the directories, the log of each swept claim
  and whether its file could be removed, the rename that claims, the audit event, the marker, the audit of a revert, the rename back, and the
  final removal. \<open>None\<close> is success.
\<close>

record fe_io =
  fi_now :: time
  fi_forbidden :: bool
  fi_dirs :: go_error
  fi_sweep :: "string \<Rightarrow> go_error"
  fi_sweep_rm :: "string \<Rightarrow> bool"
  fi_claim :: go_error
  fi_audit :: go_error
  fi_marker :: go_error
  fi_audit_revert :: go_error
  fi_restore :: go_error
  fi_remove :: go_error

section \<open>Rules\<close>

definition LoadFourEyesRules :: "rules_file \<Rightarrow> fe_err + fe_rule list" where
  "LoadFourEyesRules f =
     (case f of
        RulesMissing \<Rightarrow> Inr []
      | RulesUnreadable e \<Rightarrow> Inl (FERules (''foureyes: read rules: '' @ e))
      | RulesBad e \<Rightarrow> Inl (FERules (''foureyes: parse rules: '' @ e))
      | RulesData rules \<Rightarrow> Inr rules)"

definition matchFourEyes :: "rules_file \<Rightarrow> string \<Rightarrow> fe_err + fe_rule option" where
  "matchFourEyes f cmd =
     (case LoadFourEyesRules f of
        Inl e \<Rightarrow> Inl e
      | Inr rules \<Rightarrow> Inr (find (\<lambda>r. four_eyes_match (fr_Pattern r) cmd) rules))"

definition MatchesFourEyes :: "rules_file \<Rightarrow> string \<Rightarrow> fe_rule option" where
  "MatchesFourEyes f cmd = (case matchFourEyes f cmd of Inl _ \<Rightarrow> None | Inr r \<Rightarrow> r)"

fun replace_rule :: "fe_rule \<Rightarrow> fe_rule list \<Rightarrow> fe_rule list" where
  "replace_rule new [] = [new]"
| "replace_rule new (r # rs) = (if fr_Pattern r = fr_Pattern new then new # rs else r # replace_rule new rs)"

text \<open>The two changes of the rules file: the new list to save, or the error that leaves it alone.\<close>

definition AddFourEyesRule :: "string \<Rightarrow> string \<Rightarrow> int \<Rightarrow> rules_file \<Rightarrow> fe_err + fe_rule list" where
  "AddFourEyesRule pattern approver ttl f =
     (let ttl = (if ttl \<le> 0 then 300 else ttl)
      in map_sum (\<lambda>e. e)
           (replace_rule \<lparr>fr_Pattern = pattern, fr_Approver = approver, fr_TTL = ttl, fr_NotApprover = '''', fr_Surface = ''''\<rparr>)
           (LoadFourEyesRules f))"

definition RemoveFourEyesRule :: "string \<Rightarrow> rules_file \<Rightarrow> fe_err + fe_rule list" where
  "RemoveFourEyesRule pattern f =
     map_sum (\<lambda>e. e) (filter (\<lambda>r. fr_Pattern r \<noteq> pattern)) (LoadFourEyesRules f)"

section \<open>Requests\<close>

definition approvalActor :: "string \<Rightarrow> registry \<Rightarrow> string \<Rightarrow> string" where
  "approvalActor os_user r sessionID =
     (if sessionID \<noteq> '''' \<and> GetSession r sessionID \<noteq> None then sess_User (the (GetSession r sessionID))
      else os_user)"

definition trusted_source :: "string \<Rightarrow> bool" where
  "trusted_source source = (source = '''' \<or> source = ''oidc-verified'')"

definition checkRequesterIdentity :: "registry \<Rightarrow> string \<Rightarrow> fe_err option" where
  "checkRequesterIdentity r sessionID =
     (if sessionID = '''' then None
      else case GetSession r sessionID of
          None \<Rightarrow> None
        | Some s \<Rightarrow>
            if trusted_source (sess_identitySource s) then None else Some (FERequester (sess_identitySource s)))"

text \<open>
  \<open>rnd\<close> are the two results of \<^verbatim>\<open>randomHex(16)\<close>, request id and token; \<open>host\<close> and \<open>stamp\<close> the
  hostname and the time text; \<open>wr\<close> the outcome of writing and checking the new file: nothing was
  created, an incomplete document was left behind, or the document is complete although a later check
  failed.
\<close>

datatype create_out = CrOk | CrOpen string | CrTorn string | CrLeft string

definition createFourEyesPendingAs ::
  "string + (string \<times> string) \<Rightarrow> string \<Rightarrow> string \<Rightarrow> create_out \<Rightarrow> string \<Rightarrow> fe_rule \<Rightarrow> string \<Rightarrow> fe_store \<Rightarrow>
   (fe_err + fe_pending) \<times> fe_store" where
  "createFourEyesPendingAs rnd host stamp wr cmd rule requester st =
     (case rnd of
        Inl e \<Rightarrow> (Inl (FERandom e), st)
      | Inr (requestID, token) \<Rightarrow>
          (let pending = \<lparr>fp_Token = token, fp_RequestID = requestID, fp_Command = cmd, fp_Requester = requester,
                          fp_Hostname = host, fp_Timestamp = stamp, fp_Rule = rule\<rparr>
           in if mget (fe_pendings st) requestID \<noteq> None then (Inl (FEWritePending ''file exists''), st)
              else case wr of
                  CrOpen e \<Rightarrow> (Inl (FEWritePending e), st)
                | CrTorn e \<Rightarrow> (Inl (FEWritePending e), st\<lparr>fe_pendings := mput (fe_pendings st) requestID (PFBad e)\<rparr>)
                | CrLeft e \<Rightarrow> (Inl (FEWritePending e), st\<lparr>fe_pendings := mput (fe_pendings st) requestID (PFData pending)\<rparr>)
                | CrOk \<Rightarrow> (Inr pending, st\<lparr>fe_pendings := mput (fe_pendings st) requestID (PFData pending)\<rparr>)))"

definition createFourEyesPending ::
  "string \<Rightarrow> registry \<Rightarrow> string + (string \<times> string) \<Rightarrow> string \<Rightarrow> string \<Rightarrow> create_out \<Rightarrow> string \<Rightarrow> fe_rule \<Rightarrow> string \<Rightarrow>
   fe_store \<Rightarrow> (fe_err + fe_pending) \<times> fe_store" where
  "createFourEyesPending os_user r rnd host stamp wr cmd rule sessionID st =
     (case checkRequesterIdentity r sessionID of
        Some e \<Rightarrow> (Inl e, st)
      | None \<Rightarrow>
          (let requester = approvalActor os_user r sessionID;
               requester = (if requester = '''' then ''unknown'' else requester)
           in createFourEyesPendingAs rnd host stamp wr cmd rule requester st))"

text \<open>
  One turn of the requester's wait: the clock at the loop test, whether the approved and the denied
  marker are there, and whether the context was canceled during the sleep. The result is \<open>None\<close> while
  the wait goes on.
\<close>

record wait_turn =
  wt_now :: time
  wt_approved :: bool
  wt_denied :: bool
  wt_canceled :: bool

datatype wait_result = WApproved | WRefused fe_err

fun wait_loop :: "string \<Rightarrow> string \<Rightarrow> int \<Rightarrow> time \<Rightarrow> wait_turn list \<Rightarrow> wait_result option" where
  "wait_loop requestID required ttl deadline [] = None"
| "wait_loop requestID required ttl deadline (w # ws) =
     (if \<not> wt_now w < deadline then Some (WRefused (FETimedOut requestID ttl required))
      else if wt_approved w then Some WApproved
      else if wt_denied w then Some (WRefused (FEDenied requestID required))
      else if wt_canceled w then Some (WRefused (FECanceled requestID required))
      else wait_loop requestID required ttl deadline ws)"

text \<open>A refused wait removes the pending file, except after a denial, which already claimed it.\<close>

definition wait_cleanup :: "string \<Rightarrow> wait_result \<Rightarrow> fe_store \<Rightarrow> fe_store" where
  "wait_cleanup requestID w st =
     (case w of
        WRefused (FETimedOut _ _ _) \<Rightarrow> st\<lparr>fe_pendings := mdel (fe_pendings st) requestID\<rparr>
      | WRefused (FECanceled _ _) \<Rightarrow> st\<lparr>fe_pendings := mdel (fe_pendings st) requestID\<rparr>
      | _ \<Rightarrow> st)"

definition wait_ttl :: "fe_rule \<Rightarrow> int" where
  "wait_ttl rule = (if fr_TTL rule \<le> 0 then 300 else fr_TTL rule)"

definition RequestApproval_wait :: "fe_pending \<Rightarrow> time \<Rightarrow> wait_turn list \<Rightarrow> wait_result option" where
  "RequestApproval_wait p start turns =
     (let rule = fp_Rule p;
          required = (if fr_Approver rule = '''' then ''any distinct approver'' else fr_Approver rule);
          ttl = wait_ttl rule
      in wait_loop (fp_RequestID p) required ttl (start + dur_seconds ttl) turns)"

section \<open>Decisions\<close>

definition shellApprover :: "bool \<Rightarrow> registry \<Rightarrow> string \<Rightarrow> fe_err + string" where
  "shellApprover forbidden r sessionID =
     (if forbidden then Inl FEForbidden
      else if sessionID = '''' then Inl FENoIdentity
      else case GetSession r sessionID of
          None \<Rightarrow> Inl FENoIdentity
        | Some s \<Rightarrow>
            if ManagedAgent s \<noteq> None then Inl FENoIdentity
            else if \<not> trusted_source (sess_identitySource s) then Inl (FERequester (sess_identitySource s))
            else if sess_User s = '''' then Inl FENoIdentity
            else Inr (sess_User s))"

definition validApprovalToken :: "string \<Rightarrow> bool" where
  "validApprovalToken token =
     (token \<noteq> '''' \<and> length token \<le> 128 \<and> path_base token = token \<and>
      list_all (\<lambda>c. is_alnum c \<or> c = CHR ''-'' \<or> c = CHR ''_'') token)"

definition claim_ttl :: "pending_file \<Rightarrow> int" where
  "claim_ttl f = (case f of PFData p \<Rightarrow> if fr_TTL (fp_Rule p) > 0 then fr_TTL (fp_Rule p) else 300 | _ \<Rightarrow> 300)"

fun sweep_loop :: "fe_io \<Rightarrow> (string \<times> pending_file \<times> time) list \<Rightarrow> fe_store \<Rightarrow> fe_store" where
  "sweep_loop io [] st = st"
| "sweep_loop io ((name, f, mtime) # rest) st =
     (if time_Sub (fi_now io) mtime \<le> dur_seconds (claim_ttl f) then sweep_loop io rest st
      else case fi_sweep io name of
          Some _ \<Rightarrow> sweep_loop io rest st
        | None \<Rightarrow>
            sweep_loop io rest
              (st\<lparr>fe_claimed := (if fi_sweep_rm io name then mdel (fe_claimed st) name else fe_claimed st),
                  fe_log := fe_log st @ [FEClaimExpired name]\<rparr>))"

definition sweepStaleClaims :: "fe_io \<Rightarrow> fe_store \<Rightarrow> fe_store" where
  "sweepStaleClaims io st = sweep_loop io (sort_key (\<lambda>(name, _). name @ ''.claimed'') (fe_claimed st)) st"

fun token_scan :: "string \<Rightarrow> (string \<times> pending_file) list \<Rightarrow> (fe_pending \<times> string) option" where
  "token_scan presented [] = None"
| "token_scan presented ((name, f) # rest) =
     (case f of
        PFData p \<Rightarrow>
          if fp_Token p \<noteq> '''' \<and> fp_Token p = presented then Some (p, name) else token_scan presented rest
      | _ \<Rightarrow> token_scan presented rest)"

definition locatePending :: "fe_store \<Rightarrow> string \<Rightarrow> fe_err + (fe_pending \<times> string)" where
  "locatePending st presented =
     (case mget (fe_pendings st) presented of
        Some (PFData p) \<Rightarrow>
          if fp_Token p = '''' \<or> fp_Token p = presented \<or> fp_RequestID p = presented then Inr (p, presented)
          else Inl FETokenMismatch
      | Some (PFBad e) \<Rightarrow> Inl (FEParsePending e)
      | Some (PFUnreadable e) \<Rightarrow> Inl (FEReadPending e)
      | None \<Rightarrow>
          (case token_scan presented (sort_key (\<lambda>(name, _). name @ ''.json'') (fe_pendings st)) of
             Some r \<Rightarrow> Inr r
           | None \<Rightarrow> Inl FENotPending))"

definition identity_check :: "string \<Rightarrow> string \<Rightarrow> fe_pending \<Rightarrow> fe_err option" where
  "identity_check approver surface p =
     (if fp_Requester p \<noteq> '''' \<and> approver = fp_Requester p then Some (FESelfDecision approver)
      else if fr_Approver (fp_Rule p) \<noteq> '''' \<and> approver \<noteq> fr_Approver (fp_Rule p)
      then Some (FERequiresApprover (fr_Approver (fp_Rule p)))
      else if fr_NotApprover (fp_Rule p) \<noteq> '''' \<and> approver = fr_NotApprover (fp_Rule p) then Some (FEExcluded approver)
      else if fr_Surface (fp_Rule p) \<noteq> '''' \<and> surface \<noteq> fr_Surface (fp_Rule p)
      then Some (FEWrongSurface (fr_Surface (fp_Rule p)))
      else None)"

text \<open>The phases of \<^verbatim>\<open>DecideRequest\<close>. First the checks, up to the located request and its file name.\<close>

definition decide_check ::
  "fe_io \<Rightarrow> string \<Rightarrow> string \<Rightarrow> string \<Rightarrow> fe_store \<Rightarrow> (fe_err + (fe_pending \<times> string)) \<times> fe_store" where
  "decide_check io token approver surface st =
     (if fi_forbidden io then (Inl FEForbidden, st)
      else case fi_dirs io of
          Some e \<Rightarrow> (Inl (FEDirs e), st)
        | None \<Rightarrow>
            if \<not> validApprovalToken token then (Inl FEBadToken, st)
            else if approver = '''' then (Inl FENoIdentity, st)
            else
              (let st = sweepStaleClaims io st
               in case locatePending st token of
                    Inl e \<Rightarrow> (Inl e, st)
                  | Inr (p, name) \<Rightarrow>
                      (case identity_check approver surface p of
                         Some e \<Rightarrow> (Inl e, st)
                       | None \<Rightarrow> (Inr (p, name), st))))"

text \<open>The atomic rename of the pending file to its claimed name.\<close>

definition decide_claim :: "fe_io \<Rightarrow> string \<Rightarrow> fe_store \<Rightarrow> fe_err option \<times> fe_store" where
  "decide_claim io name st =
     (case mget (fe_pendings st) name of
        None \<Rightarrow> (Some (FEAlreadyDecided name), st)
      | Some f \<Rightarrow>
          (case fi_claim io of
             Some e \<Rightarrow> (Some (FEClaim e), st)
           | None \<Rightarrow>
               (None, st\<lparr>fe_pendings := mdel (fe_pendings st) name,
                         fe_claimed := mput (fe_claimed st) name (f, fi_now io)\<rparr>)))"

definition release :: "fe_io \<Rightarrow> string \<Rightarrow> fe_err \<Rightarrow> fe_store \<Rightarrow> fe_err \<times> fe_store" where
  "release io name cause st =
     (case (mget (fe_claimed st) name, fi_restore io) of
        (Some (f, _), None) \<Rightarrow>
          (cause, st\<lparr>fe_claimed := mdel (fe_claimed st) name, fe_pendings := mput (fe_pendings st) name f\<rparr>)
      | (_, Some e) \<Rightarrow> (FERestore cause e, st)
      | (None, None) \<Rightarrow> (FERestore cause ''no such file'', st))"

definition decide_audit :: "fe_io \<Rightarrow> string \<Rightarrow> string \<Rightarrow> string \<Rightarrow> bool \<Rightarrow> fe_store \<Rightarrow> fe_err option \<times> fe_store" where
  "decide_audit io name approver surface approve st =
     (case fi_audit io of
        Some e \<Rightarrow> (case release io name (FEAudit e) st of (err, st) \<Rightarrow> (Some err, st))
      | None \<Rightarrow> (None, st\<lparr>fe_log := fe_log st @ [FEDecision name approver approve surface]\<rparr>))"

definition revert :: "fe_io \<Rightarrow> string \<Rightarrow> string \<Rightarrow> fe_err \<Rightarrow> fe_store \<Rightarrow> fe_err \<times> fe_store" where
  "revert io name approver cause st =
     (case fi_audit_revert io of
        Some e \<Rightarrow> release io name (FEAuditRevert cause e) st
      | None \<Rightarrow> release io name cause (st\<lparr>fe_log := fe_log st @ [FEReverted name approver]\<rparr>))"

text \<open>Writing the marker fails when the file is already there.\<close>

definition decide_marker :: "fe_io \<Rightarrow> string \<Rightarrow> string \<Rightarrow> string \<Rightarrow> bool \<Rightarrow> fe_store \<Rightarrow> fe_err option \<times> fe_store" where
  "decide_marker io name approver surface approve st =
     (let markers = (if approve then fe_approved st else fe_denied st);
          m = \<lparr>fm_Approver = approver, fm_Surface = surface, fm_At = fi_now io\<rparr>;
          err = (if mget markers name \<noteq> None then Some ''file exists'' else fi_marker io)
      in case err of
           Some e \<Rightarrow> (case revert io name approver (FEMarker e) st of (err, st) \<Rightarrow> (Some err, st))
         | None \<Rightarrow>
             (None, if approve then st\<lparr>fe_approved := mput (fe_approved st) name m\<rparr>
                    else st\<lparr>fe_denied := mput (fe_denied st) name m\<rparr>))"

definition decide_finish :: "fe_io \<Rightarrow> string \<Rightarrow> fe_store \<Rightarrow> fe_err option \<times> fe_store" where
  "decide_finish io name st =
     (case fi_remove io of
        Some e \<Rightarrow> if mget (fe_claimed st) name \<noteq> None then (Some (FERemoveClaim e), st) else (None, st)
      | None \<Rightarrow> (None, st\<lparr>fe_claimed := mdel (fe_claimed st) name\<rparr>))"

definition DecideRequest ::
  "fe_io \<Rightarrow> string \<Rightarrow> string \<Rightarrow> string \<Rightarrow> bool \<Rightarrow> fe_store \<Rightarrow> fe_err option \<times> fe_store" where
  "DecideRequest io token approver surface approve st =
     (case decide_check io token approver surface st of
        (Inl e, st) \<Rightarrow> (Some e, st)
      | (Inr (p, name), st) \<Rightarrow>
          (case decide_claim io name st of
             (Some e, st) \<Rightarrow> (Some e, st)
           | (None, st) \<Rightarrow>
               (case decide_audit io name approver surface approve st of
                  (Some e, st) \<Rightarrow> (Some e, st)
                | (None, st) \<Rightarrow>
                    (case decide_marker io name approver surface approve st of
                       (Some e, st) \<Rightarrow> (Some e, st)
                     | (None, st) \<Rightarrow> decide_finish io name st))))"

text \<open>\<^verbatim>\<open>ListPending\<close>: the readable requests with their status, after a sweep.\<close>

definition ListPending :: "fe_io \<Rightarrow> fe_store \<Rightarrow> (fe_pending \<times> string) list \<times> fe_store" where
  "ListPending io st =
     (let st = sweepStaleClaims io st;
          files = map (\<lambda>(n, f). (n @ ''.json'', f, ''pending'')) (fe_pendings st) @
                  map (\<lambda>(n, f, _). (n @ ''.claimed'', f, ''claimed'')) (fe_claimed st)
      in (List.map_filter (\<lambda>(n, f, status). case f of PFData p \<Rightarrow> Some (p, status) | _ \<Rightarrow> None)
            (sort_key fst files), st))"

section \<open>Interleaved decisions\<close>

record dreq =
  dr_name :: string
  dr_approver :: string
  dr_surface :: string
  dr_approve :: bool
  dr_pending :: fe_pending

text \<open>Where a process stands inside \<^verbatim>\<open>DecideRequest\<close>.\<close>

datatype dec_pc = PIdle | PChecked dreq | PClaimed dreq | PLogged dreq | PMarked dreq

text \<open>The processes that share one store, and the requests that were ever created.\<close>

record fe_sys =
  fs_store :: fe_store
  fs_procs :: "nat \<Rightarrow> dec_pc"
  fs_created :: "fe_pending smap"

definition after :: "fe_sys \<Rightarrow> nat \<Rightarrow> dec_pc \<Rightarrow> fe_err option \<times> fe_store \<Rightarrow> fe_sys" where
  "after sys i pc r =
     sys\<lparr>fs_store := snd r, fs_procs := (fs_procs sys)(i := (if fst r = None then pc else PIdle))\<rparr>"

inductive fe_step :: "fe_sys \<Rightarrow> fe_sys \<Rightarrow> bool" where
  create:
    "createFourEyesPendingAs (Inr (rid, tok)) host stamp wr cmd rule requester (fs_store sys) = (r, st') \<Longrightarrow>
     mget (fs_created sys) rid = None \<Longrightarrow>
     created' = (case mget (fe_pendings st') rid of Some (PFData p) \<Rightarrow> mput (fs_created sys) rid p | _ \<Rightarrow> fs_created sys) \<Longrightarrow>
     fe_step sys (sys\<lparr>fs_store := st', fs_created := created'\<rparr>)"
| give_up:
    "fe_step sys (sys\<lparr>fs_store := wait_cleanup rid w (fs_store sys)\<rparr>)"
| sweep:
    "fe_step sys (sys\<lparr>fs_store := sweepStaleClaims io (fs_store sys)\<rparr>)"
| crash:
    "fe_step sys (sys\<lparr>fs_procs := (fs_procs sys)(i := PIdle)\<rparr>)"
| refuse:
    "decide_check io token approver surface (fs_store sys) = (Inl e, st') \<Longrightarrow>
     fe_step sys (sys\<lparr>fs_store := st'\<rparr>)"
| check:
    "fs_procs sys i = PIdle \<Longrightarrow> decide_check io token approver surface (fs_store sys) = (Inr (p, name), st') \<Longrightarrow>
     fe_step sys (sys\<lparr>fs_store := st', fs_procs := (fs_procs sys)
       (i := PChecked \<lparr>dr_name = name, dr_approver = approver, dr_surface = surface, dr_approve = approve, dr_pending = p\<rparr>)\<rparr>)"
| claim:
    "fs_procs sys i = PChecked d \<Longrightarrow>
     fe_step sys (after sys i (PClaimed d) (decide_claim io (dr_name d) (fs_store sys)))"
| audit:
    "fs_procs sys i = PClaimed d \<Longrightarrow>
     fe_step sys (after sys i (PLogged d)
       (decide_audit io (dr_name d) (dr_approver d) (dr_surface d) (dr_approve d) (fs_store sys)))"
| marker:
    "fs_procs sys i = PLogged d \<Longrightarrow>
     fe_step sys (after sys i (PMarked d)
       (decide_marker io (dr_name d) (dr_approver d) (dr_surface d) (dr_approve d) (fs_store sys)))"
| finish:
    "fs_procs sys i = PMarked d \<Longrightarrow>
     fe_step sys (after sys i PIdle (decide_finish io (dr_name d) (fs_store sys)))"

definition empty_store :: fe_store where
  "empty_store = \<lparr>fe_pendings = [], fe_claimed = [], fe_approved = [], fe_denied = [], fe_log = []\<rparr>"

definition fe_init :: fe_sys where
  "fe_init = \<lparr>fs_store = empty_store, fs_procs = (\<lambda>_. PIdle), fs_created = []\<rparr>"

inductive fe_reach :: "fe_sys \<Rightarrow> bool" where
  init: "fe_reach fe_init"
| step: "fe_reach sys \<Longrightarrow> fe_step sys sys' \<Longrightarrow> fe_reach sys'"

text \<open>A process holds a request between its claim and its marker.\<close>

definition holds :: "dec_pc \<Rightarrow> string \<Rightarrow> bool" where
  "holds pc n = (case pc of PClaimed d \<Rightarrow> dr_name d = n | PLogged d \<Rightarrow> dr_name d = n | _ \<Rightarrow> False)"

definition pc_req :: "dec_pc \<Rightarrow> dreq option" where
  "pc_req pc = (case pc of PIdle \<Rightarrow> None | PChecked d \<Rightarrow> Some d | PClaimed d \<Rightarrow> Some d | PLogged d \<Rightarrow> Some d | PMarked d \<Rightarrow> Some d)"

definition logged :: "dec_pc \<Rightarrow> dreq option" where
  "logged pc = (case pc of PLogged d \<Rightarrow> Some d | PMarked d \<Rightarrow> Some d | _ \<Rightarrow> None)"

definition decided :: "fe_store \<Rightarrow> string \<Rightarrow> bool" where
  "decided st n \<longleftrightarrow> mget (fe_approved st) n \<noteq> None \<or> mget (fe_denied st) n \<noteq> None"

definition marker_ok :: "fe_pending smap \<Rightarrow> fe_event list \<Rightarrow> bool \<Rightarrow> string \<Rightarrow> fe_marker \<Rightarrow> bool" where
  "marker_ok created log approve n m \<longleftrightarrow>
     (\<exists>p. mget created n = Some p \<and> fm_Approver m \<noteq> '''' \<and> identity_check (fm_Approver m) (fm_Surface m) p = None) \<and>
     FEDecision n (fm_Approver m) approve (fm_Surface m) \<in> set log"

definition store_inv :: "fe_pending smap \<Rightarrow> fe_store \<Rightarrow> bool" where
  "store_inv created st \<longleftrightarrow>
     wf_map (fe_pendings st) \<and>
     (\<forall>n p. mget (fe_pendings st) n = Some (PFData p) \<longrightarrow> mget created n = Some p) \<and>
     (\<forall>n p t. mget (fe_claimed st) n = Some (PFData p, t) \<longrightarrow> mget created n = Some p) \<and>
     (\<forall>n. decided st n \<longrightarrow> mget (fe_pendings st) n = None) \<and>
     (\<forall>n. \<not> (mget (fe_approved st) n \<noteq> None \<and> mget (fe_denied st) n \<noteq> None)) \<and>
     (\<forall>n m. mget (fe_approved st) n = Some m \<longrightarrow> marker_ok created (fe_log st) True n m) \<and>
     (\<forall>n m. mget (fe_denied st) n = Some m \<longrightarrow> marker_ok created (fe_log st) False n m)"

definition proc_inv :: "fe_pending smap \<Rightarrow> fe_store \<Rightarrow> dec_pc \<Rightarrow> bool" where
  "proc_inv created st pc \<longleftrightarrow>
     (\<forall>n. holds pc n \<longrightarrow> mget (fe_pendings st) n = None \<and> \<not> decided st n) \<and>
     (\<forall>d. pc_req pc = Some d \<longrightarrow> mget created (dr_name d) = Some (dr_pending d) \<and> dr_approver d \<noteq> '''' \<and>
        identity_check (dr_approver d) (dr_surface d) (dr_pending d) = None) \<and>
     (\<forall>d. logged pc = Some d \<longrightarrow> FEDecision (dr_name d) (dr_approver d) (dr_approve d) (dr_surface d) \<in> set (fe_log st))"

definition fe_inv :: "fe_sys \<Rightarrow> bool" where
  "fe_inv sys \<longleftrightarrow>
     store_inv (fs_created sys) (fs_store sys) \<and>
     (\<forall>i. proc_inv (fs_created sys) (fs_store sys) (fs_procs sys i)) \<and>
     (\<forall>i j n. holds (fs_procs sys i) n \<longrightarrow> holds (fs_procs sys j) n \<longrightarrow> i = j)"

text \<open>
  What a store may do without disturbing anybody: requests, claims and the log may change as long as
  nothing pending appears, no marker changes, and the log only grows.
\<close>

definition store_le :: "fe_store \<Rightarrow> fe_store \<Rightarrow> bool" where
  "store_le st st' \<longleftrightarrow>
     wf_map (fe_pendings st') \<and>
     (\<forall>n. mget (fe_pendings st') n \<in> {None, mget (fe_pendings st) n}) \<and>
     (\<forall>n. mget (fe_claimed st') n \<in> {None, mget (fe_claimed st) n}) \<and>
     fe_approved st' = fe_approved st \<and> fe_denied st' = fe_denied st \<and> set (fe_log st) \<subseteq> set (fe_log st')"

lemma store_leD:
  assumes "store_le st st'"
  shows "mget (fe_pendings st') n = Some f \<Longrightarrow> mget (fe_pendings st) n = Some f"
    "mget (fe_claimed st') n = Some c \<Longrightarrow> mget (fe_claimed st) n = Some c"
    "mget (fe_pendings st) n = None \<Longrightarrow> mget (fe_pendings st') n = None"
    "decided st' n = decided st n" "fe_approved st' = fe_approved st" "fe_denied st' = fe_denied st"
    "e \<in> set (fe_log st) \<Longrightarrow> e \<in> set (fe_log st')" "wf_map (fe_pendings st')"
proof -
  have "mget (fe_pendings st') n \<in> {None, mget (fe_pendings st) n}"
      "mget (fe_claimed st') n \<in> {None, mget (fe_claimed st) n}"
    using assms unfolding store_le_def by blast+
  then show "mget (fe_pendings st') n = Some f \<Longrightarrow> mget (fe_pendings st) n = Some f"
    "mget (fe_claimed st') n = Some c \<Longrightarrow> mget (fe_claimed st) n = Some c"
    "mget (fe_pendings st) n = None \<Longrightarrow> mget (fe_pendings st') n = None"
    by auto
qed (use assms in \<open>auto simp: store_le_def decided_def\<close>)

lemma marker_ok_mono: "marker_ok c l a n m \<Longrightarrow> set l \<subseteq> set l' \<Longrightarrow> marker_ok c l' a n m"
  by (auto simp: marker_ok_def)

lemma store_le_inv:
  assumes "store_le st st'" and "store_inv c st"
  shows "store_inv c st'"
proof -
  have log: "marker_ok c (fe_log st) a n m \<Longrightarrow> marker_ok c (fe_log st') a n m" for a n m
    using marker_ok_mono assms(1) by (auto simp: store_le_def)
  show ?thesis
    using assms(2) store_leD(1-6,8) [OF assms(1)] log unfolding store_inv_def by simp
qed

lemma store_le_proc: "store_le st st' \<Longrightarrow> proc_inv c st pc \<Longrightarrow> proc_inv c st' pc"
  using store_leD(3,4,7) [of st st'] unfolding proc_inv_def by blast

lemma store_le_trans: "store_le a b \<Longrightarrow> store_le b c \<Longrightarrow> store_le a c"
  by (simp add: store_le_def) (metis (no_types, lifting) insert_iff singletonD subset_trans)

lemma sweep_loop_le: "wf_map (fe_pendings st) \<Longrightarrow> store_le st (sweep_loop io l st)"
proof (induction io l st rule: sweep_loop.induct)
  case (1 io st)
  then show ?case by (simp add: store_le_def)
next
  case (2 io name f mtime rest st)
  let ?st = "st\<lparr>fe_claimed := (if fi_sweep_rm io name then mdel (fe_claimed st) name else fe_claimed st),
                fe_log := fe_log st @ [FEClaimExpired name]\<rparr>"
  have "store_le st ?st" using "2.prems" by (auto simp: store_le_def)
  then show ?case
    using "2.IH" "2.prems" store_le_trans [of st ?st]
    by (auto split: option.splits)
qed

lemma sweep_le: "wf_map (fe_pendings st) \<Longrightarrow> store_le st (sweepStaleClaims io st)"
  by (simp add: sweepStaleClaims_def sweep_loop_le)

lemma decide_check_le: "wf_map (fe_pendings st) \<Longrightarrow> decide_check io tok a s st = (r, st') \<Longrightarrow> store_le st st'"
proof -
  assume wf: "wf_map (fe_pendings st)" and d: "decide_check io tok a s st = (r, st')"
  have "store_le st st" using wf by (simp add: store_le_def)
  moreover have "st' = st \<or> st' = sweepStaleClaims io st"
    using d by (auto simp: decide_check_def Let_def split: if_splits option.splits sum.splits prod.splits)
  ultimately show ?thesis using sweep_le [OF wf] by auto
qed

lemma token_scan_mem: "token_scan tok l = Some (p, n) \<Longrightarrow> (n, PFData p) \<in> set l"
  by (induction tok l rule: token_scan.induct) (auto split: pending_file.splits if_splits)

lemma locatePending_mem:
  "wf_map (fe_pendings st) \<Longrightarrow> locatePending st tok = Inr (p, n) \<Longrightarrow> mget (fe_pendings st) n = Some (PFData p)"
  by (auto simp: locatePending_def wf_map_def dest!: token_scan_mem
      split: option.splits pending_file.splits if_splits)

lemma decide_check_ok:
  assumes "decide_check io tok a s st = (Inr (p, n), st')" and "wf_map (fe_pendings st)"
  shows "mget (fe_pendings st') n = Some (PFData p) \<and> a \<noteq> '''' \<and> identity_check a s p = None"
proof -
  have "locatePending (sweepStaleClaims io st) tok = Inr (p, n)" "st' = sweepStaleClaims io st"
      "a \<noteq> ''''" "identity_check a s p = None"
    using assms(1) by (auto simp: decide_check_def Let_def split: if_splits option.splits sum.splits prod.splits)
  then show ?thesis
    using locatePending_mem store_leD(8) [OF sweep_le [OF assms(2)]] by blast
qed

lemma proc_inv_frame:
  assumes "proc_inv c st pc" and "\<And>n. holds pc n \<Longrightarrow> mget (fe_pendings st') n = None \<and> \<not> decided st' n"
    and "set (fe_log st) \<subseteq> set (fe_log st')"
  shows "proc_inv c st' pc"
  using assms unfolding proc_inv_def by blast

lemma proc_inv_PIdle [simp]: "proc_inv c st PIdle"
  by (simp add: proc_inv_def holds_def pc_req_def logged_def)

lemma holds_PIdle [simp]: "\<not> holds PIdle n"
  by (simp add: holds_def)

lemma fe_inv_update:
  assumes "fe_inv sys" and "store_inv c st'" and "proc_inv c st' pc"
    and "\<And>j. j \<noteq> i \<Longrightarrow> proc_inv c st' (fs_procs sys j)"
    and "\<And>j n. j \<noteq> i \<Longrightarrow> holds pc n \<Longrightarrow> \<not> holds (fs_procs sys j) n"
    and "sys' = sys\<lparr>fs_store := st', fs_procs := (fs_procs sys)(i := pc), fs_created := c\<rparr>"
  shows "fe_inv sys'"
proof -
  have "\<forall>k j n. holds (fs_procs sys k) n \<longrightarrow> holds (fs_procs sys j) n \<longrightarrow> k = j"
    using assms(1) unfolding fe_inv_def by blast
  then have "holds (((fs_procs sys)(i := pc)) k) n \<longrightarrow> holds (((fs_procs sys)(i := pc)) j) n \<longrightarrow> k = j" for k j n
    by (cases "k = i"; cases "j = i") (use assms(5) [of k n] assms(5) [of j n] in auto)
  moreover have "proc_inv c st' (((fs_procs sys)(i := pc)) k)" for k
    using assms(3,4) by (cases "k = i") simp_all
  moreover have "fs_store sys' = st'" "fs_procs sys' = (fs_procs sys)(i := pc)" "fs_created sys' = c"
    by (simp_all add: assms(6))
  ultimately show ?thesis using assms(2) unfolding fe_inv_def by metis
qed

text \<open>Giving a claim back: nothing changes, or the claimed file is pending again.\<close>

lemma release_cases:
  assumes "release io name cause st = (e, st')"
  shows "st' = st \<or> (\<exists>f t. mget (fe_claimed st) name = Some (f, t) \<and>
    st' = st\<lparr>fe_claimed := mdel (fe_claimed st) name, fe_pendings := mput (fe_pendings st) name f\<rparr>)"
  using assms by (auto simp: release_def split: option.splits prod.splits)

lemma release_inv:
  assumes "release io name cause st = (e, st')" and "store_inv c st" and "\<not> decided st name"
  shows "store_inv c st' \<and> fe_log st' = fe_log st \<and> fe_approved st' = fe_approved st \<and> fe_denied st' = fe_denied st \<and>
    (\<forall>n. n \<noteq> name \<longrightarrow> mget (fe_pendings st') n = mget (fe_pendings st) n)"
  using release_cases [OF assms(1)] assms(2,3)
  by (auto simp: store_inv_def decided_def wf_map_update split: if_splits)

lemma store_le_refl: "wf_map (fe_pendings st) \<Longrightarrow> store_le st st"
  by (simp add: store_le_def)

lemma store_le_log: "wf_map (fe_pendings st) \<Longrightarrow> store_le st (st\<lparr>fe_log := fe_log st @ es\<rparr>)"
  by (auto simp: store_le_def)

lemma store_inv_wf: "store_inv c st \<Longrightarrow> wf_map (fe_pendings st)"
  by (simp add: store_inv_def)

lemma revert_release:
  "revert io name a cause st = (e, st') \<Longrightarrow> \<exists>cause' es. release io name cause' (st\<lparr>fe_log := fe_log st @ es\<rparr>) = (e, st')"
proof (cases "fi_audit_revert io")
  case (Some x)
  moreover assume "revert io name a cause st = (e, st')"
  ultimately show ?thesis
    by (intro exI [of _ "FEAuditRevert cause x"] exI [of _ "[]"]) (simp add: revert_def)
qed (auto simp: revert_def)

lemma fe_invD:
  assumes "fe_inv sys"
  shows "store_inv (fs_created sys) (fs_store sys)" "proc_inv (fs_created sys) (fs_store sys) (fs_procs sys j)"
    "holds (fs_procs sys j) n \<Longrightarrow> holds (fs_procs sys k) n \<Longrightarrow> j = k"
  using assms unfolding fe_inv_def by blast+

lemma proc_invD:
  assumes "proc_inv c st pc"
  shows "holds pc n \<Longrightarrow> mget (fe_pendings st) n = None \<and> \<not> decided st n"
    "pc_req pc = Some d \<Longrightarrow> mget c (dr_name d) = Some (dr_pending d) \<and> dr_approver d \<noteq> '''' \<and>
       identity_check (dr_approver d) (dr_surface d) (dr_pending d) = None"
    "logged pc = Some d \<Longrightarrow> FEDecision (dr_name d) (dr_approver d) (dr_approve d) (dr_surface d) \<in> set (fe_log st)"
  using assms unfolding proc_inv_def by blast+

text \<open>A process that holds its request gives it back: the phases that fail.\<close>

lemma released_inv:
  assumes "fe_inv sys" and "holds (fs_procs sys i) name"
    and "release io name cause ((fs_store sys)\<lparr>fe_log := fe_log (fs_store sys) @ es\<rparr>) = (e, st')"
  shows "fe_inv (sys\<lparr>fs_store := st', fs_procs := (fs_procs sys)(i := PIdle)\<rparr>)"
proof -
  let ?st = "(fs_store sys)\<lparr>fe_log := fe_log (fs_store sys) @ es\<rparr>"
  note wf = store_inv_wf [OF fe_invD(1) [OF assms(1)]]
  have inv: "store_inv (fs_created sys) ?st"
    using store_le_inv [OF store_le_log [OF wf] fe_invD(1) [OF assms(1)]] .
  have nd: "\<not> decided ?st name"
    using proc_invD(1) [OF fe_invD(2) [OF assms(1)] assms(2)] by (simp add: decided_def)
  note r = release_inv [OF assms(3) inv nd]
  have others: "proc_inv (fs_created sys) st' (fs_procs sys j)" if "j \<noteq> i" for j
  proof (rule proc_inv_frame [OF fe_invD(2) [OF assms(1)]])
    fix n assume h: "holds (fs_procs sys j) n"
    then have "n \<noteq> name" using fe_invD(3) [OF assms(1)] assms(2) that by blast
    then show "mget (fe_pendings st') n = None \<and> \<not> decided st' n"
      using r proc_invD(1) [OF fe_invD(2) [OF assms(1)] h] by (auto simp: decided_def)
  qed (use r in auto)
  show ?thesis
    by (rule fe_inv_update [OF assms(1), where c = "fs_created sys" and st' = st' and pc = PIdle and i = i])
       (use r others in auto)
qed

lemma claim_inv:
  assumes "fe_inv sys" and "fs_procs sys i = PChecked d"
  shows "fe_inv (after sys i (PClaimed d) (decide_claim io (dr_name d) (fs_store sys)))"
proof (cases "fst (decide_claim io (dr_name d) (fs_store sys))")
  case (Some e)
  then have "snd (decide_claim io (dr_name d) (fs_store sys)) = fs_store sys"
    by (auto simp: decide_claim_def split: option.splits)
  then show ?thesis
    using Some fe_invD [OF assms(1)]
    by (intro fe_inv_update [OF assms(1), where c = "fs_created sys" and pc = PIdle and i = i]) (auto simp: after_def)
next
  case None
  let ?st = "fs_store sys" and ?n = "dr_name d"
  let ?st' = "snd (decide_claim io ?n ?st)"
  obtain f where f: "mget (fe_pendings ?st) ?n = Some f"
      and st': "?st' = ?st\<lparr>fe_pendings := mdel (fe_pendings ?st) ?n, fe_claimed := mput (fe_claimed ?st) ?n (f, fi_now io)\<rparr>"
    using None by (auto simp: decide_claim_def split: option.splits)
  note I = fe_invD [OF assms(1)]
  have nd: "\<not> decided ?st ?n" using I(1) f by (auto simp: store_inv_def)
  have free: "\<not> holds (fs_procs sys j) ?n" for j
    using proc_invD(1) [OF I(2), of j ?n] f by auto
  have "store_inv (fs_created sys) ?st'"
    unfolding st' using I(1) f by (auto simp: store_inv_def decided_def wf_map_delete)
  moreover have "proc_inv (fs_created sys) ?st' (PClaimed d)"
    using nd proc_invD(2) [OF I(2) [of i], of d]
    by (auto simp: st' proc_inv_def holds_def pc_req_def logged_def decided_def assms(2))
  moreover have "proc_inv (fs_created sys) ?st' (fs_procs sys j)" for j
    by (rule proc_inv_frame [OF I(2)]) (use proc_invD(1) [OF I(2)] in \<open>auto simp: st' decided_def\<close>)
  moreover have "\<not> holds (fs_procs sys j) n" if "holds (PClaimed d) n" for j n
    using free that by (auto simp: holds_def)
  ultimately show ?thesis
    by (intro fe_inv_update [OF assms(1), where c = "fs_created sys" and pc = "PClaimed d" and i = i])
       (use None in \<open>auto simp: after_def\<close>)
qed

lemma audit_inv:
  assumes "fe_inv sys" and "fs_procs sys i = PClaimed d"
  shows "fe_inv (after sys i (PLogged d)
    (decide_audit io (dr_name d) (dr_approver d) (dr_surface d) (dr_approve d) (fs_store sys)))"
proof -
  let ?n = "dr_name d" and ?st = "fs_store sys"
  note I = fe_invD [OF assms(1)]
  have h: "holds (fs_procs sys i) ?n" by (simp add: assms(2) holds_def)
  show ?thesis
  proof (cases "fi_audit io")
    case (Some e)
    obtain err st' where r: "release io ?n (FEAudit e) ?st = (err, st')" by fastforce
    then have "release io ?n (FEAudit e) (?st\<lparr>fe_log := fe_log ?st @ []\<rparr>) = (err, st')" by simp
    from released_inv [OF assms(1) h this] show ?thesis
      using Some r by (simp add: after_def decide_audit_def)
  next
    case None
    let ?st' = "?st\<lparr>fe_log := fe_log ?st @ [FEDecision ?n (dr_approver d) (dr_approve d) (dr_surface d)]\<rparr>"
    have le: "store_le ?st ?st'" by (rule store_le_log [OF store_inv_wf [OF I(1)]])
    have "proc_inv (fs_created sys) ?st' (PLogged d)"
      using store_le_proc [OF le I(2) [of i]] by (auto simp: assms(2) proc_inv_def holds_def pc_req_def logged_def)
    moreover have "\<not> holds (fs_procs sys j) n" if "j \<noteq> i" "holds (PLogged d) n" for j n
      using I(3) [OF h, of j] that by (auto simp: holds_def)
    ultimately show ?thesis
      using store_le_inv [OF le I(1)] store_le_proc [OF le I(2)] None
      by (intro fe_inv_update [OF assms(1), where c = "fs_created sys" and pc = "PLogged d" and i = i])
         (auto simp: after_def decide_audit_def)
  qed
qed

lemma store_inv_marker:
  assumes "store_inv c st" and "marker_ok c (fe_log st) approve n m" and "\<not> decided st n"
    and "mget (fe_pendings st) n = None"
  shows "store_inv c (if approve then st\<lparr>fe_approved := mput (fe_approved st) n m\<rparr>
                      else st\<lparr>fe_denied := mput (fe_denied st) n m\<rparr>)"
  using assms by (auto simp: store_inv_def decided_def split: if_splits)

lemma marker_inv:
  assumes "fe_inv sys" and "fs_procs sys i = PLogged d"
  shows "fe_inv (after sys i (PMarked d)
    (decide_marker io (dr_name d) (dr_approver d) (dr_surface d) (dr_approve d) (fs_store sys)))"
proof -
  let ?n = "dr_name d" and ?st = "fs_store sys"
  let ?m = "\<lparr>fm_Approver = dr_approver d, fm_Surface = dr_surface d, fm_At = fi_now io\<rparr>"
  note I = fe_invD [OF assms(1)]
  have h: "holds (fs_procs sys i) ?n" by (simp add: assms(2) holds_def)
  have free: "mget (fe_pendings ?st) ?n = None" "\<not> decided ?st ?n" using proc_invD(1) [OF I(2) h] by auto
  have d: "marker_ok (fs_created sys) (fe_log ?st) (dr_approve d) ?n ?m"
    using proc_invD(2,3) [OF I(2) [of i], of d] by (auto simp: marker_ok_def assms(2) pc_req_def logged_def)
  show ?thesis
  proof (cases "fi_marker io")
    case (Some e)
    obtain err st' where r: "revert io ?n (dr_approver d) (FEMarker e) ?st = (err, st')" by fastforce
    then obtain cause es where "release io ?n cause (?st\<lparr>fe_log := fe_log ?st @ es\<rparr>) = (err, st')"
      using revert_release by blast
    from released_inv [OF assms(1) h this] show ?thesis
      using Some r free by (auto simp: after_def decide_marker_def Let_def decided_def)
  next
    case None
    let ?st' = "if dr_approve d then ?st\<lparr>fe_approved := mput (fe_approved ?st) ?n ?m\<rparr>
      else ?st\<lparr>fe_denied := mput (fe_denied ?st) ?n ?m\<rparr>"
    have others: "proc_inv (fs_created sys) ?st' (fs_procs sys j)" if "j \<noteq> i" for j
    proof (rule proc_inv_frame [OF I(2)])
      fix n assume hj: "holds (fs_procs sys j) n"
      then have "n \<noteq> ?n" using I(3) [OF h] that by blast
      then show "mget (fe_pendings ?st') n = None \<and> \<not> decided ?st' n"
        using proc_invD(1) [OF I(2) hj] by (auto simp: decided_def)
    qed auto
    have "proc_inv (fs_created sys) ?st' (PMarked d)"
      using I(2) [of i] by (auto simp: assms(2) proc_inv_def holds_def pc_req_def logged_def)
    then show ?thesis
      using store_inv_marker [OF I(1) d free(2,1)] others None free
      by (intro fe_inv_update [OF assms(1), where c = "fs_created sys" and pc = "PMarked d" and i = i])
         (auto simp: after_def decide_marker_def Let_def decided_def holds_def)
  qed
qed

lemma store_step_inv:
  assumes "fe_inv sys" and "store_le (fs_store sys) st'"
  shows "fe_inv (sys\<lparr>fs_store := st'\<rparr>)"
  using assms store_le_inv store_le_proc unfolding fe_inv_def by fastforce

lemma idle_inv: "fe_inv sys \<Longrightarrow> fe_inv (sys\<lparr>fs_procs := (fs_procs sys)(i := PIdle)\<rparr>)"
  by (rule fe_inv_update [of sys "fs_created sys" "fs_store sys" PIdle i]) (simp_all add: fe_invD(1,2))

lemma finish_inv:
  assumes "fe_inv sys"
  shows "fe_inv (after sys i PIdle (decide_finish io n (fs_store sys)))"
proof -
  have "store_le (fs_store sys) (snd (decide_finish io n (fs_store sys)))"
    using store_inv_wf [OF fe_invD(1) [OF assms]]
    by (auto simp: decide_finish_def store_le_def split: option.splits)
  from idle_inv [OF store_step_inv [OF assms this]] show ?thesis by (simp add: after_def)
qed

lemma check_inv:
  assumes "fe_inv sys" and "decide_check io token a s (fs_store sys) = (Inr (p, n), st')"
  shows "fe_inv (sys\<lparr>fs_store := st', fs_procs := (fs_procs sys)
    (i := PChecked \<lparr>dr_name = n, dr_approver = a, dr_surface = s, dr_approve = b, dr_pending = p\<rparr>)\<rparr>)"
proof -
  note I = fe_invD [OF assms(1)]
  have le: "store_le (fs_store sys) st'" by (rule decide_check_le [OF store_inv_wf [OF I(1)] assms(2)])
  have ok: "mget (fe_pendings st') n = Some (PFData p)" "a \<noteq> ''''" "identity_check a s p = None"
    using decide_check_ok [OF assms(2) store_inv_wf [OF I(1)]] by auto
  have inv': "store_inv (fs_created sys) st'" by (rule store_le_inv [OF le I(1)])
  then have "mget (fs_created sys) n = Some p" using ok(1) by (auto simp: store_inv_def)
  then show ?thesis
    using inv' store_le_proc [OF le I(2)] ok
    by (intro fe_inv_update [OF assms(1), where c = "fs_created sys" and i = i])
       (auto simp: proc_inv_def holds_def pc_req_def logged_def)
qed

lemma marker_ok_created: "marker_ok c l a n m \<Longrightarrow> map_of c k = None \<Longrightarrow> marker_ok (mput c k p) l a n m"
  by (auto simp: marker_ok_def)

lemma proc_inv_created: "proc_inv c st pc \<Longrightarrow> map_of c k = None \<Longrightarrow> proc_inv (mput c k p) st pc"
  by (auto simp: proc_inv_def)

lemma create_inv:
  assumes "fe_inv sys"
    and "createFourEyesPendingAs (Inr (rid, tok)) host stamp wr cmd rule req (fs_store sys) = (r, st')"
    and "mget (fs_created sys) rid = None"
  shows "fe_inv (sys\<lparr>fs_store := st',
    fs_created := (case mget (fe_pendings st') rid of Some (PFData p) \<Rightarrow> mput (fs_created sys) rid p | _ \<Rightarrow> fs_created sys)\<rparr>)"
proof -
  let ?st = "fs_store sys" and ?c = "fs_created sys"
  note I = fe_invD [OF assms(1)]
  have nd: "\<not> decided ?st rid" using I(1) assms(3) by (fastforce simp: decided_def store_inv_def marker_ok_def)
  have nh: "\<not> holds (fs_procs sys j) rid" for j
    using proc_invD(2) [OF I(2) [of j]] assms(3)
    by (cases "fs_procs sys j") (force simp: holds_def pc_req_def)+
  have nc: "mget (fe_claimed ?st) rid \<noteq> Some (PFData p, t)" for p t
    using I(1) assms(3) by (auto simp: store_inv_def)
  have upd: "store_inv c' (?st\<lparr>fe_pendings := mput (fe_pendings ?st) rid f\<rparr>)"
    if "store_inv c' ?st" "\<And>p. f = PFData p \<Longrightarrow> mget c' rid = Some p" for c' f
    using that nd by (auto simp: store_inv_def wf_map_update decided_def split: if_splits)
  have procs: "proc_inv c' (?st\<lparr>fe_pendings := mput (fe_pendings ?st) rid f\<rparr>) (fs_procs sys j)"
    if "proc_inv c' ?st (fs_procs sys j)" for c' f j
    by (rule proc_inv_frame [OF that]) (use nh proc_invD(1) [OF that] in \<open>auto simp: decided_def\<close>)
  have c: "store_inv (mput ?c rid p) ?st" for p
    using I(1) assms(3) marker_ok_created by (auto simp: store_inv_def)
  have same: "fe_inv (sys\<lparr>fs_store := x, fs_created := y\<rparr>)"
    if "store_inv y x" "\<And>j. proc_inv y x (fs_procs sys j)" for x y
    using that I(3) unfolding fe_inv_def by auto
  note same0 = same [where y = ?c, simplified]
  have np: "mget (fe_pendings ?st) rid \<noteq> Some (PFData p)" for p
    using I(1) assms(3) by (auto simp: store_inv_def)
  show ?thesis
  proof (cases "st' = ?st")
    case True
    then show ?thesis using np assms(1) by (auto split: option.splits pending_file.splits)
  next
    case False
    then obtain f where "st' = ?st\<lparr>fe_pendings := mput (fe_pendings ?st) rid f\<rparr>"
      using assms(2) by (auto simp: createFourEyesPendingAs_def Let_def split: if_splits create_out.splits)
    then show ?thesis using I(1,2) c proc_inv_created [OF I(2) assms(3)]
      by (auto intro!: same same0 upd procs split: pending_file.splits)
  qed
qed

lemma fe_step_inv: "fe_step sys sys' \<Longrightarrow> fe_inv sys \<Longrightarrow> fe_inv sys'"
proof (induction rule: fe_step.induct)
  case (create rid tok host stamp wr cmd rule requester sys r st' created')
  then show ?case using create_inv by blast
next
  case (give_up sys rid w)
  have "store_le (fs_store sys) (wait_cleanup rid w (fs_store sys))"
    using store_inv_wf [OF fe_invD(1) [OF give_up.prems]]
    by (auto simp: wait_cleanup_def store_le_def wf_map_delete split: wait_result.splits fe_err.splits)
  then show ?case by (rule store_step_inv [OF give_up.prems])
next
  case (sweep sys io)
  then show ?case by (intro store_step_inv sweep_le store_inv_wf [OF fe_invD(1)])
next
  case (crash sys i)
  then show ?case by (rule idle_inv)
next
  case (refuse io token approver surface sys e st')
  then show ?case by (intro store_step_inv decide_check_le [OF store_inv_wf [OF fe_invD(1)]])
qed (auto intro: check_inv claim_inv audit_inv marker_inv finish_inv)

lemma fe_reach_inv: "fe_reach sys \<Longrightarrow> fe_inv sys"
proof (induction rule: fe_reach.induct)
  case init
  show ?case
    by (simp add: fe_inv_def fe_init_def empty_store_def store_inv_def decided_def)
qed (rule fe_step_inv)

section \<open>Properties\<close>

text \<open>
  C39. A second person decides. In every state that any interleaving of requests, decisions by several
  processes, crashes, sweeps and abandoned waits can reach, a request has at most one decision; whoever
  is recorded in its marker is a named identity different from the requester, is the rule's approver if
  the rule names one, is not the person the rule excludes, and used the surface the rule demands; and
  the audit log holds that very decision.
\<close>

theorem four_eyes_sound:
  assumes "fe_reach sys" and "mget (fe_approved (fs_store sys)) n = Some m"
  shows "mget (fe_denied (fs_store sys)) n = None \<and> mget (fe_pendings (fs_store sys)) n = None \<and>
    (\<exists>p. mget (fs_created sys) n = Some p \<and> fm_Approver m \<noteq> '''' \<and>
       (fp_Requester p \<noteq> '''' \<longrightarrow> fm_Approver m \<noteq> fp_Requester p) \<and>
       (fr_Approver (fp_Rule p) \<noteq> '''' \<longrightarrow> fm_Approver m = fr_Approver (fp_Rule p)) \<and>
       (fr_NotApprover (fp_Rule p) \<noteq> '''' \<longrightarrow> fm_Approver m \<noteq> fr_NotApprover (fp_Rule p)) \<and>
       (fr_Surface (fp_Rule p) \<noteq> '''' \<longrightarrow> fm_Surface m = fr_Surface (fp_Rule p))) \<and>
    FEDecision n (fm_Approver m) True (fm_Surface m) \<in> set (fe_log (fs_store sys))"
proof -
  have inv: "store_inv (fs_created sys) (fs_store sys)" by (rule fe_invD(1) [OF fe_reach_inv [OF assms(1)]])
  then have ok: "marker_ok (fs_created sys) (fe_log (fs_store sys)) True n m" using assms(2) by (simp add: store_inv_def)
  have "decided (fs_store sys) n" using assms(2) by (simp add: decided_def)
  then have "mget (fe_denied (fs_store sys)) n = None" "mget (fe_pendings (fs_store sys)) n = None"
    using inv assms(2) unfolding store_inv_def by (metis option.distinct(1))+
  with ok show ?thesis
    by (auto simp: marker_ok_def identity_check_def split: if_splits)
qed

lemma fe_step_steps: "fe_reach sys \<Longrightarrow> fe_step\<^sup>*\<^sup>* sys sys' \<Longrightarrow> fe_reach sys'"
  by (rotate_tac, induction rule: rtranclp_induct) (auto intro: fe_reach.step)

text \<open>The function is one interleaving of its phases: a process that runs it alone.\<close>

lemma DecideRequest_steps:
  assumes "fs_procs sys i = PIdle"
  shows "fe_step\<^sup>*\<^sup>* sys (sys\<lparr>fs_store := snd (DecideRequest io token approver surface approve (fs_store sys))\<rparr>)"
proof (cases "decide_check io token approver surface (fs_store sys)")
  case (Pair r st1)
  show ?thesis
  proof (cases r)
    case (Inl e)
    then show ?thesis using Pair fe_step.refuse [of io token approver surface sys e st1]
      by (auto simp: DecideRequest_def)
  next
    case (Inr pn)
    obtain p n where pn: "pn = (p, n)" by (cases pn)
    let ?d = "\<lparr>dr_name = n, dr_approver = approver, dr_surface = surface, dr_approve = approve, dr_pending = p\<rparr>"
    let ?s1 = "sys\<lparr>fs_store := st1, fs_procs := (fs_procs sys)(i := PChecked ?d)\<rparr>"
    have 1: "fe_step sys ?s1" using fe_step.check [of sys i io token approver surface p n st1] assms Pair Inr pn by simp
    obtain e2 st2 where c: "decide_claim io n st1 = (e2, st2)" by fastforce
    let ?s2 = "sys\<lparr>fs_store := st2, fs_procs := (fs_procs sys)(i := (if e2 = None then PClaimed ?d else PIdle))\<rparr>"
    have 2: "fe_step ?s1 ?s2" using fe_step.claim [of ?s1 i ?d io] c by (simp add: after_def)
    have idle: "sys\<lparr>fs_store := st, fs_procs := (fs_procs sys)(i := PIdle)\<rparr> = sys\<lparr>fs_store := st\<rparr>" for st
      using assms by (simp add: fun_upd_idem)
    show ?thesis
    proof (cases e2)
      case (Some e)
      have "snd (DecideRequest io token approver surface approve (fs_store sys)) = st2"
        using Pair Inr pn c Some by (simp add: DecideRequest_def)
      then show ?thesis using 1 2 Some idle [of st2] by auto
    next
      case None
      obtain e3 st3 where a: "decide_audit io n approver surface approve st2 = (e3, st3)" by fastforce
      let ?s3 = "sys\<lparr>fs_store := st3, fs_procs := (fs_procs sys)(i := (if e3 = None then PLogged ?d else PIdle))\<rparr>"
      have 3: "fe_step ?s2 ?s3" using fe_step.audit [of ?s2 i ?d io] a None by (simp add: after_def)
      show ?thesis
      proof (cases e3)
        case (Some e)
        have "snd (DecideRequest io token approver surface approve (fs_store sys)) = st3"
          using Pair Inr pn c None a Some by (simp add: DecideRequest_def)
        then show ?thesis using 1 2 3 Some idle [of st3] by auto
      next
        case None3: None
        obtain e4 st4 where m: "decide_marker io n approver surface approve st3 = (e4, st4)" by fastforce
        let ?s4 = "sys\<lparr>fs_store := st4, fs_procs := (fs_procs sys)(i := (if e4 = None then PMarked ?d else PIdle))\<rparr>"
        have 4: "fe_step ?s3 ?s4" using fe_step.marker [of ?s3 i ?d io] m None3 by (simp add: after_def)
        show ?thesis
        proof (cases e4)
          case (Some e)
          have "snd (DecideRequest io token approver surface approve (fs_store sys)) = st4"
            using Pair Inr pn c None a None3 m Some by (simp add: DecideRequest_def)
          then show ?thesis using 1 2 3 4 Some idle [of st4] by auto
        next
          case None4: None
          obtain e5 st5 where f: "decide_finish io n st4 = (e5, st5)" by fastforce
          have 5: "fe_step ?s4 (sys\<lparr>fs_store := st5\<rparr>)"
            using fe_step.finish [of ?s4 i ?d io] f None4 idle [of st5] by (simp add: after_def)
          have "snd (DecideRequest io token approver surface approve (fs_store sys)) = st5"
            using Pair Inr pn c None a None3 m None4 f by (simp add: DecideRequest_def)
          then show ?thesis using 1 2 3 4 5 by auto
        qed
      qed
    qed
  qed
qed

definition demo_fe_io :: fe_io where
  "demo_fe_io =
     \<lparr>fi_now = 10, fi_forbidden = False, fi_dirs = None, fi_sweep = (\<lambda>_. None), fi_sweep_rm = (\<lambda>_. True), fi_claim = None, fi_audit = None,
      fi_marker = None, fi_audit_revert = None, fi_restore = None, fi_remove = None\<rparr>"

definition demo_rule :: fe_rule where
  "demo_rule = \<lparr>fr_Pattern = ''rm *'', fr_Approver = '''', fr_TTL = 0, fr_NotApprover = '''', fr_Surface = ''''\<rparr>"

definition demo_request :: fe_store where
  "demo_request = snd (createFourEyesPendingAs (Inr (''r1'', ''t1'')) ''h'' ''now'' CrOk ''rm -rf /'' demo_rule ''alice'' empty_store)"

theorem four_eyes_sound_witness:
  "\<exists>sys m. fe_reach sys \<and> mget (fe_approved (fs_store sys)) ''r1'' = Some m \<and> fm_Approver m \<noteq> ''alice''"
proof -
  let ?s1 = "fe_init\<lparr>fs_store := demo_request, fs_created :=
    (case mget (fe_pendings demo_request) ''r1'' of Some (PFData p) \<Rightarrow> mput [] ''r1'' p | _ \<Rightarrow> [])\<rparr>"
  let ?c = "createFourEyesPendingAs (Inr (''r1'', ''t1'')) ''h'' ''now'' CrOk ''rm -rf /'' demo_rule ''alice'' empty_store"
  have "createFourEyesPendingAs (Inr (''r1'', ''t1'')) ''h'' ''now'' CrOk ''rm -rf /'' demo_rule ''alice'' (fs_store fe_init)
      = (fst ?c, demo_request)"
    by (simp add: fe_init_def demo_request_def)
  from fe_step.create [OF this] have s1: "fe_reach ?s1"
    by (rule fe_reach.step [OF fe_reach.init]) (simp_all add: fe_init_def cong: option.case_cong pending_file.case_cong)
  let ?s2 = "?s1\<lparr>fs_store := snd (DecideRequest demo_fe_io ''r1'' ''bob'' ''shell'' True (fs_store ?s1))\<rparr>"
  have s2: "fe_reach ?s2"
    by (rule fe_step_steps [OF s1 DecideRequest_steps [where i = 0]]) (simp add: fe_init_def)
  have "mget (fe_approved (snd (DecideRequest demo_fe_io ''r1'' ''bob'' ''shell'' True demo_request))) ''r1'' =
      Some \<lparr>fm_Approver = ''bob'', fm_Surface = ''shell'', fm_At = 10\<rparr>"
    by code_simp
  then have a: "mget (fe_approved (fs_store ?s2)) ''r1'' = Some \<lparr>fm_Approver = ''bob'', fm_Surface = ''shell'', fm_At = 10\<rparr>"
    by simp
  have req: "mget (fs_created ?s2) ''r1'' = Some p \<Longrightarrow> fp_Requester p = ''alice''" for p
    by (auto simp: demo_request_def createFourEyesPendingAs_def empty_store_def fe_init_def Let_def)
  show ?thesis
    using four_eyes_sound [OF s2 a] s2 a req by (intro exI [of _ ?s2] exI) auto
qed

text \<open>
  C40. The requester's wait. It ends with an approval only if the approved marker was seen before the
  deadline and no denial was seen earlier; it always ends once a turn starts at or after the deadline;
  and the deadline is the rule's time-out, five minutes when the rule gives none.
\<close>

theorem wait_sound:
  assumes "RequestApproval_wait p start turns = res"
  defines "deadline \<equiv> start + dur_seconds (if fr_TTL (fp_Rule p) \<le> 0 then 300 else fr_TTL (fp_Rule p))"
  shows "(res = Some WApproved \<longrightarrow>
      (\<exists>before w rest. turns = before @ w # rest \<and> wt_approved w \<and> wt_now w < deadline \<and>
         list_all (\<lambda>v. \<not> wt_denied v \<and> \<not> wt_canceled v \<and> \<not> wt_approved v \<and> wt_now v < deadline) before)) \<and>
    ((\<exists>w \<in> set turns. deadline \<le> wt_now w) \<longrightarrow> res \<noteq> None)"
proof -
  have approved: "wait_loop rid q ttl dl ts = Some WApproved \<Longrightarrow>
      \<exists>before w rest. ts = before @ w # rest \<and> wt_approved w \<and> wt_now w < dl \<and>
         list_all (\<lambda>v. \<not> wt_denied v \<and> \<not> wt_canceled v \<and> \<not> wt_approved v \<and> wt_now v < dl) before" for rid q ttl dl ts
  proof (induction ts)
    case (Cons v ts)
    show ?case
    proof (cases "wt_approved v")
      case True
      then show ?thesis using Cons.prems by (intro exI [of _ "[]"] exI [of _ v] exI [of _ ts]) (auto split: if_splits)
    next
      case False
      then obtain before w rest where "ts = before @ w # rest" "wt_approved w" "wt_now w < dl"
          "list_all (\<lambda>v. \<not> wt_denied v \<and> \<not> wt_canceled v \<and> \<not> wt_approved v \<and> wt_now v < dl) before"
        using Cons by (auto split: if_splits)
      then show ?thesis using Cons.prems False
        by (intro exI [of _ "v # before"] exI [of _ w] exI [of _ rest]) (auto split: if_splits)
    qed
  qed simp
  have ends: "\<exists>w \<in> set ts. dl \<le> wt_now w \<Longrightarrow> wait_loop rid q ttl dl ts \<noteq> None" for rid q ttl dl ts
    by (induction ts) auto
  have dl: "wait_ttl (fp_Rule p) = (if fr_TTL (fp_Rule p) \<le> 0 then 300 else fr_TTL (fp_Rule p))"
    by (simp add: wait_ttl_def)
  show ?thesis
    using assms(1) approved ends unfolding RequestApproval_wait_def Let_def deadline_def dl by blast
qed

theorem wait_sound_witness:
  "RequestApproval_wait \<lparr>fp_Token = ''t'', fp_RequestID = ''r'', fp_Command = ''rm'', fp_Requester = ''a'',
      fp_Hostname = '''', fp_Timestamp = '''', fp_Rule = demo_rule\<rparr> 0
     [\<lparr>wt_now = 1, wt_approved = False, wt_denied = False, wt_canceled = False\<rparr>,
      \<lparr>wt_now = 301 * second, wt_approved = True, wt_denied = False, wt_canceled = False\<rparr>] \<noteq> None"
  using wait_sound [OF refl, of "\<lparr>fp_Token = ''t'', fp_RequestID = ''r'', fp_Command = ''rm'', fp_Requester = ''a'',
      fp_Hostname = '''', fp_Timestamp = '''', fp_Rule = demo_rule\<rparr>" 0
     "[\<lparr>wt_now = 1, wt_approved = False, wt_denied = False, wt_canceled = False\<rparr>,
      \<lparr>wt_now = 301 * second, wt_approved = True, wt_denied = False, wt_canceled = False\<rparr>]"]
  by (simp add: demo_rule_def dur_seconds_def int64_def duration_defs)

text \<open>
  A session renamed at run time can neither request nor decide. After \<^verbatim>\<open>SetIdentity\<close> the
  registered session is refused both as a requester and as an approver, whatever name it took, so one
  person cannot play both parts by changing names.
\<close>

theorem renamed_session_refused:
  assumes "sid \<noteq> ''''" and "GetSession r sid = Some (SetIdentity now user principals s)"
  shows "checkRequesterIdentity r sid \<noteq> None \<and> (\<forall>forbidden. \<exists>e. shellApprover forbidden r sid = Inl e)"
  using assms
  by (auto simp: checkRequesterIdentity_def shellApprover_def trusted_source_def SetIdentity_def touchLocked_def Let_def)

theorem renamed_session_refused_witness:
  "\<exists>r. checkRequesterIdentity r ''s1'' \<noteq> None"
proof -
  obtain s :: session where True by blast
  let ?r = "\<lparr>globalSessions = [(''s1'', SetIdentity 5 ''carol'' [] s)], sessionCap = 0, sessionCapRefuse = False\<rparr>"
  have "checkRequesterIdentity ?r ''s1'' \<noteq> None"
    using renamed_session_refused [of "''s1''" ?r 5 "''carol''" "[]" s] by (simp add: GetSession_def)
  then show ?thesis by blast
qed

text \<open>
  Editing the rules. Adding a rule for a pattern makes it the one rule the file has first for that
  pattern, with a positive time-out, and keeps the rules of every other pattern in order; removing a
  pattern removes every rule that has it and keeps the others; an unreadable file is left alone.
\<close>

theorem rules_edit:
  "(\<forall>e. LoadFourEyesRules f = Inl e \<longrightarrow> AddFourEyesRule pat appr ttl f = Inl e \<and> RemoveFourEyesRule pat f = Inl e) \<and>
   (\<forall>rules. LoadFourEyesRules f = Inr rules \<longrightarrow>
      (\<exists>added. AddFourEyesRule pat appr ttl f = Inr added \<and>
         (\<exists>r. find (\<lambda>r. fr_Pattern r = pat) added = Some r \<and> fr_Approver r = appr \<and> 0 < fr_TTL r) \<and>
         filter (\<lambda>r. fr_Pattern r \<noteq> pat) added = filter (\<lambda>r. fr_Pattern r \<noteq> pat) rules) \<and>
      RemoveFourEyesRule pat f = Inr (filter (\<lambda>r. fr_Pattern r \<noteq> pat) rules))"
proof -
  have found: "find (\<lambda>r. fr_Pattern r = fr_Pattern new) (replace_rule new rs) = Some new" for new rs
    by (induction rs) auto
  have others: "filter (\<lambda>r. fr_Pattern r \<noteq> fr_Pattern new) (replace_rule new rs) = filter (\<lambda>r. fr_Pattern r \<noteq> fr_Pattern new) rs" for new rs
    by (induction rs) auto
  let ?new = "\<lparr>fr_Pattern = pat, fr_Approver = appr, fr_TTL = (if ttl \<le> 0 then 300 else ttl), fr_NotApprover = '''', fr_Surface = ''''\<rparr>"
  show ?thesis
    using found [of ?new] others [of ?new]
    by (auto simp: AddFourEyesRule_def RemoveFourEyesRule_def Let_def)
qed

theorem rules_edit_witness:
  "RemoveFourEyesRule ''rm *'' (RulesData [demo_rule, demo_rule]) = Inr []"
  using rules_edit [of "RulesData [demo_rule, demo_rule]" "''rm *''"]
  by (simp add: LoadFourEyesRules_def demo_rule_def)

end
