(* ===== verification/Json.thy ===== *)
theory Json
  imports Glob
begin

text \<open>
  Package \<^verbatim>\<open>encoding/json\<close> as the audit ledger uses it: writing strings and integers, and reading a
  JSON text. Strings are bytes. The writer escapes the HTML characters, the control characters, the two
  line separators, and replaces an ill-formed byte by the escape of U+FFFD; the reader decodes escapes
  and surrogate pairs and replaces ill-formed bytes by the encoding of U+FFFD. What is read back after
  writing is \<open>json_clean\<close> of the string: the string itself when it is valid UTF-8.
\<close>

section \<open>Writing\<close>

abbreviation quote :: char where
  "quote \<equiv> CHR 0x22"

abbreviation backslash :: char where
  "backslash \<equiv> CHR 0x5C"

definition hex_digit :: "nat \<Rightarrow> char" where
  "hex_digit n = char_of (if n < 10 then 48 + n else 87 + n)"

definition esc_byte :: "char \<Rightarrow> string" where
  "esc_byte c =
     (let b = byte c
      in if b = 0x22 \<or> b = 0x5C then [backslash, c]
         else if b = 0x08 then [backslash, CHR ''b'']
         else if b = 0x0C then [backslash, CHR ''f'']
         else if b = 0x0A then [backslash, CHR ''n'']
         else if b = 0x0D then [backslash, CHR ''r'']
         else if b = 0x09 then [backslash, CHR ''t'']
         else if b < 0x20 \<or> b = 0x3C \<or> b = 0x3E \<or> b = 0x26 then
           [backslash, CHR ''u'', CHR ''0'', CHR ''0'', hex_digit (b div 16), hex_digit (b mod 16)]
         else [c])"

text \<open>The written form of the rune at the start of a string.\<close>

definition json_rune :: "string \<Rightarrow> string" where
  "json_rune s =
     (case decode_rune s of
        (r, w) \<Rightarrow>
          if r < 0x80 then esc_byte (hd s)
          else if r = 0xFFFD \<and> w = 1 then [backslash, CHR ''u'', CHR ''f'', CHR ''f'', CHR ''f'', CHR ''d'']
          else if r = 0x2028 then [backslash, CHR ''u'', CHR ''2'', CHR ''0'', CHR ''2'', CHR ''8'']
          else if r = 0x2029 then [backslash, CHR ''u'', CHR ''2'', CHR ''0'', CHR ''2'', CHR ''9'']
          else take w s)"

function json_body :: "string \<Rightarrow> string" where
  "json_body s = (if s = [] then [] else json_rune s @ json_body (drop (snd (decode_rune s)) s))"
  by pat_completeness auto
termination
  by (relation "measure length") (use decode_rune_width in \<open>fastforce\<close>)+

declare json_body.simps [simp del]

definition json_string :: "string \<Rightarrow> string" where
  "json_string s = [quote] @ json_body s @ [quote]"

fun dec_nat :: "nat \<Rightarrow> string" where
  "dec_nat n = (if n < 10 then [char_of (48 + n)] else dec_nat (n div 10) @ [char_of (48 + n mod 10)])"

declare dec_nat.simps [simp del]

definition dec_int :: "int \<Rightarrow> string" where
  "dec_int i = (if i < 0 then CHR ''-'' # dec_nat (nat (- i)) else dec_nat (nat i))"

section \<open>Reading\<close>

datatype json =
    JNull
  | JBool bool
  | JNum string
  | JStr string
  | JArr "json list"
  | JObj "(string \<times> json) list"

text \<open>\<^verbatim>\<open>utf8.AppendRune\<close>: a surrogate or a value beyond Unicode is written as U+FFFD.\<close>

definition encode_rune :: "nat \<Rightarrow> string" where
  "encode_rune r =
     (if r < 0x80 then [char_of r]
      else if r < 0x800 then [char_of (0xC0 + r div 64), char_of (0x80 + r mod 64)]
      else if (0xD800 \<le> r \<and> r \<le> 0xDFFF) \<or> 0x10FFFF < r then [CHR 0xEF, CHR 0xBF, CHR 0xBD]
      else if r < 0x10000 then [char_of (0xE0 + r div 4096), char_of (0x80 + r div 64 mod 64), char_of (0x80 + r mod 64)]
      else [char_of (0xF0 + r div 262144), char_of (0x80 + r div 4096 mod 64), char_of (0x80 + r div 64 mod 64),
            char_of (0x80 + r mod 64)])"

definition hex_val :: "char \<Rightarrow> nat option" where
  "hex_val c =
     (let b = byte c
      in if 48 \<le> b \<and> b \<le> 57 then Some (b - 48)
         else if 97 \<le> b \<and> b \<le> 102 then Some (b - 87)
         else if 65 \<le> b \<and> b \<le> 70 then Some (b - 55)
         else None)"

fun read_u4 :: "string \<Rightarrow> nat option" where
  "read_u4 (a # b # c # d # _) =
     (case (hex_val a, hex_val b, hex_val c, hex_val d) of
        (Some x, Some y, Some z, Some w) \<Rightarrow> Some (x * 4096 + y * 256 + z * 16 + w)
      | _ \<Rightarrow> None)"
| "read_u4 _ = None"

text \<open>The low half of a surrogate pair when one follows.\<close>

definition low_half :: "nat \<Rightarrow> string \<Rightarrow> nat option" where
  "low_half r s =
     (case s of
        a # b # t \<Rightarrow>
          if a = backslash \<and> b = CHR ''u'' \<and> 0xD800 \<le> r \<and> r \<le> 0xDBFF then
            (case read_u4 t of
               Some q \<Rightarrow> if 0xDC00 \<le> q \<and> q \<le> 0xDFFF then Some ((r - 0xD800) * 1024 + (q - 0xDC00) + 0x10000) else None
             | None \<Rightarrow> None)
          else None
      | _ \<Rightarrow> None)"

definition simple_escape :: "char \<Rightarrow> char option" where
  "simple_escape c =
     (if c = quote \<or> c = backslash \<or> c = CHR ''/'' then Some c
      else if c = CHR ''b'' then Some (CHR 0x08)
      else if c = CHR ''f'' then Some (CHR 0x0C)
      else if c = CHR ''n'' then Some (CHR 0x0A)
      else if c = CHR ''r'' then Some (CHR 0x0D)
      else if c = CHR ''t'' then Some (CHR 0x09)
      else None)"

text \<open>
  One unit of a string literal: the decoded text and how many bytes it took, \<open>None\<close> when the literal is
  malformed there. The closing quote is handled by the caller.
\<close>

definition read_unit :: "string \<Rightarrow> (string \<times> nat) option" where
  "read_unit s =
     (case s of
        [] \<Rightarrow> None
      | c # t \<Rightarrow>
          if c = backslash then
            (case t of
               [] \<Rightarrow> None
             | e # u \<Rightarrow>
                 (case simple_escape e of
                    Some x \<Rightarrow> Some ([x], 2)
                  | None \<Rightarrow>
                      if e = CHR ''u'' then
                        (case read_u4 u of
                           None \<Rightarrow> None
                         | Some r \<Rightarrow>
                             (case low_half r (drop 4 u) of
                                Some q \<Rightarrow> Some (encode_rune q, 12)
                              | None \<Rightarrow> Some (encode_rune r, 6)))
                      else None))
          else if byte c < 0x20 then None
          else (case decode_rune s of (r, w) \<Rightarrow> Some (encode_rune r, w)))"

lemma read_u4_length: "read_u4 s = Some r \<Longrightarrow> 4 \<le> length s"
  by (cases s rule: read_u4.cases) auto

lemma low_half_length: "low_half r s = Some q \<Longrightarrow> 6 \<le> length s"
  by (auto simp: low_half_def split: list.splits if_splits option.splits dest!: read_u4_length)

lemma read_unit_width: "read_unit s = Some (x, w) \<Longrightarrow> 1 \<le> w \<and> w \<le> length s"
  using decode_rune_width [of s]
  by (auto simp: read_unit_def split: list.splits if_splits option.splits prod.splits
           dest!: read_u4_length low_half_length)

text \<open>The rest of a string literal after its opening quote: the decoded text and what follows it.\<close>

function read_str :: "string \<Rightarrow> (string \<times> string) option" where
  "read_str s =
     (if s \<noteq> [] \<and> hd s = quote then Some ([], tl s)
      else case read_unit s of
          None \<Rightarrow> None
        | Some (x, w) \<Rightarrow> map_option (\<lambda>(y, r). (x @ y, r)) (read_str (drop w s)))"
  by pat_completeness auto
termination
  by (relation "measure length") (auto dest: read_unit_width)

declare read_str.simps [simp del]

definition json_space :: "char \<Rightarrow> bool" where
  "json_space c = (c = CHR '' '' \<or> c = CHR 0x09 \<or> c = CHR 0x0A \<or> c = CHR 0x0D)"

abbreviation skip :: "string \<Rightarrow> string" where
  "skip s \<equiv> dropWhile json_space s"

text \<open>The digits, the fraction and the exponent of a number literal.\<close>

definition read_digits :: "string \<Rightarrow> (string \<times> string) option" where
  "read_digits s = (if takeWhile is_digit s = [] then None else Some (takeWhile is_digit s, dropWhile is_digit s))"

definition read_frac :: "string \<Rightarrow> (string \<times> string) option" where
  "read_frac s =
     (case s of
        c # t \<Rightarrow> if c = CHR ''.'' then map_option (\<lambda>(d, r). (c # d, r)) (read_digits t) else Some ([], s)
      | [] \<Rightarrow> Some ([], []))"

definition read_exp :: "string \<Rightarrow> (string \<times> string) option" where
  "read_exp s =
     (case s of
        c # t \<Rightarrow>
          if c = CHR ''e'' \<or> c = CHR ''E'' then
            (case t of
               sg # u \<Rightarrow>
                 if sg = CHR ''+'' \<or> sg = CHR ''-'' then map_option (\<lambda>(d, r). (c # sg # d, r)) (read_digits u)
                 else map_option (\<lambda>(d, r). (c # d, r)) (read_digits t)
             | [] \<Rightarrow> None)
          else Some ([], s)
      | [] \<Rightarrow> Some ([], []))"

definition read_whole :: "string \<Rightarrow> (string \<times> string) option" where
  "read_whole s =
     (case s of
        c # t \<Rightarrow> if c = CHR ''0'' then Some ([c], t) else read_digits s
      | [] \<Rightarrow> None)"

definition read_num :: "string \<Rightarrow> (string \<times> string) option" where
  "read_num s =
     (let (sg, t) = (case s of c # t \<Rightarrow> if c = CHR ''-'' then ([c], t) else ([], s) | [] \<Rightarrow> ([], []))
      in case read_whole t of
           None \<Rightarrow> None
         | Some (d, u) \<Rightarrow>
             (case read_frac u of
                None \<Rightarrow> None
              | Some (f, v) \<Rightarrow> map_option (\<lambda>(e, r). (sg @ d @ f @ e, r)) (read_exp v)))"

definition maxNestingDepth :: nat where
  "maxNestingDepth = 10000"

definition read_lit :: "string \<Rightarrow> json \<Rightarrow> string \<Rightarrow> (json \<times> string) option" where
  "read_lit w v s = (if hasPrefix s w then Some (v, drop (length w) s) else None)"

text \<open>
  Values, the elements of an array and the members of an object; the first argument bounds the number of
  nested calls, the second is the nesting depth. \<open>read_fuel\<close> below shows that more than twice the length
  of the text is enough: the result no longer depends on the bound.
\<close>

fun read_value :: "nat \<Rightarrow> nat \<Rightarrow> string \<Rightarrow> (json \<times> string) option"
  and read_elems :: "nat \<Rightarrow> nat \<Rightarrow> string \<Rightarrow> (json list \<times> string) option"
  and read_members :: "nat \<Rightarrow> nat \<Rightarrow> string \<Rightarrow> ((string \<times> json) list \<times> string) option" where
  "read_value 0 d s = None"
| "read_value (Suc n) d s =
     (case skip s of
        [] \<Rightarrow> None
      | c # t \<Rightarrow>
          if c = CHR ''{'' then
            (if maxNestingDepth \<le> d then None
             else case skip t of
                 [] \<Rightarrow> None
               | c' # u \<Rightarrow>
                   if c' = CHR ''}'' then Some (JObj [], u)
                   else map_option (\<lambda>(m, r). (JObj m, r)) (read_members n (Suc d) t))
          else if c = CHR ''['' then
            (if maxNestingDepth \<le> d then None
             else case skip t of
                 [] \<Rightarrow> None
               | c' # u \<Rightarrow>
                   if c' = CHR '']'' then Some (JArr [], u)
                   else map_option (\<lambda>(m, r). (JArr m, r)) (read_elems n (Suc d) t))
          else if c = quote then map_option (\<lambda>(x, r). (JStr x, r)) (read_str t)
          else if c = CHR ''t'' then read_lit ''true'' (JBool True) (c # t)
          else if c = CHR ''f'' then read_lit ''false'' (JBool False) (c # t)
          else if c = CHR ''n'' then read_lit ''null'' JNull (c # t)
          else map_option (\<lambda>(x, r). (JNum x, r)) (read_num (c # t)))"
| "read_elems 0 d s = None"
| "read_elems (Suc n) d s =
     (case read_value n d s of
        None \<Rightarrow> None
      | Some (v, r) \<Rightarrow>
          (case skip r of
             [] \<Rightarrow> None
           | c # t \<Rightarrow>
               if c = CHR '','' then map_option (\<lambda>(vs, r). (v # vs, r)) (read_elems n d t)
               else if c = CHR '']'' then Some ([v], t)
               else None))"
| "read_members 0 d s = None"
| "read_members (Suc n) d s =
     (case skip s of
        [] \<Rightarrow> None
      | q # t \<Rightarrow>
          if q \<noteq> quote then None
          else case read_str t of
              None \<Rightarrow> None
            | Some (k, r) \<Rightarrow>
                (case skip r of
                   [] \<Rightarrow> None
                 | c # u \<Rightarrow>
                     if c \<noteq> CHR '':'' then None
                     else case read_value n d u of
                         None \<Rightarrow> None
                       | Some (v, r) \<Rightarrow>
                           (case skip r of
                              [] \<Rightarrow> None
                            | c # t \<Rightarrow>
                                if c = CHR '','' then map_option (\<lambda>(m, r). ((k, v) # m, r)) (read_members n d t)
                                else if c = CHR ''}'' then Some ([(k, v)], t)
                                else None)))"

text \<open>A whole text: one value and nothing but white space after it.\<close>

definition json_parse :: "string \<Rightarrow> json option" where
  "json_parse s =
     (case read_value (Suc (Suc (2 * length s))) 0 s of
        Some (v, r) \<Rightarrow> if skip r = [] then Some v else None
      | None \<Rightarrow> None)"

section \<open>Decoding into a struct\<close>

text \<open>
  The name of a struct field matches a key that is equal up to simple case folding; two runes beyond ASCII
  fold to ASCII letters.
\<close>

definition fold_rune :: "nat \<Rightarrow> nat" where
  "fold_rune r = (if 97 \<le> r \<and> r \<le> 122 then r - 32 else if r = 0x17F then 83 else if r = 0x212A then 75 else r)"

definition same_field :: "string \<Rightarrow> string \<Rightarrow> bool" where
  "same_field name key = (map fold_rune (runes name) = map fold_rune (runes key))"

definition dec_value :: "string \<Rightarrow> int" where
  "dec_value s = foldl (\<lambda>n c. n * 10 + (int (byte c) - 48)) 0 s"

text \<open>\<^verbatim>\<open>strconv.ParseInt(s, 10, 64)\<close> on a JSON number literal.\<close>

definition json_int64 :: "string \<Rightarrow> int option" where
  "json_int64 s =
     (let (neg, d) = (case s of c # t \<Rightarrow> if c = CHR ''-'' then (True, t) else (False, s) | [] \<Rightarrow> (False, []));
          v = (if neg then - dec_value d else dec_value d)
      in if d \<noteq> [] \<and> list_all is_digit d \<and> - (2 ^ 63) \<le> v \<and> v < 2 ^ 63 then Some v else None)"

section \<open>Runes and their encoding\<close>

definition scalar :: "nat \<Rightarrow> bool" where
  "scalar r \<longleftrightarrow> r \<le> 0x10FFFF \<and> \<not> (0xD800 \<le> r \<and> r \<le> 0xDFFF)"

lemma char_of_byte_shift: "k \<le> byte c \<Longrightarrow> char_of (k + (byte c - k)) = c"
  by simp

lemma byte_lt [simp]: "byte c < 256"
  using of_char_mod_256 [of c] mod_less_divisor [of 256 "byte c"] by simp

lemma two_parts: "(z :: nat) < 64 \<Longrightarrow> (y * 64 + z) div 64 = y \<and> (y * 64 + z) mod 64 = z"
  by simp

lemma three_parts:
  assumes "(y :: nat) < 64" "z < 64"
  shows "(x * 4096 + y * 64 + z) div 4096 = x" "(x * 4096 + y * 64 + z) div 64 mod 64 = y"
    "(x * 4096 + y * 64 + z) mod 64 = z"
proof -
  have e: "x * 4096 + y * 64 + z = (x * 64 + y) * 64 + z" by simp
  have d: "(x * 4096 + y * 64 + z) div 64 = x * 64 + y"
    unfolding e using two_parts [OF assms(2), of "x * 64 + y"] by blast
  show "(x * 4096 + y * 64 + z) div 64 mod 64 = y" "(x * 4096 + y * 64 + z) mod 64 = z"
    using d two_parts [OF assms(2), of "x * 64 + y"] two_parts [OF assms(1), of x] unfolding e by simp_all
  have "(x * 4096 + y * 64 + z) div 4096 = (x * 4096 + y * 64 + z) div 64 div 64"
    by (simp add: div_mult2_eq [symmetric])
  then show "(x * 4096 + y * 64 + z) div 4096 = x" using d two_parts [OF assms(1), of x] by simp
qed

lemma four_parts:
  assumes "(y :: nat) < 64" "z < 64" "u < 64"
  shows "(x * 262144 + y * 4096 + z * 64 + u) div 262144 = x" "(x * 262144 + y * 4096 + z * 64 + u) div 4096 mod 64 = y"
    "(x * 262144 + y * 4096 + z * 64 + u) div 64 mod 64 = z" "(x * 262144 + y * 4096 + z * 64 + u) mod 64 = u"
proof -
  have e: "x * 262144 + y * 4096 + z * 64 + u = (x * 64 + y) * 4096 + z * 64 + u" by simp
  note T = three_parts [OF assms(2,3), of "x * 64 + y"]
  show "(x * 262144 + y * 4096 + z * 64 + u) div 4096 mod 64 = y" "(x * 262144 + y * 4096 + z * 64 + u) div 64 mod 64 = z"
    "(x * 262144 + y * 4096 + z * 64 + u) mod 64 = u"
    unfolding e using T two_parts [OF assms(1), of x] by simp_all
  have "(x * 262144 + y * 4096 + z * 64 + u) div 262144 = (x * 262144 + y * 4096 + z * 64 + u) div 4096 div 64"
    by (simp add: div_mult2_eq [symmetric])
  then show "(x * 262144 + y * 4096 + z * 64 + u) div 262144 = x"
    unfolding e using T two_parts [OF assms(1), of x] by simp
qed

lemma contb_sub: "contb b \<Longrightarrow> b - 0x80 < 64"
  unfolding contb_def by linarith

text \<open>A decoded rune is either the replacement of an ill-formed byte or what encoding gives back.\<close>

lemma decode2:
  assumes "0xC2 \<le> byte c" "byte c \<le> 0xDF" "contb (byte c1)"
  defines "r \<equiv> (byte c - 0xC0) * 64 + (byte c1 - 0x80)"
  shows "scalar r" "0x80 \<le> r" "encode_rune r = [c, c1]"
proof -
  have y: "byte c1 - 0x80 < 64" using assms(3) by (rule contb_sub)
  have p: "r div 64 = byte c - 0xC0" "r mod 64 = byte c1 - 0x80"
    unfolding r_def using two_parts [OF y] by blast+
  have lo: "2 \<le> byte c - 0xC0" and hi: "byte c - 0xC0 \<le> 31" using assms(1,2) by simp_all
  show 80: "0x80 \<le> r" unfolding r_def using lo by linarith
  have 800: "r < 0x800" unfolding r_def using hi y by linarith
  then show "scalar r" by (simp add: scalar_def)
  show "encode_rune r = [c, c1]"
    unfolding encode_rune_def using 80 800 p char_of_byte_shift [of "0xC0" c] char_of_byte_shift [of "0x80" c1] assms(1,3)
    by (simp add: contb_def)
qed

lemma decode3:
  assumes "0xE0 \<le> byte c" "byte c \<le> 0xEF" "contb (byte c1)" "contb (byte c2)"
    and "\<not> (byte c = 0xE0 \<and> byte c1 < 0xA0)" "\<not> (byte c = 0xED \<and> byte c1 > 0x9F)"
  defines "r \<equiv> (byte c - 0xE0) * 4096 + (byte c1 - 0x80) * 64 + (byte c2 - 0x80)"
  shows "scalar r" "0x800 \<le> r" "encode_rune r = [c, c1, c2]"
proof -
  have y: "byte c1 - 0x80 < 64" and z: "byte c2 - 0x80 < 64" using assms(3,4) by (simp_all only: contb_sub)
  note P = three_parts [OF y z, of "byte c - 0xE0", folded r_def]
  have hi: "byte c - 0xE0 \<le> 15" using assms(2) by simp
  have lo: "byte c - 0xE0 = 0 \<longrightarrow> 0x20 \<le> byte c1 - 0x80" using assms(1,5) by auto
  show 800: "0x800 \<le> r"
    unfolding r_def using lo by (cases "byte c - 0xE0 = 0") (simp, linarith)
  have 10000: "r < 0x10000" unfolding r_def using hi y z by linarith
  have "\<not> (0xD800 \<le> r \<and> r \<le> 0xDFFF)"
  proof
    assume a: "0xD800 \<le> r \<and> r \<le> 0xDFFF"
    then have d: "byte c - 0xE0 = 13" using y z unfolding r_def by linarith
    then have "byte c = 0xED" using assms(1) by simp
    then have "byte c1 - 0x80 \<le> 0x1F" using assms(6) by simp
    then show False using a d z unfolding r_def by linarith
  qed
  then show s: "scalar r" using 10000 by (simp add: scalar_def)
  show "encode_rune r = [c, c1, c2]"
    unfolding encode_rune_def
    using 800 10000 P s char_of_byte_shift [of "0xE0" c] char_of_byte_shift [of "0x80" c1] char_of_byte_shift [of "0x80" c2] assms(1,3,4)
    by (auto simp: contb_def scalar_def)
qed

lemma decode4:
  assumes "0xF0 \<le> byte c" "byte c \<le> 0xF4" "contb (byte c1)" "contb (byte c2)" "contb (byte c3)"
    and "\<not> (byte c = 0xF0 \<and> byte c1 < 0x90)" "\<not> (byte c = 0xF4 \<and> byte c1 > 0x8F)"
  defines "r \<equiv> (byte c - 0xF0) * 262144 + (byte c1 - 0x80) * 4096 + (byte c2 - 0x80) * 64 + (byte c3 - 0x80)"
  shows "scalar r" "0x10000 \<le> r" "encode_rune r = [c, c1, c2, c3]"
proof -
  have y: "byte c1 - 0x80 < 64" and z: "byte c2 - 0x80 < 64" and u: "byte c3 - 0x80 < 64"
    using assms(3-5) by (simp_all only: contb_sub)
  note P = four_parts [OF y z u, of "byte c - 0xF0", folded r_def]
  have hi: "byte c - 0xF0 \<le> 4" using assms(2) by simp
  have lo: "byte c - 0xF0 = 0 \<longrightarrow> 0x10 \<le> byte c1 - 0x80" using assms(1,6) by auto
  have top: "byte c - 0xF0 = 4 \<longrightarrow> byte c1 - 0x80 \<le> 0xF" using assms(1,7) by auto
  show 10000: "0x10000 \<le> r"
    unfolding r_def using lo by (cases "byte c - 0xF0 = 0") (simp, linarith)
  have "r \<le> 0x10FFFF" unfolding r_def using hi top y z u by (cases "byte c - 0xF0 = 4") (simp, linarith)
  then show s: "scalar r" using 10000 by (simp add: scalar_def)
  show "encode_rune r = [c, c1, c2, c3]"
    unfolding encode_rune_def
    using 10000 P s char_of_byte_shift [of "0xF0" c] char_of_byte_shift [of "0x80" c1] char_of_byte_shift [of "0x80" c2]
      char_of_byte_shift [of "0x80" c3] assms(1,3-5)
    by (simp add: contb_def scalar_def)
qed

lemma decode_rune_cases:
  assumes "s \<noteq> []" and "decode_rune s = (r, w)"
  shows "(r = 0xFFFD \<and> w = 1 \<and> 0x80 \<le> byte (hd s)) \<or> (scalar r \<and> take w s = encode_rune r \<and> w \<le> length s)"
proof -
  obtain c t where s: "s = c # t" using assms(1) by (cases s) auto
  show ?thesis
  proof (cases "byte c < 0x80")
    case True
    then show ?thesis using assms(2) by (auto simp: s scalar_def encode_rune_def)
  next
    case False
    then show ?thesis using assms(2) decode2 [of c] decode3 [of c] decode4 [of c]
      by (auto simp: s Let_def split: if_splits list.splits)
  qed
qed

lemma digits64: obtains y z where "(r :: nat) = y * 64 + z" "z < 64"
  by (metis div_mult_mod_eq mod_less_divisor zero_less_numeral)

lemma byte_char_of [simp]: "n < 256 \<Longrightarrow> byte (char_of n) = n"
  by simp

lemma contb_add: "y < 64 \<Longrightarrow> contb (0x80 + y)"
  by (simp add: contb_def)

lemma decode_encode:
  assumes "scalar r"
  shows "decode_rune (encode_rune r @ t) = (r, length (encode_rune r))"
proof -
  obtain a z where r: "r = a * 64 + z" "z < 64" by (rule digits64)
  obtain b y where a: "a = b * 64 + y" "y < 64" by (rule digits64)
  obtain x v where b: "b = x * 64 + v" "v < 64" by (rule digits64)
  have r3: "r = b * 4096 + y * 64 + z" and r4: "r = x * 262144 + v * 4096 + y * 64 + z" using r a b by simp_all
  consider "r < 0x80" | "0x80 \<le> r" "r < 0x800" | "0x800 \<le> r" "r < 0x10000" | "0x10000 \<le> r" by linarith
  then show ?thesis
  proof cases
    case 1
    then show ?thesis by (simp add: encode_rune_def)
  next
    case 2
    then have "2 \<le> a" "a < 32" using r by linarith+
    moreover have "encode_rune r = [char_of (0xC0 + a), char_of (0x80 + z)]"
      using 2 two_parts [OF r(2), of a] unfolding r(1) [symmetric] by (simp add: encode_rune_def)
    ultimately show ?thesis using contb_add [OF r(2)] r by (simp add: Let_def)
  next
    case 3
    have b16: "b < 16" using 3 r3 by linarith
    have b0: "b = 0 \<longrightarrow> 32 \<le> y" using 3(1) r3 r(2) by auto
    have b13: "b = 13 \<longrightarrow> y < 32" using assms r3 r(2) a(2) by (auto simp: scalar_def)
    have "encode_rune r = [char_of (0xE0 + b), char_of (0x80 + y), char_of (0x80 + z)]"
      using 3 assms three_parts [OF a(2) r(2), of b] unfolding r3 [symmetric] by (auto simp: encode_rune_def scalar_def)
    then show ?thesis using contb_add [OF r(2)] contb_add [OF a(2)] b16 b0 b13 r(2) a(2) r3 by (auto simp: Let_def)
  next
    case 4
    have x5: "x < 5" using assms r4 by (auto simp: scalar_def)
    have x0: "x = 0 \<longrightarrow> 16 \<le> v" using 4 r4 r(2) a(2) by auto
    have x4: "x = 4 \<longrightarrow> v < 16" using assms r4 r(2) a(2) by (auto simp: scalar_def)
    have "encode_rune r = [char_of (0xF0 + x), char_of (0x80 + v), char_of (0x80 + y), char_of (0x80 + z)]"
      using 4 assms four_parts [OF b(2) a(2) r(2), of x] unfolding r4 [symmetric] by (auto simp: encode_rune_def scalar_def)
    then show ?thesis using contb_add [OF r(2)] contb_add [OF a(2)] contb_add [OF b(2)] x5 x0 x4 r(2) a(2) b(2) r4
      by (auto simp: Let_def)
  qed
qed

lemma decode_scalar: "s \<noteq> [] \<Longrightarrow> scalar (fst (decode_rune s))"
  using decode_rune_cases [of s "fst (decode_rune s)" "snd (decode_rune s)"] by (auto simp: scalar_def)

section \<open>Strings read back\<close>

definition json_clean :: "string \<Rightarrow> string" where
  "json_clean s = concat (map encode_rune (runes s))"

lemma encode_rune_length: "1 \<le> length (encode_rune r)"
  by (simp add: encode_rune_def)

lemma hex_val_digit: "n < 16 \<Longrightarrow> hex_val (hex_digit n) = Some n"
  by (auto simp: hex_val_def hex_digit_def Let_def)

lemma byte_is: "byte d = n \<Longrightarrow> byte c = n \<longleftrightarrow> c = d"
  by (metis of_char_eq_iff)

lemmas byte_named =
  byte_is [of quote "0x22", simplified] byte_is [of backslash "0x5C", simplified] byte_is [of "CHR 0x08" 8, simplified]
  byte_is [of "CHR 0x0C" 12, simplified] byte_is [of "CHR 0x0A" 10, simplified] byte_is [of "CHR 0x0D" 13, simplified]
  byte_is [of "CHR 0x09" 9, simplified]

lemma read_esc_byte:
  assumes "byte c < 0x80"
  shows "read_unit (esc_byte c @ t) = Some ([c], length (esc_byte c)) \<and> esc_byte c \<noteq> [] \<and> hd (esc_byte c) \<noteq> quote"
proof -
  have d: "byte c div 16 < 16" "byte c mod 16 < 16" using assms by (simp_all add: div_less_iff_less_mult)
  consider "c = quote \<or> c = backslash"
    | "c \<in> {CHR 0x08, CHR 0x0C, CHR 0x0A, CHR 0x0D, CHR 0x09}"
    | "esc_byte c = [backslash, CHR ''u'', CHR ''0'', CHR ''0'', hex_digit (byte c div 16), hex_digit (byte c mod 16)]"
    | "esc_byte c = [c]" "0x20 \<le> byte c" "c \<noteq> quote" "c \<noteq> backslash"
  proof (cases "c \<in> {quote, backslash, CHR 0x08, CHR 0x0C, CHR 0x0A, CHR 0x0D, CHR 0x09}")
    case False
    then have "byte c \<notin> {0x22, 0x5C, 0x08, 0x0C, 0x0A, 0x0D, 0x09}" by (simp add: byte_named)
    then show ?thesis using False that(3,4)
      by (cases "byte c < 0x20 \<or> byte c = 0x3C \<or> byte c = 0x3E \<or> byte c = 0x26") (simp_all add: esc_byte_def Let_def)
  qed (use that in auto)
  then show ?thesis
  proof cases
    case 3
    moreover have "read_u4 (CHR ''0'' # CHR ''0'' # hex_digit (byte c div 16) # hex_digit (byte c mod 16) # t) = Some (byte c)"
      using d hex_val_digit by (simp add: hex_val_def)
    moreover have "low_half (byte c) t = None" for t
      using assms by (simp add: low_half_def split: list.split)
    ultimately show ?thesis
      using assms by (simp add: read_unit_def simple_escape_def encode_rune_def)
  next
    case 4
    then show ?thesis using assms by (simp add: read_unit_def encode_rune_def)
  next
    case 1
    then show ?thesis by (elim disjE) (simp_all add: esc_byte_def read_unit_def simple_escape_def)
  next
    case 2
    then consider "c = CHR 0x08" | "c = CHR 0x0C" | "c = CHR 0x0A" | "c = CHR 0x0D" | "c = CHR 0x09" by blast
    then show ?thesis by cases (simp_all add: esc_byte_def read_unit_def simple_escape_def)
  qed
qed

lemma decode_rune_prefix:
  assumes "s \<noteq> []" "decode_rune s = (r, w)" "\<not> (r = 0xFFFD \<and> w = 1)"
  shows "decode_rune (take w s @ t) = (r, w)" "take w s = encode_rune r" "length (encode_rune r) = w" "scalar r"
proof -
  have s: "scalar r" "take w s = encode_rune r" "w \<le> length s" using decode_rune_cases [OF assms(1,2)] assms(3) by auto
  then have w: "length (encode_rune r) = w" by (metis length_take min.absorb2)
  show "decode_rune (take w s @ t) = (r, w)" unfolding s(2) using decode_encode [OF s(1)] w by simp
  show "take w s = encode_rune r" "length (encode_rune r) = w" "scalar r" by fact+
qed

lemma first_byte_high: "s \<noteq> [] \<Longrightarrow> decode_rune s = (r, w) \<Longrightarrow> 0x80 \<le> r \<Longrightarrow> 0x80 \<le> byte (hd s)"
  by (cases s) (auto simp: Let_def split: if_splits)

lemma read_json_rune:
  assumes "s \<noteq> []"
  shows "read_unit (json_rune s @ t) = Some (encode_rune (fst (decode_rune s)), length (json_rune s)) \<and>
    json_rune s \<noteq> [] \<and> hd (json_rune s) \<noteq> quote"
proof -
  obtain r w where rw: "decode_rune s = (r, w)" by fastforce
  obtain c u where s: "s = c # u" using assms by (cases s) auto
  consider "r < 0x80" | "0x80 \<le> r" "r = 0xFFFD \<and> w = 1" | "r = 0x2028 \<or> r = 0x2029" "\<not> (r = 0xFFFD \<and> w = 1)"
    | "0x80 \<le> r" "json_rune s = take w s" "\<not> (r = 0xFFFD \<and> w = 1)"
    by (cases "r < 0x80"; cases "r = 0xFFFD"; cases "w = 1"; cases "r = 0x2028 \<or> r = 0x2029") (simp_all add: json_rune_def rw)
  then show ?thesis
  proof cases
    case 1
    have "take w s = encode_rune r" "w \<le> length s" using decode_rune_cases [OF assms rw] 1 by auto
    then have "encode_rune r = [c]" using 1 s by (cases w) (auto simp: encode_rune_def)
    moreover from this 1 have "byte c < 0x80" by (auto simp: encode_rune_def)
    ultimately show ?thesis using rw 1 s read_esc_byte [of c t] by (simp add: json_rune_def)
  next
    case 4
    note P = decode_rune_prefix [OF assms rw 4(3)]
    have "0x80 \<le> byte c" using first_byte_high [OF assms rw 4(1)] s by simp
    moreover have "c \<noteq> backslash" "c \<noteq> quote" using calculation by auto
    moreover obtain v where v: "take w s = c # v" using P(3) encode_rune_length [of r] s by (cases w) auto
    ultimately show ?thesis using P(1) [of t] P(2,3) 4 rw v by (simp add: read_unit_def)
  next
    case 2
    have "low_half 0xFFFD t = None" for t by (simp add: low_half_def split: list.split)
    then show ?thesis using 2 by (simp add: rw json_rune_def read_unit_def simple_escape_def hex_val_def)
  next
    case 3
    have "low_half 0x2028 t = None" "low_half 0x2029 t = None" for t by (simp_all add: low_half_def split: list.split)
    with 3(1) show ?thesis
      by (elim disjE) (simp_all add: rw json_rune_def read_unit_def simple_escape_def hex_val_def)
  qed
qed

lemma read_str_body: "read_str (json_body s @ quote # t) = Some (json_clean s, t)"
proof (induction s rule: json_body.induct)
  case (1 s)
  show ?case
  proof (cases "s = []")
    case True
    then show ?thesis by (simp add: json_body.simps read_str.simps json_clean_def)
  next
    case False
    note R = read_json_rune [OF False]
    let ?d = "drop (snd (decode_rune s)) s"
    have "json_body s = json_rune s @ json_body ?d" using False by (simp add: json_body.simps)
    moreover have "runes s = fst (decode_rune s) # runes ?d" using False by (simp add: runes.simps)
    ultimately show ?thesis
      using 1 [OF False] R [of "json_body ?d @ quote # t"]
      by (subst read_str.simps) (simp add: json_clean_def hd_append)
  qed
qed

lemma read_json_string: "read_str (tl (json_string s) @ t) = Some (json_clean s, t)"
  using read_str_body [of s t] by (simp add: json_string_def)

section \<open>Valid strings\<close>

text \<open>\<^verbatim>\<open>utf8.ValidString\<close>: no byte decodes to the replacement rune of width 1.\<close>

function valid_utf8 :: "string \<Rightarrow> bool" where
  "valid_utf8 s =
     (if s = [] then True
      else decode_rune s \<noteq> (0xFFFD, 1) \<and> valid_utf8 (drop (snd (decode_rune s)) s))"
  by pat_completeness auto
termination
  by (relation "measure length") (use decode_rune_width in \<open>fastforce\<close>)+

declare valid_utf8.simps [simp del]

lemma json_clean_Nil [simp]: "json_clean [] = []"
  by (simp add: json_clean_def)

lemma json_clean_step:
  "s \<noteq> [] \<Longrightarrow> json_clean s = encode_rune (fst (decode_rune s)) @ json_clean (drop (snd (decode_rune s)) s)"
  by (simp add: json_clean_def runes.simps [of s])

lemma json_body_step: "s \<noteq> [] \<Longrightarrow> json_body s = json_rune s @ json_body (drop (snd (decode_rune s)) s)"
  by (simp add: json_body.simps [of s])

lemma clean_valid: "valid_utf8 s \<Longrightarrow> json_clean s = s"
proof (induction s rule: valid_utf8.induct)
  case (1 s)
  show ?case
  proof (cases "s = []")
    case False
    obtain r w where rw: "decode_rune s = (r, w)" by fastforce
    have v: "decode_rune s \<noteq> (0xFFFD, 1)" "valid_utf8 (drop w s)"
      using "1.prems" False rw by (simp_all add: valid_utf8.simps [of s])
    then have "take w s = encode_rune r" using decode_rune_prefix(2) [OF False rw] rw by auto
    then have "json_clean s = take w s @ drop w s" using "1.IH" [OF False] v rw by (simp add: json_clean_step [OF False])
    then show ?thesis by simp
  qed simp
qed

text \<open>
  Writing again what was read: a valid rune is written as before, while the replacement of an ill-formed
  byte, six bytes the first time, is now a valid rune of three bytes.
\<close>

lemma decode_clean:
  assumes "s \<noteq> []"
  shows "json_clean s \<noteq> []" "decode_rune (json_clean s) = (fst (decode_rune s), length (encode_rune (fst (decode_rune s))))"
proof -
  show "decode_rune (json_clean s) = (fst (decode_rune s), length (encode_rune (fst (decode_rune s))))"
    unfolding json_clean_step [OF assms] by (rule decode_encode [OF decode_scalar [OF assms]])
  show "json_clean s \<noteq> []" using encode_rune_length [of "fst (decode_rune s)"] by (auto simp: json_clean_step [OF assms])
qed

lemma body_clean_step:
  "s \<noteq> [] \<Longrightarrow> json_body (json_clean s) =
     json_rune (json_clean s) @ json_body (json_clean (drop (snd (decode_rune s)) s))"
  using decode_clean [of s] by (simp add: json_body_step json_clean_step [of s])

lemma json_rune_clean:
  assumes "s \<noteq> []"
  shows "if decode_rune s = (0xFFFD, 1) then length (json_rune (json_clean s)) = 3 \<and> length (json_rune s) = 6
    else json_rune (json_clean s) = json_rune s"
proof -
  obtain r w where rw: "decode_rune s = (r, w)" by fastforce
  note D = decode_clean [OF assms]
  show ?thesis
  proof (cases "decode_rune s = (0xFFFD, 1)")
    case True
    have "3 \<le> length (json_clean s)"
      by (simp add: json_clean_step [OF assms] True encode_rune_def)
    then show ?thesis using True D(2) by (simp add: json_rune_def encode_rune_def)
  next
    case False
    then have P: "take w s = encode_rune r" "length (encode_rune r) = w"
      using decode_rune_prefix(2,3) [OF assms rw] rw by auto
    have "hd (json_clean s) = hd s" if "r < 0x80"
    proof -
      have "hd (encode_rune r) = hd s" using P(2) encode_rune_length [of r] unfolding P(1) [symmetric] by (cases s; cases w) auto
      then show ?thesis using rw encode_rune_length [of r] by (simp add: json_clean_step [OF assms] hd_append) (auto simp: hd_append)
    qed
    moreover have "take w (json_clean s) = take w s" using P rw by (simp add: json_clean_step [OF assms])
    ultimately show ?thesis using False rw D(2) P(2) by (auto simp: json_rune_def)
  qed
qed

lemma body_clean_length:
  "length (json_body (json_clean s)) \<le> length (json_body s) \<and>
   (\<not> valid_utf8 s \<longrightarrow> length (json_body (json_clean s)) < length (json_body s))"
proof (induction s rule: valid_utf8.induct)
  case (1 s)
  show ?case
  proof (cases "s = []")
    case True
    then show ?thesis by (simp add: valid_utf8.simps)
  next
    case False
    show ?thesis
      using 1 [OF False] json_rune_clean [OF False]
      by (auto simp: body_clean_step [OF False] json_body_step [OF False] valid_utf8.simps [of s] split: if_splits)
  qed
qed

lemma body_clean_iff: "json_body (json_clean s) = json_body s \<longleftrightarrow> valid_utf8 s"
  using body_clean_length [of s] clean_valid [of s] by (metis less_irrefl)

section \<open>Numbers and objects read back\<close>

lemma dec_nat_digits: "list_all is_digit (dec_nat n) \<and> dec_nat n \<noteq> []"
proof (induction n rule: dec_nat.induct)
  case (1 n)
  then show ?case by (cases "n < 10") (auto simp: dec_nat.simps [of n] is_digit_def)
qed

lemma dec_nat_Cons: obtains c u where "dec_nat n = c # u" "is_digit c"
  using dec_nat_digits [of n] by (cases "dec_nat n") auto

lemma digit_ne: "is_digit c \<Longrightarrow> c \<noteq> CHR ''-''"
  by (auto simp: is_digit_def)

lemma char_of_is: "byte d = n \<Longrightarrow> char_of n = d"
  by auto

lemma dec_value_append: "dec_value (xs @ [c]) = dec_value xs * 10 + (int (byte c) - 48)"
  by (simp add: dec_value_def)

lemma dec_value_nat: "dec_value (dec_nat n) = int n"
proof (induction n rule: dec_nat.induct)
  case (1 n)
  show ?case
  proof (cases "n < 10")
    case True
    then show ?thesis by (simp add: dec_nat.simps [of n] dec_value_def)
  next
    case False
    have "byte (char_of (48 + n mod 10)) = 48 + n mod 10"
      using mod_less_divisor [of 10 n] by (intro byte_char_of) linarith
    then show ?thesis using 1 [OF False] False
      by (simp add: dec_nat.simps [of n] dec_value_append) (metis div_mult_mod_eq of_nat_add of_nat_mult of_nat_numeral mult.commute)
  qed
qed

lemma dec_nat_head: "0 < n \<Longrightarrow> hd (dec_nat n) \<noteq> CHR ''0''"
proof (induction n rule: dec_nat.induct)
  case (1 n)
  show ?case
  proof (cases "n < 10")
    case True
    then have "byte (char_of (48 + n)) \<noteq> byte (CHR ''0'')" using "1.prems" by simp
    then have "char_of (48 + n) \<noteq> CHR ''0''" by metis
    then show ?thesis using True by (simp add: dec_nat.simps [of n])
  next
    case False
    then show ?thesis using 1 dec_nat_digits [of "n div 10"] by (simp add: dec_nat.simps [of n] hd_append div_greater_zero_iff)
  qed
qed

lemma dec_nat_0: "dec_nat 0 = ''0''"
  using char_of_is [of "CHR ''0''" 48] by (simp add: dec_nat.simps)

lemma json_int64_dec: "- (2 ^ 63) \<le> i \<Longrightarrow> i < 2 ^ 63 \<Longrightarrow> json_int64 (dec_int i) = Some i"
proof (cases "i < 0")
  case False
  assume r: "- (2 ^ 63) \<le> i" "i < 2 ^ 63"
  have d: "list_all is_digit (dec_nat (nat i))" "dec_nat (nat i) \<noteq> []" using dec_nat_digits by blast+
  then have "hd (dec_nat (nat i)) \<noteq> CHR ''-''" by (cases "dec_nat (nat i)") (auto simp: is_digit_def)
  then show ?thesis using False d r dec_value_nat [of "nat i"]
    by (auto simp: dec_int_def json_int64_def Let_def split: list.split)
next
  case True
  assume "- (2 ^ 63) \<le> i" "i < 2 ^ 63"
  then show ?thesis using True dec_nat_digits [of "nat (- i)"] dec_value_nat [of "nat (- i)"]
    by (simp add: dec_int_def json_int64_def)
qed

text \<open>What may follow a value inside an object or an array.\<close>

definition ends_value :: "string \<Rightarrow> bool" where
  "ends_value t \<longleftrightarrow> t \<noteq> [] \<and> (hd t = CHR '','' \<or> hd t = CHR ''}'' \<or> hd t = CHR '']'')"

lemma read_whole_dec:
  assumes "ends_value t"
  shows "read_whole (dec_nat n @ t) = Some (dec_nat n, t)"
proof (cases "n = 0")
  case True
  then show ?thesis by (simp add: dec_nat_0 read_whole_def)
next
  case False
  have d: "list_all is_digit (dec_nat n)" "dec_nat n \<noteq> []" using dec_nat_digits by blast+
  have "takeWhile is_digit t = []" "dropWhile is_digit t = t"
    using assms by (cases t; auto simp: ends_value_def is_digit_def)+
  then have "takeWhile is_digit (dec_nat n @ t) = dec_nat n" "dropWhile is_digit (dec_nat n @ t) = t"
    using d(1) by (simp_all add: list_all_iff takeWhile_append2 dropWhile_append2)
  moreover obtain c u where "dec_nat n = c # u" "c \<noteq> CHR ''0''" using d(2) dec_nat_head [of n] False by (cases "dec_nat n") auto
  ultimately show ?thesis by (simp add: read_whole_def read_digits_def)
qed

lemma read_num_dec:
  assumes "ends_value t"
  shows "read_num (dec_int i @ t) = Some (dec_int i, t)"
proof -
  have f: "read_frac t = Some ([], t)" "read_exp t = Some ([], t)"
    using assms by (cases t; auto simp: ends_value_def read_frac_def read_exp_def)+
  show ?thesis
  proof (cases "i < 0")
    case True
    then show ?thesis using read_whole_dec [OF assms] f by (simp add: dec_int_def read_num_def)
  next
    case False
    obtain c u where c: "dec_nat (nat i) = c # u" "c \<noteq> CHR ''-''" by (metis dec_nat_Cons digit_ne)
    have "(case dec_nat (nat i) @ t of [] \<Rightarrow> ([], []) | c # u \<Rightarrow> if c = CHR ''-'' then ([c], u) else ([], dec_nat (nat i) @ t))
      = ([], dec_nat (nat i) @ t)"
      using c by simp
    then show ?thesis using False read_whole_dec [OF assms, of "nat i"] f by (simp add: dec_int_def read_num_def)
  qed
qed

definition reads :: "string \<Rightarrow> json \<Rightarrow> bool" where
  "reads vt v \<longleftrightarrow> (\<forall>n d t. ends_value t \<longrightarrow> read_value (Suc n) d (vt @ t) = Some (v, t))"

lemma reads_string: "reads (json_string s) (JStr (json_clean s))"
  using read_str_body by (simp add: reads_def json_string_def json_space_def)

lemma reads_int: "reads (dec_int i) (JNum (dec_int i))"
proof -
  obtain c u where c: "dec_int i = c # u" "c = CHR ''-'' \<or> is_digit c"
    by (metis dec_int_def dec_nat_Cons)
  have n: "\<not> json_space c" "c \<noteq> CHR ''{''" "c \<noteq> CHR ''[''" "c \<noteq> quote" "c \<noteq> CHR ''t''" "c \<noteq> CHR ''f''" "c \<noteq> CHR ''n''"
    using c(2) by (auto simp: json_space_def is_digit_def)
  show ?thesis using n read_num_dec [of _ i] by (simp add: reads_def c(1))
qed

lemma reads_bool: "reads ''true'' (JBool True)" "reads ''false'' (JBool False)"
  by (simp_all add: reads_def json_space_def read_lit_def hasPrefix_def)

fun json_members :: "(string \<times> string) list \<Rightarrow> string" where
  "json_members [] = []"
| "json_members [(k, vt)] = json_string k @ CHR '':'' # vt"
| "json_members ((k, vt) # m # ms) = json_string k @ CHR '':'' # vt @ CHR '','' # json_members (m # ms)"

text \<open>The written form of an object, given the written forms of its members.\<close>

definition json_object :: "(string \<times> string) list \<Rightarrow> string" where
  "json_object ms = CHR ''{'' # json_members ms @ [CHR ''}'']"

lemma json_members_length: "3 * length ms \<le> length (json_members ms)"
  by (induction ms rule: json_members.induct) (simp_all add: json_string_def)

lemma read_members_written:
  assumes "ms \<noteq> []" "list_all (\<lambda>(k, vt, v). reads vt v) ms" "Suc (length ms) \<le> n"
  shows "read_members n d (json_members (map (\<lambda>(k, vt, v). (k, vt)) ms) @ CHR ''}'' # t) =
    Some (map (\<lambda>(k, vt, v). (json_clean k, v)) ms, t)"
  using assms
proof (induction ms arbitrary: n)
  case (Cons m ms)
  obtain k vt v where m: "m = (k, vt, v)" by (cases m)
  obtain l where n: "n = Suc (Suc l)" using Cons.prems(3) by (cases n; cases "n - 1") auto
  have r: "read_value (Suc l) d (vt @ u) = Some (v, u)" if "ends_value u" for u
    using Cons.prems(2) that m by (simp add: reads_def)
  have step: "read_members n d (json_string k @ CHR '':'' # vt @ c # u) =
      (if c = CHR '','' then map_option (\<lambda>(m, r). ((json_clean k, v) # m, r)) (read_members (Suc l) d u)
       else if c = CHR ''}'' then Some ([(json_clean k, v)], u) else None)"
    if "c = CHR '','' \<or> c = CHR ''}''" for c u
    using that r [of "c # u"] read_str_body [of k "CHR '':'' # vt @ c # u"]
    by (auto simp: n json_string_def json_space_def ends_value_def)
  show ?case
  proof (cases ms)
    case Nil
    then show ?thesis using step [of "CHR ''}''" t] m by simp
  next
    case (Cons m' ms')
    then have "json_members (map (\<lambda>(k, vt, v). (k, vt)) (m # ms)) =
        json_string k @ CHR '':'' # vt @ CHR '','' # json_members (map (\<lambda>(k, vt, v). (k, vt)) ms)"
      using m by (cases m') simp
    then show ?thesis
      using step [of "CHR '',''"] Cons.IH [of "Suc l"] Cons.prems n m Cons by simp
  qed
qed simp

lemma parse_object:
  assumes "ms \<noteq> []" "list_all (\<lambda>(k, vt, v). reads vt v) ms"
  shows "json_parse (json_object (map (\<lambda>(k, vt, v). (k, vt)) ms)) = Some (JObj (map (\<lambda>(k, vt, v). (json_clean k, v)) ms))"
proof -
  let ?ms = "map (\<lambda>(k, vt, v). (k, vt)) ms"
  have l: "Suc (length ms) \<le> Suc (2 * length (json_object ?ms))"
    using json_members_length [of ?ms] by (simp add: json_object_def)
  obtain u where q: "json_members ?ms = quote # u"
    using assms(1) by (cases ?ms rule: json_members.cases) (auto simp: json_string_def)
  then have "skip (json_members ?ms @ t) = quote # u @ t" for t
    by (simp add: json_space_def)
  then show ?thesis
    using read_members_written [OF assms l, of 1 "[]"]
    by (simp add: json_parse_def json_object_def json_space_def maxNestingDepth_def)
qed

section \<open>The bound on nested calls is enough\<close>

lemma read_str_consumes: "read_str s = Some (x, r) \<Longrightarrow> length r < length s"
proof (induction s arbitrary: x rule: read_str.induct)
  case (1 s)
  show ?case
  proof (cases "s \<noteq> [] \<and> hd s = quote")
    case True
    then show ?thesis using "1.prems" by (cases s) (auto simp: read_str.simps)
  next
    case False
    then obtain y w z where u: "read_unit s = Some (y, w)" "read_str (drop w s) = Some (z, r)"
      using "1.prems" by (subst (asm) read_str.simps) (auto split: option.splits if_splits)
    then show ?thesis using "1.IH" [OF False u(1) refl u(2)] read_unit_width [OF u(1)] by simp
  qed
qed

lemma skip_length: "length (skip s) \<le> length s"
  by (rule length_dropWhile_le)

lemma read_digits_consumes: "read_digits s = Some (x, r) \<Longrightarrow> length r < length s"
  by (cases s) (auto simp: read_digits_def less_Suc_eq_le length_dropWhile_le split: if_splits)

lemma read_num_consumes:
  assumes "read_num s = Some (x, r)"
  shows "length r < length s"
proof -
  have whole: "read_whole t = Some (d, u) \<Longrightarrow> length u < length t" for t d u
    by (cases t) (auto simp: read_whole_def split: if_splits dest: read_digits_consumes)
  have frac: "read_frac u = Some (f, v) \<Longrightarrow> length v \<le> length u" for u f v
    by (cases u) (auto simp: read_frac_def split: if_splits dest: read_digits_consumes)
  have exp: "read_exp v = Some (e, w) \<Longrightarrow> length w \<le> length v" for v e w
    by (cases v; cases "tl v") (auto simp: read_exp_def split: if_splits dest: read_digits_consumes)
  show ?thesis
    using assms whole frac exp
    by (cases s) (fastforce simp: read_num_def Let_def split: if_splits option.splits prod.splits)+
qed

lemma Cons_skip: "skip s = c # t \<Longrightarrow> length t < length s"
  using skip_length [of s] by simp

lemma read_lit_consumes: "read_lit w v s = Some (x, r) \<Longrightarrow> w \<noteq> [] \<Longrightarrow> s \<noteq> [] \<Longrightarrow> length r < length s"
  by (auto simp: read_lit_def split: if_splits)

lemma read_consumes:
  shows "read_value n d s = Some (v, r) \<Longrightarrow> length r < length s"
    and "read_elems n d s = Some (vs, r) \<Longrightarrow> length r < length s"
    and "read_members n d s = Some (ms, r) \<Longrightarrow> length r < length s"
proof (induction n d s and n d s and n d s arbitrary: v r and vs r and ms r
    rule: read_value_read_elems_read_members.induct)
  case (2 n d s)
  obtain c t where s: "skip s = c # t" using "2.prems" by (cases "skip s") auto
  show ?case
    using "2.prems" "2.IH" Cons_skip [OF s] skip_length [of t] skip_length [of s]
    by (auto simp: s split: if_splits list.splits dest!: read_str_consumes read_num_consumes read_lit_consumes Cons_skip)
       (blast intro: less_trans)+
next
  case (4 n d s)
  then show ?case by (fastforce split: option.splits list.splits if_splits dest!: Cons_skip)
next
  case (6 n d s)
  then show ?case by (fastforce split: option.splits list.splits if_splits dest!: Cons_skip read_str_consumes)
qed auto

lemma read_fuel:
  shows "2 * length s < n \<Longrightarrow> 2 * length s < m \<Longrightarrow> read_value n d s = read_value m d s"
    and "2 * length s + 1 < n \<Longrightarrow> 2 * length s + 1 < m \<Longrightarrow> read_elems n d s = read_elems m d s"
    and "2 * length s < n \<Longrightarrow> 2 * length s < m \<Longrightarrow> read_members n d s = read_members m d s"
proof (induction n d s and n d s and n d s arbitrary: m and m and m rule: read_value_read_elems_read_members.induct)
  case (2 n d s)
  obtain k where m: "m = Suc k" using "2.prems" by (cases m) auto
  show ?case
  proof (cases "skip s")
    case Nil
    then show ?thesis by (simp add: m Nil del: dropWhile_eq_Nil_conv)
  next
    case (Cons c t)
    have l: "2 * length t + 1 < n" "2 * length t + 1 < k" using Cons_skip [OF Cons] "2.prems" m by simp_all
    have "read_members n (Suc d) t = read_members k (Suc d) t"
      if "c = CHR ''{''" "\<not> maxNestingDepth \<le> d" "skip t = c' # u" "c' \<noteq> CHR ''}''" for c' u
      using "2.IH"(1) [OF Cons that(1-4), of k] l by simp
    moreover have "read_elems n (Suc d) t = read_elems k (Suc d) t"
      if "c \<noteq> CHR ''{''" "c = CHR ''[''" "\<not> maxNestingDepth \<le> d" "skip t = c' # u" "c' \<noteq> CHR '']''" for c' u
      using "2.IH"(2) [OF Cons that(1-5), of k] l by simp
    ultimately show ?thesis by (cases "skip t") (simp_all add: m Cons del: dropWhile_eq_Nil_conv)
  qed
next
  case (4 n d s)
  obtain k where m: "m = Suc k" using "4.prems" by (cases m) auto
  have v: "read_value n d s = read_value k d s" using "4.IH"(1) [of k] "4.prems" m by simp
  show ?case
  proof (cases "read_value n d s")
    case (Some x)
    obtain w r where x: "x = (w, r)" by fastforce
    have "read_elems n d t = read_elems k d t" if "skip r = CHR '','' # t" for t
      using "4.IH"(2) [OF Some x [symmetric] that refl, of k] Cons_skip [OF that] read_consumes(1) [OF Some [unfolded x]] "4.prems" m
      by simp
    then show ?thesis using Some v by (cases "skip r") (auto simp: m x simp del: dropWhile_eq_Nil_conv)
  qed (simp add: m v)
next
  case (6 n d s)
  obtain k where m: "m = Suc k" using "6.prems" by (cases m) auto
  show ?case
  proof (cases "skip s")
    case Nil
    then show ?thesis by (simp add: m Nil del: dropWhile_eq_Nil_conv)
  next
    case (Cons q t)
    show ?thesis
    proof (cases "q = quote \<and> (\<exists>key r u. read_str t = Some (key, r) \<and> skip r = CHR '':'' # u)")
      case False
      then show ?thesis by (auto simp: m Cons simp del: dropWhile_eq_Nil_conv split: option.split list.split)
    next
      case True
      then obtain key r u where k: "q = quote" "read_str t = Some (key, r)" "skip r = CHR '':'' # u" by blast
      have lu: "length u < length s" using Cons_skip [OF Cons] read_str_consumes [OF k(2)] Cons_skip [OF k(3)] by simp
      have v: "read_value n d u = read_value k d u" using "6.IH"(1) [OF Cons] k lu "6.prems" m by simp
      show ?thesis
      proof (cases "read_value n d u")
        case (Some x)
        obtain w p where x: "x = (w, p)" by fastforce
        have "read_members n d y = read_members k d y" if "skip p = CHR '','' # y" for y
          using "6.IH"(2) [OF Cons] k Some x that Cons_skip [OF that] read_consumes(1) [OF Some [unfolded x]] lu "6.prems" m
          by simp
        then show ?thesis using Some v k by (cases "skip p") (auto simp: m x Cons simp del: dropWhile_eq_Nil_conv)
      qed (simp add: m v k Cons)
    qed
  qed
qed auto

section \<open>Plain keys\<close>

lemma valid_ascii: "list_all (\<lambda>c. byte c < 0x80) s \<Longrightarrow> valid_utf8 s"
  by (induction s) (simp_all add: valid_utf8.simps)

lemma clean_ascii: "list_all (\<lambda>c. byte c < 0x80) s \<Longrightarrow> json_clean s = s"
  by (intro clean_valid valid_ascii)

lemma clean_empty_iff: "json_clean s = '''' \<longleftrightarrow> s = ''''"
  using decode_clean(1) by fastforce

definition plain_key :: "string \<Rightarrow> bool" where
  "plain_key s \<longleftrightarrow> list_all (\<lambda>c. 97 \<le> byte c \<and> byte c \<le> 122 \<or> 48 \<le> byte c \<and> byte c \<le> 57 \<or> byte c = 95) s"

lemma runes_plain: "plain_key s \<Longrightarrow> runes s = map byte s"
  by (induction s) (auto simp: plain_key_def runes_ascii)

lemma fold_rune_plain:
  "fold_rune x = fold_rune y \<Longrightarrow> 97 \<le> x \<and> x \<le> 122 \<or> 48 \<le> x \<and> x \<le> 57 \<or> x = 95 \<Longrightarrow>
    97 \<le> y \<and> y \<le> 122 \<or> 48 \<le> y \<and> y \<le> 57 \<or> y = 95 \<Longrightarrow> x = y"
  by (auto simp: fold_rune_def split: if_splits)

lemma same_field_plain: "plain_key n \<Longrightarrow> plain_key k \<Longrightarrow> same_field n k \<longleftrightarrow> n = k"
proof -
  assume p: "plain_key n" "plain_key k"
  have "n = k" if "map (fold_rune \<circ> byte) n = map (fold_rune \<circ> byte) k"
    using p that
  proof (induction n arbitrary: k)
    case (Cons c n)
    then obtain d l where k: "k = d # l" by (cases k) auto
    have "byte c = byte d" by (rule fold_rune_plain) (use Cons.prems k in \<open>auto simp: plain_key_def\<close>)
    then show ?case using Cons k by (simp add: plain_key_def)
  qed simp
  then show ?thesis using p by (auto simp: same_field_def runes_plain)
qed

lemma json_body_plain: "list_all (\<lambda>c. byte c < 0x80 \<and> esc_byte c = [c]) s \<Longrightarrow> json_body s = s"
proof (induction s)
  case Nil
  then show ?case by (simp add: json_body.simps)
next
  case (Cons c s)
  then show ?case by (simp add: json_body.simps [of "c # s"] json_rune_def)
qed

end
