(* ===== verification/Sha256.thy ===== *)
theory Sha256
  imports Prelude "HOL-Library.Word"
begin

text \<open>
  Packages \<^verbatim>\<open>crypto/sha256\<close>, \<^verbatim>\<open>crypto/hmac\<close> and \<^verbatim>\<open>encoding/hex\<close> as the audit ledger uses them, after
  FIPS 180-4 and FIPS 198-1, on byte strings: the keyed digest of a message as 64 lower-case hexadecimal
  digits. Nothing is assumed about it: where a property needs that the digest separates some messages, it
  says so for exactly these messages.
\<close>

unbundle bit_operations_syntax

type_synonym w32 = "32 word"

definition sha_k :: "w32 list" where
  "sha_k =
     [0x428A2F98, 0x71374491, 0xB5C0FBCF, 0xE9B5DBA5, 0x3956C25B, 0x59F111F1, 0x923F82A4, 0xAB1C5ED5,
      0xD807AA98, 0x12835B01, 0x243185BE, 0x550C7DC3, 0x72BE5D74, 0x80DEB1FE, 0x9BDC06A7, 0xC19BF174,
      0xE49B69C1, 0xEFBE4786, 0x0FC19DC6, 0x240CA1CC, 0x2DE92C6F, 0x4A7484AA, 0x5CB0A9DC, 0x76F988DA,
      0x983E5152, 0xA831C66D, 0xB00327C8, 0xBF597FC7, 0xC6E00BF3, 0xD5A79147, 0x06CA6351, 0x14292967,
      0x27B70A85, 0x2E1B2138, 0x4D2C6DFC, 0x53380D13, 0x650A7354, 0x766A0ABB, 0x81C2C92E, 0x92722C85,
      0xA2BFE8A1, 0xA81A664B, 0xC24B8B70, 0xC76C51A3, 0xD192E819, 0xD6990624, 0xF40E3585, 0x106AA070,
      0x19A4C116, 0x1E376C08, 0x2748774C, 0x34B0BCB5, 0x391C0CB3, 0x4ED8AA4A, 0x5B9CCA4F, 0x682E6FF3,
      0x748F82EE, 0x78A5636F, 0x84C87814, 0x8CC70208, 0x90BEFFFA, 0xA4506CEB, 0xBEF9A3F7, 0xC67178F2]"

definition rotr :: "nat \<Rightarrow> w32 \<Rightarrow> w32" where
  "rotr n x = drop_bit n x OR push_bit (32 - n) x"

definition be_word :: "string \<Rightarrow> w32" where
  "be_word s = foldl (\<lambda>n c. n * 256 + of_nat (of_char c)) 0 s"

definition word_bytes :: "w32 \<Rightarrow> string" where
  "word_bytes w = map (\<lambda>k. char_of (unat (drop_bit k w) mod 256)) [24, 16, 8, 0]"

text \<open>Consecutive pieces of a given positive length.\<close>

function pieces :: "nat \<Rightarrow> 'a list \<Rightarrow> 'a list list" where
  "pieces n xs = (if n = 0 \<or> xs = [] then [] else take n xs # pieces n (drop n xs))"
  by pat_completeness auto
termination
  by (relation "measure (\<lambda>(n, xs). length xs)") auto

declare pieces.simps [simp del]

definition sha_pad :: "string \<Rightarrow> string" where
  "sha_pad m =
     (let bits = 8 * length m
      in m @ [CHR 0x80] @ replicate ((119 - length m mod 64) mod 64) (CHR 0x00) @
         map (\<lambda>k. char_of (bits div 256 ^ k mod 256)) [7, 6, 5, 4, 3, 2, 1, 0])"

definition sched_next :: "w32 list \<Rightarrow> w32" where
  "sched_next ws =
     (let t = length ws;
          a = ws ! (t - 15); b = ws ! (t - 2);
          s0 = rotr 7 a XOR rotr 18 a XOR drop_bit 3 a;
          s1 = rotr 17 b XOR rotr 19 b XOR drop_bit 10 b
      in ws ! (t - 16) + s0 + ws ! (t - 7) + s1)"

primrec schedule :: "nat \<Rightarrow> w32 list \<Rightarrow> w32 list" where
  "schedule 0 ws = ws"
| "schedule (Suc n) ws = schedule n (ws @ [sched_next ws])"

type_synonym sha_state = "w32 \<times> w32 \<times> w32 \<times> w32 \<times> w32 \<times> w32 \<times> w32 \<times> w32"

fun sha_round :: "sha_state \<Rightarrow> w32 \<times> w32 \<Rightarrow> sha_state" where
  "sha_round (a, b, c, d, e, f, g, h) (k, w) =
     (let s1 = rotr 6 e XOR rotr 11 e XOR rotr 25 e;
          ch = (e AND f) XOR (NOT e AND g);
          t1 = h + s1 + ch + k + w;
          s0 = rotr 2 a XOR rotr 13 a XOR rotr 22 a;
          maj = (a AND b) XOR (a AND c) XOR (b AND c)
      in (t1 + (s0 + maj), a, b, c, d + t1, e, f, g))"

fun sha_block :: "sha_state \<Rightarrow> string \<Rightarrow> sha_state" where
  "sha_block (a, b, c, d, e, f, g, h) block =
     (let ws = schedule 48 (map be_word (pieces 4 block))
      in case foldl sha_round (a, b, c, d, e, f, g, h) (zip sha_k ws) of
           (a', b', c', d', e', f', g', h') \<Rightarrow>
             (a + a', b + b', c + c', d + d', e + e', f + f', g + g', h + h'))"

definition sha_start :: sha_state where
  "sha_start = (0x6A09E667, 0xBB67AE85, 0x3C6EF372, 0xA54FF53A, 0x510E527F, 0x9B05688C, 0x1F83D9AB, 0x5BE0CD19)"

fun sha_out :: "sha_state \<Rightarrow> string" where
  "sha_out (a, b, c, d, e, f, g, h) = concat (map word_bytes [a, b, c, d, e, f, g, h])"

definition sha256 :: "string \<Rightarrow> string" where
  "sha256 m = sha_out (foldl sha_block sha_start (pieces 64 (sha_pad m)))"

definition xor_pad :: "w32 \<Rightarrow> string \<Rightarrow> string" where
  "xor_pad p k = map (\<lambda>c. char_of (unat ((of_nat (of_char c) :: w32) XOR p))) k"

definition hmac_key :: "string \<Rightarrow> string" where
  "hmac_key key =
     (let k = (if 64 < length key then sha256 key else key)
      in k @ replicate (64 - length k) (CHR 0x00))"

definition hmac_sha256 :: "string \<Rightarrow> string \<Rightarrow> string" where
  "hmac_sha256 key m = sha256 (xor_pad 0x5C (hmac_key key) @ sha256 (xor_pad 0x36 (hmac_key key) @ m))"

definition hex_digits :: string where
  "hex_digits = ''0123456789abcdef''"

definition hex_encode :: "string \<Rightarrow> string" where
  "hex_encode s = concat (map (\<lambda>c. [hex_digits ! (of_char c div 16), hex_digits ! (of_char c mod 16)]) s)"

section \<open>Shape of a digest\<close>

lemma sha256_length: "length (sha256 m) = 32"
  by (cases "foldl sha_block sha_start (pieces 64 (sha_pad m))" rule: sha_out.cases) (simp add: sha256_def word_bytes_def)

lemma hmac_length: "length (hmac_sha256 k m) = 32"
  by (simp add: hmac_sha256_def sha256_length)

lemma hex_encode_length: "length (hex_encode s) = 2 * length s"
  by (induction s) (simp_all add: hex_encode_def)

lemma nibble: "of_char c div 16 < (16 :: nat)"
  using of_char_mod_256 [of c] mod_less_divisor [of 256 "of_char c :: nat"] by (simp add: div_less_iff_less_mult)

lemma hex_digits_length: "length hex_digits = 16"
  by (simp add: hex_digits_def)

lemma hex_encode_digits: "set (hex_encode s) \<subseteq> set hex_digits"
proof -
  have "hex_digits ! (of_char c div 16) \<in> set hex_digits" "hex_digits ! (of_char c mod 16) \<in> set hex_digits" for c
    using nibble [of c] by (simp_all add: hex_digits_length)
  then show ?thesis by (auto simp: hex_encode_def)
qed

lemma hex_encode_inject: "hex_encode s = hex_encode t \<longleftrightarrow> s = t"
proof (induction s arbitrary: t)
  case Nil
  then show ?case by (cases t) (simp_all add: hex_encode_def)
next
  case (Cons c s)
  note lt = nibble
  have d: "distinct hex_digits" "length hex_digits = 16" by (simp_all add: hex_digits_def)
  have "c = c'" if "hex_digits ! (of_char c div 16) = hex_digits ! (of_char c' div 16)"
    "hex_digits ! (of_char c mod 16) = hex_digits ! (of_char c' mod 16)" for c'
  proof -
    have "of_char c div 16 = (of_char c' div 16 :: nat)" "of_char c mod 16 = (of_char c' mod 16 :: nat)"
      using that lt [of c] lt [of c'] d nth_eq_iff_index_eq [OF d(1)] by auto
    then have "of_char c = (of_char c' :: nat)" by (metis div_mult_mod_eq)
    then show ?thesis by simp
  qed
  then show ?case using Cons by (cases t) (auto simp: hex_encode_def)
qed

end
