(* ===== verification/AuditChain.thy ===== *)
theory AuditChain
  imports Json Sha256
begin

text \<open>
  The HMAC chain ledger, \<^verbatim>\<open>security/audit_chain.go\<close>: one JSON object per line, each carrying the
  keyed digest of the previous digest and of itself. The ledger is the byte content of its file; what the
  system calls of one append answer is a record. A process holds the file lock from before it reads the
  tail until its write is synced, so appends of several processes are appends one after the other.
\<close>

section \<open>Entries\<close>

record chain_entry =
  ce_Seq :: int
  ce_Timestamp :: string
  ce_SessionID :: string
  ce_User :: string
  ce_Hostname :: string
  ce_Type :: string
  ce_Command :: string
  ce_Source :: string
  ce_Allowed :: "bool option"
  ce_Reason :: string
  ce_ChangeID :: string
  ce_PrevHash :: string
  ce_Hash :: string

definition zero_entry :: chain_entry where
  "zero_entry =
     \<lparr>ce_Seq = 0, ce_Timestamp = '''', ce_SessionID = '''', ce_User = '''', ce_Hostname = '''', ce_Type = '''',
      ce_Command = '''', ce_Source = '''', ce_Allowed = None, ce_Reason = '''', ce_ChangeID = '''', ce_PrevHash = '''',
      ce_Hash = ''''\<rparr>"

definition omit_empty :: "string \<Rightarrow> string \<Rightarrow> (string \<times> string) list" where
  "omit_empty k s = (if s = '''' then [] else [(k, json_string s)])"

text \<open>The members \<^verbatim>\<open>json.Marshal\<close> writes for \<^verbatim>\<open>chainEntryForHash\<close>, in field order.\<close>

definition entry_members :: "chain_entry \<Rightarrow> (string \<times> string) list" where
  "entry_members e =
     [(''seq'', dec_int (ce_Seq e)), (''ts'', json_string (ce_Timestamp e)), (''session'', json_string (ce_SessionID e)),
      (''user'', json_string (ce_User e)), (''host'', json_string (ce_Hostname e)), (''type'', json_string (ce_Type e))] @
     omit_empty ''cmd'' (ce_Command e) @ omit_empty ''source'' (ce_Source e) @
     (case ce_Allowed e of None \<Rightarrow> [] | Some b \<Rightarrow> [(''allowed'', if b then ''true'' else ''false'')]) @
     omit_empty ''reason'' (ce_Reason e) @ omit_empty ''change_id'' (ce_ChangeID e) @
     [(''prev_hash'', json_string (ce_PrevHash e))]"

definition marshal_body :: "chain_entry \<Rightarrow> string" where
  "marshal_body e = json_object (entry_members e)"

definition marshal_entry :: "chain_entry \<Rightarrow> string" where
  "marshal_entry e = json_object (entry_members e @ [(''hash'', json_string (ce_Hash e))])"

text \<open>
  \<^verbatim>\<open>json.Unmarshal\<close> into a \<^verbatim>\<open>ChainEntry\<close>: null leaves a field alone (and clears \<^verbatim>\<open>allowed\<close>), a
  value of another type is an error, an unknown key is ignored, the last of several equal keys wins.
\<close>

definition set_string :: "(string \<Rightarrow> chain_entry \<Rightarrow> chain_entry) \<Rightarrow> json \<Rightarrow> chain_entry \<Rightarrow> chain_entry option" where
  "set_string upd v e = (case v of JStr s \<Rightarrow> Some (upd s e) | JNull \<Rightarrow> Some e | _ \<Rightarrow> None)"

definition string_fields :: "(string \<times> (string \<Rightarrow> chain_entry \<Rightarrow> chain_entry)) list" where
  "string_fields =
     [(''ts'', \<lambda>s e. e\<lparr>ce_Timestamp := s\<rparr>), (''session'', \<lambda>s e. e\<lparr>ce_SessionID := s\<rparr>), (''user'', \<lambda>s e. e\<lparr>ce_User := s\<rparr>),
      (''host'', \<lambda>s e. e\<lparr>ce_Hostname := s\<rparr>), (''type'', \<lambda>s e. e\<lparr>ce_Type := s\<rparr>), (''cmd'', \<lambda>s e. e\<lparr>ce_Command := s\<rparr>),
      (''source'', \<lambda>s e. e\<lparr>ce_Source := s\<rparr>), (''reason'', \<lambda>s e. e\<lparr>ce_Reason := s\<rparr>), (''change_id'', \<lambda>s e. e\<lparr>ce_ChangeID := s\<rparr>),
      (''prev_hash'', \<lambda>s e. e\<lparr>ce_PrevHash := s\<rparr>), (''hash'', \<lambda>s e. e\<lparr>ce_Hash := s\<rparr>)]"

definition set_field :: "string \<Rightarrow> json \<Rightarrow> chain_entry \<Rightarrow> chain_entry option" where
  "set_field key v e =
     (if same_field ''seq'' key then
        (case v of
           JNum s \<Rightarrow> map_option (\<lambda>i. e\<lparr>ce_Seq := i\<rparr>) (json_int64 s)
         | JNull \<Rightarrow> Some e
         | _ \<Rightarrow> None)
      else if same_field ''allowed'' key then
        (case v of JBool b \<Rightarrow> Some (e\<lparr>ce_Allowed := Some b\<rparr>) | JNull \<Rightarrow> Some (e\<lparr>ce_Allowed := None\<rparr>) | _ \<Rightarrow> None)
      else case find (\<lambda>(name, _). same_field name key) string_fields of
          Some (_, upd) \<Rightarrow> set_string upd v e
        | None \<Rightarrow> Some e)"

fun set_fields :: "(string \<times> json) list \<Rightarrow> chain_entry \<Rightarrow> chain_entry option" where
  "set_fields [] e = Some e"
| "set_fields ((k, v) # m) e = (case set_field k v e of None \<Rightarrow> None | Some e' \<Rightarrow> set_fields m e')"

definition unmarshal_entry :: "string \<Rightarrow> chain_entry option" where
  "unmarshal_entry s =
     (case json_parse s of
        Some (JObj m) \<Rightarrow> set_fields m zero_entry
      | Some JNull \<Rightarrow> Some zero_entry
      | _ \<Rightarrow> None)"

section \<open>The chain\<close>

definition newline :: char where
  "newline = CHR 0x0A"

definition chain_message :: "string \<Rightarrow> chain_entry \<Rightarrow> string" where
  "chain_message prev e = prev @ [newline] @ marshal_body e"

definition computeHash :: "string \<Rightarrow> string \<Rightarrow> chain_entry \<Rightarrow> string" where
  "computeHash key prev e = hex_encode (hmac_sha256 key (chain_message prev e))"

definition chainScanMax :: nat where
  "chainScanMax = 1048576"

definition chain_block :: nat where
  "chain_block = 65536"

datatype chain_err =
    CETooLong
  | CECorrupt
  | CEEmptyHash
  | CEHmac int
  | CERotate chain_err
  | CEIO string

text \<open>\<^verbatim>\<open>errors.Is(err, errChainTailUnverified)\<close>.\<close>

fun tail_unverified :: "chain_err \<Rightarrow> bool" where
  "tail_unverified (CEIO _) = False"
| "tail_unverified _ = True"

definition parseChainTail :: "string \<Rightarrow> string \<Rightarrow> chain_err + (string \<times> int)" where
  "parseChainTail line key =
     (case unmarshal_entry line of
        None \<Rightarrow> Inl CECorrupt
      | Some e \<Rightarrow>
          if ce_Hash e = '''' then Inl CEEmptyHash
          else if computeHash key (ce_PrevHash e) e \<noteq> ce_Hash e then Inl (CEHmac (ce_Seq e))
          else Inr (ce_Hash e, int64 (ce_Seq e + 1)))"

definition trim_line_end :: "string \<Rightarrow> string" where
  "trim_line_end s = trim_right_set [CHR '' '', CHR 0x09, CHR 0x0D, newline] s"

definition after_last_newline :: "string \<Rightarrow> string" where
  "after_last_newline s = rev (takeWhile (\<lambda>c. c \<noteq> newline) (rev s))"

text \<open>
  The backward read of \<^verbatim>\<open>readLastChainLine\<close>: \<open>buf\<close> holds the bytes from \<open>pos\<close> to the end and grows
  by a block at a time.
\<close>

function read_tail :: "string \<Rightarrow> string \<Rightarrow> string \<Rightarrow> nat \<Rightarrow> chain_err + (string \<times> int)" where
  "read_tail content key buf pos =
     (let trimmed = trim_line_end buf
      in if trimmed \<noteq> [] \<and> (newline \<in> set trimmed \<or> pos = 0) then
           (let lastLine = trimSpace (after_last_newline trimmed)
            in if chainScanMax < length lastLine then Inl CETooLong else parseChainTail lastLine key)
         else if pos = 0 then Inr ('''', 0)
         else if chainScanMax + chain_block < length buf then Inl CETooLong
         else
           (let n = min chain_block pos
            in read_tail content key (take n (drop (pos - n) content) @ buf) (pos - n)))"
  by pat_completeness auto
termination
  by (relation "measure (\<lambda>(_, _, _, pos). pos)") (auto simp: chain_block_def)

declare read_tail.simps [simp del]

definition readLastChainLine :: "go_error \<Rightarrow> string option \<Rightarrow> string \<Rightarrow> chain_err + (string \<times> int)" where
  "readLastChainLine rderr file key =
     (case file of
        None \<Rightarrow> Inr ('''', 0)
      | Some content \<Rightarrow>
          (case rderr of Some e \<Rightarrow> Inl (CEIO e) | None \<Rightarrow> read_tail content key [] (length content)))"

text \<open>
  What the outside answers during one append: the directory, the file, the lock, the read of the tail, how
  many bytes of the line were written when the write fails, the sync, and the stamps.
\<close>

record chain_io =
  ci_mkdir :: go_error
  ci_open :: go_error
  ci_lock :: go_error
  ci_read :: go_error
  ci_write :: "(nat \<times> string) option"
  ci_sync :: go_error
  ci_now :: string
  ci_user :: string
  ci_host :: string

record chain_cfg =
  cc_path :: string
  cc_key :: "string option"
  cc_session :: string

definition stamp_entry :: "chain_io \<Rightarrow> chain_cfg \<Rightarrow> string \<Rightarrow> int \<Rightarrow> chain_entry \<Rightarrow> chain_entry" where
  "stamp_entry io cfg prevHash nextSeq e =
     e\<lparr>ce_Seq := nextSeq, ce_Timestamp := ci_now io,
       ce_SessionID := (if ce_SessionID e = '''' then cc_session cfg else ce_SessionID e),
       ce_User := (if ce_User e = '''' then ci_user io else ce_User e),
       ce_Hostname := (if ce_Hostname e = '''' then ci_host io else ce_Hostname e),
       ce_PrevHash := prevHash\<rparr>"

definition seal_entry :: "string \<Rightarrow> chain_entry \<Rightarrow> chain_entry" where
  "seal_entry key e = e\<lparr>ce_Hash := computeHash key (ce_PrevHash e) e\<rparr>"

definition AppendChain ::
  "chain_io \<Rightarrow> chain_cfg \<Rightarrow> chain_entry \<Rightarrow> string option \<Rightarrow> chain_err option \<times> string option" where
  "AppendChain io cfg e file =
     (case cc_key cfg of
        None \<Rightarrow> (None, file)
      | Some key \<Rightarrow>
          if cc_path cfg = '''' then (None, file)
          else case ci_mkdir io of
              Some err \<Rightarrow> (Some (CEIO err), file)
            | None \<Rightarrow>
                (case ci_open io of
                   Some err \<Rightarrow> (Some (CEIO err), file)
                 | None \<Rightarrow>
                     (let content = (case file of None \<Rightarrow> '''' | Some c \<Rightarrow> c)
                      in case ci_lock io of
                           Some err \<Rightarrow> (Some (CEIO err), Some content)
                         | None \<Rightarrow>
                             (case readLastChainLine (ci_read io) (Some content) key of
                                Inl err \<Rightarrow> (Some (if tail_unverified err then CERotate err else err), Some content)
                              | Inr (prevHash, nextSeq) \<Rightarrow>
                                  (let entry = seal_entry key (stamp_entry io cfg prevHash nextSeq e);
                                       data = marshal_entry entry @ [newline]
                                   in case ci_write io of
                                        Some (n, err) \<Rightarrow> (Some (CEIO err), Some (content @ take n data))
                                      | None \<Rightarrow>
                                          (map_option CEIO (ci_sync io), Some (content @ data)))))))"

definition ChainEnabled :: "chain_cfg \<Rightarrow> bool" where
  "ChainEnabled cfg = (cc_path cfg \<noteq> '''' \<and> (case cc_key cfg of None \<Rightarrow> False | Some k \<Rightarrow> length k = 32))"

section \<open>Verification\<close>

text \<open>The lines \<^verbatim>\<open>bufio.Scanner\<close> delivers; one carriage return before the newline is dropped.\<close>

definition drop_cr :: "string \<Rightarrow> string" where
  "drop_cr s = (if s \<noteq> [] \<and> last s = CHR 0x0D then butlast s else s)"

definition raw_lines :: "string \<Rightarrow> string list" where
  "raw_lines s = (let ls = split_on newline s in if last ls = [] then butlast ls else ls)"

datatype verify_result =
    VerifyOk
  | VerifyBad int
  | VerifyParse int
  | VerifyScan int

fun verify_loop :: "string \<Rightarrow> string \<Rightarrow> int \<Rightarrow> string list \<Rightarrow> verify_result" where
  "verify_loop key prev lineNum [] = VerifyOk"
| "verify_loop key prev lineNum (l # ls) =
     (if chainScanMax \<le> length l then VerifyScan lineNum
      else if trimSpace (drop_cr l) = [] then verify_loop key prev lineNum ls
      else case unmarshal_entry (drop_cr l) of
          None \<Rightarrow> VerifyParse lineNum
        | Some e \<Rightarrow>
            if ce_Hash e \<noteq> computeHash key prev e then VerifyBad (ce_Seq e)
            else verify_loop key (ce_Hash e) (ce_Seq e) ls)"

definition VerifyChain :: "string \<Rightarrow> string \<Rightarrow> verify_result" where
  "VerifyChain key content = verify_loop key '''' 0 (raw_lines content)"

section \<open>Entries read back\<close>

definition clean_entry :: "chain_entry \<Rightarrow> chain_entry" where
  "clean_entry e =
     \<lparr>ce_Seq = ce_Seq e, ce_Timestamp = json_clean (ce_Timestamp e), ce_SessionID = json_clean (ce_SessionID e),
      ce_User = json_clean (ce_User e), ce_Hostname = json_clean (ce_Hostname e), ce_Type = json_clean (ce_Type e),
      ce_Command = json_clean (ce_Command e), ce_Source = json_clean (ce_Source e), ce_Allowed = ce_Allowed e,
      ce_Reason = json_clean (ce_Reason e), ce_ChangeID = json_clean (ce_ChangeID e),
      ce_PrevHash = json_clean (ce_PrevHash e), ce_Hash = json_clean (ce_Hash e)\<rparr>"

text \<open>The texts that enter the digest, and an entry all of whose texts are valid UTF-8.\<close>

definition body_texts :: "chain_entry \<Rightarrow> string list" where
  "body_texts e =
     [ce_Timestamp e, ce_SessionID e, ce_User e, ce_Hostname e, ce_Type e, ce_Command e, ce_Source e, ce_Reason e,
      ce_ChangeID e, ce_PrevHash e]"

definition valid_entry :: "chain_entry \<Rightarrow> bool" where
  "valid_entry e \<longleftrightarrow> list_all valid_utf8 (body_texts e)"

definition seq_in_range :: "chain_entry \<Rightarrow> bool" where
  "seq_in_range e \<longleftrightarrow> - (2 ^ 63) \<le> ce_Seq e \<and> ce_Seq e < 2 ^ 63"

lemma find_key: "distinct (map fst xs) \<Longrightarrow> (k, u) \<in> set xs \<Longrightarrow> find (\<lambda>(n, _). n = k) xs = Some (k, u)"
  by (induction xs) (auto simp: rev_image_eqI)

lemma field_keys:
  "plain_key ''seq''" "plain_key ''allowed''" "(n, u) \<in> set string_fields \<Longrightarrow> plain_key n"
  by (auto simp: plain_key_def string_fields_def)

lemma set_field_string:
  assumes "(k, upd) \<in> set string_fields"
  shows "set_field k v e = set_string upd v e"
proof -
  have d: "distinct (map fst string_fields)" by (simp add: string_fields_def)
  have "find (\<lambda>(name, _). same_field name k) string_fields = find (\<lambda>(name, _). name = k) string_fields"
    using field_keys(3) assms by (intro find_cong) (auto simp: same_field_plain)
  also have "... = Some (k, upd)"
    by (rule find_key [OF d assms])
  finally have f: "find (\<lambda>(name, _). same_field name k) string_fields = Some (k, upd)" .
  have "''seq'' \<notin> fst ` set string_fields" "''allowed'' \<notin> fst ` set string_fields" by (simp_all add: string_fields_def)
  then have "k \<noteq> ''seq''" "k \<noteq> ''allowed''" using assms by force+
  then show ?thesis using f field_keys(1,2) field_keys(3) [OF assms] by (simp add: set_field_def same_field_plain)
qed

lemma set_field_seq: "set_field ''seq'' (JNum (dec_int i)) e = map_option (\<lambda>i. e\<lparr>ce_Seq := i\<rparr>) (json_int64 (dec_int i))"
  by (simp add: set_field_def same_field_plain field_keys)

lemma set_field_allowed: "set_field ''allowed'' (JBool b) e = Some (e\<lparr>ce_Allowed := Some b\<rparr>)"
  by (simp add: set_field_def same_field_plain field_keys)

lemma set_fields_append: "set_fields (a @ b) e = Option.bind (set_fields a e) (set_fields b)"
  by (induction a arbitrary: e) (auto split: option.split)

text \<open>The members of an entry with the values that reading them gives.\<close>

definition omit_triple :: "string \<Rightarrow> string \<Rightarrow> (string \<times> string \<times> json) list" where
  "omit_triple k s = (if s = '''' then [] else [(k, json_string s, JStr (json_clean s))])"

definition entry_triples :: "chain_entry \<Rightarrow> (string \<times> string \<times> json) list" where
  "entry_triples e =
     [(''seq'', dec_int (ce_Seq e), JNum (dec_int (ce_Seq e))),
      (''ts'', json_string (ce_Timestamp e), JStr (json_clean (ce_Timestamp e))),
      (''session'', json_string (ce_SessionID e), JStr (json_clean (ce_SessionID e))),
      (''user'', json_string (ce_User e), JStr (json_clean (ce_User e))),
      (''host'', json_string (ce_Hostname e), JStr (json_clean (ce_Hostname e))),
      (''type'', json_string (ce_Type e), JStr (json_clean (ce_Type e)))] @
     omit_triple ''cmd'' (ce_Command e) @ omit_triple ''source'' (ce_Source e) @
     (case ce_Allowed e of None \<Rightarrow> [] | Some b \<Rightarrow> [(''allowed'', if b then ''true'' else ''false'', JBool b)]) @
     omit_triple ''reason'' (ce_Reason e) @ omit_triple ''change_id'' (ce_ChangeID e) @
     [(''prev_hash'', json_string (ce_PrevHash e), JStr (json_clean (ce_PrevHash e))),
      (''hash'', json_string (ce_Hash e), JStr (json_clean (ce_Hash e)))]"

lemma triples_members:
  "map (\<lambda>(k, w, v). (k, w)) (entry_triples e) = entry_members e @ [(''hash'', json_string (ce_Hash e))]"
  by (simp add: entry_triples_def entry_members_def omit_triple_def omit_empty_def split: option.split)

lemma triples_read: "list_all (\<lambda>(k, w, v). reads w v) (entry_triples e)"
  by (simp add: entry_triples_def omit_triple_def reads_string reads_int reads_bool split: option.split)

lemma triples_keys: "(k, w, v) \<in> set (entry_triples e) \<Longrightarrow> json_clean k = k"
  by (intro clean_ascii) (auto simp: entry_triples_def omit_triple_def split: if_splits option.splits)

lemmas string_field_rules [simp] =
  set_field_string [of "''ts''", simplified string_fields_def, simplified]
  set_field_string [of "''session''", simplified string_fields_def, simplified]
  set_field_string [of "''user''", simplified string_fields_def, simplified]
  set_field_string [of "''host''", simplified string_fields_def, simplified]
  set_field_string [of "''type''", simplified string_fields_def, simplified]
  set_field_string [of "''cmd''", simplified string_fields_def, simplified]
  set_field_string [of "''source''", simplified string_fields_def, simplified]
  set_field_string [of "''reason''", simplified string_fields_def, simplified]
  set_field_string [of "''change_id''", simplified string_fields_def, simplified]
  set_field_string [of "''prev_hash''", simplified string_fields_def, simplified]
  set_field_string [of "''hash''", simplified string_fields_def, simplified]

lemma set_omit:
  "set_fields (map (\<lambda>(k, w, v). (k, v)) (omit_triple k s)) e =
     (if s = '''' then Some e else set_field k (JStr (json_clean s)) e)"
  by (simp add: omit_triple_def split: option.split)

lemma unmarshal_marshal:
  assumes "seq_in_range e"
  shows "unmarshal_entry (marshal_entry e) = Some (clean_entry e)"
proof -
  have ne: "entry_triples e \<noteq> []" by (simp add: entry_triples_def)
  have "map (\<lambda>(k, w, v). (json_clean k, v)) (entry_triples e) = map (\<lambda>(k, w, v). (k, v)) (entry_triples e)"
    using triples_keys by auto
  then have "json_parse (marshal_entry e) = Some (JObj (map (\<lambda>(k, w, v). (k, v)) (entry_triples e)))"
    using parse_object [OF ne triples_read] by (simp add: triples_members marshal_entry_def)
  moreover have "set_fields (map (\<lambda>(k, w, v). (k, v)) (entry_triples e)) zero_entry = Some (clean_entry e)"
    using assms
    by (cases "ce_Allowed e")
       (auto simp: entry_triples_def set_fields_append set_omit set_field_seq set_field_allowed set_string_def
          json_int64_dec seq_in_range_def zero_entry_def clean_entry_def)
  ultimately show ?thesis by (simp add: unmarshal_entry_def)
qed

section \<open>A written line\<close>

definition printable :: "string \<Rightarrow> bool" where
  "printable s \<longleftrightarrow> (\<forall>c \<in> set s. 0x20 \<le> byte c)"

lemma printable_append [simp]: "printable (a @ b) \<longleftrightarrow> printable a \<and> printable b"
  by (auto simp: printable_def)

lemma printable_Cons [simp]: "printable (c # s) \<longleftrightarrow> 0x20 \<le> byte c \<and> printable s"
  by (simp add: printable_def)

lemma printable_Nil [simp]: "printable []"
  by (simp add: printable_def)

lemma printable_encode: "0x80 \<le> r \<Longrightarrow> printable (encode_rune r)"
  unfolding encode_rune_def
  by (cases "r < 0x800"; cases "r < 0x10000"; cases "0xD800 \<le> r \<and> r \<le> 0xDFFF \<or> 0x10FFFF < r")
     (auto simp: of_char_of intro: order_trans [OF _ le_add1])

lemma printable_esc: "byte c < 0x80 \<Longrightarrow> printable (esc_byte c)"
proof -
  have d: "0x20 \<le> byte (hex_digit n)" if "n < 16" for n using that by (auto simp: hex_digit_def)
  have "byte c div 16 < 16" "byte c mod 16 < 16" if "byte c < 0x80" using that by (simp_all add: div_less_iff_less_mult)
  then show "byte c < 0x80 \<Longrightarrow> printable (esc_byte c)" using d by (auto simp: esc_byte_def Let_def)
qed

lemma printable_rune:
  assumes "s \<noteq> []"
  shows "printable (json_rune s)"
proof -
  obtain r w where rw: "decode_rune s = (r, w)" by fastforce
  consider "r < 0x80" | "0x80 \<le> r" "r = 0xFFFD \<and> w = 1" | "0x80 \<le> r" "\<not> (r = 0xFFFD \<and> w = 1)" by linarith
  then show ?thesis
  proof cases
    case 1
    have "take w s = encode_rune r" "w \<le> length s" using decode_rune_cases [OF assms rw] 1 by auto
    then have "encode_rune r = [hd s]" using 1 assms by (cases w; cases s) (auto simp: encode_rune_def)
    then have "hd s = char_of r" using 1 by (simp add: encode_rune_def)
    then have "byte (hd s) < 0x80" using byte_char_of [of r] 1 by simp
    then show ?thesis using 1 rw printable_esc by (simp add: json_rune_def)
  next
    case 2
    then show ?thesis using rw by (simp add: json_rune_def)
  next
    case 3
    then have "printable (take w s)" using decode_rune_prefix(2) [OF assms rw] printable_encode [of r] by simp
    then show ?thesis using 3 rw by (simp add: json_rune_def)
  qed
qed

lemma printable_body: "printable (json_body s)"
  by (induction s rule: json_body.induct) (metis append.simps(1) json_body.simps printable_append printable_rune printable_Nil)

lemma printable_string: "printable (json_string s)"
  by (simp add: json_string_def printable_body)

lemma printable_int: "printable (dec_int i)"
proof -
  have "printable (dec_nat n)" for n
    using dec_nat_digits [of n] by (auto simp: printable_def list_all_iff is_digit_def intro: order_trans [of 32 48])
  then show ?thesis by (simp add: dec_int_def)
qed

lemma printable_members: "list_all (\<lambda>(k, w). printable w) ms \<Longrightarrow> printable (json_members ms)"
  by (induction ms rule: json_members.induct) (simp_all add: printable_string)

lemma printable_entry: "printable (marshal_entry e)"
  unfolding marshal_entry_def json_object_def
  by (simp add: entry_members_def omit_empty_def printable_string printable_int printable_members split: option.split)

lemma trim_left_stop: "lead_space ws s = 0 \<Longrightarrow> trim_left ws s = s"
  by (simp add: trim_left.simps [of ws s])

lemma line_shape: obtains x where "marshal_entry e = CHR ''{'' # x @ [CHR ''}'']"
  by (simp add: marshal_entry_def json_object_def)

lemma line_nonempty: "marshal_entry e \<noteq> []"
  by (rule line_shape [of e]) simp

lemma trimSpace_line: "trimSpace (marshal_entry e) = marshal_entry e"
proof -
  obtain x where x: "marshal_entry e = CHR ''{'' # x @ [CHR ''}'']" by (rule line_shape)
  have "lead_space wide_spaces (CHR ''{'' # s) = 0" "lead_space (map rev wide_spaces) (CHR ''}'' # s) = 0" for s
    by (simp_all add: ascii_space_def wide_spaces_def hasPrefix_def)
  then show ?thesis by (simp add: trimSpace_def x trim_left_stop)
qed

lemma no_newline_line: "newline \<notin> set (marshal_entry e)"
  using printable_entry [of e] by (auto simp: printable_def newline_def)

lemma drop_cr_line: "drop_cr (marshal_entry e) = marshal_entry e"
  by (rule line_shape [of e]) (simp add: drop_cr_def)

lemma trim_line_end_line: "trim_line_end (s @ marshal_entry e @ [newline]) = s @ marshal_entry e"
  "trim_line_end (s @ marshal_entry e) = s @ marshal_entry e"
  by (rule line_shape [of e]; simp add: trim_line_end_def trim_right_set_def newline_def)+

section \<open>The backward read\<close>

text \<open>
  What the read is for: the last line that is not blank. \<open>tail_span\<close> counts the bytes from the start of
  that line to the end of the file.
\<close>

definition tail_ref :: "string \<Rightarrow> string \<Rightarrow> chain_err + (string \<times> int)" where
  "tail_ref content key =
     (if trim_line_end content = [] then Inr ('''', 0)
      else let line = trimSpace (after_last_newline (trim_line_end content))
           in if chainScanMax < length line then Inl CETooLong else parseChainTail line key)"

definition tail_span :: "string \<Rightarrow> nat" where
  "tail_span content =
     length (after_last_newline (trim_line_end content)) + (length content - length (trim_line_end content))"

lemma trim_line_end_append:
  "trim_line_end (a @ b) = (if trim_line_end b = [] then trim_line_end a else a @ trim_line_end b)"
  by (auto simp: trim_line_end_def trim_right_set_def dropWhile_append)

lemma trim_line_end_le: "length (trim_line_end s) \<le> length s"
  by (simp add: trim_line_end_def trim_right_set_def) (metis length_dropWhile_le length_rev)

lemma after_last_append:
  "after_last_newline (a @ b) = (if newline \<in> set b then after_last_newline b else after_last_newline a @ b)"
  by (auto simp: after_last_newline_def takeWhile_append)

lemma tail_span_suffix:
  assumes "newline \<notin> set (trim_line_end b)"
  shows "length b \<le> tail_span (a @ b)"
proof (cases "trim_line_end b = []")
  case True
  then show ?thesis using trim_line_end_le [of a] by (simp add: tail_span_def trim_line_end_append)
next
  case False
  then show ?thesis using assms trim_line_end_le [of b] by (simp add: tail_span_def trim_line_end_append after_last_append)
qed

lemma read_tail_ref:
  assumes "pos \<le> length content"
  shows "read_tail content key (drop pos content) pos = tail_ref content key \<or>
    (read_tail content key (drop pos content) pos = Inl CETooLong \<and> chainScanMax < tail_span content)"
  using assms
proof (induction pos rule: less_induct)
  case (less pos)
  let ?b = "drop pos content" and ?a = "take pos content"
  let ?t = "trim_line_end ?b"
  have c: "content = ?a @ ?b" by simp
  consider (found) "?t \<noteq> []" "newline \<in> set ?t \<or> pos = 0" | (blank) "?t = []" "pos = 0"
    | (more) "newline \<notin> set ?t" "0 < pos"
    by fastforce
  then show ?case
  proof cases
    case found
    have "trim_line_end content = ?a @ ?t" using found(1) trim_line_end_append [of ?a ?b] by simp
    moreover have "after_last_newline (?a @ ?t) = after_last_newline ?t"
      using found(2) by (cases "pos = 0") (auto simp: after_last_append)
    ultimately have "read_tail content key ?b pos = tail_ref content key"
      using found by (simp add: read_tail.simps [of content key ?b pos] tail_ref_def Let_def)
    then show ?thesis ..
  next
    case blank
    then have "read_tail content key ?b pos = tail_ref content key"
      by (simp add: read_tail.simps [of content key content 0] tail_ref_def)
    then show ?thesis ..
  next
    case more
    let ?n = "min chain_block pos"
    have step: "read_tail content key ?b pos =
        (if chainScanMax + chain_block < length ?b then Inl CETooLong
         else read_tail content key (take ?n (drop (pos - ?n) content) @ ?b) (pos - ?n))"
      using more by (simp add: read_tail.simps [of content key ?b pos] Let_def)
    have "take ?n (drop (pos - ?n) content) @ ?b = drop (pos - ?n) content"
    proof -
      have "?b = drop ?n (drop (pos - ?n) content)" by simp
      then show ?thesis by (metis append_take_drop_id)
    qed
    moreover have "pos - ?n < pos" using more by (simp add: chain_block_def)
    moreover have "chainScanMax < tail_span content" if "chainScanMax + chain_block < length ?b"
      using tail_span_suffix [OF more(1), of ?a] that by simp
    ultimately show ?thesis using step less.IH [of "pos - ?n"] less.prems by auto
  qed
qed

lemma read_last_ref:
  "readLastChainLine None (Some content) key = tail_ref content key \<or>
   (readLastChainLine None (Some content) key = Inl CETooLong \<and> chainScanMax < tail_span content)"
  using read_tail_ref [of "length content" content key] by (simp add: readLastChainLine_def)

section \<open>Ledgers written by appends\<close>

definition ledger_text :: "chain_entry list \<Rightarrow> string" where
  "ledger_text es = concat (map (\<lambda>e. marshal_entry e @ [newline]) es)"

fun linked :: "string \<Rightarrow> string \<Rightarrow> int \<Rightarrow> chain_entry list \<Rightarrow> bool" where
  "linked key prev n [] \<longleftrightarrow> True"
| "linked key prev n (e # es) \<longleftrightarrow>
     valid_entry e \<and> ce_Seq e = n \<and> ce_PrevHash e = prev \<and> ce_Hash e = computeHash key prev e \<and>
     length (marshal_entry e) < chainScanMax \<and> linked key (ce_Hash e) (n + 1) es"

definition last_hash :: "string \<Rightarrow> chain_entry list \<Rightarrow> string" where
  "last_hash prev es = (if es = [] then prev else ce_Hash (last es))"

lemma linked_append:
  "linked key prev n (es @ [e]) \<longleftrightarrow>
     linked key prev n es \<and> linked key (last_hash prev es) (n + int (length es)) [e]"
  by (induction es arbitrary: prev n) (auto simp: last_hash_def algebra_simps)

lemma hash_ascii: "list_all (\<lambda>c. byte c < 0x80) (computeHash key prev e)"
proof -
  have "byte c < 0x80" if "c \<in> set hex_digits" for c using that by (auto simp: hex_digits_def)
  then show ?thesis using hex_encode_digits by (fastforce simp: computeHash_def list_all_iff)
qed

lemma hash_length: "length (computeHash key prev e) = 64"
  by (simp add: computeHash_def hex_encode_length hmac_length)

lemma hash_nonempty: "computeHash key prev e \<noteq> ''''"
  using hash_length [of key prev e] by auto

lemma hash_no_newline: "newline \<notin> set (computeHash key prev e)"
proof -
  have "newline \<notin> set hex_digits" by (simp add: hex_digits_def newline_def)
  then show ?thesis using hex_encode_digits by (fastforce simp: computeHash_def)
qed

lemma computeHash_cong: "marshal_body e = marshal_body e' \<Longrightarrow> computeHash key prev e = computeHash key prev e'"
  by (simp add: computeHash_def chain_message_def)

lemma body_ignores_hash [simp]: "marshal_body (e\<lparr>ce_Hash := h\<rparr>) = marshal_body e"
  by (simp add: marshal_body_def entry_members_def)

lemma computeHash_sealed [simp]: "computeHash key prev (e\<lparr>ce_Hash := h\<rparr>) = computeHash key prev e"
  by (rule computeHash_cong) simp

lemma clean_valid_entry: "valid_entry e \<Longrightarrow> json_clean (ce_Hash e) = ce_Hash e \<Longrightarrow> clean_entry e = e"
  by (simp add: valid_entry_def body_texts_def clean_entry_def clean_valid)

lemma parse_sealed:
  assumes "valid_entry e" "seq_in_range e" "ce_Hash e = computeHash key (ce_PrevHash e) e"
  shows "parseChainTail (marshal_entry e) key = Inr (ce_Hash e, int64 (ce_Seq e + 1))"
proof -
  have "clean_entry e = e" using assms(1,3) clean_ascii [OF hash_ascii] by (simp add: clean_valid_entry)
  then show ?thesis
    using unmarshal_marshal [OF assms(2)] assms(3) hash_nonempty [of key "ce_PrevHash e" e] by (simp add: parseChainTail_def)
qed

lemma after_last_line:
  assumes "c = [] \<or> last c = newline"
  shows "after_last_newline (c @ marshal_entry e) = marshal_entry e"
proof -
  have "after_last_newline c = []" using assms by (cases c rule: rev_cases) (auto simp: after_last_newline_def)
  then show ?thesis using no_newline_line by (simp add: after_last_append)
qed

lemma read_last_line:
  assumes "c = [] \<or> last c = newline" "length (marshal_entry e) < chainScanMax"
  shows "readLastChainLine None (Some (c @ marshal_entry e @ [newline])) key = parseChainTail (marshal_entry e) key"
proof -
  have a: "after_last_newline (c @ marshal_entry e) = marshal_entry e" by (rule after_last_line [OF assms(1)])
  have "tail_span (c @ marshal_entry e @ [newline]) = Suc (length (marshal_entry e))"
    by (simp add: tail_span_def trim_line_end_line a)
  moreover have "tail_ref (c @ marshal_entry e @ [newline]) key = parseChainTail (marshal_entry e) key"
    using assms(2) line_nonempty by (simp add: tail_ref_def trim_line_end_line a trimSpace_line)
  ultimately show ?thesis using read_last_ref [of "c @ marshal_entry e @ [newline]" key] assms(2) by auto
qed

lemma ledger_text_end: "ledger_text es = [] \<or> last (ledger_text es) = newline"
  by (cases es rule: rev_cases) (simp_all add: ledger_text_def)

lemma ledger_text_snoc: "ledger_text (es @ [e]) = ledger_text es @ marshal_entry e @ [newline]"
  by (simp add: ledger_text_def)

lemma int64_id: "- (2 ^ 63) \<le> i \<Longrightarrow> i < 2 ^ 63 \<Longrightarrow> int64 i = i"
  by (simp add: int64_def)

lemma linked_last:
  assumes "linked key prev n es" "es \<noteq> []"
  shows "linked key (last_hash prev (butlast es)) (n + int (length es) - 1) [last es]"
proof -
  obtain k where "length es = Suc k" using assms(2) by (cases es) auto
  then show ?thesis using assms linked_append [of key prev n "butlast es" "last es"] by (simp add: algebra_simps)
qed

lemma read_last_ledger:
  assumes "linked key '''' 0 es" "int (length es) < 2 ^ 63"
  shows "readLastChainLine None (Some (ledger_text es)) key = Inr (last_hash '''' es, int (length es))"
proof (cases "es = []")
  case True
  then show ?thesis
    by (simp add: readLastChainLine_def ledger_text_def last_hash_def read_tail.simps trim_line_end_def trim_right_set_def)
next
  case False
  let ?e = "last es"
  have t: "ledger_text es = ledger_text (butlast es) @ marshal_entry ?e @ [newline]"
    using False ledger_text_snoc [of "butlast es" ?e] by simp
  have l: "linked key (last_hash '''' (butlast es)) (int (length es) - 1) [?e]"
    using linked_last [OF assms(1) False] by simp
  then have "readLastChainLine None (Some (ledger_text es)) key = parseChainTail (marshal_entry ?e) key"
    unfolding t using ledger_text_end by (intro read_last_line) simp_all
  moreover have "seq_in_range ?e" using l assms(2) by (simp add: seq_in_range_def)
  ultimately show ?thesis
    using l parse_sealed [of ?e key] assms(2) False by (simp add: last_hash_def int64_id)
qed

text \<open>What an append of an entry writes: its stamped and sealed form.\<close>

definition no_errors :: "chain_io \<Rightarrow> bool" where
  "no_errors io \<longleftrightarrow>
     ci_mkdir io = None \<and> ci_open io = None \<and> ci_lock io = None \<and> ci_read io = None \<and> ci_write io = None \<and> ci_sync io = None"

definition chain_on :: "chain_cfg \<Rightarrow> string \<Rightarrow> bool" where
  "chain_on cfg key \<longleftrightarrow> cc_path cfg \<noteq> '''' \<and> cc_key cfg = Some key"

definition sealed :: "chain_io \<Rightarrow> chain_cfg \<Rightarrow> string \<Rightarrow> chain_entry list \<Rightarrow> chain_entry \<Rightarrow> chain_entry" where
  "sealed io cfg key es e = seal_entry key (stamp_entry io cfg (last_hash '''' es) (int (length es)) e)"

lemma append_ledger:
  assumes "linked key '''' 0 es" "int (length es) < 2 ^ 63" "chain_on cfg key" "no_errors io"
    and "file = Some (ledger_text es) \<or> (file = None \<and> es = [])"
  shows "AppendChain io cfg e file = (None, Some (ledger_text (es @ [sealed io cfg key es e])))"
proof -
  have c: "(case file of None \<Rightarrow> '''' | Some c \<Rightarrow> c) = ledger_text es" using assms(5) by (auto simp: ledger_text_def)
  show ?thesis
    using read_last_ledger [OF assms(1,2)] assms(3,4)
    by (simp add: AppendChain_def chain_on_def no_errors_def c sealed_def ledger_text_snoc Let_def)
qed

text \<open>The texts of an entry that a stamp does not replace, and when they fit into a line.\<close>

definition texts_fit :: "chain_entry \<Rightarrow> bool" where
  "texts_fit e \<longleftrightarrow> sum_list (map (\<lambda>s. length (json_body s)) (body_texts e)) \<le> 1000000"

lemma length_members:
  "ms \<noteq> [] \<Longrightarrow> length (json_members ms) + 1 = sum_list (map (\<lambda>(k, w). length (json_string k) + length w + 2) ms)"
  by (induction ms rule: json_members.induct) simp_all

lemma length_json_string: "length (json_string s) = length (json_body s) + 2"
  by (simp add: json_string_def)

lemma hash_body: "json_body (computeHash key prev e) = computeHash key prev e"
proof -
  have "byte c < 0x80 \<and> esc_byte c = [c]" if "c \<in> set hex_digits" for c
    using that by (auto simp: hex_digits_def esc_byte_def)
  then show ?thesis using hex_encode_digits by (intro json_body_plain) (fastforce simp: computeHash_def list_all_iff)
qed

lemma length_dec_nat: "n < 10 ^ Suc k \<Longrightarrow> length (dec_nat n) \<le> Suc k"
proof (induction k arbitrary: n)
  case 0
  then show ?case by (simp add: dec_nat.simps)
next
  case (Suc k)
  have "n div 10 < 10 ^ Suc k" using Suc.prems by (simp add: div_less_iff_less_mult mult.commute)
  then show ?case using Suc.IH [of "n div 10"] by (simp add: dec_nat.simps [of n])
qed

text \<open>Names of members are written as they are and have at most nine bytes.\<close>

definition member_cost :: "(string \<times> string) list \<Rightarrow> nat" where
  "member_cost ms = sum_list (map (\<lambda>(k, w). length (json_string k) + length w + 2) ms)"

lemma member_cost_simps [simp]:
  "member_cost [] = 0"
  "member_cost ((k, w) # ms) = length (json_string k) + length w + 2 + member_cost ms"
  "member_cost (a @ b) = member_cost a + member_cost b"
  by (simp_all add: member_cost_def)

lemma plain_key_length: "plain_key k \<Longrightarrow> length (json_body k) = length k"
proof -
  assume k: "plain_key k"
  have "byte c < 0x80 \<and> esc_byte c = [c]" if "97 \<le> byte c \<and> byte c \<le> 122 \<or> 48 \<le> byte c \<and> byte c \<le> 57 \<or> byte c = 95" for c
    using that by (auto simp: esc_byte_def Let_def)
  then have "json_body k = k" using k by (intro json_body_plain) (auto simp: plain_key_def list_all_iff)
  then show ?thesis by simp
qed

lemma member_cost_omit: "plain_key k \<Longrightarrow> member_cost (omit_empty k s) \<le> length k + length (json_body s) + 6"
  by (simp add: omit_empty_def length_json_string plain_key_length)

lemma marshal_length:
  assumes "seq_in_range e" "length (json_body (ce_Hash e)) \<le> 64"
  shows "length (marshal_entry e) \<le> sum_list (map (\<lambda>s. length (json_body s)) (body_texts e)) + 400"
proof -
  have k: "plain_key ''seq''" "plain_key ''ts''" "plain_key ''session''" "plain_key ''user''" "plain_key ''host''" "plain_key ''type''"
    "plain_key ''cmd''" "plain_key ''source''" "plain_key ''allowed''" "plain_key ''reason''" "plain_key ''change_id''"
    "plain_key ''prev_hash''" "plain_key ''hash''"
    by (simp_all add: plain_key_def)
  have "nat \<bar>ce_Seq e\<bar> < 10 ^ Suc 19" using assms(1) by (auto simp: seq_in_range_def nat_less_iff abs_if)
  then have "length (dec_nat (nat \<bar>ce_Seq e\<bar>)) \<le> 20" using length_dec_nat [of _ 19] by simp
  then have i: "length (dec_int (ce_Seq e)) \<le> 21" by (auto simp: dec_int_def abs_if split: if_splits)
  have a: "member_cost (case ce_Allowed e of None \<Rightarrow> [] | Some b \<Rightarrow> [(''allowed'', if b then ''true'' else ''false'')]) \<le> 20"
    by (simp add: plain_key_length [OF k(9)] length_json_string split: option.split)
  note O = member_cost_omit [OF k(7), of "ce_Command e"] member_cost_omit [OF k(8), of "ce_Source e"]
    member_cost_omit [OF k(10), of "ce_Reason e"] member_cost_omit [OF k(11), of "ce_ChangeID e"]
  have "length (marshal_entry e) = member_cost (entry_members e @ [(''hash'', json_string (ce_Hash e))]) + 1"
    using length_members [of "entry_members e @ [(''hash'', json_string (ce_Hash e))]"]
    by (simp add: marshal_entry_def json_object_def member_cost_def)
  then show ?thesis
    using i a O assms(2) k(1-6,12,13) [THEN plain_key_length]
    by (simp add: entry_members_def body_texts_def length_json_string)
qed

section \<open>Properties\<close>

fun append_run :: "chain_cfg \<Rightarrow> (chain_io \<times> chain_entry) list \<Rightarrow> string option \<Rightarrow> string option option" where
  "append_run cfg [] file = Some file"
| "append_run cfg ((io, e) # xs) file =
     (case AppendChain io cfg e file of (None, f') \<Rightarrow> append_run cfg xs f' | (Some _, _) \<Rightarrow> None)"

text \<open>An append that the ledger can take back: no error, valid UTF-8, and room in a line.\<close>

definition good_append :: "chain_cfg \<Rightarrow> chain_io \<times> chain_entry \<Rightarrow> bool" where
  "good_append cfg x \<longleftrightarrow>
     (case x of (io, e) \<Rightarrow>
        no_errors io \<and> valid_entry (stamp_entry io cfg '''' 0 e) \<and> texts_fit (stamp_entry io cfg '''' 0 e))"

lemma stamped_texts:
  "body_texts (sealed io cfg key es e) = butlast (body_texts (stamp_entry io cfg '''' 0 e)) @ [last_hash '''' es]"
  by (simp add: body_texts_def sealed_def seal_entry_def stamp_entry_def)

lemma last_hash_cases:
  assumes "linked key '''' 0 es"
  obtains "last_hash '''' es = ''''" | prev e where "last_hash '''' es = computeHash key prev e"
  using assms linked_last [of key "''''" 0 es] by (cases "es = []") (auto simp: last_hash_def)

lemma last_hash_shape:
  assumes "linked key '''' 0 es"
  shows "valid_utf8 (last_hash '''' es) \<and> length (json_body (last_hash '''' es)) \<le> 64"
proof (cases rule: last_hash_cases [OF assms])
  case 1
  then show ?thesis by (simp add: json_body.simps valid_utf8.simps)
next
  case (2 prev e)
  then show ?thesis using valid_ascii [OF hash_ascii] hash_body hash_length by simp
qed

lemma sealed_linked:
  assumes "linked key '''' 0 es" "int (length es) < 2 ^ 63" "good_append cfg (io, e)"
  shows "linked key '''' 0 (es @ [sealed io cfg key es e])"
proof -
  let ?s = "stamp_entry io cfg '''' 0 e" and ?n = "sealed io cfg key es e"
  have h: "valid_utf8 (last_hash '''' es) \<and> length (json_body (last_hash '''' es)) \<le> 64"
    by (rule last_hash_shape [OF assms(1)])
  have v: "valid_entry ?n" using assms(3) h
    by (simp add: valid_entry_def stamped_texts good_append_def) (simp add: body_texts_def)
  have "sum_list (map (\<lambda>s. length (json_body s)) (body_texts ?n)) \<le> 1000064"
    using assms(3) h unfolding stamped_texts by (simp add: texts_fit_def good_append_def body_texts_def)
  moreover have r: "seq_in_range ?n" using assms(2) by (simp add: seq_in_range_def sealed_def seal_entry_def stamp_entry_def)
  moreover have s: "ce_Hash ?n = computeHash key (last_hash '''' es) ?n"
    by (simp add: sealed_def seal_entry_def stamp_entry_def)
  ultimately have "length (marshal_entry ?n) < chainScanMax"
    using marshal_length [OF r] hash_body [of key _ ?n] hash_length [of key _ ?n] by (simp add: chainScanMax_def)
  then show ?thesis using assms(1) v s by (simp add: linked_append) (simp add: sealed_def seal_entry_def stamp_entry_def)
qed

lemma append_run_linked:
  assumes "linked key '''' 0 es" "int (length es + length xs) < 2 ^ 63" "chain_on cfg key" "list_all (good_append cfg) xs"
    and "fl = Some (ledger_text es) \<or> (fl = None \<and> es = [])" "xs \<noteq> []"
  shows "\<exists>es'. append_run cfg xs fl = Some (Some (ledger_text (es @ es'))) \<and> linked key '''' 0 (es @ es') \<and>
    length es' = length xs \<and> map ce_Command es' = map (ce_Command \<circ> snd) xs"
  using assms
proof (induction xs arbitrary: es fl)
  case (Cons x xs)
  obtain io e where x: "x = (io, e)" by fastforce
  let ?n = "sealed io cfg key es e"
  have g: "good_append cfg (io, e)" using Cons.prems(4) x by simp
  then have n: "no_errors io" by (simp add: good_append_def)
  have a: "AppendChain io cfg e fl = (None, Some (ledger_text (es @ [?n])))"
    using Cons.prems(2,5) by (intro append_ledger [OF Cons.prems(1) _ Cons.prems(3) n]) simp_all
  have l: "linked key '''' 0 (es @ [?n])" using Cons.prems(2) by (intro sealed_linked [OF Cons.prems(1) _ g]) simp
  have c: "ce_Command ?n = ce_Command e" by (simp add: sealed_def seal_entry_def stamp_entry_def)
  show ?case
  proof (cases "xs = []")
    case True
    then show ?thesis using a l c x by (intro exI [of _ "[?n]"]) simp
  next
    case False
    then obtain es' where "append_run cfg xs (Some (ledger_text (es @ [?n]))) = Some (Some (ledger_text ((es @ [?n]) @ es')))"
      "linked key '''' 0 ((es @ [?n]) @ es')" "length es' = length xs" "map ce_Command es' = map (ce_Command \<circ> snd) xs"
      using Cons.IH [OF l, of "Some (ledger_text (es @ [?n]))"] Cons.prems(2-4) by auto
    then show ?thesis using a c x by (intro exI [of _ "?n # es'"]) simp
  qed
qed simp

lemma split_ledger: "split_on newline (ledger_text es) = map marshal_entry es @ [[]]"
  by (induction es) (simp_all add: ledger_text_def split_on_line no_newline_line)

lemma raw_lines_ledger: "raw_lines (ledger_text es) = map marshal_entry es"
  by (simp add: raw_lines_def split_ledger)

lemma verify_linked:
  assumes "linked key prev n es" "0 \<le> n" "n + int (length es) < 2 ^ 63"
  shows "verify_loop key prev k (map marshal_entry es @ ls) =
    verify_loop key (last_hash prev es) (if es = [] then k else ce_Seq (last es)) ls"
  using assms
proof (induction es arbitrary: prev n k)
  case (Cons e es)
  have "seq_in_range e" using Cons.prems by (simp add: seq_in_range_def)
  moreover have "clean_entry e = e" using Cons.prems(1) clean_ascii [OF hash_ascii] by (simp add: clean_valid_entry)
  ultimately have "unmarshal_entry (marshal_entry e) = Some e" using unmarshal_marshal by simp
  moreover note line_nonempty [of e]
  ultimately have "verify_loop key prev k (map marshal_entry (e # es) @ ls) =
      verify_loop key (ce_Hash e) (ce_Seq e) (map marshal_entry es @ ls)"
    using Cons.prems(1) by (auto simp: drop_cr_line trimSpace_line)
  then show ?case using Cons.prems Cons.IH [of "ce_Hash e" "n + 1"] by (auto simp: last_hash_def)
qed (simp add: last_hash_def)

lemma linked_verifies: "linked key [] 0 es \<Longrightarrow> int (length es) < 2 ^ 63 \<Longrightarrow> VerifyChain key (ledger_text es) = VerifyOk"
  using verify_linked [of key "[]" 0 es 0 "[]"] by (simp add: VerifyChain_def raw_lines_ledger)



definition demo_chain_io :: chain_io where
  "demo_chain_io =
     \<lparr>ci_mkdir = None, ci_open = None, ci_lock = None, ci_read = None, ci_write = None, ci_sync = None,
      ci_now = ''2026-01-01T00:00:00Z'', ci_user = ''alice'', ci_host = ''h''\<rparr>"

definition demo_cfg :: chain_cfg where
  "demo_cfg = \<lparr>cc_path = ''ledger'', cc_key = Some ''k'', cc_session = ''s''\<rparr>"

definition demo_event :: "string \<Rightarrow> chain_entry" where
  "demo_event cmd = zero_entry\<lparr>ce_Type := ''event'', ce_Command := cmd\<rparr>"

lemma demo_good: "good_append demo_cfg (demo_chain_io, demo_event ''ls'')"
  by (simp add: good_append_def no_errors_def demo_chain_io_def demo_cfg_def demo_event_def zero_entry_def stamp_entry_def
      valid_entry_def texts_fit_def body_texts_def valid_ascii json_body_plain esc_byte_def)


text \<open>
  C28. The backward read of the ledger is exact. It returns what parsing the last line that is not blank
  returns, and refuses only when that line and the white space after it exceed the scan limit.
\<close>

theorem tail_read_exact:
  "readLastChainLine None (Some content) key = tail_ref content key \<or>
   (readLastChainLine None (Some content) key = Inl CETooLong \<and> chainScanMax < tail_span content)"
  by (rule read_last_ref)

lemma readLast_Inl: "tail_ref c key = Inl x \<Longrightarrow> \<exists>y. readLastChainLine r (Some c) key = Inl y"
  using read_last_ref [of c key] by (cases r) (auto simp: readLastChainLine_def)

lemma append_refused:
  assumes "chain_on cfg key" "tail_ref c key = Inl x"
  shows "\<exists>err. AppendChain io cfg e (Some c) = (Some err, Some c)"
  using readLast_Inl [OF assms(2), of "ci_read io"] assms(1)
  by (auto simp: AppendChain_def chain_on_def Let_def split: option.split)

lemma append_prefix: "\<exists>s. snd (AppendChain io cfg e (Some c)) = Some (c @ s)"
  by (auto simp: AppendChain_def Let_def split: option.split sum.split)

text \<open>
  What an append may chain onto, without the reader: a blank ledger, or one whose last line that is not blank is an entry
  that carries the keyed digest of its own body under its own previous digest. \<open>h\<close> and \<open>n\<close> are the digest
  and number that follow it.
\<close>

definition verified_tail :: "string \<Rightarrow> string \<Rightarrow> string \<Rightarrow> int \<Rightarrow> bool" where
  "verified_tail key c h n \<longleftrightarrow>
     trim_line_end c = '''' \<and> h = '''' \<and> n = 0 \<or>
     trim_line_end c \<noteq> '''' \<and>
     (\<exists>e. unmarshal_entry (trimSpace (after_last_newline (trim_line_end c))) = Some e \<and>
        ce_Hash e = hex_encode (hmac_sha256 key (ce_PrevHash e @ [newline] @ marshal_body e)) \<and>
        h = ce_Hash e \<and> n = int64 (ce_Seq e + 1))"

lemma parse_tail_verified:
  assumes "parseChainTail line key = Inr (h, n)"
  shows "\<exists>e. unmarshal_entry line = Some e \<and> ce_Hash e = hex_encode (hmac_sha256 key (ce_PrevHash e @ [newline] @ marshal_body e)) \<and>
    h = ce_Hash e \<and> n = int64 (ce_Seq e + 1)"
  using assms by (auto simp: parseChainTail_def computeHash_def chain_message_def split: option.splits if_splits)

lemma tail_verified: "tail_ref c key = Inr (h, n) \<Longrightarrow> verified_tail key c h n"
  by (auto simp: tail_ref_def verified_tail_def Let_def dest: parse_tail_verified split: if_splits)

lemma read_verified: "readLastChainLine r (Some c) key = Inr (h, n) \<Longrightarrow> verified_tail key c h n"
  using read_last_ref [of c key] tail_verified by (cases r) (auto simp: readLastChainLine_def)

lemma append_verified:
  assumes "AppendChain io cfg e (Some c) = (err, file)" "chain_on cfg key"
  shows "(\<exists>x. err = Some x \<and> file = Some c) \<or>
    (\<exists>h n. verified_tail key c h n \<and>
      (err = None \<longrightarrow> file = Some (c @ marshal_entry (seal_entry key (stamp_entry io cfg h n e)) @ [newline])))"
proof (cases "readLastChainLine (ci_read io) (Some c) key")
  case (Inl x)
  then show ?thesis using assms by (auto simp: AppendChain_def chain_on_def Let_def split: option.splits)
next
  case (Inr hn)
  obtain h n where hn: "hn = (h, n)" by fastforce
  have "verified_tail key c h n" using read_verified Inr hn by simp
  then show ?thesis using assms Inr hn by (auto simp: AppendChain_def chain_on_def Let_def split: option.splits)
qed

text \<open>
  C29. Appends only append, and only onto a tail that verifies. Whatever the outside answers, the old
  content stays a prefix of the file. With the chain on, when the last line that is not blank is no entry carrying the
  keyed digest of its own body, the append reports an error and leaves the file as it was; and an append that
  reports none has added one line, the entry given, stamped with the digest and the next number of the verified tail
  and sealed over them.
\<close>

theorem append_only:
  assumes "AppendChain io cfg e (Some c) = (err, file)"
  shows "(\<exists>s. file = Some (c @ s)) \<and>
    (\<forall>key. chain_on cfg key \<longrightarrow>
      ((\<nexists>h n. verified_tail key c h n) \<longrightarrow> err \<noteq> None \<and> file = Some c) \<and>
      (err = None \<longrightarrow> (\<exists>h n e'. verified_tail key c h n \<and> file = Some (c @ marshal_entry e' @ [newline]) \<and>
         e' = (stamp_entry io cfg h n e)\<lparr>ce_Hash := hex_encode (hmac_sha256 key (h @ [newline] @ marshal_body e'))\<rparr> \<and>
         ce_PrevHash e' = h \<and> ce_Seq e' = n)))"
proof (intro conjI allI impI)
  show "\<exists>s. file = Some (c @ s)" using append_prefix [of io cfg e c] assms by simp
next
  fix key assume k: "chain_on cfg key"
  show "err \<noteq> None" "file = Some c" if "\<nexists>h n. verified_tail key c h n"
    using append_verified [OF assms k] that by auto
  show "\<exists>h n e'. verified_tail key c h n \<and> file = Some (c @ marshal_entry e' @ [newline]) \<and>
      e' = (stamp_entry io cfg h n e)\<lparr>ce_Hash := hex_encode (hmac_sha256 key (h @ [newline] @ marshal_body e'))\<rparr> \<and>
      ce_PrevHash e' = h \<and> ce_Seq e' = n" if ok: "err = None"
  proof -
    obtain h n where h: "verified_tail key c h n" "file = Some (c @ marshal_entry (seal_entry key (stamp_entry io cfg h n e)) @ [newline])"
      using append_verified [OF assms k] ok by auto
    let ?e = "seal_entry key (stamp_entry io cfg h n e)"
    have "marshal_body ?e = marshal_body (stamp_entry io cfg h n e)" by (simp add: seal_entry_def marshal_body_def entry_members_def)
    then have "?e = (stamp_entry io cfg h n e)\<lparr>ce_Hash := hex_encode (hmac_sha256 key (h @ [newline] @ marshal_body ?e))\<rparr>"
      by (simp add: seal_entry_def computeHash_def chain_message_def) (simp add: stamp_entry_def)
    moreover have "ce_PrevHash ?e = h \<and> ce_Seq ?e = n" by (simp add: seal_entry_def stamp_entry_def)
    ultimately show ?thesis using h by blast
  qed
qed

theorem append_only_witness:
  "(\<exists>err. AppendChain demo_chain_io demo_cfg (demo_event ''ls'') (Some ''x'') = (Some err, Some ''x'')) \<and>
   (\<exists>e'. AppendChain demo_chain_io demo_cfg (demo_event ''ls'') (Some '''') = (None, Some (marshal_entry e' @ [newline])) \<and>
     ce_PrevHash e' = '''' \<and> ce_Seq e' = 0)"
proof
  have "lead_space wide_spaces ''x'' = 0" "lead_space (map rev wide_spaces) ''x'' = 0"
    by (simp_all add: ascii_space_def wide_spaces_def hasPrefix_def)
  then have "trimSpace ''x'' = ''x''" by (simp add: trimSpace_def trim_left_stop)
  moreover have "trim_line_end ''x'' = ''x''" "after_last_newline ''x'' = ''x''"
    by (simp_all add: trim_line_end_def trim_right_set_def after_last_newline_def newline_def)
  moreover have "json_parse ''x'' = None"
    by (simp add: json_parse_def json_space_def read_num_def read_whole_def read_digits_def is_digit_def eval_nat_numeral)
  ultimately have "\<nexists>h n. verified_tail ''k'' ''x'' h n"
    by (simp add: verified_tail_def unmarshal_entry_def)
  moreover obtain er f where a: "AppendChain demo_chain_io demo_cfg (demo_event ''ls'') (Some ''x'') = (er, f)" by fastforce
  moreover have k: "chain_on demo_cfg ''k''" by (simp add: chain_on_def demo_cfg_def)
  ultimately show "\<exists>err. AppendChain demo_chain_io demo_cfg (demo_event ''ls'') (Some ''x'') = (Some err, Some ''x'')"
    using append_only [OF a] by auto
  obtain er f where b: "AppendChain demo_chain_io demo_cfg (demo_event ''ls'') (Some '''') = (er, f)" by fastforce
  have "er = None" using b
    by (auto simp: AppendChain_def demo_chain_io_def demo_cfg_def readLastChainLine_def read_tail.simps trim_line_end_def trim_right_set_def)
  moreover have "h = '''' \<and> n = 0" if "verified_tail ''k'' '''' h n" for h n
    using that by (simp add: verified_tail_def trim_line_end_def trim_right_set_def)
  moreover obtain h n e' where "verified_tail ''k'' '''' h n" "f = Some ('''' @ marshal_entry e' @ [newline])" "ce_PrevHash e' = h" "ce_Seq e' = n"
    using mp [OF spec [OF conjunct2 [OF append_only [OF b]], of "''k''"] k] \<open>er = None\<close> by blast
  ultimately show "\<exists>e'. AppendChain demo_chain_io demo_cfg (demo_event ''ls'') (Some '''') = (None, Some (marshal_entry e' @ [newline])) \<and>
      ce_PrevHash e' = '''' \<and> ce_Seq e' = 0"
    using b by auto
qed

lemma member_cost_clean:
  "member_cost (omit_empty k (json_clean s)) \<le> member_cost (omit_empty k s)"
  "\<not> valid_utf8 s \<Longrightarrow> member_cost (omit_empty k (json_clean s)) < member_cost (omit_empty k s)"
  using body_clean_length [of s] clean_empty_iff [of s]
  by (auto simp: omit_empty_def length_json_string valid_utf8.simps [of "[]"])

lemma body_length_clean:
  assumes "\<not> valid_entry e"
  shows "length (marshal_body (clean_entry e)) < length (marshal_body e)"
proof -
  have l: "length (marshal_body f) = member_cost (entry_members f) + 1" for f
    using length_members [of "entry_members f"] by (simp add: marshal_body_def json_object_def member_cost_def entry_members_def)
  have le: "length (json_body (json_clean s)) \<le> length (json_body s)" for s using body_clean_length by blast
  note LE = le [of "ce_Timestamp e"] le [of "ce_SessionID e"] le [of "ce_User e"] le [of "ce_Hostname e"] le [of "ce_Type e"]
    le [of "ce_PrevHash e"] member_cost_clean(1) [of "''cmd''" "ce_Command e"] member_cost_clean(1) [of "''source''" "ce_Source e"]
    member_cost_clean(1) [of "''reason''" "ce_Reason e"] member_cost_clean(1) [of "''change_id''" "ce_ChangeID e"]
  have ex: "length (json_body (json_clean s)) < length (json_body s)" if "\<not> valid_utf8 s" for s
    using that body_clean_length by blast
  have "length (json_body (json_clean (ce_Timestamp e))) < length (json_body (ce_Timestamp e)) \<or>
      length (json_body (json_clean (ce_SessionID e))) < length (json_body (ce_SessionID e)) \<or>
      length (json_body (json_clean (ce_User e))) < length (json_body (ce_User e)) \<or>
      length (json_body (json_clean (ce_Hostname e))) < length (json_body (ce_Hostname e)) \<or>
      length (json_body (json_clean (ce_Type e))) < length (json_body (ce_Type e)) \<or>
      length (json_body (json_clean (ce_PrevHash e))) < length (json_body (ce_PrevHash e)) \<or>
      member_cost (omit_empty ''cmd'' (json_clean (ce_Command e))) < member_cost (omit_empty ''cmd'' (ce_Command e)) \<or>
      member_cost (omit_empty ''source'' (json_clean (ce_Source e))) < member_cost (omit_empty ''source'' (ce_Source e)) \<or>
      member_cost (omit_empty ''reason'' (json_clean (ce_Reason e))) < member_cost (omit_empty ''reason'' (ce_Reason e)) \<or>
      member_cost (omit_empty ''change_id'' (json_clean (ce_ChangeID e))) < member_cost (omit_empty ''change_id'' (ce_ChangeID e))"
    using assms ex member_cost_clean(2) by (simp add: valid_entry_def body_texts_def) metis
  then show ?thesis using LE unfolding l
    by (simp add: entry_members_def clean_entry_def length_json_string) linarith
qed

text \<open>
  C27. A text that is not valid UTF-8 stops the ledger. The append of such an entry succeeds, but the entry it
  wrote no longer matches its digest when it is read back, because the digest was taken over the escape of
  the replacement character while the entry read back holds the character itself: from then on every append
  of every process is refused, whatever it appends, and the ledger does not verify. The only exception is a
  collision of the digest on the two different messages.
\<close>

theorem ill_formed_text_stops_ledger:
  assumes "linked key '''' 0 es" "int (length es) < 2 ^ 63 - 1" "chain_on cfg key" "no_errors io"
    and "\<not> valid_entry (stamp_entry io cfg '''' 0 e)" "texts_fit (stamp_entry io cfg '''' 0 e)"
  defines "n \<equiv> sealed io cfg key es e"
  defines "c \<equiv> ledger_text (es @ [n])"
  shows "AppendChain io cfg e (Some (ledger_text es)) = (None, Some c) \<and>
    ((\<forall>io' e'. \<exists>err. AppendChain io' cfg e' (Some c) = (Some err, Some c)) \<and> VerifyChain key c = VerifyBad (int (length es)) \<or>
     (chain_message (last_hash '''' es) n \<noteq> chain_message (last_hash '''' es) (clean_entry n) \<and>
      hmac_sha256 key (chain_message (last_hash '''' es) n) =
      hmac_sha256 key (chain_message (last_hash '''' es) (clean_entry n))))"
proof -
  let ?p = "last_hash '''' es"
  have s: "ce_Hash n = computeHash key ?p n" "ce_PrevHash n = ?p" "ce_Seq n = int (length es)"
    by (simp_all add: n_def sealed_def seal_entry_def stamp_entry_def)
  have r: "seq_in_range n" using assms(2) s(3) by (simp add: seq_in_range_def)
  have p: "valid_utf8 ?p \<and> length (json_body ?p) \<le> 64" by (rule last_hash_shape [OF assms(1)])
  have a: "AppendChain io cfg e (Some (ledger_text es)) = (None, Some c)"
    unfolding c_def n_def using assms(2) by (intro append_ledger [OF assms(1) _ assms(3,4)]) simp_all
  have bad: "\<not> valid_entry n"
    using assms(5) p unfolding valid_entry_def n_def stamped_texts by (auto simp: body_texts_def stamp_entry_def valid_utf8.simps [of "[]"])
  have "sum_list (map (\<lambda>s. length (json_body s)) (body_texts n)) \<le> 1000064"
    using assms(6) p unfolding n_def stamped_texts by (simp add: texts_fit_def body_texts_def)
  then have len: "length (marshal_entry n) < chainScanMax"
    using marshal_length [OF r] s(1) hash_body [of key ?p n] hash_length [of key ?p n] by (simp add: chainScanMax_def)
  have m: "chain_message ?p n \<noteq> chain_message ?p (clean_entry n)"
    using body_length_clean [OF bad] by (auto simp: chain_message_def)
  have u: "unmarshal_entry (marshal_entry n) = Some (clean_entry n)" by (rule unmarshal_marshal [OF r])
  have h: "ce_Hash (clean_entry n) = computeHash key ?p n" "ce_PrevHash (clean_entry n) = ?p" "ce_Seq (clean_entry n) = int (length es)"
    using s p clean_valid [of ?p] clean_ascii [OF hash_ascii, of key ?p n] by (simp_all add: clean_entry_def)
  show ?thesis
  proof (cases "hmac_sha256 key (chain_message ?p n) = hmac_sha256 key (chain_message ?p (clean_entry n))")
    case True
    then show ?thesis using a m by simp
  next
    case False
    then have ne: "computeHash key ?p (clean_entry n) \<noteq> computeHash key ?p n" by (auto simp: computeHash_def hex_encode_inject)
    then have "parseChainTail (marshal_entry n) key = Inl (CEHmac (int (length es)))"
      using u h hash_nonempty [of key ?p n] by (simp add: parseChainTail_def)
    then have "tail_ref c key = Inl (CEHmac (int (length es)))"
      using len ledger_text_end [of es] after_last_line [of "ledger_text es" n]
      by (simp add: line_nonempty c_def ledger_text_snoc tail_ref_def trim_line_end_line trimSpace_line)
    moreover have "VerifyChain key c = VerifyBad (int (length es))"
      using verify_linked [OF assms(1), of 0 "[marshal_entry n]"] assms(2) u h ne len
      by (simp add: line_nonempty VerifyChain_def c_def raw_lines_ledger drop_cr_line trimSpace_line)
    ultimately show ?thesis using a append_refused [OF assms(3)] by blast
  qed
qed

theorem ill_formed_text_stops_ledger_witness:
  "\<exists>c n. AppendChain demo_chain_io demo_cfg (demo_event [CHR 0xFF]) (Some '''') = (None, Some c) \<and>
    ((\<forall>io' e'. \<exists>err. AppendChain io' demo_cfg e' (Some c) = (Some err, Some c)) \<and> VerifyChain ''k'' c = VerifyBad 0 \<or>
     (chain_message '''' n \<noteq> chain_message '''' (clean_entry n) \<and>
      hmac_sha256 ''k'' (chain_message '''' n) = hmac_sha256 ''k'' (chain_message '''' (clean_entry n))))"
proof -
  let ?s = "stamp_entry demo_chain_io demo_cfg '''' 0 (demo_event [CHR 0xFF])"
  have texts: "body_texts ?s = [''2026-01-01T00:00:00Z'', ''s'', ''alice'', ''h'', ''event'', [CHR 0xFF], '''', '''', '''', '''']"
    by (simp add: body_texts_def stamp_entry_def demo_chain_io_def demo_cfg_def demo_event_def zero_entry_def)
  have "\<not> valid_entry ?s" by (simp add: valid_entry_def texts valid_utf8.simps)
  moreover have "json_body [CHR 0xFF] = [backslash, CHR ''u'', CHR ''f'', CHR ''f'', CHR ''f'', CHR ''d'']"
    by (simp add: json_body.simps json_rune_def)
  then have "texts_fit ?s" by (simp add: texts_fit_def texts json_body_plain esc_byte_def)
  moreover have "chain_on demo_cfg ''k''" "no_errors demo_chain_io"
    by (simp_all add: chain_on_def demo_cfg_def no_errors_def demo_chain_io_def)
  moreover have "last_hash '''' [] = ''''" "ledger_text [] = ''''" by (simp_all add: last_hash_def ledger_text_def)
  ultimately show ?thesis
    using ill_formed_text_stops_ledger [of "''k''" "[]" demo_cfg demo_chain_io "demo_event [CHR 0xFF]"] by fastforce
qed

section \<open>Tampering\<close>

definition entries_of :: "string \<Rightarrow> chain_entry list" where
  "entries_of content =
     List.map_filter (\<lambda>l. if trimSpace (drop_cr l) = [] then None else unmarshal_entry (drop_cr l)) (raw_lines content)"

definition signed :: "chain_entry \<Rightarrow> string \<times> string" where
  "signed e = (marshal_body e, ce_Hash e)"

fun chained :: "string \<Rightarrow> string \<Rightarrow> chain_entry list \<Rightarrow> bool" where
  "chained key prev [] \<longleftrightarrow> True"
| "chained key prev (e # es) \<longleftrightarrow> ce_Hash e = computeHash key prev e \<and> chained key (ce_Hash e) es"

fun messages :: "string \<Rightarrow> chain_entry list \<Rightarrow> string set" where
  "messages prev [] = {}"
| "messages prev (e # es) = insert (chain_message prev e) (messages (ce_Hash e) es)"

lemma chained_snoc:
  "chained key prev (es @ [e]) \<longleftrightarrow> chained key prev es \<and> ce_Hash e = computeHash key (last_hash prev es) e"
  by (induction es arbitrary: prev) (auto simp: last_hash_def)

lemma messages_snoc: "messages prev (es @ [e]) = insert (chain_message (last_hash prev es) e) (messages prev es)"
  by (induction es arbitrary: prev) (auto simp: last_hash_def)

lemma verify_chained:
  "verify_loop key prev k ls = VerifyOk \<Longrightarrow>
   chained key prev (List.map_filter (\<lambda>l. if trimSpace (drop_cr l) = [] then None else unmarshal_entry (drop_cr l)) ls)"
  by (induction key prev k ls rule: verify_loop.induct) (auto simp: map_filter_simps split: if_splits option.splits)

lemma chained_last: "chained key '''' es \<Longrightarrow> es \<noteq> [] \<Longrightarrow> \<exists>p e. last_hash '''' es = computeHash key p e"
  by (cases es rule: rev_cases) (auto simp: chained_snoc last_hash_def)

lemma chain_message_inject:
  assumes "newline \<notin> set p" "newline \<notin> set q" "chain_message p e = chain_message q f"
  shows "p = q \<and> marshal_body e = marshal_body f"
  using assms split_on_line [of newline p "marshal_body e"] split_on_line [of newline q "marshal_body f"]
  by (auto simp: chain_message_def)

lemma last_hash_no_newline: "chained key '''' es \<Longrightarrow> newline \<notin> set (last_hash '''' es)"
  using chained_last [of key es] hash_no_newline by (cases "es = []") (auto simp: last_hash_def)

definition collision :: "string \<Rightarrow> string set \<Rightarrow> bool" where
  "collision key M \<longleftrightarrow> (\<exists>m \<in> M. \<exists>m' \<in> M. m \<noteq> m' \<and> hmac_sha256 key m = hmac_sha256 key m')"

lemma collision_mono: "collision key M \<Longrightarrow> M \<subseteq> N \<Longrightarrow> collision key N"
  by (auto simp: collision_def)

lemma chained_determined:
  assumes "chained key '''' es" "chained key '''' fs" "es \<noteq> []" "fs \<noteq> []" "ce_Hash (last es) = ce_Hash (last fs)"
    and "\<not> collision key (messages '''' es \<union> messages '''' fs)"
  shows "map signed es = map signed fs"
  using assms
proof (induction es arbitrary: fs rule: rev_induct)
  case (snoc e es)
  obtain gs f where fs: "fs = gs @ [f]" using snoc.prems(4) by (cases fs rule: rev_cases) auto
  let ?p = "last_hash '''' es" and ?q = "last_hash '''' gs"
  have c: "chained key '''' es" "chained key '''' gs" "ce_Hash e = computeHash key ?p e" "ce_Hash f = computeHash key ?q f"
    using snoc.prems(1,2) by (simp_all add: fs chained_snoc)
  have "hmac_sha256 key (chain_message ?p e) = hmac_sha256 key (chain_message ?q f)"
    using snoc.prems(5) c(3,4) by (simp add: fs computeHash_def hex_encode_inject)
  moreover have "chain_message ?p e \<in> messages '''' (es @ [e])" "chain_message ?q f \<in> messages '''' fs"
    by (simp_all add: fs messages_snoc)
  ultimately have "chain_message ?p e = chain_message ?q f" using snoc.prems(6) unfolding collision_def by blast
  then have b: "?p = ?q" "marshal_body e = marshal_body f"
    using chain_message_inject last_hash_no_newline c(1,2) by blast+
  have s: "signed e = signed f" using b snoc.prems(5) by (simp add: signed_def fs)
  have nil: "es = [] \<longleftrightarrow> gs = []"
    using b(1) chained_last [OF c(1)] chained_last [OF c(2)] hash_nonempty by (metis last_hash_def)
  show ?case
  proof (cases "es = []")
    case False
    then have "ce_Hash (last es) = ce_Hash (last gs)" using b(1) nil by (simp add: last_hash_def)
    moreover have "\<not> collision key (messages '''' es \<union> messages '''' gs)"
    proof -
      have "messages '''' es \<union> messages '''' gs \<subseteq> messages '''' (es @ [e]) \<union> messages '''' fs"
        by (auto simp: fs messages_snoc)
      then show ?thesis using snoc.prems(6) collision_mono by blast
    qed
    ultimately have "map signed es = map signed gs" using snoc.IH [OF c(1,2)] False nil by blast
    then show ?thesis using s by (simp add: fs)
  qed (use nil s fs in simp)
qed simp

text \<open>
  C26. The last digest of a ledger determines the ledger. Two ledgers that verify under one key and end in
  the same digest carry the same entries, with the same signed text in the same order: nothing before the
  last entry can be changed, dropped, inserted or reordered, unless two different messages of the two
  ledgers have the same digest.
\<close>

theorem tamper_evident:
  assumes "VerifyChain key a = VerifyOk" "VerifyChain key b = VerifyOk" "entries_of a \<noteq> []" "entries_of b \<noteq> []"
    and "ce_Hash (last (entries_of a)) = ce_Hash (last (entries_of b))"
  shows "map signed (entries_of a) = map signed (entries_of b) \<or>
    collision key (messages '''' (entries_of a) \<union> messages '''' (entries_of b))"
  using chained_determined [OF _ _ assms(3-5), of key] verify_chained assms(1,2)
  unfolding VerifyChain_def entries_of_def by blast

lemma entries_ledger:
  assumes "linked key '''' 0 es" "int (length es) < 2 ^ 63"
  shows "entries_of (ledger_text es) = es"
proof -
  have "List.map_filter (\<lambda>l. if trimSpace (drop_cr l) = [] then None else unmarshal_entry (drop_cr l)) (map marshal_entry fs) = fs"
    if "linked key p n fs" "0 \<le> n" "n + int (length fs) < 2 ^ 63" for p n fs
    using that
  proof (induction fs arbitrary: p n)
    case (Cons f fs)
    have "seq_in_range f" using Cons.prems by (simp add: seq_in_range_def)
    moreover have "clean_entry f = f" using Cons.prems(1) clean_ascii [OF hash_ascii] by (simp add: clean_valid_entry)
    ultimately have "unmarshal_entry (marshal_entry f) = Some f" using unmarshal_marshal by simp
    then show ?case using Cons.prems Cons.IH [of "ce_Hash f" "n + 1"]
      by (auto simp: map_filter_simps drop_cr_line trimSpace_line line_nonempty)
  qed (simp add: map_filter_simps)
  then show ?thesis using assms by (simp add: entries_of_def raw_lines_ledger)
qed

theorem tamper_evident_witness:
  "\<exists>a. VerifyChain ''k'' a = VerifyOk \<and> entries_of a \<noteq> [] \<and>
    (map signed (entries_of a) = map signed (entries_of a) \<or> collision ''k'' (messages '''' (entries_of a) \<union> messages '''' (entries_of a)))"
proof -
  let ?n = "sealed demo_chain_io demo_cfg ''k'' [] (demo_event ''ls'')"
  have l: "linked ''k'' '''' 0 [?n]" using sealed_linked [of "''k''" "[]", OF _ _ demo_good] by simp
  then have "VerifyChain ''k'' (ledger_text [?n]) = VerifyOk" "entries_of (ledger_text [?n]) = [?n]"
    using linked_verifies [OF l] entries_ledger [OF l] by simp_all
  then show ?thesis using tamper_evident [of "''k''" "ledger_text [?n]" "ledger_text [?n]"] by (intro exI [of _ "ledger_text [?n]"]) simp
qed

section \<open>A torn write\<close>

lemma read_object:
  assumes "ms \<noteq> []" "list_all (\<lambda>(k, vt, v). reads vt v) ms" "Suc (length ms) \<le> n" "d < maxNestingDepth"
  shows "read_value (Suc n) d (json_object (map (\<lambda>(k, vt, v). (k, vt)) ms) @ t) = Some (JObj (map (\<lambda>(k, vt, v). (json_clean k, v)) ms), t)"
proof -
  let ?ms = "map (\<lambda>(k, vt, v). (k, vt)) ms"
  obtain u where q: "json_members ?ms = quote # u"
    using assms(1) by (cases ?ms rule: json_members.cases) (auto simp: json_string_def)
  then have "skip (json_members ?ms @ t) = quote # u @ t" for t by (simp add: json_space_def)
  then show ?thesis
    using read_members_written [OF assms(1-3), of "Suc d" t] assms(4)
    by (simp add: json_object_def json_space_def)
qed

lemma two_objects: "unmarshal_entry (marshal_entry e @ marshal_entry f) = None"
proof -
  let ?s = "marshal_entry e @ marshal_entry f"
  have "length (entry_triples e) \<le> length (marshal_entry e)"
    using json_members_length [of "map (\<lambda>(k, w, v). (k, w)) (entry_triples e)"]
    by (simp add: marshal_entry_def json_object_def triples_members [symmetric])
  then have n: "Suc (length (entry_triples e)) \<le> Suc (2 * length ?s)" by simp
  have ne: "entry_triples e \<noteq> []" by (simp add: entry_triples_def)
  obtain v where "read_value (Suc (Suc (2 * length ?s))) 0 ?s = Some (v, marshal_entry f)"
    using read_object [OF ne triples_read n, of 0 "marshal_entry f"] by (simp add: triples_members marshal_entry_def maxNestingDepth_def)
  moreover have "skip (marshal_entry f) \<noteq> []"
    by (rule line_shape [of f]) (simp add: json_space_def)
  ultimately have "json_parse ?s = None" by (simp add: json_parse_def del: read_value.simps)
  then show ?thesis by (simp add: unmarshal_entry_def)
qed

lemma read_last_unterminated:
  assumes "c = [] \<or> last c = newline" "length (marshal_entry e) < chainScanMax"
  shows "readLastChainLine None (Some (c @ marshal_entry e)) key = parseChainTail (marshal_entry e) key"
proof -
  have a: "after_last_newline (c @ marshal_entry e) = marshal_entry e" by (rule after_last_line [OF assms(1)])
  have "tail_span (c @ marshal_entry e) = length (marshal_entry e)"
    by (simp add: tail_span_def trim_line_end_line a)
  moreover have "tail_ref (c @ marshal_entry e) key = parseChainTail (marshal_entry e) key"
    using assms(2) by (simp add: tail_ref_def trim_line_end_line a trimSpace_line line_nonempty)
  ultimately show ?thesis using read_last_ref [of "c @ marshal_entry e" key] assms(2) by auto
qed

lemma trimSpace_two: "trimSpace (marshal_entry e @ marshal_entry f) = marshal_entry e @ marshal_entry f"
proof -
  obtain x y where x: "marshal_entry e = CHR ''{'' # x" "marshal_entry f = y @ [CHR ''}'']"
    by (metis append_Cons line_shape)
  have "lead_space wide_spaces (CHR ''{'' # s) = 0" "lead_space (map rev wide_spaces) (CHR ''}'' # s) = 0" for s
    by (simp_all add: ascii_space_def wide_spaces_def hasPrefix_def)
  then show ?thesis by (simp add: trimSpace_def x trim_left_stop)
qed

text \<open>
  A write that loses only the newline stops the ledger one append later. Its line still verifies, so the
  next append succeeds and joins its own object to that line; the joined line does not parse, so every later
  append of every process is refused, and verification reports a parse error.
\<close>

theorem lost_newline_stops_ledger:
  assumes "linked key '''' 0 es" "int (length es) < 2 ^ 63 - 1" "chain_on cfg key"
    and "good_append cfg (io1\<lparr>ci_write := None\<rparr>, e1)" "good_append cfg (io2, e2)"
    and "ci_write io1 = Some (length (marshal_entry (sealed io1 cfg key es e1)), err)"
  shows "\<exists>c1 c2. AppendChain io1 cfg e1 (Some (ledger_text es)) = (Some (CEIO err), Some c1) \<and>
    AppendChain io2 cfg e2 (Some c1) = (None, Some c2) \<and>
    (\<forall>io e. \<exists>err. AppendChain io cfg e (Some c2) = (Some err, Some c2)) \<and> VerifyChain key c2 \<noteq> VerifyOk"
proof -
  let ?p = "last_hash '''' es" and ?io = "io1\<lparr>ci_write := None\<rparr>"
  define n1 where "n1 = sealed io1 cfg key es e1"
  define n2 where "n2 = seal_entry key (stamp_entry io2 cfg (ce_Hash n1) (int (length es) + 1) e2)"
  let ?c1 = "ledger_text es @ marshal_entry n1"
  let ?c2 = "?c1 @ marshal_entry n2 @ [newline]"
  have same: "sealed ?io cfg key es e1 = n1" by (simp add: n1_def sealed_def stamp_entry_def)
  have n: "no_errors ?io" "no_errors io2" using assms(4,5) by (simp_all add: good_append_def)
  have l: "linked key '''' 0 (es @ [n1])" using sealed_linked [OF assms(1) _ assms(4)] assms(2) same by simp
  then have k: "linked key ?p (int (length es)) [n1]" by (simp add: linked_append)
  have r: "readLastChainLine None (Some (ledger_text es)) key = Inr (?p, int (length es))"
    using read_last_ledger [OF assms(1)] assms(2) by simp
  have a1: "AppendChain io1 cfg e1 (Some (ledger_text es)) = (Some (CEIO err), Some ?c1)"
    using n(1) assms(3,6) r by (simp add: AppendChain_def chain_on_def no_errors_def sealed_def n1_def Let_def)
  have "seq_in_range n1" using k assms(2) by (simp add: seq_in_range_def)
  then have "parseChainTail (marshal_entry n1) key = Inr (ce_Hash n1, int (length es) + 1)"
    using k parse_sealed [of n1 key] assms(2) by (simp add: int64_id)
  then have "readLastChainLine None (Some ?c1) key = Inr (ce_Hash n1, int (length es) + 1)"
    using k read_last_unterminated [OF ledger_text_end, of n1 es key] by simp
  then have a2: "AppendChain io2 cfg e2 (Some ?c1) = (None, Some ?c2)"
    using n(2) assms(3) by (simp add: AppendChain_def chain_on_def no_errors_def n2_def Let_def)
  have al: "after_last_newline (?c1 @ marshal_entry n2) = marshal_entry n1 @ marshal_entry n2"
    using after_last_line [OF ledger_text_end] no_newline_line [of n2] by (simp add: after_last_append del: append_assoc)
  have "\<exists>x. tail_ref ?c2 key = Inl x"
    using trim_line_end_line(1) [of ?c1 n2] al
    by (auto simp: tail_ref_def Let_def line_nonempty trimSpace_two parseChainTail_def two_objects simp del: append_assoc)
  then have stop: "\<forall>io e. \<exists>err. AppendChain io cfg e (Some ?c2) = (Some err, Some ?c2)" using append_refused [OF assms(3)] by blast
  have "split_on newline (ledger_text es @ x) = map marshal_entry es @ split_on newline x" for x
    by (induction es) (simp_all add: ledger_text_def split_on_line no_newline_line)
  moreover have "split_on newline (marshal_entry n1 @ marshal_entry n2 @ [newline]) = [marshal_entry n1 @ marshal_entry n2, []]"
    using split_on_line [of newline "marshal_entry n1 @ marshal_entry n2" "[]"] no_newline_line by simp
  ultimately have "raw_lines ?c2 = map marshal_entry es @ [marshal_entry n1 @ marshal_entry n2]" by (simp add: raw_lines_def butlast_append)
  moreover have "drop_cr (marshal_entry n1 @ marshal_entry n2) = marshal_entry n1 @ marshal_entry n2"
    by (rule line_shape [of n2]) (simp add: drop_cr_def)
  ultimately have "VerifyChain key ?c2 \<noteq> VerifyOk"
    using verify_linked [OF assms(1), of 0 "[marshal_entry n1 @ marshal_entry n2]"] assms(2)
    by (simp add: VerifyChain_def trimSpace_two line_nonempty two_objects)
  then show ?thesis using a1 a2 stop by blast
qed

theorem lost_newline_stops_ledger_witness:
  "\<exists>io c1 c2. AppendChain io demo_cfg (demo_event ''ls'') (Some '''') = (Some (CEIO ''no space left on device''), Some c1) \<and>
    AppendChain demo_chain_io demo_cfg (demo_event ''ls'') (Some c1) = (None, Some c2) \<and> VerifyChain ''k'' c2 \<noteq> VerifyOk"
proof -
  let ?n = "length (marshal_entry (sealed demo_chain_io demo_cfg ''k'' [] (demo_event ''ls'')))"
  let ?io = "demo_chain_io\<lparr>ci_write := Some (?n, ''no space left on device'')\<rparr>"
  have "?io\<lparr>ci_write := None\<rparr> = demo_chain_io" by (simp add: demo_chain_io_def)
  then have g: "good_append demo_cfg (?io\<lparr>ci_write := None\<rparr>, demo_event ''ls'')" using demo_good by simp
  have "sealed ?io demo_cfg ''k'' [] (demo_event ''ls'') = sealed demo_chain_io demo_cfg ''k'' [] (demo_event ''ls'')"
    by (simp add: sealed_def stamp_entry_def)
  then show ?thesis
    using lost_newline_stops_ledger [of "''k''" "[]", OF _ _ _ g demo_good] by (auto simp: chain_on_def demo_cfg_def ledger_text_def)
qed

section \<open>The key file\<close>

text \<open>
  \<^verbatim>\<open>loadOrCreateChainKey\<close>, run by processes that may start together. \<open>seen\<close> is the key file at the first
  read, \<open>cur\<close> the key file when the temporary file is linked; the second result is the key file
  afterwards. The link fails when the file exists.
\<close>

record key_io =
  ki_read :: go_error
  ki_mkdir :: go_error
  ki_rand :: "string + string"
  ki_temp :: go_error
  ki_link :: go_error
  ki_reread :: go_error
  ki_sync :: go_error

datatype key_err = KeyUnusable "string option" | KeyCreate string

definition readChainKey :: "go_error \<Rightarrow> string \<Rightarrow> key_err + string" where
  "readChainKey err d =
     (case err of
        Some e \<Rightarrow> Inl (KeyUnusable (Some e))
      | None \<Rightarrow> if length d \<noteq> 32 then Inl (KeyUnusable None) else Inr d)"

definition loadOrCreateChainKey :: "key_io \<Rightarrow> string option \<Rightarrow> string option \<Rightarrow> (key_err + string) \<times> string option" where
  "loadOrCreateChainKey io seen cur =
     (case seen of
        Some d \<Rightarrow> (readChainKey (ki_read io) d, cur)
      | None \<Rightarrow>
          (case (ki_mkdir io, ki_rand io, ki_temp io) of
             (Some e, _, _) \<Rightarrow> (Inl (KeyCreate (''create key dir: '' @ e)), cur)
           | (None, Inl e, _) \<Rightarrow> (Inl (KeyCreate (''generate key: '' @ e)), cur)
           | (None, Inr key, Some e) \<Rightarrow> (Inl (KeyCreate (''write key: '' @ e)), cur)
           | (None, Inr key, None) \<Rightarrow>
               (case cur of
                  Some d \<Rightarrow> (readChainKey (ki_reread io) d, cur)
                | None \<Rightarrow>
                    (case ki_link io of
                       Some e \<Rightarrow> (Inl (KeyCreate (''write key: '' @ e)), cur)
                     | None \<Rightarrow>
                         (case ki_sync io of
                            Some e \<Rightarrow> (Inl (KeyCreate (''sync key dir: '' @ e)), Some key)
                          | None \<Rightarrow> (Inr key, Some key))))))"

text \<open>
  A schedule of starting processes: each read the key file at some earlier moment, so it saw either no file
  or the file that is there now.
\<close>

fun key_run :: "(key_io \<times> bool) list \<Rightarrow> string option \<Rightarrow> (key_err + string) list \<times> string option" where
  "key_run [] cur = ([], cur)"
| "key_run ((io, early) # ps) cur =
     (let (r, cur') = loadOrCreateChainKey io (if early then None else cur) cur;
          (rs, fin) = key_run ps cur'
      in (r # rs, fin))"

lemma key_stays: "loadOrCreateChainKey io seen (Some d) = (r, cur') \<Longrightarrow> cur' = Some d"
  by (auto simp: loadOrCreateChainKey_def split: option.splits sum.splits)

lemma key_returned:
  assumes "loadOrCreateChainKey io seen cur = (Inr k, cur')" "seen = None \<or> seen = cur" "\<forall>x. ki_rand io = Inr x \<longrightarrow> length x = 32"
  shows "cur' = Some k \<and> length k = 32"
  using assms by (auto simp: loadOrCreateChainKey_def readChainKey_def split: option.splits sum.splits if_splits)

lemma key_run_stays: "key_run ps (Some d) = (rs, fin) \<Longrightarrow> fin = Some d"
  by (induction ps arbitrary: rs) (auto split: prod.splits dest!: key_stays)

text \<open>
  Processes that start together agree on the key. Whatever fails and in whatever order they run, a key
  file that exists is never replaced, and every process that gets a key gets the 32 bytes in the file.
\<close>

theorem key_agreement:
  assumes "\<forall>(io, early) \<in> set ps. \<forall>x. ki_rand io = Inr x \<longrightarrow> length x = 32" "key_run ps cur = (rs, fin)"
  shows "(\<forall>d. cur = Some d \<longrightarrow> fin = Some d) \<and> (\<forall>k. Inr k \<in> set rs \<longrightarrow> fin = Some k \<and> length k = 32)"
proof -
  have "fin = Some k \<and> length k = 32" if "Inr k \<in> set rs" for k
    using assms that
  proof (induction ps arbitrary: cur rs)
    case (Cons p ps)
    obtain io early where p: "p = (io, early)" by fastforce
    obtain r cur' rs' where s: "loadOrCreateChainKey io (if early then None else cur) cur = (r, cur')" "key_run ps cur' = (rs', fin)" "rs = r # rs'"
      using Cons.prems(2) by (auto simp: p split: prod.splits)
    show ?case
    proof (cases "r = Inr k")
      case True
      then have "cur' = Some k \<and> length k = 32" using s(1) Cons.prems(1) p by (intro key_returned) (auto split: if_splits)
      then show ?thesis using s(2) key_run_stays by blast
    next
      case False
      then show ?thesis using Cons.IH [OF _ s(2)] Cons.prems(1,3) s(3) by auto
    qed
  qed simp
  then show ?thesis using key_run_stays assms(2) by blast
qed

definition demo_key_io :: "char \<Rightarrow> key_io" where
  "demo_key_io c =
     \<lparr>ki_read = None, ki_mkdir = None, ki_rand = Inr (replicate 32 c), ki_temp = None, ki_link = None, ki_reread = None,
      ki_sync = None\<rparr>"

theorem key_agreement_witness:
  "snd (key_run [(demo_key_io (CHR ''a''), True), (demo_key_io (CHR ''b''), True)] None) = Some (replicate 32 (CHR ''a''))"
proof -
  obtain rs fin where r: "key_run [(demo_key_io (CHR ''a''), True), (demo_key_io (CHR ''b''), True)] None = (rs, fin)" by fastforce
  then have "Inr (replicate 32 (CHR ''a'')) \<in> set rs"
    by (auto simp: demo_key_io_def loadOrCreateChainKey_def split: prod.splits)
  then show ?thesis
    using key_agreement [of "[(demo_key_io (CHR ''a''), True), (demo_key_io (CHR ''b''), True)]" None rs fin] r
    by (simp add: demo_key_io_def)
qed

end
