(* ===== verification/AuditLog.thy ===== *)
theory AuditLog
  imports AuditChain Policy
begin

text \<open>
  The audit log of an engine, \<^verbatim>\<open>security/audit.go\<close>: every record goes to the flat log and then to the
  HMAC chain, each synced, and only after both succeeded to syslog and to the remote sink. The redaction of
  secrets and the quoting of \<^verbatim>\<open>%q\<close> are functions of the environment; nothing is assumed about them.
\<close>

section \<open>State and environment\<close>

record audit =
  au_file :: "string option"
  au_cfg :: chain_cfg
  au_ledger :: "string option"
  au_change :: string
  au_syslog :: "(bool \<times> string) list option"
  au_url :: string
  au_posts :: "(string \<times> gval) list list"
  au_calls :: nat

text \<open>
  What the outside answers to one record: the time stamps, how many bytes of the line were written when the
  write fails, the sync, and the answers to the append to the chain.
\<close>

record log_io =
  li_stamp :: string
  li_time :: string
  li_write :: "(nat \<times> string) option"
  li_sync :: go_error
  li_chain :: chain_io

record log_env =
  le_redact :: "string \<Rightarrow> string"
  le_quote :: "string \<Rightarrow> string"
  le_io :: "nat \<Rightarrow> log_io"

datatype log_err = LEFile string | LEChain chain_err

section \<open>Records\<close>

definition parseSyslogFacility :: "string \<Rightarrow> nat" where
  "parseSyslogFacility s =
     (let w = toLower s
      in if w = ''1'' \<or> w = ''auth'' then 4
         else if w = ''daemon'' then 3
         else if w = ''local0'' then 16
         else if w = ''local1'' then 17
         else if w = ''local2'' then 18
         else if w = ''local3'' then 19
         else if w = ''local4'' then 20
         else if w = ''local5'' then 21
         else if w = ''local6'' then 22
         else if w = ''local7'' then 23
         else 4)"

definition isSyslogWarning :: "string \<Rightarrow> bool" where
  "isSyslogWarning event =
     (let lower = toLower event
      in contains_sub lower ''error'' \<or> contains_sub lower ''fail'' \<or> contains_sub lower ''deny'' \<or>
         contains_sub lower ''restrict'')"

definition audit_line :: "string \<Rightarrow> string \<Rightarrow> string" where
  "audit_line stamp message =
     ''AUDIT: '' @ stamp @ '' '' @ (if hasSuffix message [newline] then message else message @ [newline])"

definition writeAuditLine :: "log_io \<Rightarrow> string \<Rightarrow> audit \<Rightarrow> go_error \<times> audit" where
  "writeAuditLine io message au =
     (case au_file au of
        None \<Rightarrow> (None, au)
      | Some content \<Rightarrow>
          (let line = audit_line (li_stamp io) message
           in case li_write io of
                Some (n, e) \<Rightarrow> (Some e, au\<lparr>au_file := Some (content @ take n line)\<rparr>)
              | None \<Rightarrow> (li_sync io, au\<lparr>au_file := Some (content @ line)\<rparr>)))"

definition dispatchAuditEvent :: "log_io \<Rightarrow> (string \<times> gval) list \<Rightarrow> audit \<Rightarrow> audit" where
  "dispatchAuditEvent io payload au =
     (if au_url au = '''' then au else au\<lparr>au_posts := au_posts au @ [payload @ [(''time'', GStr (li_time io))]]\<rparr>)"

text \<open>
  The two durable writes every record starts with, and what follows them when both succeeded.
\<close>

definition log_both ::
  "log_env \<Rightarrow> string \<Rightarrow> (audit \<Rightarrow> chain_entry) \<Rightarrow> (log_io \<Rightarrow> audit \<Rightarrow> audit) \<Rightarrow> audit \<Rightarrow> log_err option \<times> audit" where
  "log_both env line entry after au =
     (let io = le_io env (au_calls au);
          au = au\<lparr>au_calls := Suc (au_calls au)\<rparr>
      in case writeAuditLine io line au of
           (Some e, au) \<Rightarrow> (Some (LEFile e), au)
         | (None, au) \<Rightarrow>
             (case AppendChain (li_chain io) (au_cfg au) (entry au) (au_ledger au) of
                (Some e, ledger) \<Rightarrow> (Some (LEChain e), au\<lparr>au_ledger := ledger\<rparr>)
              | (None, ledger) \<Rightarrow> (None, after io (au\<lparr>au_ledger := ledger\<rparr>))))"

definition LogCommand :: "log_env \<Rightarrow> string \<Rightarrow> string \<Rightarrow> audit \<Rightarrow> log_err option \<times> audit" where
  "LogCommand env source cmd =
     (let cmd = le_redact env cmd
      in log_both env (''['' @ source @ ''] '' @ cmd @ [newline])
           (\<lambda>au. zero_entry\<lparr>ce_Type := ''cmd'', ce_Source := source, ce_Command := cmd, ce_ChangeID := au_change au\<rparr>)
           (\<lambda>io. dispatchAuditEvent io [(''type'', GStr ''command''), (''source'', GStr source), (''command'', GStr cmd)]))"

definition syslog_event :: "string \<Rightarrow> audit \<Rightarrow> audit" where
  "syslog_event event au =
     (case au_syslog au of None \<Rightarrow> au | Some l \<Rightarrow> au\<lparr>au_syslog := Some (l @ [(isSyslogWarning event, event)])\<rparr>)"

definition LogEvent :: "log_env \<Rightarrow> string \<Rightarrow> audit \<Rightarrow> log_err option \<times> audit" where
  "LogEvent env event =
     (let event = le_redact env event
      in log_both env event
           (\<lambda>au. zero_entry\<lparr>ce_Type := ''event'', ce_Command := event, ce_ChangeID := au_change au\<rparr>)
           (\<lambda>io. syslog_event event))"

definition bool_text :: "bool \<Rightarrow> string" where
  "bool_text b = (if b then ''true'' else ''false'')"

definition decision_line :: "log_env \<Rightarrow> string \<Rightarrow> string \<Rightarrow> bool \<Rightarrow> string \<Rightarrow> string \<Rightarrow> string \<Rightarrow> string" where
  "decision_line env user command allowed denyReason rule entitlement =
     ''[POLICY] user='' @ user @ '' command='' @ command @ '' allowed='' @ bool_text allowed @ '' reason='' @
     le_quote env denyReason @
     (if rule \<noteq> '''' \<or> entitlement \<noteq> '''' then '' rule='' @ le_quote env rule @ '' required_entitlement='' @ le_quote env entitlement
      else '''')"

definition chain_reason :: "string \<Rightarrow> string \<Rightarrow> string \<Rightarrow> string" where
  "chain_reason denyReason rule entitlement =
     (if rule \<noteq> '''' \<or> entitlement \<noteq> '''' then
        join ((if denyReason \<noteq> '''' then [denyReason] else []) @ (if rule \<noteq> '''' then [''rule='' @ rule] else []) @
              (if entitlement \<noteq> '''' then [''required_entitlement='' @ entitlement] else [])) '' ''
      else denyReason)"

definition LogPolicyDecisionDetail :: "log_env \<Rightarrow> string \<Rightarrow> string \<Rightarrow> policy_decision \<Rightarrow> audit \<Rightarrow> log_err option \<times> audit" where
  "LogPolicyDecisionDetail env user command d =
     (let command = le_redact env command;
          denyReason = le_redact env (pd_DenyReason d);
          rule = le_redact env (pd_Rule d);
          entitlement = le_redact env (pd_RequiredEntitlement d)
      in log_both env (decision_line env user command (pd_Allowed d) denyReason rule entitlement @ [newline])
           (\<lambda>au. zero_entry\<lparr>ce_Type := ''policy'', ce_User := user, ce_Command := command, ce_Allowed := Some (pd_Allowed d),
                  ce_Reason := chain_reason denyReason rule entitlement, ce_ChangeID := au_change au\<rparr>)
           (\<lambda>io. dispatchAuditEvent io
              ([(''type'', GStr ''policy_decision''), (''user'', GStr user), (''command'', GStr command),
                (''allowed'', GBool (pd_Allowed d)), (''deny_reason'', GStr denyReason)] @
               (if rule \<noteq> '''' then [(''rule'', GStr rule)] else []) @
               (if entitlement \<noteq> '''' then [(''required_entitlement'', GStr entitlement)] else []))))"

definition LogPolicyDecision :: "log_env \<Rightarrow> string \<Rightarrow> string \<Rightarrow> bool \<Rightarrow> string \<Rightarrow> audit \<Rightarrow> log_err option \<times> audit" where
  "LogPolicyDecision env user command allowed denyReason =
     LogPolicyDecisionDetail env user command (no_decision\<lparr>pd_Allowed := allowed, pd_DenyReason := denyReason\<rparr>)"

definition LogCMTicket :: "log_env \<Rightarrow> string \<Rightarrow> audit \<Rightarrow> log_err option \<times> audit" where
  "LogCMTicket env ticketID =
     log_both env (''[CM] ticket='' @ ticketID @ [newline])
       (\<lambda>au. zero_entry\<lparr>ce_Type := ''cm'', ce_Reason := ticketID, ce_ChangeID := ticketID\<rparr>) (\<lambda>io au. au)"

definition SetAuditChangeID :: "string \<Rightarrow> audit \<Rightarrow> audit" where
  "SetAuditChangeID cid au = au\<lparr>au_change := cid\<rparr>"

definition SetAuditSession :: "string \<Rightarrow> audit \<Rightarrow> audit" where
  "SetAuditSession sid au = au\<lparr>au_cfg := (au_cfg au)\<lparr>cc_session := sid\<rparr>\<rparr>"

text \<open>\<^verbatim>\<open>joinDeny\<close>: a denial with the error of its own record, if that failed.\<close>

record denial_msg =
  dm_deny :: string
  dm_audit :: "log_err option"

definition joinDeny :: "string \<Rightarrow> log_err option \<Rightarrow> denial_msg" where
  "joinDeny deny auditErr = \<lparr>dm_deny = deny, dm_audit = auditErr\<rparr>"

section \<open>What a record promises\<close>

definition extends :: "string option \<Rightarrow> string option \<Rightarrow> bool" where
  "extends a b \<longleftrightarrow> (case a of None \<Rightarrow> True | Some c \<Rightarrow> (\<exists>s. b = Some (c @ s)))"

text \<open>
  The contract of a record: it never rewrites what is in the two files; when it reports success the line is
  at the end of the flat log and the entry was appended to the chain; when it fails, neither syslog nor the
  remote sink saw it.
\<close>

locale audit_record =
  fixes record_op :: "log_env \<Rightarrow> 'a \<Rightarrow> audit \<Rightarrow> log_err option \<times> audit"
    and line_of :: "log_env \<Rightarrow> 'a \<Rightarrow> string"
    and entry_of :: "log_env \<Rightarrow> 'a \<Rightarrow> audit \<Rightarrow> chain_entry"
  assumes keeps: "record_op env x au = (err, au') \<Longrightarrow> extends (au_file au) (au_file au') \<and> extends (au_ledger au) (au_ledger au')"
    and durable: "record_op env x au = (None, au') \<Longrightarrow>
      (\<forall>c. au_file au = Some c \<longrightarrow> au_file au' = Some (c @ audit_line (li_stamp (le_io env (au_calls au))) (line_of env x))) \<and>
      AppendChain (li_chain (le_io env (au_calls au))) (au_cfg au) (entry_of env x au) (au_ledger au) = (None, au_ledger au')"
    and quiet: "record_op env x au = (Some e, au') \<Longrightarrow> au_syslog au' = au_syslog au \<and> au_posts au' = au_posts au"
    and frame: "record_op env x au = (err, au') \<Longrightarrow> au_cfg au' = au_cfg au \<and> au_change au' = au_change au \<and>
      au_url au' = au_url au \<and> (au_file au' = None \<longleftrightarrow> au_file au = None)"
begin

lemma recorded_or_refused:
  obtains e where "fst (record_op env x au) = Some e" "au_syslog (snd (record_op env x au)) = au_syslog au"
    "au_posts (snd (record_op env x au)) = au_posts au"
  | "fst (record_op env x au) = None"
    "AppendChain (li_chain (le_io env (au_calls au))) (au_cfg au) (entry_of env x au) (au_ledger au) =
       (None, au_ledger (snd (record_op env x au)))"
proof (cases "fst (record_op env x au)")
  case None
  then have "record_op env x au = (None, snd (record_op env x au))" by (metis prod.collapse)
  then show thesis using that(2) durable None by blast
next
  case (Some e)
  then have "record_op env x au = (Some e, snd (record_op env x au))" by (metis prod.collapse)
  then show thesis using that(1) quiet Some by blast
qed

text \<open>On a ledger written by appends, a successful record adds exactly its own entry.\<close>

lemma record_links:
  assumes "record_op env x au = (None, au')" "chain_on (au_cfg au) key" "au_ledger au = Some (ledger_text es)"
    and "linked key '''' 0 es" "int (length es) < 2 ^ 63" "no_errors (li_chain (le_io env (au_calls au)))"
  shows "au_ledger au' = Some (ledger_text (es @ [sealed (li_chain (le_io env (au_calls au))) (au_cfg au) key es (entry_of env x au)]))"
  using durable [OF assms(1)] append_ledger [OF assms(4,5,2,6), of "au_ledger au" "entry_of env x au"] assms(3) by simp

end

lemma extends_refl [simp]: "extends a a"
  by (auto simp: extends_def split: option.split)

lemma extends_append: "extends (Some c) (Some (c @ s))"
  by (simp add: extends_def)

lemma AppendChain_extends: "AppendChain io cfg e f = (err, f') \<Longrightarrow> extends f f'"
  by (cases f) (simp_all add: extends_def, metis append_prefix snd_conv)

lemma writeAuditLine_cases:
  assumes "writeAuditLine io m au = (err, au')"
  shows "extends (au_file au) (au_file au') \<and> au' = au\<lparr>au_file := au_file au'\<rparr> \<and> (au_file au' = None \<longleftrightarrow> au_file au = None) \<and>
    (err = None \<longrightarrow> (\<forall>c. au_file au = Some c \<longrightarrow> au_file au' = Some (c @ audit_line (li_stamp io) m)))"
  using assms by (auto simp: writeAuditLine_def Let_def extends_append split: option.splits)

text \<open>A record whose last stage only adds to the secondary sinks satisfies the contract.\<close>

definition sinks_only :: "(log_io \<Rightarrow> audit \<Rightarrow> audit) \<Rightarrow> bool" where
  "sinks_only after \<longleftrightarrow>
     (\<forall>io au. au_file (after io au) = au_file au \<and> au_ledger (after io au) = au_ledger au \<and> au_cfg (after io au) = au_cfg au \<and>
        au_change (after io au) = au_change au \<and> au_url (after io au) = au_url au)"

lemma sinks_only_rules: "sinks_only (\<lambda>io. dispatchAuditEvent io p)" "sinks_only (\<lambda>io. syslog_event ev)" "sinks_only (\<lambda>io au. au)"
  by (simp_all add: sinks_only_def dispatchAuditEvent_def syslog_event_def split: option.split)

lemma log_both_record:
  assumes "\<And>env x. record_op env x = log_both env (line_of env x) (entry_of env x) (after env x)"
    and "\<And>env x. sinks_only (after env x)"
    and "\<And>env x au f n. entry_of env x (au\<lparr>au_calls := n, au_file := f\<rparr>) = entry_of env x au"
  shows "audit_record record_op line_of entry_of"
proof -
  have K: "extends (au_file au) (au_file au') \<and> extends (au_ledger au) (au_ledger au') \<and>
      (au_cfg au' = au_cfg au \<and> au_change au' = au_change au \<and> au_url au' = au_url au \<and> (au_file au' = None \<longleftrightarrow> au_file au = None)) \<and>
      (err \<noteq> None \<longrightarrow> au_syslog au' = au_syslog au \<and> au_posts au' = au_posts au) \<and>
      (err = None \<longrightarrow>
        (\<forall>c. au_file au = Some c \<longrightarrow> au_file au' = Some (c @ audit_line (li_stamp (le_io env (au_calls au))) (line_of env x))) \<and>
        AppendChain (li_chain (le_io env (au_calls au))) (au_cfg au) (entry_of env x au) (au_ledger au) = (None, au_ledger au'))"
    if r: "record_op env x au = (err, au')" for env x au err au'
  proof -
  let ?io = "le_io env (au_calls au)"
  obtain e1 au1 where w: "writeAuditLine ?io (line_of env x) (au\<lparr>au_calls := Suc (au_calls au)\<rparr>) = (e1, au1)" by fastforce
  note W = writeAuditLine_cases [OF w]
  have au1: "au1 = au\<lparr>au_calls := Suc (au_calls au), au_file := au_file au1\<rparr>" using W by (metis audit.surjective audit.update_convs(1))
  obtain e2 l where a: "AppendChain (li_chain ?io) (au_cfg au1) (entry_of env x au1) (au_ledger au1) = (e2, l)" by fastforce
  have f: "au_cfg au1 = au_cfg au" "au_ledger au1 = au_ledger au" "entry_of env x au1 = entry_of env x au" "au_change au1 = au_change au"
    "au_url au1 = au_url au" "au_syslog au1 = au_syslog au" "au_posts au1 = au_posts au"
    using assms(3) by (subst au1; simp)+
  note X = AppendChain_extends [OF a]
  have R: "record_op env x au =
      (case e1 of Some e \<Rightarrow> (Some (LEFile e), au1)
       | None \<Rightarrow> (case e2 of Some e \<Rightarrow> (Some (LEChain e), au1\<lparr>au_ledger := l\<rparr>) | None \<Rightarrow> (None, after env x ?io (au1\<lparr>au_ledger := l\<rparr>))))"
    using w a by (simp add: assms(1) log_both_def Let_def split: option.split)
  show ?thesis
  proof (cases e1)
    case (Some e)
    then show ?thesis using R r W f by auto
  next
    case None
    then show ?thesis using R r W X a f assms(2) [of env x] by (cases e2) (auto simp: sinks_only_def)
  qed
  qed
  show ?thesis by unfold_locales (use K in blast)+
qed

definition command_entry :: "log_env \<Rightarrow> string \<times> string \<Rightarrow> audit \<Rightarrow> chain_entry" where
  "command_entry env x au =
     zero_entry\<lparr>ce_Type := ''cmd'', ce_Source := fst x, ce_Command := le_redact env (snd x), ce_ChangeID := au_change au\<rparr>"

definition event_entry :: "log_env \<Rightarrow> string \<Rightarrow> audit \<Rightarrow> chain_entry" where
  "event_entry env event au =
     zero_entry\<lparr>ce_Type := ''event'', ce_Command := le_redact env event, ce_ChangeID := au_change au\<rparr>"

definition policy_entry :: "log_env \<Rightarrow> string \<times> string \<times> policy_decision \<Rightarrow> audit \<Rightarrow> chain_entry" where
  "policy_entry env x au =
     (case x of (user, command, d) \<Rightarrow>
        zero_entry\<lparr>ce_Type := ''policy'', ce_User := user, ce_Command := le_redact env command, ce_Allowed := Some (pd_Allowed d),
          ce_Reason := chain_reason (le_redact env (pd_DenyReason d)) (le_redact env (pd_Rule d)) (le_redact env (pd_RequiredEntitlement d)),
          ce_ChangeID := au_change au\<rparr>)"

interpretation cmdlog: audit_record "\<lambda>env (source, cmd). LogCommand env source cmd"
  "\<lambda>env (source, cmd). ''['' @ source @ ''] '' @ le_redact env cmd @ [newline]" command_entry
  by (rule log_both_record [where after = "\<lambda>env (source, cmd) io. dispatchAuditEvent io
        [(''type'', GStr ''command''), (''source'', GStr source), (''command'', GStr (le_redact env cmd))]"])
     (auto simp: LogCommand_def command_entry_def [abs_def] Let_def sinks_only_rules split: prod.split)

interpretation evlog: audit_record LogEvent "\<lambda>env event. le_redact env event" event_entry
  by (rule log_both_record [where after = "\<lambda>env event io. syslog_event (le_redact env event)"])
     (auto simp: LogEvent_def event_entry_def [abs_def] Let_def sinks_only_rules)

interpretation pollog: audit_record "\<lambda>env (user, command, d). LogPolicyDecisionDetail env user command d"
  "\<lambda>env (user, command, d). decision_line env user (le_redact env command) (pd_Allowed d) (le_redact env (pd_DenyReason d))
     (le_redact env (pd_Rule d)) (le_redact env (pd_RequiredEntitlement d)) @ [newline]" policy_entry
  by (rule log_both_record [where after = "\<lambda>env (user, command, d) io. dispatchAuditEvent io
        ([(''type'', GStr ''policy_decision''), (''user'', GStr user), (''command'', GStr (le_redact env command)),
          (''allowed'', GBool (pd_Allowed d)), (''deny_reason'', GStr (le_redact env (pd_DenyReason d)))] @
         (if le_redact env (pd_Rule d) \<noteq> '''' then [(''rule'', GStr (le_redact env (pd_Rule d)))] else []) @
         (if le_redact env (pd_RequiredEntitlement d) \<noteq> '''' then [(''required_entitlement'', GStr (le_redact env (pd_RequiredEntitlement d)))] else []))"])
     (auto simp: LogPolicyDecisionDetail_def policy_entry_def [abs_def] Let_def sinks_only_rules split: prod.split)

interpretation cmlog: audit_record LogCMTicket "\<lambda>env ticketID. ''[CM] ticket='' @ ticketID @ [newline]"
  "\<lambda>env ticketID au. zero_entry\<lparr>ce_Type := ''cm'', ce_Reason := ticketID, ce_ChangeID := ticketID\<rparr>"
  by (rule log_both_record [where after = "\<lambda>env ticketID io au. au"])
     (auto simp: LogCMTicket_def sinks_only_rules)

end
