(* ===== verification/Approval.thy ===== *)
theory Approval
  imports AuditLog FourEyes Entitlements
begin

text \<open>
  The approval layer: change management (\<^verbatim>\<open>security/approval_gate.go\<close>, \<^verbatim>\<open>cm_ee.go\<close>,
  \<^verbatim>\<open>cm_hook_ee.go\<close>, the state-changing verbs of \<^verbatim>\<open>vbin_cm_ee.go\<close>) and the two gates that put it
  together with four-eyes approval, the core gate and the enterprise gate. It also fixes the state of an
  engine and the environment of one gated command, which the command gate shares.
\<close>

section \<open>Messages\<close>

text \<open>
  An error text as the pieces \<^verbatim>\<open>fmt.Errorf\<close> joins: literal text, a value printed with \<^verbatim>\<open>%q\<close>, a number,
  and the error of an audit record.
\<close>

datatype frag = Lit string | Quo string | Num int | Aud log_err | FeErr fe_err

type_synonym msg = "frag list"

text \<open>\<^verbatim>\<open>engine.IsApprovalRequired\<close> and \<^verbatim>\<open>engine.IsAccessDenied\<close> on such a text.\<close>

definition IsApprovalRequired :: "msg \<Rightarrow> bool" where
  "IsApprovalRequired m = (case m of Lit s # _ \<Rightarrow> hasPrefix s ''foureyes:'' \<or> hasPrefix s ''cm:'' | _ \<Rightarrow> False)"

section \<open>The engine\<close>

record cm_ticket =
  tk_ID :: string
  tk_Title :: string
  tk_State :: string
  tk_Assignee :: string
  tk_StartWindow :: time
  tk_EndWindow :: time
  tk_Provider :: string

type_synonym cm_ticket_state = "cm_ticket option \<times> string"

record explanation_stage =
  es_Name :: string
  es_Status :: string
  es_Reason :: msg

record command_explanation =
  cx_Outcome :: string
  cx_User :: string
  cx_Groups :: "string list"
  cx_SessionID :: string
  cx_RequiredRole :: string
  cx_Rule :: string
  cx_RequiredEntitlement :: string
  cx_HeldEntitlements :: "string list"
  cx_NeededEntitlements :: "string list"
  cx_Command :: string
  cx_Args :: "string list"
  cx_Stages :: "explanation_stage list"
  cx_NextSteps :: "string list"

record engine =
  en_restricted :: bool
  en_query :: "prepared option"
  en_ents :: entitlements_state
  en_ids :: identity_table
  en_reg :: registry
  en_cmDefault :: "string list"
  en_cmPatterns :: "string list smap"
  en_tickets :: "cm_ticket_state smap"
  en_rules :: rules_file
  en_store :: fe_store
  en_audit :: audit
  en_denials :: "command_explanation smap"

text \<open>
  What one approval request meets: the directories, the random request id and token, the new file, and
  during the wait the markers it sees and what the other processes do to the store.
\<close>

record request_env =
  rq_dirs :: go_error
  rq_os_user :: string
  rq_rnd :: "string + (string \<times> string)"
  rq_host :: string
  rq_stamp :: string
  rq_wr :: create_out
  rq_start :: time
  rq_turns :: "wait_turn list"
  rq_others :: "fe_store \<Rightarrow> fe_store"

record gate_env =
  gv_log :: log_env
  gv_policy :: policy_env
  gv_strict :: string
  gv_request :: request_env

definition with_audit :: "(audit \<Rightarrow> log_err option \<times> audit) \<Rightarrow> engine \<Rightarrow> log_err option \<times> engine" where
  "with_audit f e = (case f (en_audit e) of (err, au) \<Rightarrow> (err, e\<lparr>en_audit := au\<rparr>))"

section \<open>Change management\<close>

definition parseCMPatterns :: "string \<Rightarrow> string list" where
  "parseCMPatterns raw = filter (\<lambda>p. p \<noteq> '''') (map trimSpace (split_on (CHR '','') raw))"

definition CMPatternsForSession :: "engine \<Rightarrow> string \<Rightarrow> string list" where
  "CMPatternsForSession e sessionID =
     en_cmDefault e @ (case mget (en_cmPatterns e) sessionID of None \<Rightarrow> [] | Some ps \<Rightarrow> ps)"

definition AddCMPatternForSession :: "string \<Rightarrow> string \<Rightarrow> engine \<Rightarrow> bool \<times> engine" where
  "AddCMPatternForSession sessionID pattern e =
     (let own = (case mget (en_cmPatterns e) sessionID of None \<Rightarrow> [] | Some ps \<Rightarrow> ps)
      in if pattern \<in> set (en_cmDefault e) \<or> pattern \<in> set own then (False, e)
         else (True, e\<lparr>en_cmPatterns := mput (en_cmPatterns e) sessionID (own @ [pattern])\<rparr>))"

definition CMRequiredForSession :: "engine \<Rightarrow> string \<Rightarrow> string \<Rightarrow> bool" where
  "CMRequiredForSession e sessionID cmd =
     list_ex (\<lambda>pat. path_Match pat cmd \<or> path_Match pat (path_base cmd)) (CMPatternsForSession e sessionID)"

definition CMStrictMode :: "gate_env \<Rightarrow> bool" where
  "CMStrictMode env = (gv_strict env = ''1'')"

definition IsTicketValid :: "time \<Rightarrow> cm_ticket option \<Rightarrow> bool" where
  "IsTicketValid now t =
     (case t of
        None \<Rightarrow> False
      | Some t \<Rightarrow>
          if tk_State t \<noteq> ''approved'' then False
          else if tk_StartWindow t \<noteq> zero_time \<and> now < tk_StartWindow t then False
          else if tk_EndWindow t \<noteq> zero_time \<and> tk_EndWindow t < now then False
          else True)"

definition SetActiveCMTicketForSession :: "string \<Rightarrow> cm_ticket option \<Rightarrow> string \<Rightarrow> engine \<Rightarrow> engine" where
  "SetActiveCMTicketForSession sessionID t tid e = e\<lparr>en_tickets := mput (en_tickets e) sessionID (t, tid)\<rparr>"

definition GetActiveCMTicketForSession :: "engine \<Rightarrow> string \<Rightarrow> cm_ticket_state" where
  "GetActiveCMTicketForSession e sessionID = (case mget (en_tickets e) sessionID of None \<Rightarrow> (None, '''') | Some s \<Rightarrow> s)"

definition ClearActiveCMTicketForSession :: "string \<Rightarrow> engine \<Rightarrow> engine" where
  "ClearActiveCMTicketForSession sessionID e = e\<lparr>en_tickets := mdel (en_tickets e) sessionID\<rparr>"

definition CMSessionCheckForSession :: "gate_env \<Rightarrow> engine \<Rightarrow> string \<Rightarrow> string \<Rightarrow> msg option" where
  "CMSessionCheckForSession env e sessionID cmd =
     (if \<not> CMRequiredForSession e sessionID cmd then None
      else case fst (GetActiveCMTicketForSession e sessionID) of
          None \<Rightarrow>
            if CMStrictMode env
            then Some [Lit ''cm: command '', Quo cmd, Lit '' requires an active change ticket (run: cm set <ticket-id>)'']
            else None
        | Some t \<Rightarrow>
            if \<not> IsTicketValid (pe_now (gv_policy env)) (Some t)
            then Some [Lit ''cm: ticket '', Lit (tk_ID t), Lit '' is not valid (state: '', Lit (tk_State t), Lit '')'']
            else None)"

text \<open>
  Fetching a ticket. \<open>resp\<close> is what the provider's URL answered, an error or the decoded body;
  \<open>parse\<close> is \<^verbatim>\<open>time.Parse\<close> with the layout of ServiceNow.
\<close>

record sn_record =
  sn_Number :: string
  sn_ShortDesc :: string
  sn_State :: string
  sn_AssignedTo :: string
  sn_StartDate :: string
  sn_EndDate :: string

record jira_issue =
  ji_Key :: string
  ji_Summary :: string
  ji_Status :: string
  ji_EmailAddress :: string
  ji_DisplayName :: string

record generic_body =
  gb_ID :: string
  gb_Title :: string
  gb_State :: string
  gb_Assignee :: string

definition sn_window :: "(string \<Rightarrow> time option) \<Rightarrow> string \<Rightarrow> time" where
  "sn_window parse d = (if d \<noteq> '''' then (case parse d of Some t \<Rightarrow> t | None \<Rightarrow> zero_time) else zero_time)"

definition fetchServiceNow :: "(string \<Rightarrow> time option) \<Rightarrow> string + sn_record list \<Rightarrow> string \<Rightarrow> string + cm_ticket" where
  "fetchServiceNow parse resp tid =
     (case resp of
        Inl e \<Rightarrow> Inl e
      | Inr [] \<Rightarrow> Inl (''cm: ticket '' @ tid @ '' not found in ServiceNow'')
      | Inr (r # _) \<Rightarrow>
          (let state = (if sn_State r = ''approved'' \<or> sn_State r = ''implement'' then ''approved''
                        else if sn_State r = ''closed'' then ''closed'' else ''open'')
           in Inr \<lparr>tk_ID = sn_Number r, tk_Title = sn_ShortDesc r, tk_State = state, tk_Assignee = sn_AssignedTo r,
                   tk_StartWindow = sn_window parse (sn_StartDate r), tk_EndWindow = sn_window parse (sn_EndDate r),
                   tk_Provider = ''servicenow''\<rparr>))"

definition fetchJira :: "string + jira_issue \<Rightarrow> string + cm_ticket" where
  "fetchJira resp =
     (case resp of
        Inl e \<Rightarrow> Inl e
      | Inr i \<Rightarrow>
          (let state = (if ji_Status i = ''In Progress'' then ''approved''
                        else if ji_Status i = ''Done'' \<or> ji_Status i = ''Closed'' then ''closed'' else ''open'');
               assignee = (if ji_EmailAddress i = '''' then ji_DisplayName i else ji_EmailAddress i)
           in Inr \<lparr>tk_ID = ji_Key i, tk_Title = ji_Summary i, tk_State = state, tk_Assignee = assignee,
                   tk_StartWindow = zero_time, tk_EndWindow = zero_time, tk_Provider = ''jira''\<rparr>))"

definition fetchGeneric :: "string + generic_body \<Rightarrow> string + cm_ticket" where
  "fetchGeneric resp =
     (case resp of
        Inl e \<Rightarrow> Inl e
      | Inr b \<Rightarrow>
          Inr \<lparr>tk_ID = gb_ID b, tk_Title = gb_Title b, tk_State = gb_State b, tk_Assignee = gb_Assignee b,
               tk_StartWindow = zero_time, tk_EndWindow = zero_time, tk_Provider = ''generic''\<rparr>)"

text \<open>The process environment of the provider and what each kind of provider would answer.\<close>

record cm_provider =
  cp_url :: string
  cp_provider :: string
  cp_parse :: "string \<Rightarrow> time option"
  cp_servicenow :: "string \<Rightarrow> string + sn_record list"
  cp_jira :: "string \<Rightarrow> string + jira_issue"
  cp_generic :: "string \<Rightarrow> string + generic_body"

definition FetchCMTicket :: "cm_provider \<Rightarrow> string \<Rightarrow> string + cm_ticket" where
  "FetchCMTicket p tid =
     (if cp_url p = '''' then Inl ''cm: ADSSH_CM_URL not configured''
      else let provider = (if cp_provider p = '''' then ''generic'' else cp_provider p)
           in if provider = ''servicenow'' then fetchServiceNow (cp_parse p) (cp_servicenow p tid) tid
              else if provider = ''jira'' then fetchJira (cp_jira p tid)
              else if provider = ''generic'' then fetchGeneric (cp_generic p tid)
              else Inl ''cm: unknown provider'')"

text \<open>The verbs of \<^verbatim>\<open>cm\<close> that change state.\<close>

definition cmSet :: "cm_provider \<Rightarrow> time \<Rightarrow> string \<Rightarrow> string list \<Rightarrow> engine \<Rightarrow> string option \<times> engine" where
  "cmSet p now sessionID args e =
     (case args of
        _ # _ # tid # _ \<Rightarrow>
          (case FetchCMTicket p tid of
             Inl err \<Rightarrow> (Some err, e)
           | Inr t \<Rightarrow>
               if \<not> IsTicketValid now (Some t)
               then (Some (''cm: ticket '' @ tk_ID t @ '' is not valid for use (state: '' @ tk_State t @ '')''), e)
               else (None, SetActiveCMTicketForSession sessionID (Some t) tid e))
      | _ \<Rightarrow> (Some ''cm set: missing ticket-id'', e))"

definition cmClear :: "string \<Rightarrow> engine \<Rightarrow> engine" where
  "cmClear sessionID e = ClearActiveCMTicketForSession sessionID e"

definition cmRequire :: "string \<Rightarrow> string list \<Rightarrow> engine \<Rightarrow> string option \<times> engine" where
  "cmRequire sessionID args e =
     (case args of
        _ # _ # raw # _ \<Rightarrow>
          (let pattern = trimSpace raw
           in if pattern = '''' \<or> contains_byte pattern (CHR '','')
              then (Some ''cm require: pattern must be one non-empty glob without commas'', e)
              else if match_loop pattern '''' = None then (Some ''cm require: invalid pattern'', e)
              else (None, snd (AddCMPatternForSession sessionID pattern e)))
      | _ \<Rightarrow> (Some ''cm require: missing pattern'', e))"

section \<open>Requests for a second approver\<close>

text \<open>The text of an error a request can end with.\<close>

definition request_text :: "fe_err \<Rightarrow> msg" where
  "request_text err =
     (case err of
        FEDirs e \<Rightarrow> [Lit ''foureyes: mkdir '', Lit e]
      | FERequester src \<Rightarrow>
          [Lit ''foureyes: identity set by '', Lit src, Lit '' cannot request approval; reconnect or import a verified identity'']
      | FERandom e \<Rightarrow> [Lit ''foureyes: generate '', Lit e]
      | FEWritePending e \<Rightarrow> [Lit ''foureyes: write pending: '', Lit e]
      | FEDenied rid req \<Rightarrow> [Lit ''foureyes: request '', Lit rid, Lit '' denied (required approver: '', Lit req, Lit '')'']
      | FECanceled rid req \<Rightarrow> [Lit ''foureyes: request '', Lit rid, Lit '' canceled (required approver: '', Lit req, Lit '')'']
      | FETimedOut rid ttl req \<Rightarrow>
          [Lit ''foureyes: request '', Lit rid, Lit '' timed out after '', Num ttl, Lit ''s (required approver: '', Lit req, Lit '')'']
      | e \<Rightarrow> [FeErr e])"

text \<open>
  \<^verbatim>\<open>RequestApprovalForSessionContext\<close>; the outer \<open>None\<close> is a wait that has not ended, the inner one
  an approval.
\<close>

definition RequestApprovalForSession ::
  "request_env \<Rightarrow> string \<Rightarrow> fe_rule \<Rightarrow> string \<Rightarrow> engine \<Rightarrow> msg option option \<times> engine" where
  "RequestApprovalForSession rq cmd rule sessionID e =
     (case rq_dirs rq of
        Some err \<Rightarrow> (Some (Some (request_text (FEDirs err))), e)
      | None \<Rightarrow>
          (case createFourEyesPending (rq_os_user rq) (en_reg e) (rq_rnd rq) (rq_host rq) (rq_stamp rq) (rq_wr rq) cmd rule sessionID (en_store e) of
             (Inl err, st) \<Rightarrow> (Some (Some (request_text err)), e\<lparr>en_store := st\<rparr>)
           | (Inr p, st) \<Rightarrow>
               (let st = rq_others rq st
                in case RequestApproval_wait p (rq_start rq) (rq_turns rq) of
                     None \<Rightarrow> (None, e\<lparr>en_store := st\<rparr>)
                   | Some w \<Rightarrow>
                       (Some (case w of WApproved \<Rightarrow> None | WRefused err \<Rightarrow> Some (request_text err)),
                        e\<lparr>en_store := wait_cleanup (fp_RequestID p) w st\<rparr>))))"

text \<open>The text of an error of the rules file.\<close>

definition rules_text :: "fe_err \<Rightarrow> frag" where
  "rules_text err = (case err of FERules s \<Rightarrow> Lit s | e \<Rightarrow> FeErr e)"

definition CheckFourEyesForSession :: "gate_env \<Rightarrow> engine \<Rightarrow> string \<Rightarrow> string list \<Rightarrow> msg option option \<times> engine" where
  "CheckFourEyesForSession env e sessionID args =
     (let fullCmd = join args '' ''
      in case matchFourEyes (en_rules e) fullCmd of
           Inl err \<Rightarrow> (Some (Some [Lit ''foureyes: '', rules_text err, Lit ''; refusing the command'']), e)
         | Inr None \<Rightarrow> (Some None, e)
         | Inr (Some rule) \<Rightarrow> RequestApprovalForSession (gv_request env) fullCmd rule sessionID e)"

section \<open>The gates\<close>

definition emptyDash :: "string \<Rightarrow> string" where
  "emptyDash value = (if value = '''' then ''-'' else value)"

definition auditCoreRefusal :: "gate_env \<Rightarrow> string \<Rightarrow> string \<Rightarrow> string \<Rightarrow> msg \<Rightarrow> engine \<Rightarrow> msg \<times> engine" where
  "auditCoreRefusal env kind sessionID command refusal e =
     (case with_audit (LogEvent (gv_log env)
              (''APPROVAL_REFUSED: gate=core kind='' @ kind @ '' session='' @ emptyDash sessionID @ '' command='' @
               le_quote (gv_log env) command)) e of
        (Some err, e) \<Rightarrow> (refusal @ [Lit '' (audit: '', Aud err, Lit '')''], e)
      | (None, e) \<Rightarrow> (refusal, e))"

definition core_Check :: "gate_env \<Rightarrow> engine \<Rightarrow> string \<Rightarrow> string list \<Rightarrow> msg option option \<times> engine" where
  "core_Check env e sessionID args =
     (let cmd = hd args;
          refuse = (\<lambda>kind m. case auditCoreRefusal env kind sessionID cmd m e of (m, e) \<Rightarrow> (Some (Some m), e))
      in if CMStrictMode env \<and> CMRequiredForSession e sessionID cmd then
           refuse ''cm'' [Lit ''cm: command '', Quo cmd,
             Lit '' requires an active change ticket; change management is part of the adssh enterprise build, so this build refuses it'']
         else case matchFourEyes (en_rules e) (join args '' '') of
             Inl err \<Rightarrow> refuse ''foureyes'' [Lit ''foureyes: '', rules_text err, Lit ''; refusing the command'']
           | Inr (Some rule) \<Rightarrow>
               refuse ''foureyes'' [Lit ''foureyes: command matches rule '', Quo (fr_Pattern rule),
                 Lit '' and needs a second approver; four-eyes approval is part of the adssh enterprise build, so this build refuses it'']
           | Inr None \<Rightarrow> (Some None, e))"

definition stage :: "string \<Rightarrow> string \<Rightarrow> msg \<Rightarrow> explanation_stage" where
  "stage name status reason = \<lparr>es_Name = name, es_Status = status, es_Reason = reason\<rparr>"

definition explainFourEyes :: "engine \<Rightarrow> string list \<Rightarrow> string \<Rightarrow> explanation_stage" where
  "explainFourEyes e args refusal =
     (case matchFourEyes (en_rules e) (join args '' '') of
        Inl err \<Rightarrow> stage ''four_eyes'' ''denied'' [rules_text err]
      | Inr None \<Rightarrow> stage ''four_eyes'' ''not_required'' []
      | Inr (Some rule) \<Rightarrow>
          (let reason = [Lit ''matches rule '', Quo (fr_Pattern rule)] @
                        (if fr_Approver rule \<noteq> '''' then [Lit ''; approver='', Lit (fr_Approver rule)] else [])
           in if refusal \<noteq> '''' then stage ''four_eyes'' ''denied'' (reason @ [Lit ''; '', Lit refusal])
              else stage ''four_eyes'' ''approval_required'' reason))"

definition core_Explain :: "gate_env \<Rightarrow> engine \<Rightarrow> string \<Rightarrow> string list \<Rightarrow> explanation_stage list" where
  "core_Explain env e sessionID args =
     [if CMRequiredForSession e sessionID (hd args) then
        (if CMStrictMode env
         then stage ''change_management'' ''denied'' [Lit ''an active approved change ticket is required; change management is enterprise-only'']
         else stage ''change_management'' ''warning'' [Lit ''no active ticket; strict mode is disabled''])
      else stage ''change_management'' ''not_required'' [],
      explainFourEyes e args ''four-eyes approval is enterprise-only, so this build refuses the command'']"

definition enterprise_Check :: "gate_env \<Rightarrow> engine \<Rightarrow> string \<Rightarrow> string list \<Rightarrow> msg option option \<times> engine" where
  "enterprise_Check env e sessionID args =
     (case CMSessionCheckForSession env e sessionID (hd args) of
        Some m \<Rightarrow> (Some (Some m), e)
      | None \<Rightarrow> CheckFourEyesForSession env e sessionID args)"

definition enterprise_Explain :: "gate_env \<Rightarrow> engine \<Rightarrow> string \<Rightarrow> string list \<Rightarrow> explanation_stage list" where
  "enterprise_Explain env e sessionID args =
     [if CMRequiredForSession e sessionID (hd args) then
        (case GetActiveCMTicketForSession e sessionID of
           (None, tid) \<Rightarrow>
             if CMStrictMode env then stage ''change_management'' ''denied'' [Lit ''an active approved change ticket is required'']
             else stage ''change_management'' ''warning'' [Lit ''no active ticket; strict mode is disabled'']
         | (Some t, tid) \<Rightarrow>
             if \<not> IsTicketValid (pe_now (gv_policy env)) (Some t)
             then stage ''change_management'' ''denied'' [Lit ''ticket '', Lit tid, Lit '' is not valid (state: '', Lit (tk_State t), Lit '')'']
             else stage ''change_management'' ''allowed'' [Lit ''ticket '', Lit tid])
      else stage ''change_management'' ''not_required'' [],
      explainFourEyes e args '''']"

record approval_gate =
  ag_Check :: "gate_env \<Rightarrow> engine \<Rightarrow> string \<Rightarrow> string list \<Rightarrow> msg option option \<times> engine"
  ag_Explain :: "gate_env \<Rightarrow> engine \<Rightarrow> string \<Rightarrow> string list \<Rightarrow> explanation_stage list"

definition coreApprovalGate :: approval_gate where
  "coreApprovalGate = \<lparr>ag_Check = core_Check, ag_Explain = core_Explain\<rparr>"

definition enterpriseApprovalGate :: approval_gate where
  "enterpriseApprovalGate = \<lparr>ag_Check = enterprise_Check, ag_Explain = enterprise_Explain\<rparr>"

definition SetApprovalGate :: "approval_gate option \<Rightarrow> approval_gate option \<Rightarrow> go_error \<times> approval_gate option" where
  "SetApprovalGate g cur =
     (case g of
        None \<Rightarrow> (Some ''security: SetApprovalGate: nil gate'', cur)
      | Some g \<Rightarrow>
          if cur \<noteq> None then (Some ''security: SetApprovalGate: a gate is already installed'', cur) else (None, Some g))"

definition currentApprovalGate :: "approval_gate option \<Rightarrow> approval_gate" where
  "currentApprovalGate cur = (case cur of None \<Rightarrow> coreApprovalGate | Some g \<Rightarrow> g)"

section \<open>What a gate promises\<close>

lemmas cm_defs = CMRequiredForSession_def CMPatternsForSession_def GetActiveCMTicketForSession_def

lemma stage_sel [simp]: "es_Name (stage n s r) = n" "es_Status (stage n s r) = s" "es_Reason (stage n s r) = r"
  by (simp_all add: stage_def)

lemma approval_prefix [simp]:
  "IsApprovalRequired (Lit (''foureyes:'' @ s) # m)" "IsApprovalRequired (Lit (''cm:'' @ s) # m)"
  by (simp_all add: IsApprovalRequired_def del: append.simps)

lemma approval_append: "IsApprovalRequired m \<Longrightarrow> IsApprovalRequired (m @ m')"
  by (cases m) (auto simp: IsApprovalRequired_def split: frag.splits)

lemma approval_literals [simp]:
  "IsApprovalRequired (Lit ''foureyes: '' # m)" "IsApprovalRequired (Lit ''foureyes: mkdir '' # m)"
  "IsApprovalRequired (Lit ''foureyes: identity set by '' # m)" "IsApprovalRequired (Lit ''foureyes: generate '' # m)"
  "IsApprovalRequired (Lit ''foureyes: write pending: '' # m)" "IsApprovalRequired (Lit ''foureyes: request '' # m)"
  "IsApprovalRequired (Lit ''foureyes: command matches rule '' # m)"
  "IsApprovalRequired (Lit ''cm: command '' # m)" "IsApprovalRequired (Lit ''cm: ticket '' # m)"
  by (simp_all add: IsApprovalRequired_def hasPrefix_def)

text \<open>
  What \<^verbatim>\<open>ApprovalGate\<close> asks of an implementation: a refusal is recognised as one, the two stages of
  an explanation agree with the check, and the check touches nothing of the engine but the request store and
  the audit log.
\<close>

locale approval_contract =
  fixes Check :: "gate_env \<Rightarrow> engine \<Rightarrow> string \<Rightarrow> string list \<Rightarrow> msg option option \<times> engine"
    and Explain :: "gate_env \<Rightarrow> engine \<Rightarrow> string \<Rightarrow> string list \<Rightarrow> explanation_stage list"
  assumes stages: "map es_Name (Explain env e sid args) = [''change_management'', ''four_eyes'']"
    and refusal: "fst (Check env e sid args) = Some (Some m) \<Longrightarrow> IsApprovalRequired m"
    and denied: "\<exists>st \<in> set (Explain env e sid args). es_Status st = ''denied'' \<Longrightarrow> \<exists>m. fst (Check env e sid args) = Some (Some m)"
    and clear: "\<forall>st \<in> set (Explain env e sid args). es_Status st \<noteq> ''denied'' \<and> es_Status st \<noteq> ''approval_required'' \<Longrightarrow>
      Check env e sid args = (Some None, e)"
    and frame: "Check env e sid args = (r, e') \<Longrightarrow> e' = e\<lparr>en_store := en_store e', en_audit := en_audit e'\<rparr>"
begin

lemma passes_iff:
  assumes "\<forall>st \<in> set (Explain env e sid args). es_Status st \<noteq> ''approval_required''"
  shows "fst (Check env e sid args) = Some None \<longleftrightarrow> (\<forall>st \<in> set (Explain env e sid args). es_Status st \<noteq> ''denied'')"
  using denied [of env e sid args] clear [of env e sid args] assms by fastforce

lemma passed_not_denied:
  "fst (Check env e sid args) = Some None \<Longrightarrow> st \<in> set (Explain env e sid args) \<Longrightarrow> es_Status st \<noteq> ''denied''"
  using denied by fastforce

lemma agrees:
  assumes c: "Check env e sid args = (r, e')"
  shows "(r = Some None \<longrightarrow> (\<forall>st \<in> set (Explain env e sid args). es_Status st \<noteq> ''denied'')) \<and>
    ((\<forall>st \<in> set (Explain env e sid args). es_Status st \<noteq> ''denied'' \<and> es_Status st \<noteq> ''approval_required'') \<longrightarrow> r = Some None \<and> e' = e) \<and>
    (\<forall>m. r = Some (Some m) \<longrightarrow> IsApprovalRequired m)"
proof (intro conjI impI allI)
  show "\<forall>st \<in> set (Explain env e sid args). es_Status st \<noteq> ''denied''" if "r = Some None"
    using passed_not_denied c that by (metis fst_conv)
  show "IsApprovalRequired m" if "r = Some (Some m)" for m
    using refusal c that by (metis fst_conv)
qed (use clear c in force)+

end

lemma with_audit_frame: "with_audit f e = (r, e') \<Longrightarrow> e' = e\<lparr>en_audit := en_audit e'\<rparr>"
  by (auto simp: with_audit_def split: prod.splits)

lemma auditCoreRefusal_cases:
  assumes "auditCoreRefusal env kind sid cmd m e = (m', e')"
  shows "e' = e\<lparr>en_audit := en_audit e'\<rparr> \<and> (IsApprovalRequired m \<longrightarrow> IsApprovalRequired m')"
  using assms with_audit_frame
  by (fastforce simp: auditCoreRefusal_def intro: approval_append split: prod.splits option.splits)

lemma matchFourEyes_Inl: "matchFourEyes f cmd = Inl err \<Longrightarrow> \<exists>s. err = FERules s"
  by (auto simp: matchFourEyes_def LoadFourEyesRules_def split: rules_file.splits sum.splits)

lemma core_frame: "core_Check env e sid args = (r, e') \<Longrightarrow> e' = e\<lparr>en_audit := en_audit e'\<rparr>"
  using auditCoreRefusal_cases
  by (fastforce simp: core_Check_def Let_def split: if_splits sum.splits option.splits prod.splits)

lemma core_refusal: "fst (core_Check env e sid args) = Some (Some m) \<Longrightarrow> IsApprovalRequired m"
  by (auto simp: core_Check_def Let_def split: if_splits sum.splits option.splits prod.splits
        dest!: auditCoreRefusal_cases)

interpretation core: approval_contract core_Check core_Explain
proof unfold_locales
  fix env e sid args
  show "map es_Name (core_Explain env e sid args) = [''change_management'', ''four_eyes'']"
    by (simp add: core_Explain_def explainFourEyes_def Let_def split: sum.split option.split)
  show "\<exists>m. fst (core_Check env e sid args) = Some (Some m)"
    if "\<exists>st \<in> set (core_Explain env e sid args). es_Status st = ''denied''"
    using that by (auto simp: core_Explain_def core_Check_def explainFourEyes_def Let_def split: if_splits sum.splits option.splits prod.splits)
  show "core_Check env e sid args = (Some None, e)"
    if "\<forall>st \<in> set (core_Explain env e sid args). es_Status st \<noteq> ''denied'' \<and> es_Status st \<noteq> ''approval_required''"
    using that by (auto simp: core_Explain_def core_Check_def explainFourEyes_def Let_def split: if_splits sum.splits option.splits prod.splits)
  show "e' = e\<lparr>en_store := en_store e', en_audit := en_audit e'\<rparr>" if "core_Check env e sid args = (r, e')" for r e'
    using core_frame [OF that] by (metis engine.surjective engine.update_convs(10) engine.update_convs(11) engine.select_convs(10))
qed (rule core_refusal)

section \<open>The enterprise gate\<close>

lemma create_errors:
  assumes "createFourEyesPending u r rnd host stamp wr cmd rule sid st = (Inl err, st')"
  shows "\<exists>s. err = FERequester s \<or> err = FERandom s \<or> err = FEWritePending s"
  using assms
  by (auto simp: createFourEyesPending_def createFourEyesPendingAs_def checkRequesterIdentity_def Let_def
        split: if_splits option.splits sum.splits create_out.splits)

lemma wait_loop_errors:
  "wait_loop rid req ttl dl ws = Some (WRefused err) \<Longrightarrow> err = FEDenied rid req \<or> err = FECanceled rid req \<or> err = FETimedOut rid ttl req"
  by (induction ws) (auto split: if_splits)

lemma wait_loop_approved:
  "wait_loop rid req ttl dl ws = Some WApproved \<Longrightarrow> \<exists>w \<in> set ws. wt_approved w \<and> wt_now w < dl"
  by (induction ws) (auto split: if_splits)

lemma request_text_errors [simp]:
  "IsApprovalRequired (request_text (FERequester s))" "IsApprovalRequired (request_text (FERandom s))"
  "IsApprovalRequired (request_text (FEWritePending s))" "IsApprovalRequired (request_text (FEDirs s))"
  "IsApprovalRequired (request_text (FEDenied r a))" "IsApprovalRequired (request_text (FECanceled r a))"
  "IsApprovalRequired (request_text (FETimedOut r n a))"
  by (simp_all add: request_text_def)

lemma request_refusal:
  assumes "fst (RequestApprovalForSession rq cmd rule sid e) = Some (Some m)"
  shows "IsApprovalRequired m"
proof (cases "rq_dirs rq")
  case None
  obtain c st where c: "createFourEyesPending (rq_os_user rq) (en_reg e) (rq_rnd rq) (rq_host rq) (rq_stamp rq) (rq_wr rq) cmd rule sid (en_store e) = (c, st)"
    by fastforce
  show ?thesis
  proof (cases c)
    case (Inl err)
    then show ?thesis using assms None c create_errors by (fastforce simp: RequestApprovalForSession_def)
  next
    case (Inr p)
    then obtain err where "RequestApproval_wait p (rq_start rq) (rq_turns rq) = Some (WRefused err)" "m = request_text err"
      using assms None c by (auto simp: RequestApprovalForSession_def Let_def split: option.splits wait_result.splits)
    then show ?thesis by (auto simp: RequestApproval_wait_def Let_def dest!: wait_loop_errors)
  qed
qed (use assms in \<open>auto simp: RequestApprovalForSession_def\<close>)

lemma request_frame: "RequestApprovalForSession rq cmd rule sid e = (r, e') \<Longrightarrow> e' = e\<lparr>en_store := en_store e'\<rparr>"
  by (auto simp: RequestApprovalForSession_def Let_def split: option.splits prod.splits sum.splits)

text \<open>A request passes only for a pending file of this very command on which an approval was seen in time.\<close>

lemma request_approved:
  assumes "fst (RequestApprovalForSession rq cmd rule sid e) = Some None"
  obtains p st w where "createFourEyesPending (rq_os_user rq) (en_reg e) (rq_rnd rq) (rq_host rq) (rq_stamp rq) (rq_wr rq) cmd rule sid (en_store e) = (Inr p, st)"
    "fp_Command p = cmd" "fp_Rule p = rule" "w \<in> set (rq_turns rq)" "wt_approved w"
    "wt_now w < rq_start rq + dur_seconds (wait_ttl rule)"
proof -
  obtain p st where c: "createFourEyesPending (rq_os_user rq) (en_reg e) (rq_rnd rq) (rq_host rq) (rq_stamp rq) (rq_wr rq) cmd rule sid (en_store e) = (Inr p, st)"
    and w: "RequestApproval_wait p (rq_start rq) (rq_turns rq) = Some WApproved"
    using assms by (auto simp: RequestApprovalForSession_def Let_def split: option.splits prod.splits sum.splits wait_result.splits)
  have p: "fp_Command p = cmd" "fp_Rule p = rule"
    using c by (auto simp: createFourEyesPending_def createFourEyesPendingAs_def Let_def split: if_splits option.splits sum.splits create_out.splits)
  from w p(2) obtain t where "t \<in> set (rq_turns rq)" "wt_approved t" "wt_now t < rq_start rq + dur_seconds (wait_ttl rule)"
    by (auto simp: RequestApproval_wait_def Let_def dest!: wait_loop_approved)
  then show thesis using that c p by blast
qed

lemma cm_check_refusal: "CMSessionCheckForSession env e sid cmd = Some m \<Longrightarrow> IsApprovalRequired m"
  by (auto simp: CMSessionCheckForSession_def split: if_splits option.splits)

lemma four_eyes_check_refusal: "fst (CheckFourEyesForSession env e sid args) = Some (Some m) \<Longrightarrow> IsApprovalRequired m"
  by (auto simp: CheckFourEyesForSession_def Let_def intro: request_refusal split: sum.splits option.splits)

lemma four_eyes_check_frame: "CheckFourEyesForSession env e sid args = (r, e') \<Longrightarrow> e' = e\<lparr>en_store := en_store e'\<rparr>"
  by (auto simp: CheckFourEyesForSession_def Let_def split: sum.splits option.splits dest: request_frame)

text \<open>How the change-management stage of the explanation and the check correspond.\<close>

lemma ticket_stage:
  "es_Status (hd (enterprise_Explain env e sid args)) = ''denied'' \<longleftrightarrow> CMSessionCheckForSession env e sid (hd args) \<noteq> None"
  "es_Status (hd (enterprise_Explain env e sid args)) \<noteq> ''approval_required''"
  by (auto simp: enterprise_Explain_def CMSessionCheckForSession_def split: prod.splits option.splits)

lemma enterprise_stages: "set (enterprise_Explain env e sid args) = {hd (enterprise_Explain env e sid args), explainFourEyes e args ''''}"
  by (simp add: enterprise_Explain_def)

interpretation ee: approval_contract enterprise_Check enterprise_Explain
proof unfold_locales
  fix env e sid args
  show "map es_Name (enterprise_Explain env e sid args) = [''change_management'', ''four_eyes'']"
    by (simp add: enterprise_Explain_def explainFourEyes_def Let_def split: sum.split option.split prod.split)
  show "IsApprovalRequired m" if "fst (enterprise_Check env e sid args) = Some (Some m)" for m
    using that cm_check_refusal four_eyes_check_refusal by (fastforce simp: enterprise_Check_def split: option.splits)
  show "\<exists>m. fst (enterprise_Check env e sid args) = Some (Some m)"
    if "\<exists>st \<in> set (enterprise_Explain env e sid args). es_Status st = ''denied''"
  proof (cases "CMSessionCheckForSession env e sid (hd args)")
    case None
    then have "es_Status (explainFourEyes e args '''') = ''denied''"
      using that ticket_stage(1) [of env e sid args] unfolding enterprise_stages by auto
    then show ?thesis using None
      by (auto simp: enterprise_Check_def CheckFourEyesForSession_def explainFourEyes_def Let_def split: sum.splits option.splits)
  qed (simp add: enterprise_Check_def)
  show "enterprise_Check env e sid args = (Some None, e)"
    if "\<forall>st \<in> set (enterprise_Explain env e sid args). es_Status st \<noteq> ''denied'' \<and> es_Status st \<noteq> ''approval_required''"
  proof -
    have "CMSessionCheckForSession env e sid (hd args) = None" "es_Status (explainFourEyes e args '''') \<notin> {''denied'', ''approval_required''}"
      using that ticket_stage(1) [of env e sid args] unfolding enterprise_stages by auto
    then show ?thesis
      by (auto simp: enterprise_Check_def CheckFourEyesForSession_def explainFourEyes_def Let_def split: sum.splits option.splits)
  qed
  show "e' = e\<lparr>en_store := en_store e', en_audit := en_audit e'\<rparr>" if c: "enterprise_Check env e sid args = (r, e')" for r e'
  proof -
    have "e' = e\<lparr>en_store := en_store e'\<rparr>"
      using c by (auto simp: enterprise_Check_def split: option.splits dest: four_eyes_check_frame)
    then show ?thesis by (cases e; cases e') auto
  qed
qed

section \<open>Change tickets and patterns of one session\<close>

datatype cm_op = CmSet "cm_ticket option" string | CmClear | CmAdd string

fun cm_step :: "cm_op \<Rightarrow> string \<Rightarrow> engine \<Rightarrow> engine" where
  "cm_step (CmSet t tid) sid e = SetActiveCMTicketForSession sid t tid e"
| "cm_step CmClear sid e = ClearActiveCMTicketForSession sid e"
| "cm_step (CmAdd pattern) sid e = snd (AddCMPatternForSession sid pattern e)"

type_synonym cm_view = "string list \<times> cm_ticket_state option \<times> string list"

definition cm_view :: "engine \<Rightarrow> string \<Rightarrow> cm_view" where
  "cm_view e sid =
     (en_cmDefault e, mget (en_tickets e) sid, (case mget (en_cmPatterns e) sid of None \<Rightarrow> [] | Some ps \<Rightarrow> ps))"

text \<open>The specification: one session's ticket and its own patterns beside the process defaults.\<close>

fun cm_own :: "cm_op \<Rightarrow> cm_view \<Rightarrow> cm_view" where
  "cm_own (CmSet t tid) (d, tk, ps) = (d, Some (t, tid), ps)"
| "cm_own CmClear (d, tk, ps) = (d, None, ps)"
| "cm_own (CmAdd p) (d, tk, ps) = (d, tk, if p \<in> set d \<or> p \<in> set ps then ps else ps @ [p])"

interpretation cms: keyed_local cm_view cm_step cm_own
proof unfold_locales
  show "cm_view (cm_step c k s) k' = cm_view s k'" if "k' \<noteq> k" for k' k c s
    using that
    by (cases c) (auto simp: cm_view_def SetActiveCMTicketForSession_def ClearActiveCMTicketForSession_def AddCMPatternForSession_def Let_def)
  show "cm_view (cm_step c k s) k = cm_own c (cm_view s k)" for c k s
    by (cases c) (auto simp: cm_view_def SetActiveCMTicketForSession_def ClearActiveCMTicketForSession_def AddCMPatternForSession_def Let_def)
qed

text \<open>What a session is held to is a function of its own view.\<close>

lemma cm_check_view:
  "cm_view e sid = cm_view e' sid \<Longrightarrow> CMSessionCheckForSession env e sid cmd = CMSessionCheckForSession env e' sid cmd"
  by (simp add: cm_view_def CMSessionCheckForSession_def cm_defs split: option.splits)

lemma AddCMPattern_required:
  assumes "path_Match pattern cmd"
  shows "CMRequiredForSession (snd (AddCMPatternForSession sid pattern e)) sid cmd"
  using assms by (auto simp: AddCMPatternForSession_def Let_def cm_defs list_ex_iff split: option.splits)

lemma AddCMPattern_keeps:
  assumes "CMRequiredForSession e sid cmd"
  shows "CMRequiredForSession (snd (AddCMPatternForSession sid' pattern e)) sid cmd"
  using assms by (cases "sid' = sid") (auto simp: AddCMPatternForSession_def Let_def cm_defs list_ex_iff split: option.splits)

lemma cm_step_keeps_required:
  "CMRequiredForSession e sid cmd \<Longrightarrow> CMRequiredForSession (cm_step op k e) sid cmd"
  using AddCMPattern_keeps
  by (cases op) (auto simp: SetActiveCMTicketForSession_def ClearActiveCMTicketForSession_def cm_defs)

lemma cm_run_keeps_required:
  "CMRequiredForSession e sid cmd \<Longrightarrow> CMRequiredForSession (fold (\<lambda>(k, op). cm_step op k) ops e) sid cmd"
  by (induction ops arbitrary: e) (auto intro: cm_step_keeps_required)

text \<open>None of the \<^verbatim>\<open>cm\<close> verbs reaches the audit log, whose records carry the change id.\<close>

lemma cm_verbs_keep_audit:
  "en_audit (snd (cmSet p now sid args e)) = en_audit e" "en_audit (cmClear sid e) = en_audit e"
  "en_audit (snd (cmRequire sid args e)) = en_audit e"
  by (auto simp add: cmSet_def cmClear_def cmRequire_def SetActiveCMTicketForSession_def ClearActiveCMTicketForSession_def
        AddCMPatternForSession_def Let_def split: list.splits sum.splits)

lemma cmSet_ok:
  assumes "cmSet p now sid args e = (None, e')"
  obtains t where "FetchCMTicket p (args ! 2) = Inr t" "IsTicketValid now (Some t)" "2 < length args"
    "e' = SetActiveCMTicketForSession sid (Some t) (args ! 2) e"
  using assms by (auto simp: cmSet_def split: list.splits sum.splits if_splits)

lemma gate_sel [simp]:
  "ag_Check coreApprovalGate = core_Check" "ag_Explain coreApprovalGate = core_Explain"
  "ag_Check enterpriseApprovalGate = enterprise_Check" "ag_Explain enterpriseApprovalGate = enterprise_Explain"
  by (simp_all add: coreApprovalGate_def enterpriseApprovalGate_def)

section \<open>A concrete engine\<close>

text \<open>
  An engine held to a ticket for every command, with an approved ticket in session \<open>s1\<close> and one four-eyes
  rule for every command, and an environment in which the request is approved on its first turn.
\<close>

definition ex_ticket :: cm_ticket where
  "ex_ticket = \<lparr>tk_ID = ''CHG1'', tk_Title = ''t'', tk_State = ''approved'', tk_Assignee = ''bob'', tk_StartWindow = 5,
     tk_EndWindow = 50, tk_Provider = ''generic''\<rparr>"

definition ex_audit :: audit where
  "ex_audit = \<lparr>au_file = Some '''', au_cfg = \<lparr>cc_path = '''', cc_key = None, cc_session = ''''\<rparr>, au_ledger = None, au_change = '''',
     au_syslog = None, au_url = '''', au_posts = [], au_calls = 0\<rparr>"

definition ex_rule :: fe_rule where
  "ex_rule = \<lparr>fr_Pattern = ''*'', fr_Approver = '''', fr_TTL = 60, fr_NotApprover = '''', fr_Surface = ''''\<rparr>"

definition ex_engine :: engine where
  "ex_engine = \<lparr>en_restricted = False, en_query = None, en_ents = \<lparr>entitlements = no_entitlements, entitlementsLoaded = True\<rparr>,
     en_ids = [], en_reg = \<lparr>globalSessions = [], sessionCap = 8, sessionCapRefuse = False\<rparr>, en_cmDefault = [''*''], en_cmPatterns = [],
     en_tickets = [(''s1'', (Some ex_ticket, ''CHG1''))], en_rules = RulesData [ex_rule],
     en_store = \<lparr>fe_pendings = [], fe_claimed = [], fe_approved = [], fe_denied = [], fe_log = []\<rparr>, en_audit = ex_audit, en_denials = []\<rparr>"

definition ex_io :: log_io where
  "ex_io = \<lparr>li_stamp = ''T'', li_time = ''T'', li_write = None, li_sync = None,
     li_chain = \<lparr>ci_mkdir = None, ci_open = None, ci_lock = None, ci_read = None, ci_write = None, ci_sync = None, ci_now = ''T'',
       ci_user = ''u'', ci_host = ''h''\<rparr>\<rparr>"

definition ex_turn :: wait_turn where
  "ex_turn = \<lparr>wt_now = 11, wt_approved = True, wt_denied = False, wt_canceled = False\<rparr>"

definition ex_env :: gate_env where
  "ex_env = \<lparr>gv_log = \<lparr>le_redact = (\<lambda>s. s), le_quote = (\<lambda>s. s), le_io = (\<lambda>n. ex_io)\<rparr>,
     gv_policy = \<lparr>pe_now = 10, pe_rfc3339 = (\<lambda>t. ''T''), pe_os_user = ''root'', pe_os_groups = []\<rparr>, gv_strict = ''1'',
     gv_request = \<lparr>rq_dirs = None, rq_os_user = ''root'', rq_rnd = Inr (''r1'', ''t1''), rq_host = ''h'', rq_stamp = ''T'', rq_wr = CrOk,
       rq_start = 10, rq_turns = [ex_turn], rq_others = (\<lambda>st. st)\<rparr>\<rparr>"

definition ex_provider :: cm_provider where
  "ex_provider = \<lparr>cp_url = ''u'', cp_provider = '''', cp_parse = (\<lambda>s. None), cp_servicenow = (\<lambda>s. Inr []), cp_jira = (\<lambda>s. Inl ''e''),
     cp_generic = (\<lambda>s. Inr \<lparr>gb_ID = s, gb_Title = ''t'', gb_State = ''approved'', gb_Assignee = ''bob''\<rparr>)\<rparr>"

lemma star_matches:
  "four_eyes_match ''*'' cmd" "path_Match ''*'' cmd \<longleftrightarrow> CHR ''/'' \<notin> set cmd"
proof -
  have "runes ''*'' = [42]" by (simp add: runes_ascii)
  then show "four_eyes_match ''*'' cmd" unfolding four_eyes_match_def by (auto simp: glob_star_iff simp del: glob_runes.simps(2))
  show "path_Match ''*'' cmd \<longleftrightarrow> CHR ''/'' \<notin> set cmd"
    by (simp add: path_Match_def match_loop.simps scanChunk_def)
qed

lemma ex_held: "CMRequiredForSession ex_engine sid ''ls''"
  by (simp add: cm_defs ex_engine_def star_matches list_ex_iff)

lemma ex_match: "matchFourEyes (en_rules ex_engine) ''ls'' = Inr (Some ex_rule)"
  by (simp add: matchFourEyes_def LoadFourEyesRules_def ex_engine_def ex_rule_def star_matches)

lemma ex_passes: "\<exists>e'. enterprise_Check ex_env ex_engine ''s1'' [''ls''] = (Some None, e')"
proof -
  have cm: "CMSessionCheckForSession ex_env ex_engine ''s1'' ''ls'' = None"
    using ex_held [of "''s1''"]
    by (simp add: CMSessionCheckForSession_def GetActiveCMTicketForSession_def ex_engine_def ex_env_def ex_ticket_def IsTicketValid_def zero_time_def)
  have E: "enterprise_Check ex_env ex_engine ''s1'' [''ls''] = RequestApprovalForSession (gv_request ex_env) ''ls'' ex_rule ''s1'' ex_engine"
    by (simp add: enterprise_Check_def cm CheckFourEyesForSession_def ex_match Let_def)
  show ?thesis unfolding E
    by (simp add: RequestApprovalForSession_def createFourEyesPending_def
        checkRequesterIdentity_def GetSession_def createFourEyesPendingAs_def RequestApproval_wait_def wait_ttl_def dur_seconds_def
        ex_env_def ex_turn_def ex_engine_def ex_rule_def Let_def int64_def second_def)
qed

section \<open>Properties\<close>

text \<open>
  C12. Explanation and check agree, for the gate of the core build and for the one of the enterprise build: a
  command that passes has no denied stage; one with no denied stage and no required approval passes and leaves
  the engine as it was; a refusal is recognised by \<^verbatim>\<open>IsApprovalRequired\<close>.
\<close>

theorem gates_agree_with_explanation:
  assumes "g = currentApprovalGate None \<or> g = currentApprovalGate (Some enterpriseApprovalGate)"
    and "ag_Check g env e sid args = (r, e')"
  shows "(r = Some None \<longrightarrow> (\<forall>st \<in> set (ag_Explain g env e sid args). es_Status st \<noteq> ''denied'')) \<and>
    ((\<forall>st \<in> set (ag_Explain g env e sid args). es_Status st \<noteq> ''denied'' \<and> es_Status st \<noteq> ''approval_required'') \<longrightarrow> r = Some None \<and> e' = e) \<and>
    (\<forall>m. r = Some (Some m) \<longrightarrow> IsApprovalRequired m)"
proof -
  have g: "g = coreApprovalGate \<or> g = enterpriseApprovalGate" using assms(1) by (simp add: currentApprovalGate_def)
  then show ?thesis
  proof
    assume g: "g = coreApprovalGate"
    show ?thesis unfolding g gate_sel by (rule core.agrees) (use assms(2) g in \<open>simp only: gate_sel\<close>)
  next
    assume g: "g = enterpriseApprovalGate"
    show ?thesis unfolding g gate_sel by (rule ee.agrees) (use assms(2) g in \<open>simp only: gate_sel\<close>)
  qed
qed

theorem gates_agree_with_explanation_witness:
  "''denied'' \<notin> es_Status ` set (ag_Explain (currentApprovalGate (Some enterpriseApprovalGate)) ex_env ex_engine ''s1'' [''ls''])"
proof -
  obtain e' where "ag_Check (currentApprovalGate (Some enterpriseApprovalGate)) ex_env ex_engine ''s1'' [''ls''] = (Some None, e')"
    using ex_passes by (auto simp: currentApprovalGate_def)
  then have "\<forall>st \<in> set (ag_Explain (currentApprovalGate (Some enterpriseApprovalGate)) ex_env ex_engine ''s1'' [''ls'']). es_Status st \<noteq> ''denied''"
    using gates_agree_with_explanation [OF disjI2 [OF refl]] by blast
  then show ?thesis by force
qed



text \<open>
  C13. Sessions are held to their own tickets and patterns: two histories with the same operations of a session
  give it the same change-management decision, whatever other sessions set, cleared or required. A command
  once held to a ticket stays held, since no operation removes a pattern.
\<close>

theorem cm_sessions_separate:
  assumes "filter (\<lambda>(k, op). k = sid) ops = filter (\<lambda>(k, op). k = sid) ops'"
  shows "CMSessionCheckForSession env (fold (\<lambda>(k, op). cm_step op k) ops e) sid cmd =
      CMSessionCheckForSession env (fold (\<lambda>(k, op). cm_step op k) ops' e) sid cmd \<and>
    (CMRequiredForSession e sid cmd \<longrightarrow> CMRequiredForSession (fold (\<lambda>(k, op). cm_step op k) ops e) sid cmd)"
  using cm_check_view [OF cms.noninterference [OF refl assms]] cm_run_keeps_required by blast

theorem cm_sessions_separate_witness:
  "CMSessionCheckForSession ex_env (cm_step CmClear ''s2'' ex_engine) ''s1'' ''ls'' = CMSessionCheckForSession ex_env ex_engine ''s1'' ''ls'' \<and>
   CMRequiredForSession (cm_step CmClear ''s2'' ex_engine) ''s1'' ''ls''"
  using cm_sessions_separate [of "''s1''" "[(''s2'', CmClear)]" "[]" ex_env ex_engine "''ls''"] ex_held [of "''s1''"] by simp

text \<open>
  A ticket set with \<^verbatim>\<open>cm set\<close> was valid when it was set and lets the session's commands pass exactly while it
  is valid: outside its window, or once it is not approved, the check refuses, strict mode or not.
\<close>

theorem cm_set_window:
  assumes "cmSet p now sid args e = (None, e')" "CMRequiredForSession e sid cmd"
  shows "\<exists>t. FetchCMTicket p (args ! 2) = Inr t \<and> IsTicketValid now (Some t) \<and>
    (CMSessionCheckForSession env e' sid cmd = None \<longleftrightarrow> IsTicketValid (pe_now (gv_policy env)) (Some t))"
proof -
  obtain t where t: "FetchCMTicket p (args ! 2) = Inr t" "IsTicketValid now (Some t)"
      "e' = SetActiveCMTicketForSession sid (Some t) (args ! 2) e" using cmSet_ok [OF assms(1)] by blast
  then have "CMRequiredForSession e' sid cmd" "GetActiveCMTicketForSession e' sid = (Some t, args ! 2)"
    using assms(2) by (simp_all add: SetActiveCMTicketForSession_def cm_defs)
  then show ?thesis using t by (auto simp: CMSessionCheckForSession_def)
qed

theorem cm_set_window_witness:
  "\<exists>e' t. cmSet ex_provider 10 ''s2'' [''cm'', ''set'', ''CHG2''] ex_engine = (None, e') \<and> FetchCMTicket ex_provider ''CHG2'' = Inr t \<and>
     CMSessionCheckForSession ex_env e' ''s2'' ''ls'' = None"
proof -
  let ?t = "\<lparr>tk_ID = ''CHG2'', tk_Title = ''t'', tk_State = ''approved'', tk_Assignee = ''bob'', tk_StartWindow = 0, tk_EndWindow = 0, tk_Provider = ''generic''\<rparr>"
  have f: "FetchCMTicket ex_provider ''CHG2'' = Inr ?t"
    by (simp add: FetchCMTicket_def ex_provider_def fetchGeneric_def zero_time_def)
  have v: "IsTicketValid n (Some ?t)" for n by (simp add: IsTicketValid_def zero_time_def)
  have s: "cmSet ex_provider 10 ''s2'' [''cm'', ''set'', ''CHG2''] ex_engine = (None, SetActiveCMTicketForSession ''s2'' (Some ?t) ''CHG2'' ex_engine)"
    by (simp add: cmSet_def f v)
  show ?thesis using cm_set_window [OF s ex_held, of ex_env] s f v by auto
qed

text \<open>
  The gate of the process is installed once: whatever calls of \<^verbatim>\<open>SetApprovalGate\<close> follow, the first gate
  stays in force and every later call fails.
\<close>

theorem gate_installed_once:
  "fold (\<lambda>g cur. snd (SetApprovalGate g cur)) gs (Some g) = Some g \<and>
   fst (SetApprovalGate h (fold (\<lambda>g cur. snd (SetApprovalGate g cur)) gs (Some g))) \<noteq> None"
proof -
  have "fold (\<lambda>g cur. snd (SetApprovalGate g cur)) gs (Some g) = Some g"
    by (induction gs) (auto simp: SetApprovalGate_def split: option.splits)
  then show ?thesis by (simp add: SetApprovalGate_def split: option.split)
qed

end
