(* ===== verification/AdminPlane.thy ===== *)
theory AdminPlane
  imports Sessions
begin

text \<open>
  The admin plane of the enterprise build (\<^verbatim>\<open>security/adminplane_ee.go\<close>, \<^verbatim>\<open>quarantine_ee.go\<close>,
  \<^verbatim>\<open>agentbudget_ee.go\<close>) and the hook through which the core calls it (\<^verbatim>\<open>adminplane_hook.go\<close>): raw
  administration commands are rewritten to governed verbs or refused, a quarantined host runs a fixed list of
  read-only commands, and a managed agent spends a budget.
\<close>

section \<open>Names and environment\<close>

definition unit_char :: "char \<Rightarrow> bool" where
  "unit_char c = (is_alnum c \<or> c \<in> set '':_.@-'')"

text \<open>\<^verbatim>\<open>^[A-Za-z0-9][A-Za-z0-9:_.@-]{0,255}$\<close>\<close>

definition unitNamePattern :: "string \<Rightarrow> bool" where
  "unitNamePattern s = (case s of [] \<Rightarrow> False | c # cs \<Rightarrow> is_alnum c \<and> length cs \<le> 255 \<and> list_all unit_char cs)"

definition rawAdminNames :: "string list" where
  "rawAdminNames = [''sudo'', ''systemctl'', ''journalctl'', ''apt'', ''apt-get'']"

definition envTruthy :: "string \<Rightarrow> bool" where
  "envTruthy v = (toLower (trimSpace v) \<in> {''1'', ''true'', ''yes''})"

text \<open>
  The variables \<^verbatim>\<open>ADSSH_QUARANTINE\<close>, \<^verbatim>\<open>ADSSH_QUARANTINE_FILE\<close> and \<^verbatim>\<open>ADSSH_AGENT_UNIT\<close>, what
  \<^verbatim>\<open>os.Lstat\<close> says of the file, and whether the context is the recovery menu.
\<close>

datatype lstat = LstatFound | LstatMissing | LstatError

record adm_env =
  av_quarantine :: string
  av_file :: string
  av_lstat :: lstat
  av_agent_unit :: string
  av_recover :: bool

section \<open>Rewriting\<close>

definition arrow :: string where
  "arrow = [CHR 0xE2, CHR 0x86, CHR 0x92]"

type_synonym rewrite_result = "string + (string list \<times> string)"

definition rewriteSudo :: "string list \<Rightarrow> rewrite_result" where
  "rewriteSudo args =
     (if ''--'' \<notin> set (tl args) then Inl ''alias: sudo is refused; the governed verb is do''
      else Inr (''do'' # tl args, ''alias: sudo '' @ arrow @ '' do''))"

definition rewriteSystemctl :: "string list \<Rightarrow> rewrite_result" where
  "rewriteSystemctl args =
     (if length args = 3 \<and> args ! 1 \<in> {''status'', ''restart'', ''stop''} \<and> unitNamePattern (args ! 2)
      then Inr ([''unit'', args ! 1, args ! 2], ''alias: systemctl '' @ arrow @ '' unit'')
      else Inl ''alias: systemctl is refused; the governed verb is unit'')"

definition journalctlUnit :: "string list \<Rightarrow> string option" where
  "journalctlUnit args =
     (if length args = 3 then (if args ! 1 = ''-u'' then Some (args ! 2) else None)
      else if length args = 4 then
        (if args ! 1 = ''-u'' \<and> args ! 3 = ''--no-pager'' then Some (args ! 2)
         else if args ! 1 = ''--no-pager'' \<and> args ! 2 = ''-u'' then Some (args ! 3)
         else None)
      else None)"

definition rewriteJournalctl :: "string list \<Rightarrow> rewrite_result" where
  "rewriteJournalctl args =
     (case journalctlUnit args of
        None \<Rightarrow> Inl ''alias: journalctl is refused; the governed verb is unit logs NAME''
      | Some name \<Rightarrow>
          if \<not> unitNamePattern name then Inl ''alias: journalctl is refused; the governed verb is unit logs NAME''
          else Inr ([''unit'', ''logs'', name], ''alias: journalctl '' @ arrow @ '' unit logs''))"

definition rewriteAdminPlane :: "string list \<Rightarrow> rewrite_result" where
  "rewriteAdminPlane args =
     (if args = [] then Inr (args, '''')
      else let b = path_base (hd args)
           in if b = ''sudo'' then rewriteSudo args
              else if b = ''systemctl'' then rewriteSystemctl args
              else if b = ''journalctl'' then rewriteJournalctl args
              else if b = ''apt'' \<or> b = ''apt-get'' then Inl ''alias: apt is refused; the governed verb is package''
              else Inr (args, ''''))"

section \<open>Quarantine\<close>

definition quarantineActive :: "adm_env \<Rightarrow> bool" where
  "quarantineActive env =
     (if envTruthy (av_quarantine env) then True
      else if av_file env = '''' then False
      else av_lstat env \<noteq> LstatMissing)"

definition quarantineAllows :: "adm_env \<Rightarrow> string list \<Rightarrow> bool" where
  "quarantineAllows env args =
     (if args = [] then False
      else let b = path_base (hd args)
           in if b \<in> {''journal'', ''net'', ''disk'', ''posture'', ''asof'', ''why'', ''evidence''} then True
              else if b = ''host'' then length args = 2 \<and> args ! 1 \<in> {''drift'', ''status'', ''verify''}
              else if b = ''unit'' then
                (if length args = 2 \<and> (args ! 1 = ''check'' \<or> args ! 1 = ''timers'') then True
                 else if length args = 3 \<and> (args ! 1 = ''status'' \<or> args ! 1 = ''logs'') \<and> unitNamePattern (args ! 2) then True
                 else if length args = 3 \<and> args ! 1 = ''restart'' then
                   av_agent_unit env \<noteq> '''' \<and> args ! 2 = av_agent_unit env \<and> unitNamePattern (args ! 2)
                 else False)
              else False)"

section \<open>Agent budgets\<close>

record AgentBudget =
  ab_Allow :: "string list"
  ab_Cmds :: int
  ab_Bytes :: int
  ab_Deadline :: time
  ab_Sponsor :: string

record agentCharge =
  ch_allow :: "string list"
  ch_cmdsLeft :: int
  ch_bytesLeft :: int
  ch_deadline :: time
  ch_sponsor :: string

type_synonym budgets = "agentCharge smap"

definition charge_of :: "AgentBudget \<Rightarrow> agentCharge" where
  "charge_of b = \<lparr>ch_allow = ab_Allow b, ch_cmdsLeft = ab_Cmds b, ch_bytesLeft = ab_Bytes b, ch_deadline = ab_Deadline b, ch_sponsor = ab_Sponsor b\<rparr>"

definition BindAgentBudget :: "string \<Rightarrow> AgentBudget \<Rightarrow> budgets \<Rightarrow> string option \<times> budgets" where
  "BindAgentBudget sessionID b m =
     (if sessionID = '''' then (Some ''admin plane: agent budget'', m)
      else (None, mput m sessionID (charge_of b)))"

definition ClearAgentBudget :: "string \<Rightarrow> budgets \<Rightarrow> budgets" where
  "ClearAgentBudget sessionID m = mdel m sessionID"

text \<open>The counters are \<^verbatim>\<open>int\<close> and \<^verbatim>\<open>int64\<close>; they are decremented only when positive.\<close>

definition chargeAgentCommand :: "time \<Rightarrow> registry \<Rightarrow> string \<Rightarrow> string \<Rightarrow> budgets \<Rightarrow> string option \<times> budgets" where
  "chargeAgentCommand now r sessionID name m =
     (case mget m sessionID of
        None \<Rightarrow> (None, m)
      | Some ch \<Rightarrow>
          if ch_sponsor ch = '''' then (Some ''admin plane: agent sponsor ended'', m)
          else if (case GetSession r (ch_sponsor ch) of None \<Rightarrow> True | Some s \<Rightarrow> info_Terminated (fst (Info now s)))
          then (Some ''admin plane: agent sponsor ended'', m)
          else if name \<notin> set (ch_allow ch) then (Some ''admin plane: agent budget'', m)
          else if ch_deadline ch \<noteq> zero_time \<and> \<not> now < ch_deadline ch then (Some ''admin plane: agent budget'', m)
          else if ch_cmdsLeft ch \<le> 0 \<or> ch_bytesLeft ch \<le> 0 then (Some ''admin plane: agent budget'', m)
          else (None, mput m sessionID (ch\<lparr>ch_cmdsLeft := ch_cmdsLeft ch - 1, ch_bytesLeft := ch_bytesLeft ch - 1\<rparr>)))"

section \<open>The hook\<close>

definition adminPlaneCheck :: "adm_env \<Rightarrow> time \<Rightarrow> registry \<Rightarrow> string \<Rightarrow> string list \<Rightarrow> budgets \<Rightarrow> string option \<times> budgets" where
  "adminPlaneCheck env now r sessionID args m =
     (if args \<noteq> [] \<and> path_base (hd args) \<in> set rawAdminNames then (Some ''admin plane: raw admin name refused'', m)
      else if quarantineActive env \<and> \<not> quarantineAllows env args then (Some ''admin plane: quarantine'', m)
      else if args = [] then (None, m)
      else chargeAgentCommand now r sessionID (path_base (hd args)) m)"

type_synonym admin_gate = "adm_env \<Rightarrow> time \<Rightarrow> registry \<Rightarrow> string \<Rightarrow> string list \<Rightarrow> budgets \<Rightarrow> string option \<times> budgets"

record admin_plane =
  ap_rewrite :: "string list \<Rightarrow> rewrite_result"
  ap_gate :: admin_gate

definition enterpriseAdminPlane :: admin_plane where
  "enterpriseAdminPlane = \<lparr>ap_rewrite = rewriteAdminPlane, ap_gate = adminPlaneCheck\<rparr>"

definition SetAdminPlane ::
  "(string list \<Rightarrow> rewrite_result) option \<Rightarrow> admin_gate option \<Rightarrow> admin_plane option \<Rightarrow> go_error \<times> admin_plane option" where
  "SetAdminPlane rewrite gate cur =
     (case (rewrite, gate) of
        (Some f, Some g) \<Rightarrow>
          if cur \<noteq> None then (Some ''security: SetAdminPlane: a hook is already installed'', cur)
          else (None, Some \<lparr>ap_rewrite = f, ap_gate = g\<rparr>)
      | _ \<Rightarrow> (Some ''security: SetAdminPlane: nil hook'', cur))"

definition currentAdminPlaneRewrite :: "admin_plane option \<Rightarrow> string list \<Rightarrow> rewrite_result" where
  "currentAdminPlaneRewrite cur args = (case cur of None \<Rightarrow> Inr (args, '''') | Some p \<Rightarrow> ap_rewrite p args)"

definition currentAdminPlaneGate :: "admin_plane option \<Rightarrow> admin_gate" where
  "currentAdminPlaneGate cur env now r sessionID args m =
     (case cur of None \<Rightarrow> (None, m) | Some p \<Rightarrow> ap_gate p env now r sessionID args m)"

text \<open>\<^verbatim>\<open>adminPlaneBlocked\<close> is installed together with the gate.\<close>

definition mutationBlocked :: "admin_plane option \<Rightarrow> adm_env \<Rightarrow> bool" where
  "mutationBlocked cur env = (cur \<noteq> None \<and> (av_recover env \<or> quarantineActive env))"

section \<open>Running a governed child\<close>

definition adminOutputCap :: nat where
  "adminOutputCap = 64 * 1024"

record capBuf =
  cb_buf :: string
  cb_max :: nat

definition capBuf_Write :: "string \<Rightarrow> capBuf \<Rightarrow> nat \<times> capBuf" where
  "capBuf_Write p c =
     (length p,
      if length (cb_buf c) < cb_max c
      then c\<lparr>cb_buf := cb_buf c @ (let remain = cb_max c - length (cb_buf c) in if length p > remain then take remain p else p)\<rparr>
      else c)"

definition observed_names :: "string list" where
  "observed_names = [''PATH'', ''LANG'', ''LC_ALL'', ''TZ'', ''TERM'']"

definition observeEnv :: "(string \<Rightarrow> string option) \<Rightarrow> string list" where
  "observeEnv os_env =
     (let out = concat (map (\<lambda>name. if hasPrefix name ''ADSSH_'' then []
                                    else case os_env name of None \<Rightarrow> [] | Some v \<Rightarrow> if v = '''' then [] else [name @ ''='' @ v]) observed_names)
      in if list_ex (\<lambda>item. hasPrefix item ''PATH='') out then out else out @ [''PATH=/usr/bin:/bin''])"

definition requireSession :: "registry \<Rightarrow> string \<Rightarrow> string \<Rightarrow> string + session" where
  "requireSession r sid verb =
     (if sid = '''' then Inl (verb @ '': requires a session'')
      else case GetSession r sid of None \<Rightarrow> Inl (verb @ '': requires a session'') | Some s \<Rightarrow> Inr s)"

definition helpArgs :: "string list \<Rightarrow> bool" where
  "helpArgs args = (length args > 1 \<and> (args ! 1 = ''--help'' \<or> args ! 1 = ''help''))"

section \<open>Rewritten commands\<close>

lemma governed_base [simp]: "path_base ''do'' = ''do''" "path_base ''unit'' = ''unit''"
  by (simp_all add: path_base_def trim_right_set_def)

lemmas rewrite_defs = rewriteAdminPlane_def rewriteSudo_def rewriteSystemctl_def rewriteJournalctl_def

lemma rewrite_cases:
  assumes "rewriteAdminPlane args = Inr (args', note)"
  shows "(args' = args \<and> note = '''' \<and> (args \<noteq> [] \<longrightarrow> path_base (hd args) \<notin> set rawAdminNames)) \<or>
    (\<exists>rest. args' = ''do'' # rest \<and> rest = tl args) \<or> (\<exists>verb name. args' = [''unit'', verb, name] \<and> unitNamePattern name)"
  using assms by (auto simp: rewrite_defs rawAdminNames_def Let_def split: if_splits option.splits)

section \<open>Budgets of one session\<close>

datatype bud_op = BBind AgentBudget | BClear | BCharge time registry string

fun bud_step :: "bud_op \<Rightarrow> string \<Rightarrow> budgets \<Rightarrow> budgets" where
  "bud_step (BBind b) sid m = snd (BindAgentBudget sid b m)"
| "bud_step BClear sid m = ClearAgentBudget sid m"
| "bud_step (BCharge now r name) sid m = snd (chargeAgentCommand now r sid name m)"

interpretation bud: keyed_store "\<lambda>m k. mget m k" bud_step
  by unfold_locales (case_tac c; auto simp: BindAgentBudget_def ClearAgentBudget_def chargeAgentCommand_def split: option.splits)

text \<open>The charges of a session that were accepted in a run, in order.\<close>

fun accepted :: "string \<Rightarrow> (string \<times> bud_op) list \<Rightarrow> budgets \<Rightarrow> (time \<times> registry \<times> string) list" where
  "accepted sid [] m = []"
| "accepted sid ((k, op) # ops) m =
     (case op of
        BCharge now r name \<Rightarrow>
          (if k = sid \<and> fst (chargeAgentCommand now r sid name m) = None then [(now, r, name)] else []) @ accepted sid ops (bud_step op k m)
      | _ \<Rightarrow> accepted sid ops (bud_step op k m))"

definition live_sponsor :: "registry \<Rightarrow> string \<Rightarrow> bool" where
  "live_sponsor r sponsor = (sponsor \<noteq> '''' \<and> (\<exists>s. GetSession r sponsor = Some s \<and> \<not> sess_terminated s))"

lemma info_terminated: "info_Terminated (fst (Info now s)) = sess_terminated s"
  by (auto simp: Info_def activeElevationLocked_def Let_def split: option.splits)

text \<open>A charge on a bound session: accepted exactly under the conditions of the budget, and then both counters fall by one.\<close>

lemma charge_bound:
  assumes "mget m sid = Some ch"
  shows "fst (chargeAgentCommand now r sid name m) = None \<longleftrightarrow>
      live_sponsor r (ch_sponsor ch) \<and> name \<in> set (ch_allow ch) \<and> (ch_deadline ch = zero_time \<or> now < ch_deadline ch) \<and>
      0 < ch_cmdsLeft ch \<and> 0 < ch_bytesLeft ch"
    and "mget (snd (chargeAgentCommand now r sid name m)) sid =
      Some (if fst (chargeAgentCommand now r sid name m) = None
            then ch\<lparr>ch_cmdsLeft := ch_cmdsLeft ch - 1, ch_bytesLeft := ch_bytesLeft ch - 1\<rparr> else ch)"
  using assms by (auto simp: chargeAgentCommand_def live_sponsor_def info_terminated split: option.splits)

lemma accepted_bound:
  assumes "mget m sid = Some ch" "\<forall>(k, op) \<in> set ops. k = sid \<longrightarrow> (\<exists>now r name. op = BCharge now r name)"
  shows "int (length (accepted sid ops m)) \<le> max 0 (min (ch_cmdsLeft ch) (ch_bytesLeft ch)) \<and>
    (\<forall>(now, r, name) \<in> set (accepted sid ops m). live_sponsor r (ch_sponsor ch) \<and> name \<in> set (ch_allow ch) \<and>
       (ch_deadline ch = zero_time \<or> now < ch_deadline ch))"
  using assms
proof (induction ops arbitrary: m ch)
  case (Cons a ops)
  obtain k op where a: "a = (k, op)" by fastforce
  show ?case
  proof (cases "k = sid")
    case False
    then have "mget (bud_step op k m) sid = Some ch" using Cons.prems(1) bud.frame by metis
    then show ?thesis using Cons.IH [of "bud_step op k m" ch] Cons.prems(2) a False by (cases op) auto
  next
    case True
    then obtain now r name where op: "op = BCharge now r name" using Cons.prems(2) a by auto
    note c = charge_bound [OF Cons.prems(1), of now r name]
    let ?m = "snd (chargeAgentCommand now r sid name m)"
    show ?thesis
    proof (cases "fst (chargeAgentCommand now r sid name m) = None")
      case ok: True
      then have "mget ?m sid = Some (ch\<lparr>ch_cmdsLeft := ch_cmdsLeft ch - 1, ch_bytesLeft := ch_bytesLeft ch - 1\<rparr>)" using c(2) by simp
      from Cons.IH [OF this] show ?thesis using Cons.prems(2) a True op ok c(1) by auto
    next
      case no: False
      then have "mget ?m sid = Some ch" using c(2) by simp
      from Cons.IH [OF this] show ?thesis using Cons.prems(2) a True op no by auto
    qed
  qed
qed simp

section \<open>Properties\<close>

text \<open>
  C14. No raw administration command gets past the admin plane: what the rewrite hands on is never one, rewriting it
  again changes nothing, and the gate refuses one that arrives by any other way, without charging a budget.
\<close>

theorem raw_admin_never_passes:
  "(\<forall>args' note. rewriteAdminPlane args = Inr (args', note) \<longrightarrow>
      (args' \<noteq> [] \<longrightarrow> path_base (hd args') \<notin> set rawAdminNames) \<and> rewriteAdminPlane args' = Inr (args', '''')) \<and>
   (args \<noteq> [] \<and> path_base (hd args) \<in> set rawAdminNames \<longrightarrow>
      fst (adminPlaneCheck env now r sid args m) \<noteq> None \<and> snd (adminPlaneCheck env now r sid args m) = m)"
proof (intro conjI allI impI)
  fix args' msg
  assume r: "rewriteAdminPlane args = Inr (args', msg)"
  show n: "path_base (hd args') \<notin> set rawAdminNames" if "args' \<noteq> []"
    using rewrite_cases [OF r] that by (auto simp: rawAdminNames_def)
  show "rewriteAdminPlane args' = Inr (args', '''')"
    using n by (cases "args' = []") (auto simp: rewriteAdminPlane_def rawAdminNames_def Let_def)
qed (auto simp: adminPlaneCheck_def)

theorem raw_admin_never_passes_witness:
  "rewriteAdminPlane [''do'', ''--'', ''id''] = Inr ([''do'', ''--'', ''id''], '''') \<and>
   fst (adminPlaneCheck \<lparr>av_quarantine = '''', av_file = '''', av_lstat = LstatMissing, av_agent_unit = '''', av_recover = False\<rparr>
      0 \<lparr>globalSessions = [], sessionCap = 8, sessionCapRefuse = False\<rparr> ''s'' [''/usr/bin/sudo'', ''--'', ''id''] []) \<noteq> None"
proof -
  let ?a = "[''/usr/bin/sudo'', ''--'', ''id'']"
  have b: "path_base ''/usr/bin/sudo'' = ''sudo''" by (simp add: path_base_def trim_right_set_def)
  then have "rewriteAdminPlane ?a = Inr ([''do'', ''--'', ''id''], ''alias: sudo '' @ arrow @ '' do'')"
    by (simp add: rewriteAdminPlane_def rewriteSudo_def)
  then show ?thesis using raw_admin_never_passes [of ?a] b by (simp add: rawAdminNames_def)
qed

text \<open>
  C15. An agent never spends more than its budget: from the moment a budget is bound to a session until it is bound
  again or cleared, whatever other sessions do, at most \<^verbatim>\<open>min Cmds Bytes\<close> commands of the session are
  accepted, and each of them is on the list, before the deadline, and sponsored by a live session.
\<close>

theorem agent_budget_bound:
  assumes "sid \<noteq> ''''" "\<forall>(k, op) \<in> set ops. k = sid \<longrightarrow> (\<exists>now r name. op = BCharge now r name)"
    and "cs = accepted sid ops (snd (BindAgentBudget sid b m))"
  shows "int (length cs) \<le> max 0 (min (ab_Cmds b) (ab_Bytes b)) \<and>
    (\<forall>(now, r, name) \<in> set cs. live_sponsor r (ab_Sponsor b) \<and> name \<in> set (ab_Allow b) \<and>
       (ab_Deadline b = zero_time \<or> now < ab_Deadline b))"
proof -
  have "mget (snd (BindAgentBudget sid b m)) sid = Some (charge_of b)"
    using assms(1) by (simp add: BindAgentBudget_def)
  from accepted_bound [OF this assms(2)] show ?thesis by (simp add: assms(3) charge_of_def)
qed

definition ex_budget :: AgentBudget where
  "ex_budget = \<lparr>ab_Allow = [''ls''], ab_Cmds = 1, ab_Bytes = 5, ab_Deadline = 0, ab_Sponsor = ''boss''\<rparr>"

definition ex_reg :: registry where
  "ex_reg = \<lparr>globalSessions = [(''boss'', demo_session)], sessionCap = 8, sessionCapRefuse = False\<rparr>"

theorem agent_budget_bound_witness:
  "length (accepted ''a1'' [(''a1'', BCharge 1 ex_reg ''ls''), (''x'', BClear), (''a1'', BCharge 2 ex_reg ''ls'')]
     (snd (BindAgentBudget ''a1'' ex_budget []))) = 1"
proof -
  let ?ops = "[(''a1'', BCharge 1 ex_reg ''ls''), (''x'', BClear), (''a1'', BCharge 2 ex_reg ''ls'')]"
  have "int (length (accepted ''a1'' ?ops (snd (BindAgentBudget ''a1'' ex_budget [])))) \<le> 1"
    using agent_budget_bound [of "''a1''" ?ops _ ex_budget "[]"] by (auto simp: ex_budget_def)
  moreover have "fst (chargeAgentCommand 1 ex_reg ''a1'' ''ls'' (snd (BindAgentBudget ''a1'' ex_budget []))) = None"
    by (subst charge_bound(1)) (auto simp: BindAgentBudget_def charge_of_def ex_budget_def live_sponsor_def ex_reg_def
          GetSession_def demo_session_def zero_time_def)
  ultimately show ?thesis by simp
qed

text \<open>
  The combined output of a governed child is the first bytes it wrote, however the writes were cut: the
  buffer holds the concatenation up to its limit, and every write reports its full length.
\<close>

theorem output_capped:
  "cb_buf (fold (\<lambda>p c. snd (capBuf_Write p c)) ps \<lparr>cb_buf = '''', cb_max = n\<rparr>) = take n (concat ps) \<and>
   fst (capBuf_Write p c) = length p"
proof -
  have "cb_buf (fold (\<lambda>p c. snd (capBuf_Write p c)) ps c) = take (cb_max c) (cb_buf c @ concat ps)"
    if "length (cb_buf c) \<le> cb_max c" for c
    using that
  proof (induction ps arbitrary: c)
    case (Cons p ps)
    let ?c = "snd (capBuf_Write p c)"
    have "cb_max ?c = cb_max c" "cb_buf ?c = take (cb_max c) (cb_buf c @ p)"
      using Cons.prems by (auto simp: capBuf_Write_def Let_def)
    then show ?case using Cons.IH [of ?c] Cons.prems by (cases "length p \<le> cb_max c - length (cb_buf c)") auto
  qed simp
  then show ?thesis by (simp add: capBuf_Write_def)
qed

end
