(* ===== verification/Remote.thy ===== *)
theory Remote
  imports Prelude
begin

text \<open>
  What an SSH session may run, \<^verbatim>\<open>security/ssh_monitor.go\<close>: the commands its session process refuses, the
  commands it sends to the listener, and the checks the listener makes on such a command before its gate.
\<close>

section \<open>Refusals of the session process\<close>

definition sshRefusal :: "string \<Rightarrow> string" where
  "sshRefusal name = name @ '': not available in an SSH session; run it in a local session or over the admin API''"

definition sshSessionRefusedVBins :: "string list" where
  "sshSessionRefusedVBins =
     [''elevate'', ''cm'', ''lease'', ''grant'', ''identity'', ''4eyes'', ''why'', ''??'', ''admin'', ''gateway'', ''guard'', ''grid'',
      ''flight'', ''agent'', ''worktree'', ''repo'', ''evidence'', ''whoami'']"

definition sshSessionRefusal :: "string list \<Rightarrow> string option" where
  "sshSessionRefusal args =
     (case args of
        [] \<Rightarrow> None
      | name # rest \<Rightarrow>
          (let refused = (if name = ''plugin'' \<or> name = ''mirror'' then rest = [] \<or> hd rest \<noteq> ''list''
                          else name \<in> set sshSessionRefusedVBins)
           in if \<not> refused then None else Some (sshRefusal name)))"

section \<open>Commands the listener runs\<close>

text \<open>\<open>None\<close> stands for a nil set, which accepts every subcommand.\<close>

definition sshListenerRuns :: "string list option smap" where
  "sshListenerRuns =
     [(''elevate'', None), (''why'', None), (''??'', None), (''agent'', None), (''whoami'', None), (''do'', None), (''evidence'', None),
      (''cm'', Some [''set'', ''check'', ''clear'', ''status'', ''providers'', ''require'']),
      (''grant'', Some [''drop'']), (''4eyes'', Some [''approve'', ''deny'', ''pending'', ''list'']), (''guard'', Some [''status'']),
      (''gateway'', Some [''list'', ''stop'']), (''identity'', Some [''status'']), (''grid'', Some [''status'']),
      (''flight'', Some [''rehearse'', ''cancel'', ''status'']), (''worktree'', Some [''create'', ''destroy'']),
      (''mirror'', Some [''kill'', ''share'', ''unshare''])]"

definition sshRunsInListener :: "string list \<Rightarrow> bool" where
  "sshRunsInListener args =
     (case args of
        [] \<Rightarrow> False
      | name # rest \<Rightarrow>
          if name = ''mirror'' then rest \<noteq> [] \<and> hd rest \<in> {''kill'', ''share'', ''unshare''}
          else mget sshListenerRuns name \<noteq> None)"

definition fourEyesRulesRefusal :: "string \<Rightarrow> string" where
  "fourEyesRulesRefusal sub = ''4eyes '' @ sub @ '': changes listener rules; use a local session or the admin API''"

definition is_help :: "string \<Rightarrow> bool" where
  "is_help s = (s = ''--help'' \<or> s = ''help'')"

text \<open>The flags of \<^verbatim>\<open>evidence\<close> are every second argument.\<close>

fun flag_positions :: "string list \<Rightarrow> string list" where
  "flag_positions [] = []"
| "flag_positions [f] = [f]"
| "flag_positions (f # v # rest) = f # flag_positions rest"

definition sshListenerRunRefusal :: "string list \<Rightarrow> string option" where
  "sshListenerRunRefusal args =
     (case args of
        [] \<Rightarrow> Some ''adssh: ssh monitor: empty run''
      | name # rest \<Rightarrow>
          (case mget sshListenerRuns name of
             None \<Rightarrow> Some (sshRefusal name)
           | Some allowed \<Rightarrow>
               (let sub = (if name = ''guard'' then filter (\<lambda>a. a \<noteq> ''--json'') rest else rest)
                in if name = ''guard'' \<and> length sub > 1 \<and> \<not> is_help (hd sub) then Some (sshRefusal name)
                   else if (case allowed of None \<Rightarrow> False | Some ok \<Rightarrow> sub = []) then Some (sshRefusal name)
                   else if (case allowed of None \<Rightarrow> False | Some ok \<Rightarrow> hd sub \<notin> set ok \<and> \<not> is_help (hd sub)) then
                     (if name = ''4eyes'' \<and> hd sub \<in> {''add'', ''remove'', ''rm''} then Some (fourEyesRulesRefusal (hd sub))
                      else Some (sshRefusal name))
                   else if name = ''evidence'' \<and> ''--out'' \<in> set (flag_positions rest) then Some (sshRefusal name)
                   else None)))"

text \<open>
  The \<^verbatim>\<open>--session\<close> flags of an \<^verbatim>\<open>evidence\<close> run: \<open>None\<close> when one names another session,
  otherwise whether there is one.
\<close>

fun evidence_scope :: "string \<Rightarrow> string list \<Rightarrow> bool option" where
  "evidence_scope sid [] = Some False"
| "evidence_scope sid [f] = (if f = ''--session'' then None else Some False)"
| "evidence_scope sid (f # v # rest) =
     (if f \<noteq> ''--session'' then evidence_scope sid rest
      else if v \<noteq> sid then None
      else map_option (\<lambda>_. True) (evidence_scope sid rest))"

definition sshListenerRunArgs :: "string \<Rightarrow> string list \<Rightarrow> string + string list" where
  "sshListenerRunArgs sessionID args =
     (case sshListenerRunRefusal args of
        Some e \<Rightarrow> Inl e
      | None \<Rightarrow>
          if hd args = ''evidence'' then
            (case evidence_scope sessionID (tl args) of
               None \<Rightarrow> Inl ''evidence: over SSH only the session's own evidence is available''
             | Some scoped \<Rightarrow> Inr (if scoped then args else args @ [''--session'', sessionID]))
          else if hd args = ''mirror'' \<and> args ! 1 = ''kill'' \<and> (length args \<noteq> 3 \<or> args ! 2 \<noteq> sessionID) then
            Inl ''mirror kill: over SSH only the session itself can be ended''
          else Inr args)"

section \<open>The option parser of evidence\<close>

record EvidenceFilter =
  ef_SessionID :: string
  ef_ChangeID :: string
  ef_Since :: string
  ef_Until :: string

definition no_filter :: EvidenceFilter where
  "no_filter = \<lparr>ef_SessionID = '''', ef_ChangeID = '''', ef_Since = '''', ef_Until = ''''\<rparr>"

datatype evidence_err = EvUnknown string | EvNoValue string

fun evidence_args :: "string list \<Rightarrow> EvidenceFilter \<times> string \<Rightarrow> evidence_err + EvidenceFilter \<times> string" where
  "evidence_args [] (f, out) = Inr (f, out)"
| "evidence_args [arg] (f, out) =
     (if arg \<in> {''--session'', ''--change'', ''--since'', ''--until'', ''--out''} then Inl (EvNoValue arg) else Inl (EvUnknown arg))"
| "evidence_args (arg # v # rest) (f, out) =
     (if arg = ''--session'' then evidence_args rest (f\<lparr>ef_SessionID := v\<rparr>, out)
      else if arg = ''--change'' then evidence_args rest (f\<lparr>ef_ChangeID := v\<rparr>, out)
      else if arg = ''--since'' then evidence_args rest (f\<lparr>ef_Since := v\<rparr>, out)
      else if arg = ''--until'' then evidence_args rest (f\<lparr>ef_Until := v\<rparr>, out)
      else if arg = ''--out'' then evidence_args rest (f, v)
      else Inl (EvUnknown arg))"

section \<open>What a run can reach\<close>

lemma evidence_args_scope:
  assumes "evidence_args rest (f, out) = Inr (f', out')" "evidence_scope sid rest = Some b" "''--out'' \<notin> set (flag_positions rest)"
  shows "out' = out \<and> ef_SessionID f' = (if b then sid else ef_SessionID f)"
  using assms
proof (induction rest arbitrary: f out b rule: flag_positions.induct)
  case (3 g v rest)
  then show ?case by (cases "evidence_scope sid rest") (auto split: if_splits)
qed (auto split: if_splits)

lemma evidence_args_extend:
  assumes "evidence_args (rest @ [''--session'', sid]) (f, out) = Inr (f', out')"
  shows "even (length rest) \<and> (\<exists>f1 out1. evidence_args rest (f, out) = Inr (f1, out1) \<and> f' = f1\<lparr>ef_SessionID := sid\<rparr> \<and> out' = out1)"
  using assms
proof (induction rest arbitrary: f out rule: flag_positions.induct)
  case (3 g v rest)
  then show ?case by (auto split: if_splits)
qed (auto split: if_splits)

text \<open>Only names of the table pass, with a subcommand of its set.\<close>

lemma run_refusal_None:
  assumes "sshListenerRunRefusal (name # rest) = None"
  shows "\<exists>allowed. mget sshListenerRuns name = Some allowed \<and>
    (\<forall>ok. allowed = Some ok \<longrightarrow> filter (\<lambda>a. name = ''guard'' \<longrightarrow> a \<noteq> ''--json'') rest \<noteq> [] \<and>
       (hd (filter (\<lambda>a. name = ''guard'' \<longrightarrow> a \<noteq> ''--json'') rest) \<in> set ok \<or> is_help (hd (filter (\<lambda>a. name = ''guard'' \<longrightarrow> a \<noteq> ''--json'') rest)))) \<and>
    (name = ''evidence'' \<longrightarrow> ''--out'' \<notin> set (flag_positions rest))"
  using assms by (auto simp: sshListenerRunRefusal_def Let_def split: option.splits if_splits)

text \<open>What may pass, name by name; an SSH session manages no other session and starts nothing in the listener.\<close>

definition run_sub :: "string \<Rightarrow> string \<Rightarrow> bool" where
  "run_sub name sub \<longleftrightarrow>
     name \<in> {''cm'', ''grant'', ''4eyes'', ''gateway'', ''identity'', ''grid'', ''flight'', ''worktree'', ''mirror''} \<and> is_help sub \<or>
     name = ''cm'' \<and> sub \<in> {''set'', ''check'', ''clear'', ''status'', ''providers'', ''require''} \<or>
     name = ''grant'' \<and> sub = ''drop'' \<or>
     name = ''4eyes'' \<and> sub \<in> {''approve'', ''deny'', ''pending'', ''list''} \<or>
     name = ''gateway'' \<and> sub \<in> {''list'', ''stop''} \<or>
     name = ''identity'' \<and> sub = ''status'' \<or>
     name = ''grid'' \<and> sub = ''status'' \<or>
     name = ''flight'' \<and> sub \<in> {''rehearse'', ''cancel'', ''status''} \<or>
     name = ''worktree'' \<and> sub \<in> {''create'', ''destroy''} \<or>
     name = ''mirror'' \<and> sub \<in> {''kill'', ''share'', ''unshare''}"

definition run_scope :: "string \<Rightarrow> string list \<Rightarrow> bool" where
  "run_scope name rest \<longleftrightarrow>
     name \<in> {''evidence'', ''elevate'', ''why'', ''??'', ''agent'', ''whoami'', ''do''} \<or>
     name = ''guard'' \<and>
       (let sub = filter (\<lambda>a. a \<noteq> ''--json'') rest in sub = [''status''] \<or> sub \<noteq> [] \<and> is_help (hd sub)) \<or>
     (\<exists>sub more. rest = sub # more \<and> run_sub name sub)"

lemma run_table:
  "mget sshListenerRuns name = Some allowed \<Longrightarrow>
   allowed = None \<and> name \<in> {''evidence'', ''elevate'', ''why'', ''??'', ''agent'', ''whoami'', ''do''} \<or>
   name = ''guard'' \<or>
   name = ''cm'' \<and> allowed = Some [''set'', ''check'', ''clear'', ''status'', ''providers'', ''require''] \<or>
   name = ''grant'' \<and> allowed = Some [''drop''] \<or>
   name = ''4eyes'' \<and> allowed = Some [''approve'', ''deny'', ''pending'', ''list''] \<or>
   name = ''gateway'' \<and> allowed = Some [''list'', ''stop''] \<or>
   name = ''identity'' \<and> allowed = Some [''status''] \<or>
   name = ''grid'' \<and> allowed = Some [''status''] \<or>
   name = ''flight'' \<and> allowed = Some [''rehearse'', ''cancel'', ''status''] \<or>
   name = ''worktree'' \<and> allowed = Some [''create'', ''destroy''] \<or>
   name = ''mirror'' \<and> allowed = Some [''kill'', ''share'', ''unshare'']"
  by (auto simp: sshListenerRuns_def split: if_splits)

lemma run_passes:
  assumes "sshListenerRunRefusal (name # rest) = None"
  shows "run_scope name rest"
proof -
  obtain allowed where m: "mget sshListenerRuns name = Some allowed" using run_refusal_None [OF assms] by blast
  let ?sub = "if name = ''guard'' then filter (\<lambda>a. a \<noteq> ''--json'') rest else rest"
  have s: "allowed = None \<or> (\<exists>ok. allowed = Some ok \<and> ?sub \<noteq> [] \<and> (hd ?sub \<in> set ok \<or> is_help (hd ?sub)))"
    "\<not> (name = ''guard'' \<and> 1 < length ?sub \<and> \<not> is_help (hd ?sub))"
    using assms m by (auto simp: sshListenerRunRefusal_def Let_def split: if_splits option.splits)
  show ?thesis
  proof (cases "name = ''guard''")
    case True
    then have g: "allowed = Some [''status'']" using m by (simp add: sshListenerRuns_def)
    then show ?thesis using s True by (cases ?sub; cases "tl ?sub") (auto simp: run_scope_def Let_def)
  next
    case False
    then have sub: "allowed = None \<or> (\<exists>ok. allowed = Some ok \<and> rest \<noteq> [] \<and> (is_help (hd rest) \<or> hd rest \<in> set ok))"
      using s(1) by auto
    have "name \<in> {''evidence'', ''elevate'', ''why'', ''??'', ''agent'', ''whoami'', ''do''} \<or> rest \<noteq> [] \<and> run_sub name (hd rest)"
      using run_table [OF m] by (elim disjE conjE) (use sub False in \<open>simp_all add: run_sub_def\<close>)
    then show ?thesis unfolding run_scope_def by (metis list.collapse)
  qed
qed

section \<open>Properties\<close>



text \<open>
  A command the session process sends to the listener is never one it would run itself: apart from
  \<^verbatim>\<open>do\<close>, which exists in the listener only, the process refuses each of them by name.
\<close>

theorem listener_runs_refused_locally:
  "sshRunsInListener args \<Longrightarrow> hd args \<noteq> ''do'' \<Longrightarrow> sshSessionRefusal args = Some (sshRefusal (hd args))"
  by (auto simp: sshRunsInListener_def sshSessionRefusal_def sshListenerRuns_def sshSessionRefusedVBins_def split: list.splits if_splits)

theorem listener_runs_refused_locally_witness:
  "sshSessionRefusal [''cm'', ''set'', ''C1''] = Some (sshRefusal ''cm'')"
  using listener_runs_refused_locally [of "[''cm'', ''set'', ''C1'']"] by (simp add: sshRunsInListener_def sshListenerRuns_def)
end
