(* ===== verification/Gate.thy ===== *)
theory Gate
  imports Approval AdminPlane Remote Capabilities
begin

text \<open>
  The command gate, \<^verbatim>\<open>security/interceptor.go\<close>: every command is recorded, judged by policy and
  entitlements, passed to the approval gate and the admin plane and checked against restricted mode, in this
  order, and any failure denies it. Beside it the explanation of a decision (\<^verbatim>\<open>explain.go\<close>), the memory of
  the last denial (\<^verbatim>\<open>denial.go\<close>) and the rewriting of commands before the gate (\<^verbatim>\<open>callHandler\<close>).
  One gated command sees one instant of the clock.
\<close>

section \<open>State and configuration\<close>

text \<open>
  What is installed in the process: the approval gate, the admin plane, the remote gate of an SSH session
  process (its answer to the n-th call), the one-way mark of such a process, the environment of the admin plane
  and the names of the registered virtual binaries.
\<close>

record gate_cfg =
  gx_approval :: "approval_gate option"
  gx_plane :: "admin_plane option"
  gx_remote :: "(nat \<Rightarrow> bool \<Rightarrow> string list \<Rightarrow> string \<Rightarrow> string option) option"
  gx_marked :: bool
  gx_adm :: adm_env
  gx_vbins :: "string list"

record world =
  wo_engine :: engine
  wo_budgets :: budgets
  wo_notices :: "(string \<times> string) list"
  wo_remote_calls :: nat

datatype gate_err =
    GENul
  | GERefused string
  | GERefusedGate string string
  | GERemote string
  | GENoRemoteGate
  | GEAudit log_err
  | GEDenied denial_msg
  | GEPolicy string
  | GEApproval msg
  | GESlash
  | GERestricted string

text \<open>A pending four-eyes request is a gate that has not answered yet.\<close>

datatype gate_out = Allow | Deny gate_err | Waiting

record policy_extra =
  px_Lease :: "lease_claim option"
  px_ExecLease :: "exec_lease_claim option"
  px_Agent :: "agent_claim option"

definition RemoteGateProcess :: "gate_cfg \<Rightarrow> bool" where
  "RemoteGateProcess cfg = (gx_marked cfg \<or> gx_remote cfg \<noteq> None)"

definition on_engine :: "(engine \<Rightarrow> 'a \<times> engine) \<Rightarrow> world \<Rightarrow> 'a \<times> world" where
  "on_engine f w = (case f (wo_engine w) of (x, e) \<Rightarrow> (x, w\<lparr>wo_engine := e\<rparr>))"

definition wlog :: "(audit \<Rightarrow> log_err option \<times> audit) \<Rightarrow> world \<Rightarrow> log_err option \<times> world" where
  "wlog f = on_engine (with_audit f)"

section \<open>Explanations\<close>

fun compact_loop :: "string list \<Rightarrow> string list \<Rightarrow> string list \<Rightarrow> string list" where
  "compact_loop [] seen out = out"
| "compact_loop (v # vs) seen out =
     (if v = '''' \<or> v \<in> set seen then compact_loop vs seen out else compact_loop vs (v # seen) (out @ [v]))"

definition compactStrings :: "string list \<Rightarrow> string list" where
  "compactStrings values = compact_loop values [] []"

definition next_step :: "command_explanation \<Rightarrow> explanation_stage \<Rightarrow> string list" where
  "next_step x st =
     (if es_Name st = ''policy'' then
        (if es_Status st = ''denied'' then
           (let role = (if cx_RequiredRole x = '''' then ''<role>'' else cx_RequiredRole x)
            in [''request the required role with: elevate request '' @ role @ '' --for 10m --reason '' @ [CHR 0x22] @ ''<ticket/reason>'' @ [CHR 0x22]] @
               (if cx_RequiredEntitlement x \<noteq> '''' then [''or ask an administrator for the '' @ cx_RequiredEntitlement x @ '' entitlement''] else []))
         else [])
      else if es_Name st = ''entitlements'' then
        (if es_Status st = ''denied'' then [''ask an administrator to add this command to your RBAC entitlement''] else [])
      else if es_Name st = ''change_management'' then
        (if es_Status st = ''denied'' then [''attach an approved change ticket with: cm set <ticket-id>''] else [])
      else if es_Name st = ''four_eyes'' then
        (if es_Status st = ''approval_required'' then [''open or check approvals with: 4eyes pending''] else [])
      else if es_Name st = ''restricted_mode'' then
        (if es_Status st = ''denied'' then [''retry with an allowed command name or start a non-restricted session''] else [])
      else [])"

definition suggestNextSteps :: "command_explanation \<Rightarrow> string list" where
  "suggestNextSteps x = compactStrings (concat (map (next_step x) (cx_Stages x)))"

text \<open>What a stage does to the outcome: a denial is final, a required approval yields to a denial.\<close>

definition stage_outcome :: "string \<Rightarrow> string \<Rightarrow> string" where
  "stage_outcome outcome status =
     (if status = ''denied'' then ''denied''
      else if status = ''approval_required'' \<and> outcome \<noteq> ''denied'' then ''approval_required''
      else outcome)"

definition policy_stage :: "policy_decision \<times> go_error \<Rightarrow> explanation_stage" where
  "policy_stage dec =
     (case dec of
        (d, Some err) \<Rightarrow> stage ''policy'' ''denied'' [Lit err]
      | (d, None) \<Rightarrow>
          if \<not> pd_Allowed d
          then stage ''policy'' ''denied'' [Lit (if pd_DenyReason d = '''' then ''policy returned allow=false'' else pd_DenyReason d)]
          else stage ''policy'' ''allowed'' [Lit (pd_DenyReason d)])"

definition entitlements_stage :: "engine \<Rightarrow> policy_context \<Rightarrow> string \<Rightarrow> explanation_stage" where
  "entitlements_stage e p cmd =
     (if \<not> hasEntitlements (en_ents e) then stage ''entitlements'' ''not_configured'' []
      else if IsAuthorized (en_ents e) (pc_User p) (pc_Groups p) cmd then stage ''entitlements'' ''allowed'' []
      else stage ''entitlements'' ''denied'' [Quo cmd, Lit '' is not in the effective command allow-list''])"

definition restricted_stage :: "bool \<Rightarrow> string \<Rightarrow> explanation_stage" where
  "restricted_stage restricted cmd =
     (if \<not> restricted then stage ''restricted_mode'' ''disabled'' []
      else if contains_byte cmd (CHR ''/'') then stage ''restricted_mode'' ''denied'' [Lit ''command names cannot contain '/' in restricted mode'']
      else if cmd = ''cd'' \<or> cmd = ''export'' then stage ''restricted_mode'' ''denied'' [Lit (cmd @ '' is not allowed in restricted mode'')]
      else stage ''restricted_mode'' ''allowed'' [])"

definition explain_stages :: "gate_cfg \<Rightarrow> gate_env \<Rightarrow> engine \<Rightarrow> string \<Rightarrow> string list \<Rightarrow> policy_context \<Rightarrow> explanation_stage list" where
  "explain_stages cfg env e sessionID args p =
     (if pc_IdentityUnknown p then [stage ''identity'' ''denied'' [Lit ''session identity unknown'']] else []) @
     [policy_stage (EvaluatePolicyDecision (RemoteGateProcess cfg) (en_query e) p), entitlements_stage e p (hd args)] @
     ag_Explain (currentApprovalGate (gx_approval cfg)) env e sessionID args @
     [restricted_stage (en_restricted e) (hd args)]"

definition needed_entitlements :: "engine \<Rightarrow> policy_context \<Rightarrow> policy_decision \<times> go_error \<Rightarrow> string \<Rightarrow> string list" where
  "needed_entitlements e p dec cmd =
     compactStrings
       ((if snd dec = None \<and> \<not> pd_Allowed (fst dec) \<and> pd_RequiredEntitlement (fst dec) \<noteq> '''' then [pd_RequiredEntitlement (fst dec)] else []) @
        (if hasEntitlements (en_ents e) \<and> \<not> IsAuthorized (en_ents e) (pc_User p) (pc_Groups p) cmd
         then EntitlementsGranting (en_ents e) cmd else []))"

definition ExplainCommand :: "gate_cfg \<Rightarrow> gate_env \<Rightarrow> string \<Rightarrow> string list \<Rightarrow> engine \<Rightarrow> command_explanation option \<times> engine" where
  "ExplainCommand cfg env sessionID args e =
     (if args = [] \<or> hd args = '''' then (None, e)
      else case buildPolicyContext (gv_policy env) (en_ids e) (hd args) (tl args) sessionID (en_reg e) of
        (p, r) \<Rightarrow>
          (let e = e\<lparr>en_reg := r\<rparr>;
               p = p\<lparr>pc_Capabilities := ClassifyCapabilities (hd args)\<rparr>;
               dec = EvaluatePolicyDecision (RemoteGateProcess cfg) (en_query e) p;
               stages = explain_stages cfg env e sessionID args p;
               x = \<lparr>cx_Outcome = foldl stage_outcome ''allowed'' (map es_Status stages), cx_User = pc_User p, cx_Groups = pc_Groups p,
                    cx_SessionID = sessionID, cx_RequiredRole = pd_RequiredRole (fst dec), cx_Rule = pd_Rule (fst dec),
                    cx_RequiredEntitlement = pd_RequiredEntitlement (fst dec),
                    cx_HeldEntitlements = (if hasEntitlements (en_ents e) then EntitlementsHeld (en_ents e) (pc_User p) (pc_Groups p) else []),
                    cx_NeededEntitlements = needed_entitlements e p dec (hd args),
                    cx_Command = hd args, cx_Args = tl args, cx_Stages = stages, cx_NextSteps = []\<rparr>
           in (Some (x\<lparr>cx_NextSteps := suggestNextSteps x\<rparr>), e)))"

section \<open>The last denial\<close>

definition SetLastDenial :: "string \<Rightarrow> command_explanation \<Rightarrow> engine \<Rightarrow> engine" where
  "SetLastDenial sessionID x e = e\<lparr>en_denials := mput (en_denials e) sessionID x\<rparr>"

definition LastDenial :: "engine \<Rightarrow> string \<Rightarrow> command_explanation option" where
  "LastDenial e sessionID = mget (en_denials e) sessionID"

definition ClearLastDenial :: "string \<Rightarrow> engine \<Rightarrow> engine" where
  "ClearLastDenial sessionID e = e\<lparr>en_denials := mdel (en_denials e) sessionID\<rparr>"

definition rememberDeniedCommand :: "gate_cfg \<Rightarrow> gate_env \<Rightarrow> string \<Rightarrow> string list \<Rightarrow> world \<Rightarrow> world" where
  "rememberDeniedCommand cfg env sessionID args w =
     (case ExplainCommand cfg env sessionID args (wo_engine w) of
        (None, e) \<Rightarrow> w\<lparr>wo_engine := e\<rparr>
      | (Some x, e) \<Rightarrow> w\<lparr>wo_engine := (if cx_Outcome x \<noteq> ''allowed'' then SetLastDenial sessionID x e else e)\<rparr>)"

section \<open>The gate\<close>

definition controllerTag :: "registry \<Rightarrow> string \<Rightarrow> string" where
  "controllerTag r sessionID =
     (if sessionID = '''' then ''''
      else case GetSession r sessionID of
          None \<Rightarrow> ''''
        | Some s \<Rightarrow> if sess_controller s \<noteq> '''' then '' via='' @ sess_controller s else '''')"

definition ask_remote :: "gate_cfg \<Rightarrow> bool \<Rightarrow> string list \<Rightarrow> string \<Rightarrow> world \<Rightarrow> string option \<times> world" where
  "ask_remote cfg restricted args sessionID w =
     (case gx_remote cfg of
        None \<Rightarrow> (None, w)
      | Some fn \<Rightarrow> (fn (wo_remote_calls w) restricted args sessionID, w\<lparr>wo_remote_calls := Suc (wo_remote_calls w)\<rparr>))"

definition refuseInRemoteGateProcess :: "gate_cfg \<Rightarrow> bool \<Rightarrow> string list \<Rightarrow> string \<Rightarrow> world \<Rightarrow> gate_err option \<times> world" where
  "refuseInRemoteGateProcess cfg restricted args sessionID w =
     (if \<not> RemoteGateProcess cfg then (None, w)
      else case sshSessionRefusal args of
          None \<Rightarrow> (None, w)
        | Some refusal \<Rightarrow>
            (case ask_remote cfg restricted args sessionID w of
               (Some err, w) \<Rightarrow> (Some (if err \<noteq> refusal then GERefusedGate refusal err else GERefused refusal), w)
             | (None, w) \<Rightarrow> (Some (GERefused refusal), w)))"

text \<open>A denial whose own record is made after the explanation was kept.\<close>

definition deny_recorded ::
  "gate_cfg \<Rightarrow> gate_env \<Rightarrow> string \<Rightarrow> string list \<Rightarrow> string \<Rightarrow> string \<Rightarrow> string \<Rightarrow> world \<Rightarrow> gate_out \<times> world" where
  "deny_recorded cfg env sessionID args user reason shown w =
     (let w = rememberDeniedCommand cfg env sessionID args w
      in case wlog (LogPolicyDecision (gv_log env) user (join args '' '') False reason) w of
           (auditErr, w) \<Rightarrow> (Deny (GEDenied (joinDeny shown auditErr)), w))"

text \<open>The confinement of a managed agent.\<close>

definition agent_refusal :: "gate_env \<Rightarrow> registry \<Rightarrow> string \<Rightarrow> string list \<Rightarrow> (string \<times> string) option" where
  "agent_refusal env r sessionID args =
     (if sessionID = '''' then None
      else case GetSession r sessionID of
          None \<Rightarrow> None
        | Some s \<Rightarrow>
            (case ManagedAgent s of
               None \<Rightarrow> None
             | Some a \<Rightarrow>
                 if \<not> pe_now (gv_policy env) < agent_ExpiresAt a then Some (sess_User s, ''adssh: agent lease expired'')
                 else if \<not> AgentCommandAllowed (hd args) then Some (sess_User s, ''adssh: agent cannot run '' @ le_quote (gv_log env) (hd args))
                 else None))"

definition gate_context :: "gate_env \<Rightarrow> policy_extra \<Rightarrow> string \<Rightarrow> string list \<Rightarrow> engine \<Rightarrow> policy_context \<times> engine" where
  "gate_context env extra sessionID args e =
     (case buildPolicyContext (gv_policy env) (en_ids e) (hd args) (tl args) sessionID (en_reg e) of
        (p, r) \<Rightarrow>
          (p\<lparr>pc_Lease := px_Lease extra, pc_ExecLease := px_ExecLease extra,
             pc_Agent := (case pc_Agent p of None \<Rightarrow> px_Agent extra | Some a \<Rightarrow> Some a),
             pc_Capabilities := ClassifyCapabilities (hd args)\<rparr>, e\<lparr>en_reg := r\<rparr>))"

text \<open>The stages after policy: entitlements, the approval gate, the admin plane and restricted mode.\<close>

definition restricted_check :: "gate_cfg \<Rightarrow> gate_env \<Rightarrow> bool \<Rightarrow> string list \<Rightarrow> string \<Rightarrow> world \<Rightarrow> gate_out \<times> world" where
  "restricted_check cfg env restricted args sessionID w =
     (if restricted \<and> contains_byte (hd args) (CHR ''/'') then (Deny GESlash, rememberDeniedCommand cfg env sessionID args w)
      else if restricted \<and> (hd args = ''cd'' \<or> hd args = ''export'') then
        (Deny (GERestricted (hd args)), rememberDeniedCommand cfg env sessionID args w)
      else (Allow, if hd args \<noteq> ''??'' then w\<lparr>wo_engine := ClearLastDenial sessionID (wo_engine w)\<rparr> else w))"

definition admin_check :: "gate_cfg \<Rightarrow> gate_env \<Rightarrow> bool \<Rightarrow> string list \<Rightarrow> string \<Rightarrow> world \<Rightarrow> gate_out \<times> world" where
  "admin_check cfg env restricted args sessionID w =
     (case currentAdminPlaneGate (gx_plane cfg) (gx_adm cfg) (pe_now (gv_policy env)) (en_reg (wo_engine w)) sessionID args (wo_budgets w) of
        (Some err, m) \<Rightarrow>
          (let w = rememberDeniedCommand cfg env sessionID args (w\<lparr>wo_budgets := m\<rparr>)
           in case wlog (LogEvent (gv_log env) (''ADMIN_PLANE_DENIED: '' @ err)) w of
                (auditErr, w) \<Rightarrow> (Deny (GEDenied (joinDeny err auditErr)), w))
      | (None, m) \<Rightarrow> restricted_check cfg env restricted args sessionID (w\<lparr>wo_budgets := m\<rparr>))"

definition approval_check :: "gate_cfg \<Rightarrow> gate_env \<Rightarrow> bool \<Rightarrow> string list \<Rightarrow> string \<Rightarrow> world \<Rightarrow> gate_out \<times> world" where
  "approval_check cfg env restricted args sessionID w =
     (case ag_Check (currentApprovalGate (gx_approval cfg)) env (wo_engine w) sessionID args of
        (None, e) \<Rightarrow> (Waiting, w\<lparr>wo_engine := e\<rparr>)
      | (Some (Some m), e) \<Rightarrow> (Deny (GEApproval m), rememberDeniedCommand cfg env sessionID args (w\<lparr>wo_engine := e\<rparr>))
      | (Some None, e) \<Rightarrow> admin_check cfg env restricted args sessionID (w\<lparr>wo_engine := e\<rparr>))"

definition entitlements_check ::
  "gate_cfg \<Rightarrow> gate_env \<Rightarrow> bool \<Rightarrow> string list \<Rightarrow> string \<Rightarrow> policy_context \<Rightarrow> world \<Rightarrow> gate_out \<times> world" where
  "entitlements_check cfg env restricted args sessionID p w =
     (if hasEntitlements (en_ents (wo_engine w)) \<and> \<not> IsAuthorized (en_ents (wo_engine w)) (pc_User p) (pc_Groups p) (hd args) then
        (case wlog (LogPolicyDecision (gv_log env) (pc_User p) (join args '' '') False ''not permitted by entitlements'') w of
           (auditErr, w) \<Rightarrow>
             (Deny (GEDenied (joinDeny (''adssh: access denied by entitlements for '' @ le_quote (gv_log env) (hd args)) auditErr)),
              rememberDeniedCommand cfg env sessionID args w))
      else approval_check cfg env restricted args sessionID w)"

definition denied_text :: "string list \<Rightarrow> policy_decision \<Rightarrow> string" where
  "denied_text args d =
     (if pd_DenyReason d \<noteq> '''' then ''adssh: access denied: '' @ pd_DenyReason d
      else ''adssh: access denied for '' @ [CHR 0x27] @ hd args @ [CHR 0x27] @ '' by policy'')"

definition policy_check ::
  "gate_cfg \<Rightarrow> gate_env \<Rightarrow> bool \<Rightarrow> string list \<Rightarrow> string \<Rightarrow> policy_context \<Rightarrow> world \<Rightarrow> gate_out \<times> world" where
  "policy_check cfg env restricted args sessionID p w =
     (case EvaluatePolicyDecision (RemoteGateProcess cfg) (en_query (wo_engine w)) p of
        (d, Some err) \<Rightarrow> (Deny (GEPolicy err), rememberDeniedCommand cfg env sessionID args w)
      | (d, None) \<Rightarrow>
          if \<not> pd_Allowed d then
            (let w = (if hd args \<in> {''gateway'', ''lease'', ''elevate''}
                      then w\<lparr>wo_notices := wo_notices w @ [(hd args, if pd_RequiredRole d = '''' then ''unspecified'' else pd_RequiredRole d)]\<rparr>
                      else w)
             in case wlog (LogPolicyDecisionDetail (gv_log env) (pc_User p) (join args '' '') d) w of
                  (auditErr, w) \<Rightarrow> (Deny (GEDenied (joinDeny (denied_text args d) auditErr)), rememberDeniedCommand cfg env sessionID args w))
          else
            (case wlog (LogPolicyDecisionDetail (gv_log env) (pc_User p) (join args '' '') (d\<lparr>pd_DenyReason := ''''\<rparr>)) w of
               (Some err, w) \<Rightarrow> (Deny (GEAudit err), w)
             | (None, w) \<Rightarrow> entitlements_check cfg env restricted args sessionID p w))"

definition local_gate ::
  "gate_cfg \<Rightarrow> gate_env \<Rightarrow> bool \<Rightarrow> string list \<Rightarrow> string \<Rightarrow> policy_extra \<Rightarrow> world \<Rightarrow> gate_out \<times> world" where
  "local_gate cfg env restricted args sessionID extra w =
     (case wlog (LogCommand (gv_log env) ''BASH'' (join args '' '' @ controllerTag (en_reg (wo_engine w)) sessionID)) w of
        (Some err, w) \<Rightarrow> (Deny (GEAudit err), w)
      | (None, w) \<Rightarrow>
          (case agent_refusal env (en_reg (wo_engine w)) sessionID args of
             Some (user, reason) \<Rightarrow> deny_recorded cfg env sessionID args user reason reason w
           | None \<Rightarrow>
               (case on_engine (gate_context env extra sessionID args) w of
                  (p, w) \<Rightarrow>
                    if pc_IdentityUnknown p then
                      deny_recorded cfg env sessionID args '''' ''adssh: session identity unknown''
                        ''adssh: access denied: session identity unknown'' w
                    else policy_check cfg env restricted args sessionID p w)))"

definition gateCommandContext ::
  "gate_cfg \<Rightarrow> gate_env \<Rightarrow> bool \<Rightarrow> string list \<Rightarrow> string \<Rightarrow> policy_extra \<Rightarrow> world \<Rightarrow> gate_out \<times> world" where
  "gateCommandContext cfg env restricted args sessionID extra w =
     (if args = [] then (Allow, w)
      else if list_ex (\<lambda>a. contains_byte a (CHR 0x00)) args then (Deny GENul, w)
      else if gx_remote cfg \<noteq> None then
        (case refuseInRemoteGateProcess cfg restricted args sessionID w of
           (Some err, w) \<Rightarrow> (Deny err, w)
         | (None, w) \<Rightarrow>
             (case ask_remote cfg restricted args sessionID w of
                (Some err, w) \<Rightarrow> (Deny (GERemote err), w)
              | (None, w) \<Rightarrow> (Allow, w)))
      else if RemoteGateProcess cfg then
        (case refuseInRemoteGateProcess cfg restricted args sessionID w of
           (Some err, w) \<Rightarrow> (Deny err, w)
         | (None, w) \<Rightarrow> (Deny GENoRemoteGate, w))
      else local_gate cfg env restricted args sessionID extra w)"

definition no_extra :: policy_extra where
  "no_extra = \<lparr>px_Lease = None, px_ExecLease = None, px_Agent = None\<rparr>"

definition gateCommand :: "gate_cfg \<Rightarrow> gate_env \<Rightarrow> bool \<Rightarrow> string list \<Rightarrow> string \<Rightarrow> world \<Rightarrow> gate_out \<times> world" where
  "gateCommand cfg env restricted args sessionID = gateCommandContext cfg env restricted args sessionID no_extra"

definition AuthorizeCommand :: "gate_cfg \<Rightarrow> gate_env \<Rightarrow> string list \<Rightarrow> string \<Rightarrow> world \<Rightarrow> gate_out \<times> world" where
  "AuthorizeCommand cfg env args sessionID w = gateCommand cfg env (en_restricted (wo_engine w)) args sessionID w"

definition AuthorizeCommandWithExtra ::
  "gate_cfg \<Rightarrow> gate_env \<Rightarrow> string list \<Rightarrow> string \<Rightarrow> policy_extra \<Rightarrow> world \<Rightarrow> gate_out \<times> world" where
  "AuthorizeCommandWithExtra cfg env args sessionID extra w =
     gateCommandContext cfg env (en_restricted (wo_engine w)) args sessionID extra w"

section \<open>What the stages leave alone\<close>

lemma on_engineE:
  assumes "on_engine f w = (x, w')"
  obtains e where "f (wo_engine w) = (x, e)" "w' = w\<lparr>wo_engine := e\<rparr>"
  using assms by (auto simp: on_engine_def split: prod.splits)

lemma wlogE:
  assumes "wlog f w = (err, w')"
  obtains au where "f (en_audit (wo_engine w)) = (err, au)" "w' = w\<lparr>wo_engine := (wo_engine w)\<lparr>en_audit := au\<rparr>\<rparr>"
  using assms by (auto simp: wlog_def on_engine_def with_audit_def split: prod.splits)

text \<open>One lemma per stage: what an allowed command says about it.\<close>

lemma restricted_allows:
  assumes "restricted_check cfg env restricted args sid w = (Allow, w')"
  shows "(restricted \<longrightarrow> CHR ''/'' \<notin> set (hd args) \<and> hd args \<noteq> ''cd'' \<and> hd args \<noteq> ''export'') \<and>
    en_audit (wo_engine w') = en_audit (wo_engine w)"
  using assms by (auto simp: restricted_check_def ClearLastDenial_def split: if_splits)

lemma admin_allows:
  assumes "admin_check cfg env restricted args sid w = (Allow, w')"
  shows "fst (currentAdminPlaneGate (gx_plane cfg) (gx_adm cfg) (pe_now (gv_policy env)) (en_reg (wo_engine w)) sid args (wo_budgets w)) = None \<and>
    (restricted \<longrightarrow> CHR ''/'' \<notin> set (hd args) \<and> hd args \<noteq> ''cd'' \<and> hd args \<noteq> ''export'') \<and>
    en_audit (wo_engine w') = en_audit (wo_engine w)"
  using assms by (auto simp: admin_check_def Let_def split: prod.splits option.splits dest!: restricted_allows)

lemma approval_allows:
  assumes "approval_check cfg env restricted args sid w = (Allow, w')"
  obtains e where "ag_Check (currentApprovalGate (gx_approval cfg)) env (wo_engine w) sid args = (Some None, e)"
    "admin_check cfg env restricted args sid (w\<lparr>wo_engine := e\<rparr>) = (Allow, w')"
  using assms by (auto simp: approval_check_def split: prod.splits option.splits)

lemma entitlements_allows:
  assumes "entitlements_check cfg env restricted args sid p w = (Allow, w')"
  shows "(hasEntitlements (en_ents (wo_engine w)) \<longrightarrow> IsAuthorized (en_ents (wo_engine w)) (pc_User p) (pc_Groups p) (hd args)) \<and>
    approval_check cfg env restricted args sid w = (Allow, w')"
  using assms by (auto simp: entitlements_check_def split: if_splits prod.splits)

lemma policy_allows:
  assumes "policy_check cfg env restricted args sid p w = (Allow, w')"
  obtains d w1 where "EvaluatePolicyDecision (RemoteGateProcess cfg) (en_query (wo_engine w)) p = (d, None)" "pd_Allowed d"
    "wlog (LogPolicyDecisionDetail (gv_log env) (pc_User p) (join args '' '') (d\<lparr>pd_DenyReason := ''''\<rparr>)) w = (None, w1)"
    "entitlements_check cfg env restricted args sid p w1 = (Allow, w')"
  using assms by (auto simp: policy_check_def Let_def split: prod.splits option.splits if_splits)

lemma local_allows:
  assumes "local_gate cfg env restricted args sid extra w = (Allow, w')"
  obtains w1 p w2 where
    "wlog (LogCommand (gv_log env) ''BASH'' (join args '' '' @ controllerTag (en_reg (wo_engine w)) sid)) w = (None, w1)"
    "agent_refusal env (en_reg (wo_engine w1)) sid args = None"
    "on_engine (gate_context env extra sid args) w1 = (p, w2)" "\<not> pc_IdentityUnknown p"
    "policy_check cfg env restricted args sid p w2 = (Allow, w')"
  using assms by (auto simp: local_gate_def deny_recorded_def Let_def split: prod.splits option.splits if_splits)

lemma gate_contextE:
  assumes "gate_context env extra sid args e = (p, e')"
  obtains r where "e' = e\<lparr>en_reg := r\<rparr>"
  using assms by (auto simp: gate_context_def split: prod.splits)

lemma gate_context_unknown:
  "pc_IdentityUnknown (fst (gate_context env extra sid args e)) \<longleftrightarrow> sid \<noteq> '''' \<and> boundIdentity sid (en_ids e) = None \<and> GetSession (en_reg e) sid = None"
  by (auto simp: gate_context_def buildPolicyContext_def base_context_def addSessionClaims_def Let_def split: prod.splits option.splits)

text \<open>A successful append adds one sealed line whose fields are those of the entry.\<close>

lemma append_success:
  assumes "chain_on cfg key" "AppendChain io cfg e (Some old) = (None, f)"
  obtains e' where "f = Some (old @ marshal_entry e' @ [newline])" "ce_Hash e' = computeHash key (ce_PrevHash e') e'"
    "ce_Type e' = ce_Type e" "ce_Command e' = ce_Command e" "ce_Allowed e' = ce_Allowed e" "ce_User e = '''' \<or> ce_User e' = ce_User e"
proof -
  obtain h n where f: "f = Some (old @ marshal_entry (seal_entry key (stamp_entry io cfg h n e)) @ [newline])"
    using assms by (auto simp: AppendChain_def chain_on_def Let_def split: option.splits sum.splits prod.splits)
  let ?e = "seal_entry key (stamp_entry io cfg h n e)"
  have "computeHash key (ce_PrevHash ?e) ?e = computeHash key h (stamp_entry io cfg h n e)"
    by (simp add: seal_entry_def stamp_entry_def computeHash_def chain_message_def marshal_body_def entry_members_def)
  then show thesis using that [OF f] by (simp add: seal_entry_def stamp_entry_def)
qed

lemma command_recorded:
  assumes "LogCommand env src cmd au = (None, au')" "chain_on (au_cfg au) key" "au_ledger au = Some old"
  obtains c where "au_ledger au' = Some (old @ marshal_entry c @ [newline])" "ce_Hash c = computeHash key (ce_PrevHash c) c"
    "ce_Type c = ''cmd''" "ce_Command c = le_redact env cmd" "au_cfg au' = au_cfg au"
proof -
  have l: "(case (src, cmd) of (source, cmd) \<Rightarrow> LogCommand env source cmd) au = (None, au')" using assms(1) by simp
  have a: "AppendChain (li_chain (le_io env (au_calls au))) (au_cfg au) (command_entry env (src, cmd) au) (Some old) = (None, au_ledger au')"
    using cmdlog.durable [OF l] assms(3) by simp
  show thesis by (rule append_success [OF assms(2) a]) (use cmdlog.frame [OF l] in \<open>simp add: that command_entry_def\<close>)
qed

lemma decision_recorded:
  assumes "LogPolicyDecisionDetail env user cmd d au = (None, au')" "chain_on (au_cfg au) key" "au_ledger au = Some old"
  obtains c where "au_ledger au' = Some (old @ marshal_entry c @ [newline])" "ce_Hash c = computeHash key (ce_PrevHash c) c"
    "ce_Type c = ''policy''" "ce_Command c = le_redact env cmd" "ce_Allowed c = Some (pd_Allowed d)" "user = '''' \<or> ce_User c = user"
proof -
  have l: "(case (user, cmd, d) of (user, command, d) \<Rightarrow> LogPolicyDecisionDetail env user command d) au = (None, au')" using assms(1) by simp
  have a: "AppendChain (li_chain (le_io env (au_calls au))) (au_cfg au) (policy_entry env (user, cmd, d) au) (Some old) = (None, au_ledger au')"
    using pollog.durable [OF l] assms(3) by simp
  show thesis by (rule append_success [OF assms(2) a]) (use pollog.frame [OF l] in \<open>simp add: that policy_entry_def\<close>)
qed

text \<open>The lines two records add to the flat log.\<close>

lemma audit_line_newline: "audit_line stamp (text' @ [newline]) = ''AUDIT: '' @ stamp @ '' '' @ text' @ [newline]"
  by (simp add: audit_line_def hasSuffix_def)

lemma flat_extended:
  "LogCommand env src cmd au = (None, au') \<Longrightarrow> au_file au = Some c \<Longrightarrow>
   \<exists>stamp. au_file au' = Some (c @ ''AUDIT: '' @ stamp @ '' '' @ ''['' @ src @ ''] '' @ le_redact env cmd @ [newline])"
  "LogPolicyDecisionDetail env user cmd d au = (None, au') \<Longrightarrow> au_file au = Some c \<Longrightarrow>
   \<exists>stamp rest. au_file au' = Some (c @ ''AUDIT: '' @ stamp @ '' [POLICY] user='' @ user @ '' command='' @ le_redact env cmd @
     '' allowed='' @ bool_text (pd_Allowed d) @ '' reason='' @ rest @ [newline])"
proof -
  assume l: "LogCommand env src cmd au = (None, au')" and f: "au_file au = Some c"
  have "(case (src, cmd) of (source, cmd) \<Rightarrow> LogCommand env source cmd) au = (None, au')" using l by simp
  from cmdlog.durable [OF this] show "\<exists>stamp. au_file au' = Some (c @ ''AUDIT: '' @ stamp @ '' '' @ ''['' @ src @ ''] '' @ le_redact env cmd @ [newline])"
    using f audit_line_newline [of _ "''['' @ src @ ''] '' @ le_redact env cmd"] by auto
next
  assume l: "LogPolicyDecisionDetail env user cmd d au = (None, au')" and f: "au_file au = Some c"
  let ?rest = "le_quote env (le_redact env (pd_DenyReason d)) @
     (if le_redact env (pd_Rule d) \<noteq> '''' \<or> le_redact env (pd_RequiredEntitlement d) \<noteq> ''''
      then '' rule='' @ le_quote env (le_redact env (pd_Rule d)) @ '' required_entitlement='' @ le_quote env (le_redact env (pd_RequiredEntitlement d)) else '''')"
  have "decision_line env user (le_redact env cmd) (pd_Allowed d) (le_redact env (pd_DenyReason d)) (le_redact env (pd_Rule d))
      (le_redact env (pd_RequiredEntitlement d)) =
      ''[POLICY] user='' @ user @ '' command='' @ le_redact env cmd @ '' allowed='' @ bool_text (pd_Allowed d) @ '' reason='' @ ?rest"
    by (simp add: decision_line_def)
  moreover have "(case (user, cmd, d) of (user, command, d) \<Rightarrow> LogPolicyDecisionDetail env user command d) au = (None, au')" using l by simp
  ultimately have "au_file au' = Some (c @ audit_line (li_stamp (le_io env (au_calls au)))
      ((''[POLICY] user='' @ user @ '' command='' @ le_redact env cmd @ '' allowed='' @ bool_text (pd_Allowed d) @ '' reason='' @ ?rest) @ [newline]))"
    using pollog.durable [of env "(user, cmd, d)" au au'] f by simp
  then show "\<exists>stamp rest. au_file au' = Some (c @ ''AUDIT: '' @ stamp @ '' [POLICY] user='' @ user @ '' command='' @ le_redact env cmd @
     '' allowed='' @ bool_text (pd_Allowed d) @ '' reason='' @ rest @ [newline])"
    unfolding audit_line_newline by (intro exI [of _ "li_stamp (le_io env (au_calls au))"] exI [of _ ?rest]) simp
qed

lemma passed_keeps_audit:
  assumes "g = None \<or> g = Some enterpriseApprovalGate" "ag_Check (currentApprovalGate g) env e sid args = (Some None, e')"
  shows "en_audit e' = en_audit e"
proof (cases g)
  case None
  then show ?thesis using assms(2)
    by (auto simp: currentApprovalGate_def core_Check_def Let_def split: if_splits sum.splits option.splits prod.splits)
next
  case (Some h)
  then have "enterprise_Check env e sid args = (Some None, e')" using assms by (simp add: currentApprovalGate_def)
  then have "e' = e\<lparr>en_store := en_store e'\<rparr>" by (auto simp: enterprise_Check_def split: option.splits dest: four_eyes_check_frame)
  then show ?thesis by (metis engine.ext_inject engine.surjective engine.update_convs(10))
qed

section \<open>The stages of an allowed command\<close>

lemma allowed_stages:
  assumes "gateCommandContext cfg env restricted args sid extra w = (Allow, w')" "args \<noteq> []" "gx_remote cfg = None"
    and "e0 = wo_engine w"
  obtains p d e1 e2 au1 au2 where "\<not> gx_marked cfg" "\<forall>a \<in> set args. CHR 0x00 \<notin> set a"
    "LogCommand (gv_log env) ''BASH'' (join args '' '' @ controllerTag (en_reg e0) sid) (en_audit e0) = (None, au1)"
    "agent_refusal env (en_reg e0) sid args = None"
    "gate_context env extra sid args (e0\<lparr>en_audit := au1\<rparr>) = (p, e1)"
    "sid = '''' \<or> boundIdentity sid (en_ids e0) \<noteq> None \<or> GetSession (en_reg e0) sid \<noteq> None"
    "EvaluatePolicyDecision False (en_query e0) p = (d, None)" "pd_Allowed d"
    "LogPolicyDecisionDetail (gv_log env) (pc_User p) (join args '' '') (d\<lparr>pd_DenyReason := ''''\<rparr>) au1 = (None, au2)"
    "hasEntitlements (en_ents e0) \<longrightarrow> IsAuthorized (en_ents e0) (pc_User p) (pc_Groups p) (hd args)"
    "ag_Check (currentApprovalGate (gx_approval cfg)) env (e1\<lparr>en_audit := au2\<rparr>) sid args = (Some None, e2)"
    "fst (currentAdminPlaneGate (gx_plane cfg) (gx_adm cfg) (pe_now (gv_policy env)) (en_reg e2) sid args (wo_budgets w)) = None"
    "en_audit (wo_engine w') = en_audit e2"
    "restricted \<longrightarrow> CHR ''/'' \<notin> set (hd args) \<and> hd args \<noteq> ''cd'' \<and> hd args \<noteq> ''export''"
proof -
  have nul: "\<forall>a \<in> set args. CHR 0x00 \<notin> set a" and m: "\<not> gx_marked cfg"
    and g: "local_gate cfg env restricted args sid extra w = (Allow, w')"
    using assms(1-3) by (auto simp: gateCommandContext_def RemoteGateProcess_def list_ex_iff split: if_splits prod.splits option.splits)
  have rem: "\<not> RemoteGateProcess cfg" using m assms(3) by (simp add: RemoteGateProcess_def)
  from g obtain w1 p w2 where l: "wlog (LogCommand (gv_log env) ''BASH'' (join args '' '' @ controllerTag (en_reg e0) sid)) w = (None, w1)"
      and a: "agent_refusal env (en_reg (wo_engine w1)) sid args = None"
      and c: "on_engine (gate_context env extra sid args) w1 = (p, w2)" and u: "\<not> pc_IdentityUnknown p"
      and pc: "policy_check cfg env restricted args sid p w2 = (Allow, w')"
    unfolding assms(4) by (rule local_allows)
  from l obtain au1 where lc: "LogCommand (gv_log env) ''BASH'' (join args '' '' @ controllerTag (en_reg e0) sid) (en_audit e0) = (None, au1)"
      and w1: "w1 = w\<lparr>wo_engine := e0\<lparr>en_audit := au1\<rparr>\<rparr>" unfolding assms(4) by (rule wlogE)
  from c obtain e1 where gc: "gate_context env extra sid args (e0\<lparr>en_audit := au1\<rparr>) = (p, e1)" and w2: "w2 = w\<lparr>wo_engine := e1\<rparr>"
    unfolding w1 by (auto elim: on_engineE)
  from gc obtain r where e1: "e1 = e0\<lparr>en_audit := au1, en_reg := r\<rparr>" by (auto elim: gate_contextE)
  from pc obtain d w3 where d: "EvaluatePolicyDecision (RemoteGateProcess cfg) (en_query (wo_engine w2)) p = (d, None)" "pd_Allowed d"
      and ld: "wlog (LogPolicyDecisionDetail (gv_log env) (pc_User p) (join args '' '') (d\<lparr>pd_DenyReason := ''''\<rparr>)) w2 = (None, w3)"
      and en: "entitlements_check cfg env restricted args sid p w3 = (Allow, w')" by (rule policy_allows)
  from ld obtain au2 where lp: "LogPolicyDecisionDetail (gv_log env) (pc_User p) (join args '' '') (d\<lparr>pd_DenyReason := ''''\<rparr>) au1 = (None, au2)"
      and w3: "w3 = w\<lparr>wo_engine := e1\<lparr>en_audit := au2\<rparr>\<rparr>" unfolding w2 by (auto elim: wlogE simp: e1)
  note ent = entitlements_allows [OF en, unfolded w3]
  from ent obtain e2 where ag: "ag_Check (currentApprovalGate (gx_approval cfg)) env (e1\<lparr>en_audit := au2\<rparr>) sid args = (Some None, e2)"
      and ad: "admin_check cfg env restricted args sid (w\<lparr>wo_engine := e2\<rparr>) = (Allow, w')"
    by (auto elim: approval_allows)
  have known: "sid = '''' \<or> boundIdentity sid (en_ids e0) \<noteq> None \<or> GetSession (en_reg e0) sid \<noteq> None"
    using gate_context_unknown [of env extra sid args "e0\<lparr>en_audit := au1\<rparr>"] gc u by auto
  show thesis
    by (rule that [OF m nul lc _ gc known _ d(2) lp _ ag])
       (use a d(1) rem ent admin_allows [OF ad] in \<open>simp_all add: w1 w2 e1\<close>)
qed

section \<open>Explanation and gate\<close>

lemma outcome_fold:
  "foldl stage_outcome x ss =
     (if x = ''denied'' \<or> ''denied'' \<in> set ss then ''denied'' else if ''approval_required'' \<in> set ss then ''approval_required'' else x)"
  by (induction ss arbitrary: x) (auto simp: stage_outcome_def)

lemma outcome_iff:
  "foldl stage_outcome ''allowed'' ss = ''denied'' \<longleftrightarrow> ''denied'' \<in> set ss"
  "foldl stage_outcome ''allowed'' ss = ''allowed'' \<longleftrightarrow> ''denied'' \<notin> set ss \<and> ''approval_required'' \<notin> set ss"
  "foldl stage_outcome ''allowed'' ss = ''approval_required'' \<longleftrightarrow> ''denied'' \<notin> set ss \<and> ''approval_required'' \<in> set ss"
  by (simp_all add: outcome_fold)

lemma context_no_leases:
  "buildPolicyContext env ids cmd args sid r = (p, r') \<Longrightarrow> pc_Lease p = None \<and> pc_ExecLease p = None"
  by (auto simp: buildPolicyContext_def base_context_def addSessionClaims_def Let_def split: if_splits option.splits prod.splits)

lemma gate_context_plain:
  assumes "buildPolicyContext (gv_policy env) (en_ids e) (hd args) (tl args) sid (en_reg e) = (p, r)"
  shows "gate_context env no_extra sid args e = (p\<lparr>pc_Capabilities := ClassifyCapabilities (hd args)\<rparr>, e\<lparr>en_reg := r\<rparr>)"
  using assms context_no_leases [OF assms] by (auto simp: gate_context_def no_extra_def split: option.splits)

lemma explain_ignores:
  assumes "g = None \<or> g = Some enterpriseApprovalGate"
  shows "ag_Explain (currentApprovalGate g) env (e\<lparr>en_reg := r, en_audit := a\<rparr>) sid args = ag_Explain (currentApprovalGate g) env e sid args"
proof -
  have c: "CMRequiredForSession (e\<lparr>en_reg := r, en_audit := a\<rparr>) sid cmd = CMRequiredForSession e sid cmd" for cmd by (simp add: cm_defs)
  have f: "explainFourEyes (e\<lparr>en_reg := r, en_audit := a\<rparr>) args s = explainFourEyes e args s" for s by (simp add: explainFourEyes_def)
  have t: "GetActiveCMTicketForSession (e\<lparr>en_reg := r, en_audit := a\<rparr>) sid = GetActiveCMTicketForSession e sid"
    by (simp add: GetActiveCMTicketForSession_def)
  show ?thesis using assms by (auto simp: currentApprovalGate_def core_Explain_def enterprise_Explain_def c f t)
qed

lemma explain_same:
  assumes "g = None \<or> g = Some enterpriseApprovalGate"
  shows "ag_Explain (currentApprovalGate g) env (e\<lparr>en_reg := r, en_audit := a\<rparr>) sid args =
    ag_Explain (currentApprovalGate g) env (e\<lparr>en_reg := r\<rparr>) sid args"
proof -
  have "e\<lparr>en_reg := r\<rparr> = e\<lparr>en_reg := r, en_audit := en_audit e\<rparr>" by simp
  then show ?thesis using explain_ignores [OF assms] by metis
qed

text \<open>The contract of an approval gate, for the gate a build has.\<close>

lemma built_gate_contract:
  assumes "g = None \<or> g = Some enterpriseApprovalGate"
  shows "approval_contract (ag_Check (currentApprovalGate g)) (ag_Explain (currentApprovalGate g))"
proof (cases g)
  case None
  then show ?thesis using core.approval_contract_axioms by (simp add: currentApprovalGate_def)
next
  case (Some h)
  then show ?thesis using ee.approval_contract_axioms assms by (simp add: currentApprovalGate_def)
qed

lemma ExplainCommand_Some:
  assumes "ExplainCommand cfg env sid args e = (Some x, e')"
  obtains p r where "buildPolicyContext (gv_policy env) (en_ids e) (hd args) (tl args) sid (en_reg e) = (p, r)" "e' = e\<lparr>en_reg := r\<rparr>"
    "args \<noteq> []" "hd args \<noteq> ''''"
    "cx_Outcome x = foldl stage_outcome ''allowed''
       (map es_Status (explain_stages cfg env (e\<lparr>en_reg := r\<rparr>) sid args (p\<lparr>pc_Capabilities := ClassifyCapabilities (hd args)\<rparr>)))"
  using assms by (auto simp: ExplainCommand_def Let_def split: if_splits prod.splits)

lemma stage_status:
  "es_Status (policy_stage dec) = (if snd dec = None \<and> pd_Allowed (fst dec) then ''allowed'' else ''denied'')"
  "es_Status (entitlements_stage e p cmd) =
     (if \<not> hasEntitlements (en_ents e) then ''not_configured''
      else if IsAuthorized (en_ents e) (pc_User p) (pc_Groups p) cmd then ''allowed'' else ''denied'')"
  "es_Status (restricted_stage res cmd) =
     (if \<not> res then ''disabled'' else if CHR ''/'' \<in> set cmd \<or> cmd = ''cd'' \<or> cmd = ''export'' then ''denied'' else ''allowed'')"
  by (auto simp: policy_stage_def entitlements_stage_def restricted_stage_def split: prod.splits option.splits)

lemma explain_denied_iff:
  "''denied'' \<in> set (map es_Status (explain_stages cfg env e sid args p)) \<longleftrightarrow>
     pc_IdentityUnknown p \<or>
     \<not> (snd (EvaluatePolicyDecision (RemoteGateProcess cfg) (en_query e) p) = None \<and>
        pd_Allowed (fst (EvaluatePolicyDecision (RemoteGateProcess cfg) (en_query e) p))) \<or>
     (hasEntitlements (en_ents e) \<and> \<not> IsAuthorized (en_ents e) (pc_User p) (pc_Groups p) (hd args)) \<or>
     ''denied'' \<in> es_Status ` set (ag_Explain (currentApprovalGate (gx_approval cfg)) env e sid args) \<or>
     (en_restricted e \<and> (CHR ''/'' \<in> set (hd args) \<or> hd args = ''cd'' \<or> hd args = ''export''))"
  by (auto simp: explain_stages_def stage_status split: if_splits)

lemma explain_pending_iff:
  "''approval_required'' \<in> set (map es_Status (explain_stages cfg env e sid args p)) \<longleftrightarrow>
     ''approval_required'' \<in> es_Status ` set (ag_Explain (currentApprovalGate (gx_approval cfg)) env e sid args)"
  by (auto simp: explain_stages_def stage_status split: if_splits)

lemma explained_denied_refused:
  assumes x: "ExplainCommand cfg env sid args (wo_engine w) = (Some x, e')"
    and g: "gateCommandContext cfg env (en_restricted (wo_engine w)) args sid no_extra w = (Allow, w')"
    and "\<not> RemoteGateProcess cfg" "gx_approval cfg = None \<or> gx_approval cfg = Some enterpriseApprovalGate"
  shows "cx_Outcome x \<noteq> ''denied''"
proof -
  let ?e = "wo_engine w" and ?caps = "ClassifyCapabilities (hd args)"
  obtain p r where b: "buildPolicyContext (gv_policy env) (en_ids ?e) (hd args) (tl args) sid (en_reg ?e) = (p, r)" and ne: "args \<noteq> []"
      and o: "cx_Outcome x = foldl stage_outcome ''allowed''
         (map es_Status (explain_stages cfg env (?e\<lparr>en_reg := r\<rparr>) sid args (p\<lparr>pc_Capabilities := ?caps\<rparr>)))"
    using x by (rule ExplainCommand_Some)
  have rem: "gx_remote cfg = None" using assms(3) by (simp add: RemoteGateProcess_def)
  from g ne rem obtain p2 d e1 e2 au1 au2 where gc: "gate_context env no_extra sid args (?e\<lparr>en_audit := au1\<rparr>) = (p2, e1)"
      and known: "sid = '''' \<or> boundIdentity sid (en_ids ?e) \<noteq> None \<or> GetSession (en_reg ?e) sid \<noteq> None"
      and d: "EvaluatePolicyDecision False (en_query ?e) p2 = (d, None)" "pd_Allowed d"
      and ent: "hasEntitlements (en_ents ?e) \<longrightarrow> IsAuthorized (en_ents ?e) (pc_User p2) (pc_Groups p2) (hd args)"
      and ag: "ag_Check (currentApprovalGate (gx_approval cfg)) env (e1\<lparr>en_audit := au2\<rparr>) sid args = (Some None, e2)"
      and res: "en_restricted ?e \<longrightarrow> CHR ''/'' \<notin> set (hd args) \<and> hd args \<noteq> ''cd'' \<and> hd args \<noteq> ''export''"
    by (rule allowed_stages [OF _ _ _ refl])
  have p2: "p2 = p\<lparr>pc_Capabilities := ?caps\<rparr>" "e1 = ?e\<lparr>en_audit := au1, en_reg := r\<rparr>"
    using gate_context_plain [of env "?e\<lparr>en_audit := au1\<rparr>" args sid p r] b gc by simp_all
  have "\<not> pc_IdentityUnknown p2" using gate_context_unknown [of env no_extra sid args "?e\<lparr>en_audit := au1\<rparr>"] gc known by simp
  moreover have "\<forall>st \<in> set (ag_Explain (currentApprovalGate (gx_approval cfg)) env (?e\<lparr>en_reg := r\<rparr>) sid args). es_Status st \<noteq> ''denied''"
  proof -
    have "ag_Check (currentApprovalGate (gx_approval cfg)) env (?e\<lparr>en_reg := r, en_audit := au2\<rparr>) sid args = (Some None, e2)"
      using ag unfolding p2(2) by simp
    then show ?thesis
      using approval_contract.passed_not_denied [OF built_gate_contract [OF assms(4)]] unfolding explain_same [OF assms(4), symmetric, where a = au2]
      by (metis fst_conv)
  qed
  ultimately show ?thesis
    using d ent res assms(3) unfolding o outcome_iff explain_denied_iff by (auto simp: p2(1))
qed

text \<open>What an explanation that allows says of each stage, whatever the audit log is at that moment.\<close>

lemma explained_allowed_stages:
  assumes x: "ExplainCommand cfg env sid args e = (Some x, e')"
    and "\<not> RemoteGateProcess cfg" "gx_approval cfg = None \<or> gx_approval cfg = Some enterpriseApprovalGate"
    and ok: "cx_Outcome x = ''allowed''"
  obtains p d where "\<forall>a. gate_context env no_extra sid args (e\<lparr>en_audit := a\<rparr>) = (p, e'\<lparr>en_audit := a\<rparr>)" "\<not> pc_IdentityUnknown p"
    "\<forall>a. EvaluatePolicyDecision False (en_query (e'\<lparr>en_audit := a\<rparr>)) p = (d, None)" "pd_Allowed d"
    "\<forall>a. \<not> (hasEntitlements (en_ents (e'\<lparr>en_audit := a\<rparr>)) \<and> \<not> IsAuthorized (en_ents (e'\<lparr>en_audit := a\<rparr>)) (pc_User p) (pc_Groups p) (hd args))"
    "\<forall>a. ag_Check (currentApprovalGate (gx_approval cfg)) env (e'\<lparr>en_audit := a\<rparr>) sid args = (Some None, e'\<lparr>en_audit := a\<rparr>)"
    "en_restricted e \<longrightarrow> CHR ''/'' \<notin> set (hd args) \<and> hd args \<noteq> ''cd'' \<and> hd args \<noteq> ''export''"
proof -
  obtain p r where b: "buildPolicyContext (gv_policy env) (en_ids e) (hd args) (tl args) sid (en_reg e) = (p, r)" and e': "e' = e\<lparr>en_reg := r\<rparr>"
      and o: "cx_Outcome x = foldl stage_outcome ''allowed''
         (map es_Status (explain_stages cfg env (e\<lparr>en_reg := r\<rparr>) sid args (p\<lparr>pc_Capabilities := ClassifyCapabilities (hd args)\<rparr>)))"
    using x by (rule ExplainCommand_Some)
  let ?p = "p\<lparr>pc_Capabilities := ClassifyCapabilities (hd args)\<rparr>"
  have nd: "''denied'' \<notin> set (map es_Status (explain_stages cfg env e' sid args ?p))"
    and np: "''approval_required'' \<notin> set (map es_Status (explain_stages cfg env e' sid args ?p))"
    using ok unfolding o outcome_iff e' by auto
  note nd = nd [unfolded explain_denied_iff] and np = np [unfolded explain_pending_iff]
  obtain d where d: "EvaluatePolicyDecision False (en_query e') ?p = (d, None)" "pd_Allowed d"
    using nd assms(2) by (cases "EvaluatePolicyDecision False (en_query e') ?p") auto
  have ck: "ag_Check (currentApprovalGate (gx_approval cfg)) env (e'\<lparr>en_audit := a\<rparr>) sid args = (Some None, e'\<lparr>en_audit := a\<rparr>)" for a
  proof -
    have "\<forall>st \<in> set (ag_Explain (currentApprovalGate (gx_approval cfg)) env (e'\<lparr>en_audit := a\<rparr>) sid args).
        es_Status st \<noteq> ''denied'' \<and> es_Status st \<noteq> ''approval_required''"
      using nd np unfolding e' explain_same [OF assms(3)] by force
    then show ?thesis by (rule approval_contract.clear [OF built_gate_contract [OF assms(3)]])
  qed
  have gc: "gate_context env no_extra sid args (e\<lparr>en_audit := a\<rparr>) = (?p, e'\<lparr>en_audit := a\<rparr>)" for a
    using gate_context_plain [of env "e\<lparr>en_audit := a\<rparr>" args sid p r] b by (simp add: e')
  show thesis by (rule that [of ?p d]) (use gc ck nd d e' in auto)
qed

lemma local_of_gate:
  assumes "gateCommandContext cfg env restricted args sid extra w = (res, w')" "args \<noteq> []" "\<not> RemoteGateProcess cfg"
    "\<forall>a \<in> set args. CHR 0x00 \<notin> set a"
  shows "local_gate cfg env restricted args sid extra w = (res, w')"
  using assms by (auto simp: gateCommandContext_def RemoteGateProcess_def list_ex_iff split: if_splits)

lemmas gate_run_defs = local_gate_def wlog_def on_engine_def with_audit_def policy_check_def entitlements_check_def
  approval_check_def admin_check_def restricted_check_def

lemma explained_allowed_passes:
  assumes x: "ExplainCommand cfg env sid args (wo_engine w) = (Some x, e')"
    and g: "gateCommandContext cfg env (en_restricted (wo_engine w)) args sid no_extra w = (res, w')"
    and "\<not> RemoteGateProcess cfg" "gx_approval cfg = None \<or> gx_approval cfg = Some enterpriseApprovalGate"
    and "gx_plane cfg = None" "\<forall>a \<in> set args. CHR 0x00 \<notin> set a" "agent_refusal env (en_reg (wo_engine w)) sid args = None"
    and ok: "cx_Outcome x = ''allowed''"
  shows "res = Allow \<or> (\<exists>err. res = Deny (GEAudit err))"
proof -
  let ?e = "wo_engine w"
  have "args \<noteq> []" using x by (auto simp: ExplainCommand_def)
  then have l: "local_gate cfg env (en_restricted ?e) args sid no_extra w = (res, w')" using local_of_gate [OF g _ assms(3,6)] by blast
  obtain p d where st: "\<forall>a. gate_context env no_extra sid args (?e\<lparr>en_audit := a\<rparr>) = (p, e'\<lparr>en_audit := a\<rparr>)" "\<not> pc_IdentityUnknown p"
      "\<forall>a. EvaluatePolicyDecision False (en_query (e'\<lparr>en_audit := a\<rparr>)) p = (d, None)" "pd_Allowed d"
      "\<forall>a. \<not> (hasEntitlements (en_ents (e'\<lparr>en_audit := a\<rparr>)) \<and> \<not> IsAuthorized (en_ents (e'\<lparr>en_audit := a\<rparr>)) (pc_User p) (pc_Groups p) (hd args))"
      "\<forall>a. ag_Check (currentApprovalGate (gx_approval cfg)) env (e'\<lparr>en_audit := a\<rparr>) sid args = (Some None, e'\<lparr>en_audit := a\<rparr>)"
      "en_restricted ?e \<longrightarrow> CHR ''/'' \<notin> set (hd args) \<and> hd args \<noteq> ''cd'' \<and> hd args \<noteq> ''export''"
    by (rule explained_allowed_stages [OF x assms(3,4) ok])
  show ?thesis using l assms(3,5,7) st
    by (auto simp: gate_run_defs currentAdminPlaneGate_def split: option.splits if_splits prod.splits)
qed

text \<open>A command explained as waiting for an approval matches a rule, and passes only once its own request was approved in time.\<close>

lemma pending_rule:
  assumes "g = None \<or> g = Some enterpriseApprovalGate"
    and "''approval_required'' \<in> es_Status ` set (ag_Explain (currentApprovalGate g) env e sid args)"
  obtains rule where "g = Some enterpriseApprovalGate" "matchFourEyes (en_rules e) (join args '' '') = Inr (Some rule)"
proof (cases g)
  case None
  then show thesis using assms(2)
    by (auto simp: currentApprovalGate_def core_Explain_def explainFourEyes_def Let_def split: if_splits sum.splits option.splits)
next
  case (Some h)
  then have h: "h = enterpriseApprovalGate" using assms(1) by simp
  have "es_Status (explainFourEyes e args '''') = ''approval_required''"
    using assms(2) ticket_stage(2) [of env e sid args] enterprise_stages [of env e sid args] by (auto simp: Some h currentApprovalGate_def)
  then show thesis using that Some h by (auto simp: explainFourEyes_def split: sum.splits option.splits)
qed

definition approved_request :: "gate_env \<Rightarrow> string list \<Rightarrow> string \<Rightarrow> fe_rule \<Rightarrow> engine \<Rightarrow> bool" where
  "approved_request env args sid rule e \<longleftrightarrow>
     (\<exists>r p st t. createFourEyesPending (rq_os_user (gv_request env)) r (rq_rnd (gv_request env)) (rq_host (gv_request env))
         (rq_stamp (gv_request env)) (rq_wr (gv_request env)) (join args '' '') rule sid (en_store e) = (Inr p, st) \<and>
       fp_Command p = join args '' '' \<and> t \<in> set (rq_turns (gv_request env)) \<and> wt_approved t \<and>
       wt_now t < rq_start (gv_request env) + dur_seconds (wait_ttl rule))"

lemma explained_pending:
  assumes x: "ExplainCommand cfg env sid args (wo_engine w) = (Some x, e')"
    and g: "gateCommandContext cfg env (en_restricted (wo_engine w)) args sid no_extra w = (res, w')"
    and "\<not> RemoteGateProcess cfg" "gx_approval cfg = None \<or> gx_approval cfg = Some enterpriseApprovalGate"
    and "cx_Outcome x = ''approval_required''"
  shows "\<exists>rule. matchFourEyes (en_rules (wo_engine w)) (join args '' '') = Inr (Some rule) \<and>
    (res = Allow \<longrightarrow> approved_request env args sid rule (wo_engine w))"
proof -
  let ?e = "wo_engine w"
  obtain p r where ne: "args \<noteq> []" and o: "cx_Outcome x = foldl stage_outcome ''allowed''
       (map es_Status (explain_stages cfg env (?e\<lparr>en_reg := r\<rparr>) sid args (p\<lparr>pc_Capabilities := ClassifyCapabilities (hd args)\<rparr>)))"
    using x by (rule ExplainCommand_Some)
  have "''approval_required'' \<in> es_Status ` set (ag_Explain (currentApprovalGate (gx_approval cfg)) env (?e\<lparr>en_reg := r\<rparr>) sid args)"
    using assms(5) unfolding o outcome_iff explain_pending_iff by blast
  then obtain rule where ee: "gx_approval cfg = Some enterpriseApprovalGate"
      and m: "matchFourEyes (en_rules (?e\<lparr>en_reg := r\<rparr>)) (join args '' '') = Inr (Some rule)"
    using pending_rule [OF assms(4)] by blast
  have "approved_request env args sid rule ?e" if a: "res = Allow"
  proof -
    have rem: "gx_remote cfg = None" using assms(3) by (simp add: RemoteGateProcess_def)
    from g [unfolded a] ne rem obtain q e1 e2 au1 au2
      where gc: "gate_context env no_extra sid args (?e\<lparr>en_audit := au1\<rparr>) = (q, e1)"
        and ag: "ag_Check (currentApprovalGate (gx_approval cfg)) env (e1\<lparr>en_audit := au2\<rparr>) sid args = (Some None, e2)"
      by (rule allowed_stages [OF _ _ _ refl])
    from gc obtain r1 where e1: "e1 = ?e\<lparr>en_audit := au1, en_reg := r1\<rparr>" by (rule gate_contextE) simp
    have "fst (CheckFourEyesForSession env (e1\<lparr>en_audit := au2\<rparr>) sid args) = Some None"
      using ag by (auto simp: ee currentApprovalGate_def enterprise_Check_def split: option.splits)
    then have "fst (RequestApprovalForSession (gv_request env) (join args '' '') rule sid (e1\<lparr>en_audit := au2\<rparr>)) = Some None"
      using m by (simp add: CheckFourEyesForSession_def e1)
    then show ?thesis unfolding approved_request_def
      by (rule request_approved) (force simp: e1)
  qed
  then show ?thesis using m by simp
qed

section \<open>What is remembered of a denial\<close>

text \<open>Building a context a second time sees the same: clearing an expired elevation is all the first one did.\<close>

lemma elevation_idem:
  assumes "ActiveElevation now s = (el, s')"
  shows "ActiveElevation now s' = (el, s')" "ManagedAgent s' = ManagedAgent s" "sess_ID s' = sess_ID s" "sess_User s' = sess_User s"
    "sess_Principals s' = sess_Principals s"
  using assms by (auto simp: ActiveElevation_def activeElevationLocked_def ManagedAgent_def split: option.splits if_splits)

lemma claims_idem:
  assumes "addSessionClaims env s p = (p', s')"
  shows "addSessionClaims env s' p = (p', s')" "sess_User s' = sess_User s" "sess_Principals s' = sess_Principals s"
proof -
  obtain el s1 where a: "ActiveElevation (pe_now env) s = (el, s1)" by fastforce
  then have "s' = s1" using assms by (simp add: addSessionClaims_def Let_def)
  then show "addSessionClaims env s' p = (p', s')" "sess_User s' = sess_User s" "sess_Principals s' = sess_Principals s"
    using assms a elevation_idem [OF a] by (simp_all add: addSessionClaims_def)
qed

text \<open>The context of a registered session, in one equation.\<close>

definition principal_of :: "identity_table \<Rightarrow> string \<Rightarrow> session \<Rightarrow> string \<times> string list" where
  "principal_of ids sid s = (case boundIdentity sid ids of Some ug \<Rightarrow> ug | None \<Rightarrow> (sess_User s, PrincipalList s))"

lemma build_registered:
  assumes "GetSession r sid = Some s" "sid \<noteq> []"
  shows "buildPolicyContext env ids cmd args sid r =
    (case principal_of ids sid s of (u, g) \<Rightarrow>
       case addSessionClaims env s ((base_context env cmd args sid)\<lparr>pc_User := u, pc_Groups := g\<rparr>) of (p, s1) \<Rightarrow> (p, on_session sid (\<lambda>_. s1) r))"
  using assms by (simp add: buildPolicyContext_def principal_of_def Let_def split: option.split)

lemma build_idem:
  assumes "buildPolicyContext env ids cmd args sid r = (p, r')"
  shows "buildPolicyContext env ids cmd args sid r' = (p, r')"
proof (cases "sid = [] \<or> GetSession r sid = None")
  case True
  then show ?thesis using assms by (auto simp: buildPolicyContext_def Let_def split: option.splits)
next
  case False
  then obtain s where s: "GetSession r sid = Some s" "sid \<noteq> []" by auto
  obtain u g where ug: "principal_of ids sid s = (u, g)" by fastforce
  obtain p1 s1 where c: "addSessionClaims env s ((base_context env cmd args sid)\<lparr>pc_User := u, pc_Groups := g\<rparr>) = (p1, s1)" by fastforce
  have r': "p = p1" "r' = on_session sid (\<lambda>_. s1) r" using assms s c ug by (simp_all add: build_registered)
  have "GetSession r' sid = Some s1" "on_session sid (\<lambda>_. s1) r' = r'" using s(1) by (auto simp: r'(2) GetSession_def on_session_def)
  moreover have "principal_of ids sid s1 = (u, g)" using ug claims_idem(2,3) [OF c] by (simp add: principal_of_def PrincipalList_def split: option.splits)
  ultimately show ?thesis using s(2) claims_idem(1) [OF c] r'(1) by (simp add: build_registered)
qed

text \<open>An explanation does not depend on the audit log and is the same once an expired elevation is cleared.\<close>

lemma explain_stages_same:
  assumes "gx_approval cfg = None \<or> gx_approval cfg = Some enterpriseApprovalGate"
  shows "explain_stages cfg env (e\<lparr>en_reg := r, en_audit := a\<rparr>) sid args p = explain_stages cfg env (e\<lparr>en_reg := r\<rparr>) sid args p"
  by (simp add: explain_stages_def explain_same [OF assms] entitlements_stage_def)

lemma explain_audit:
  assumes "gx_approval cfg = None \<or> gx_approval cfg = Some enterpriseApprovalGate"
  shows "ExplainCommand cfg env sid args (e\<lparr>en_audit := a\<rparr>) =
    (fst (ExplainCommand cfg env sid args e), (snd (ExplainCommand cfg env sid args e))\<lparr>en_audit := a\<rparr>)"
proof -
  have swap: "(e\<lparr>en_audit := a\<rparr>)\<lparr>en_reg := r\<rparr> = e\<lparr>en_reg := r, en_audit := a\<rparr>" for r by simp
  show ?thesis
    unfolding ExplainCommand_def Let_def swap
    by (simp add: explain_stages_same [OF assms] needed_entitlements_def split: prod.split)
qed

lemma explain_again:
  assumes "ExplainCommand cfg env sid args e = (Some x, e')"
  shows "ExplainCommand cfg env sid args e' = (Some x, e')" "en_denials e' = en_denials e"
proof -
  obtain p r where b: "buildPolicyContext (gv_policy env) (en_ids e) (hd args) (tl args) sid (en_reg e) = (p, r)" and e': "e' = e\<lparr>en_reg := r\<rparr>"
    using assms by (rule ExplainCommand_Some)
  have "ExplainCommand cfg env sid args (e\<lparr>en_reg := r\<rparr>) = ExplainCommand cfg env sid args e"
    using assms b build_idem [OF b] by (cases "args = [] \<or> hd args = ''''") (auto simp: ExplainCommand_def)
  then show "ExplainCommand cfg env sid args e' = (Some x, e')" using assms e' by simp
  show "en_denials e' = en_denials e" by (simp add: e')
qed

lemma remember_silent:
  assumes "gx_approval cfg = None \<or> gx_approval cfg = Some enterpriseApprovalGate" "ExplainCommand cfg env sid args e = (Some x, e')"
    and "cx_Outcome x = ''allowed''" "wo_engine w = e\<lparr>en_audit := a\<rparr> \<or> wo_engine w = e'\<lparr>en_audit := a\<rparr>"
  shows "en_denials (wo_engine (rememberDeniedCommand cfg env sid args w)) = en_denials e"
  using assms(2-4) explain_audit [OF assms(1), where e = e and a = a] explain_audit [OF assms(1), where e = e' and a = a]
    explain_again [OF assms(2)]
  by (auto simp: rememberDeniedCommand_def)

lemma log_keeps_denials: "wlog f w = (err, w') \<Longrightarrow> en_denials (wo_engine w') = en_denials (wo_engine w)"
  by (auto elim!: wlogE)

lemma unexplained_denial_forgotten_aux:
  assumes x: "ExplainCommand cfg env sid args (wo_engine w) = (Some x, e')" and ok: "cx_Outcome x = ''allowed''"
    and l: "local_gate cfg env restricted args sid no_extra w = (Deny err, w')"
    and "\<not> RemoteGateProcess cfg" "gx_approval cfg = None \<or> gx_approval cfg = Some enterpriseApprovalGate"
  shows "en_denials (wo_engine w') = en_denials (wo_engine w)"
proof -
  let ?e = "wo_engine w"
  obtain p d where st: "\<forall>a. gate_context env no_extra sid args (?e\<lparr>en_audit := a\<rparr>) = (p, e'\<lparr>en_audit := a\<rparr>)" "\<not> pc_IdentityUnknown p"
      "\<forall>a. EvaluatePolicyDecision False (en_query (e'\<lparr>en_audit := a\<rparr>)) p = (d, None)" "pd_Allowed d"
      "\<forall>a. \<not> (hasEntitlements (en_ents (e'\<lparr>en_audit := a\<rparr>)) \<and> \<not> IsAuthorized (en_ents (e'\<lparr>en_audit := a\<rparr>)) (pc_User p) (pc_Groups p) (hd args))"
      "\<forall>a. ag_Check (currentApprovalGate (gx_approval cfg)) env (e'\<lparr>en_audit := a\<rparr>) sid args = (Some None, e'\<lparr>en_audit := a\<rparr>)"
      "en_restricted ?e \<longrightarrow> CHR ''/'' \<notin> set (hd args) \<and> hd args \<noteq> ''cd'' \<and> hd args \<noteq> ''export''"
    by (rule explained_allowed_stages [OF x assms(4,5) ok])
  note sil = remember_silent [OF assms(5) x ok] and same = explain_again(2) [OF x]
  obtain le1 w1 where l1: "wlog (LogCommand (gv_log env) ''BASH'' (join args '' '' @ controllerTag (en_reg ?e) sid)) w = (le1, w1)" by fastforce
  then obtain a1 where w1: "w1 = w\<lparr>wo_engine := ?e\<lparr>en_audit := a1\<rparr>\<rparr>" by (rule wlogE)
  show ?thesis
  proof (cases "le1 = None \<and> agent_refusal env (en_reg ?e) sid args = None")
    case False
    then show ?thesis using l l1 w1 sil [of w1 a1]
      by (auto simp: local_gate_def deny_recorded_def Let_def split: option.splits prod.splits dest!: log_keeps_denials)
  next
    case True
    obtain le2 w2 where l2: "wlog (LogPolicyDecisionDetail (gv_log env) (pc_User p) (join args '' '') (d\<lparr>pd_DenyReason := ''''\<rparr>))
        (w\<lparr>wo_engine := e'\<lparr>en_audit := a1\<rparr>\<rparr>) = (le2, w2)" by fastforce
    then obtain a2 where w2: "w2 = w\<lparr>wo_engine := e'\<lparr>en_audit := a2\<rparr>\<rparr>" by (auto elim: wlogE)
    have "(Deny err, w') = (case le2 of Some er \<Rightarrow> (Deny (GEAudit er), w2) | None \<Rightarrow> admin_check cfg env restricted args sid w2)"
      using l l1 l2 w1 w2 True st assms(4)
      by (auto simp: local_gate_def on_engine_def policy_check_def entitlements_check_def approval_check_def split: option.splits if_splits)
    then show ?thesis using w2 same sil [of _ a2]
      by (auto simp: admin_check_def restricted_check_def Let_def split: option.splits prod.splits if_splits dest!: log_keeps_denials)
  qed
qed

section \<open>A concrete world\<close>

text \<open>An engine without policy or rules whose ledger is on and empty, in a core process.\<close>

definition gx_engine :: engine where
  "gx_engine = ex_engine\<lparr>en_cmDefault := [], en_rules := RulesMissing, en_ents := \<lparr>entitlements = no_entitlements, entitlementsLoaded = False\<rparr>,
     en_audit := ex_audit\<lparr>au_cfg := demo_cfg, au_ledger := Some ''''\<rparr>\<rparr>"

definition gx_cfg :: gate_cfg where
  "gx_cfg = \<lparr>gx_approval = None, gx_plane = None, gx_remote = None, gx_marked = False,
     gx_adm = \<lparr>av_quarantine = '''', av_file = '''', av_lstat = LstatMissing, av_agent_unit = '''', av_recover = False\<rparr>, gx_vbins = [''help'']\<rparr>"

definition gx_world :: world where
  "gx_world = \<lparr>wo_engine = gx_engine, wo_budgets = [], wo_notices = [], wo_remote_calls = 0\<rparr>"

lemma ex_write: "\<exists>f. writeAuditLine ex_io m au = (None, au\<lparr>au_file := f\<rparr>)"
  by (cases "au_file au") (auto simp: writeAuditLine_def ex_io_def Let_def intro: exI [of _ None])

lemma ex_log_both:
  assumes "sinks_only tail_op" "au_cfg au = demo_cfg" "au_ledger au = Some (ledger_text es)" "linked ''k'' '''' 0 es" "length es < 5"
  shows "\<exists>au'. log_both (gv_log ex_env) line entry tail_op au = (None, au') \<and> au_cfg au' = demo_cfg \<and>
    (\<exists>n f. au_ledger au' = Some (ledger_text (es @ [sealed (li_chain ex_io) demo_cfg ''k'' es (entry (au\<lparr>au_calls := n, au_file := f\<rparr>))])))"
proof -
  have io: "le_io (gv_log ex_env) n = ex_io" for n by (simp add: ex_env_def)
  obtain f where w: "writeAuditLine ex_io line (au\<lparr>au_calls := Suc (au_calls au)\<rparr>) = (None, au\<lparr>au_calls := Suc (au_calls au), au_file := f\<rparr>)"
    using ex_write [of line "au\<lparr>au_calls := Suc (au_calls au)\<rparr>"] by auto
  have "AppendChain (li_chain ex_io) demo_cfg e (Some (ledger_text es)) = (None, Some (ledger_text (es @ [sealed (li_chain ex_io) demo_cfg ''k'' es e])))" for e
    by (rule append_ledger [OF assms(4)]) (use assms(5) in \<open>auto simp: chain_on_def demo_cfg_def no_errors_def ex_io_def\<close>)
  then show ?thesis using assms(1-3)
    by (auto simp: log_both_def io w Let_def sinks_only_def)
qed

lemma ex_good: "good_append demo_cfg (li_chain ex_io, zero_entry\<lparr>ce_Type := ''cmd'', ce_Source := ''BASH'', ce_Command := ''ls'', ce_ChangeID := ''''\<rparr>)"
  by (simp add: good_append_def no_errors_def ex_io_def demo_cfg_def zero_entry_def stamp_entry_def valid_entry_def texts_fit_def
      body_texts_def valid_ascii json_body_plain esc_byte_def)

lemma gx_logs:
  "\<exists>au1 au2. LogCommand (gv_log ex_env) ''BASH'' ''ls'' (en_audit gx_engine) = (None, au1) \<and>
     LogPolicyDecisionDetail (gv_log ex_env) ''root'' ''ls'' (no_decision\<lparr>pd_Allowed := True\<rparr>) au1 = (None, au2)"
proof -
  have r: "le_redact (gv_log ex_env) s = s" for s by (simp add: ex_env_def)
  have l0: "au_ledger (en_audit gx_engine) = Some (ledger_text [])" "au_cfg (en_audit gx_engine) = demo_cfg" "au_change (en_audit gx_engine) = ''''"
    by (simp_all add: gx_engine_def ledger_text_def ex_audit_def)
  obtain au1 where a1: "LogCommand (gv_log ex_env) ''BASH'' ''ls'' (en_audit gx_engine) = (None, au1)" "au_cfg au1 = demo_cfg"
      "au_ledger au1 = Some (ledger_text [sealed (li_chain ex_io) demo_cfg ''k'' [] (zero_entry\<lparr>ce_Type := ''cmd'', ce_Source := ''BASH'', ce_Command := ''ls'', ce_ChangeID := ''''\<rparr>)])"
    using ex_log_both [OF _ l0(2,1)] l0(3) sinks_only_rules(1) by (fastforce simp: LogCommand_def Let_def r)
  have k: "linked ''k'' '''' 0 [sealed (li_chain ex_io) demo_cfg ''k'' [] (zero_entry\<lparr>ce_Type := ''cmd'', ce_Source := ''BASH'', ce_Command := ''ls'', ce_ChangeID := ''''\<rparr>)]"
    using sealed_linked [of "''k''" "[]", OF _ _ ex_good] by simp
  obtain au2 where "LogPolicyDecisionDetail (gv_log ex_env) ''root'' ''ls'' (no_decision\<lparr>pd_Allowed := True\<rparr>) au1 = (None, au2)"
    using ex_log_both [OF _ a1(2,3) k] sinks_only_rules(1) by (fastforce simp: LogPolicyDecisionDetail_def Let_def)
  then show ?thesis using a1(1) by blast
qed

lemma gx_allows: "\<exists>w'. gateCommandContext gx_cfg ex_env False [''ls''] '''' no_extra gx_world = (Allow, w')"
proof -
  obtain au1 au2 where l: "LogCommand (gv_log ex_env) ''BASH'' ''ls'' (en_audit gx_engine) = (None, au1)"
      "LogPolicyDecisionDetail (gv_log ex_env) ''root'' ''ls'' (no_decision\<lparr>pd_Allowed := True\<rparr>) au1 = (None, au2)" using gx_logs by blast
  have d: "(no_decision\<lparr>pd_Allowed := True\<rparr>)\<lparr>pd_DenyReason := ''''\<rparr> = no_decision\<lparr>pd_Allowed := True\<rparr>" by (simp add: no_decision_def)
  have e: "en_query gx_engine = None" "\<not> hasEntitlements (en_ents gx_engine)" "en_cmDefault gx_engine = []" "en_cmPatterns gx_engine = []"
    "en_rules gx_engine = RulesMissing" by (simp_all add: gx_engine_def ex_engine_def hasEntitlements_def)
  have c: "gate_context ex_env no_extra '''' [''ls''] (gx_engine\<lparr>en_audit := a\<rparr>) =
      ((base_context (gv_policy ex_env) ''ls'' [] '''')\<lparr>pc_User := ''root'', pc_Capabilities := ClassifyCapabilities ''ls''\<rparr>, gx_engine\<lparr>en_audit := a\<rparr>)" for a
    by (simp add: gate_context_def buildPolicyContext_def no_extra_def ex_env_def base_context_def Let_def)
  have ck: "core_Check ex_env (gx_engine\<lparr>en_audit := a\<rparr>) '''' [''ls''] = (Some None, gx_engine\<lparr>en_audit := a\<rparr>)" for a
    by (simp add: core_Check_def cm_defs e matchFourEyes_def LoadFourEyesRules_def Let_def)
  show ?thesis
    by (simp add: gateCommandContext_def gx_cfg_def RemoteGateProcess_def gate_run_defs controllerTag_def agent_refusal_def gx_world_def l c
        EvaluatePolicyDecision_def e d currentApprovalGate_def currentAdminPlaneGate_def ck base_context_def)
qed

text \<open>In such an engine the explanation of a command of a known principal allows it.\<close>

lemma plain_explained:
  assumes "en_query e = None" "\<not> hasEntitlements (en_ents e)" "en_cmDefault e = []" "en_cmPatterns e = []" "en_rules e = RulesMissing"
    "\<not> en_restricted e" "cmd \<noteq> ''''" "sid = '''' \<or> GetSession (en_reg e) sid \<noteq> None"
  shows "\<exists>x e'. ExplainCommand gx_cfg ex_env sid [cmd] e = (Some x, e') \<and> cx_Outcome x = ''allowed''"
proof -
  obtain p r where b: "buildPolicyContext (gv_policy ex_env) (en_ids e) cmd [] sid (en_reg e) = (p, r)" by fastforce
  then have u: "\<not> pc_IdentityUnknown p"
    using assms(8) gate_context_unknown [of ex_env no_extra sid "[cmd]" e] gate_context_plain [of ex_env e "[cmd]" sid p r] by auto
  have "ag_Explain (currentApprovalGate (gx_approval gx_cfg)) ex_env (e\<lparr>en_reg := r\<rparr>) sid [cmd] =
      [stage ''change_management'' ''not_required'' [], stage ''four_eyes'' ''not_required'' []]"
    using assms(3-5) by (simp add: currentApprovalGate_def gx_cfg_def core_Explain_def explainFourEyes_def cm_defs matchFourEyes_def LoadFourEyesRules_def)
  moreover have "\<not> RemoteGateProcess gx_cfg" by (simp add: RemoteGateProcess_def gx_cfg_def)
  ultimately have "map es_Status (explain_stages gx_cfg ex_env (e\<lparr>en_reg := r\<rparr>) sid [cmd] (p\<lparr>pc_Capabilities := ClassifyCapabilities cmd\<rparr>)) =
      [''allowed'', ''not_configured'', ''not_required'', ''not_required'', ''disabled'']"
    using assms u by (simp add: explain_stages_def stage_status EvaluatePolicyDecision_def)
  then show ?thesis using b assms(7) by (simp add: ExplainCommand_def Let_def stage_outcome_def)
qed

definition gx_agent_world :: world where
  "gx_agent_world = gx_world\<lparr>wo_engine := gx_engine\<lparr>en_reg := \<lparr>globalSessions = [(''a1'', demo_session\<lparr>sess_agentBinding :=
     Some \<lparr>agent_ID = ''a'', agent_FlightID = ''f'', agent_Worktree = ''w'', agent_Allow = [], agent_ExpiresAt = 100\<rparr>\<rparr>)],
     sessionCap = 8, sessionCapRefuse = False\<rparr>\<rparr>\<rparr>"

lemma gx_plain:
  "en_query gx_engine = None" "\<not> hasEntitlements (en_ents gx_engine)" "en_cmDefault gx_engine = []" "en_cmPatterns gx_engine = []"
  "en_rules gx_engine = RulesMissing" "\<not> en_restricted gx_engine" "en_denials gx_engine = []"
  by (simp_all add: gx_engine_def ex_engine_def hasEntitlements_def)

lemma gx_local: "\<not> RemoteGateProcess gx_cfg" "gx_approval gx_cfg = None" "gx_plane gx_cfg = None"
  by (simp_all add: RemoteGateProcess_def gx_cfg_def)

section \<open>Properties\<close>

text \<open>
  C1. A command the local gate lets through has passed every stage, in order: it was recorded; it is not a command
  a managed agent may not run; its session has a principal; the policy allowed it without an error and the
  decision was recorded; the entitlements, where configured, authorise it; the approval gate and the admin
  plane passed it; restricted mode does not forbid it. No argument holds a NUL and the process is not the
  marked process of an SSH session.
\<close>

theorem authorized_passes_every_stage:
  assumes "gateCommandContext cfg env restricted args sid extra w = (Allow, w')" "args \<noteq> []" "gx_remote cfg = None"
    and "e0 = wo_engine w"
  shows "\<not> gx_marked cfg \<and> (\<forall>a \<in> set args. CHR 0x00 \<notin> set a) \<and>
    (\<exists>p d e1 e2 au1 au2.
       LogCommand (gv_log env) ''BASH'' (join args '' '' @ controllerTag (en_reg e0) sid) (en_audit e0) = (None, au1) \<and>
       agent_refusal env (en_reg e0) sid args = None \<and>
       gate_context env extra sid args (e0\<lparr>en_audit := au1\<rparr>) = (p, e1) \<and>
       (sid = '''' \<or> boundIdentity sid (en_ids e0) \<noteq> None \<or> GetSession (en_reg e0) sid \<noteq> None) \<and>
       EvaluatePolicyDecision False (en_query e0) p = (d, None) \<and> pd_Allowed d \<and>
       LogPolicyDecisionDetail (gv_log env) (pc_User p) (join args '' '') (d\<lparr>pd_DenyReason := ''''\<rparr>) au1 = (None, au2) \<and>
       (hasEntitlements (en_ents e0) \<longrightarrow> IsAuthorized (en_ents e0) (pc_User p) (pc_Groups p) (hd args)) \<and>
       ag_Check (currentApprovalGate (gx_approval cfg)) env (e1\<lparr>en_audit := au2\<rparr>) sid args = (Some None, e2) \<and>
       fst (currentAdminPlaneGate (gx_plane cfg) (gx_adm cfg) (pe_now (gv_policy env)) (en_reg e2) sid args (wo_budgets w)) = None \<and>
       en_audit (wo_engine w') = en_audit e2 \<and>
       (restricted \<longrightarrow> CHR ''/'' \<notin> set (hd args) \<and> hd args \<noteq> ''cd'' \<and> hd args \<noteq> ''export''))"
proof -
  show ?thesis by (rule allowed_stages [OF assms]) blast
qed

theorem authorized_passes_every_stage_witness:
  "\<exists>w' au1. gateCommandContext gx_cfg ex_env False [''ls''] '''' no_extra gx_world = (Allow, w') \<and>
     LogCommand (gv_log ex_env) ''BASH'' ''ls'' (en_audit gx_engine) = (None, au1)"
proof -
  obtain w' where w: "gateCommandContext gx_cfg ex_env False [''ls''] '''' no_extra gx_world = (Allow, w')" using gx_allows by blast
  show ?thesis using authorized_passes_every_stage [OF w _ _ refl] w by (auto simp: gx_cfg_def gx_world_def controllerTag_def)
qed



text \<open>
  C3. The explanation predicts the gate. In a process that judges commands itself, with no admin plane and no agent
  bound to the session, an explanation is one of three. A command explained as \<^verbatim>\<open>allowed\<close> passes the gate
  unless a record cannot be written; one explained as \<^verbatim>\<open>denied\<close> does not pass; one explained as
  \<^verbatim>\<open>approval_required\<close> matches a four-eyes rule and passes only if a request of exactly this command
  under this rule was made and its approval was seen before the deadline.
\<close>

theorem explanation_predicts_gate:
  assumes "ExplainCommand cfg env sid args (wo_engine w) = (Some x, e')"
    and "gateCommandContext cfg env (en_restricted (wo_engine w)) args sid no_extra w = (res, w')"
    and "\<not> RemoteGateProcess cfg" "gx_approval cfg = None \<or> gx_approval cfg = Some enterpriseApprovalGate"
    and "gx_plane cfg = None" "\<forall>a \<in> set args. CHR 0x00 \<notin> set a" "agent_refusal env (en_reg (wo_engine w)) sid args = None"
  shows "cx_Outcome x \<in> {''allowed'', ''denied'', ''approval_required''} \<and>
    (cx_Outcome x = ''allowed'' \<longrightarrow> res = Allow \<or> (\<exists>err. res = Deny (GEAudit err))) \<and>
    (cx_Outcome x = ''denied'' \<longrightarrow> res \<noteq> Allow) \<and>
    (cx_Outcome x = ''approval_required'' \<longrightarrow>
      (\<exists>rule. matchFourEyes (en_rules (wo_engine w)) (join args '' '') = Inr (Some rule) \<and>
        (res = Allow \<longrightarrow> approved_request env args sid rule (wo_engine w))))"
proof (intro conjI impI)
  show "cx_Outcome x \<in> {''allowed'', ''denied'', ''approval_required''}"
    by (rule ExplainCommand_Some [OF assms(1)]) (simp add: outcome_fold)
  show "res = Allow \<or> (\<exists>err. res = Deny (GEAudit err))" if "cx_Outcome x = ''allowed''"
    using explained_allowed_passes [OF assms that] .
  show "res \<noteq> Allow" if "cx_Outcome x = ''denied''"
    using explained_denied_refused [OF assms(1) _ assms(3,4)] assms(2) that by blast
  show "\<exists>rule. matchFourEyes (en_rules (wo_engine w)) (join args '' '') = Inr (Some rule) \<and>
      (res = Allow \<longrightarrow> approved_request env args sid rule (wo_engine w))" if "cx_Outcome x = ''approval_required''"
    using explained_pending [OF assms(1-4) that] .
qed


theorem explanation_predicts_gate_witness:
  "\<exists>x e' w'. ExplainCommand gx_cfg ex_env '''' [''ls''] gx_engine = (Some x, e') \<and> cx_Outcome x = ''allowed'' \<and>
     gateCommandContext gx_cfg ex_env False [''ls''] '''' no_extra gx_world = (Allow, w')"
proof -
  obtain x e' where x: "ExplainCommand gx_cfg ex_env '''' [''ls''] gx_engine = (Some x, e')" "cx_Outcome x = ''allowed''"
    using plain_explained [of gx_engine "''ls''" "''''"] gx_plain by auto
  have w: "wo_engine gx_world = gx_engine" by (simp add: gx_world_def)
  obtain w' where g: "gateCommandContext gx_cfg ex_env False [''ls''] '''' no_extra gx_world = (Allow, w')" using gx_allows by blast
  have "agent_refusal ex_env (en_reg gx_engine) '''' [''ls''] = None" by (simp add: agent_refusal_def)
  then show ?thesis
    using explanation_predicts_gate [of gx_cfg ex_env "''''" "[''ls'']" gx_world x e' Allow w'] x g gx_plain gx_local w by auto
qed



end
