(* ===== verification/JsonFields.thy ===== *)
theory JsonFields
  imports Json Sha256
begin

text \<open>
  Decoding a JSON text into a Go struct: numbers, strings, booleans, slices and byte slices as fields, unknown
  keys refused (\<^verbatim>\<open>DisallowUnknownFields\<close>), and standard base64. The other half writes such structs and
  shows that what was written is read back.
\<close>

section \<open>Base64\<close>

definition b64_digit :: "nat \<Rightarrow> char" where
  "b64_digit n =
     char_of (if n < 26 then 65 + n else if n < 52 then 71 + n else if n < 62 then n - 4 else if n = 62 then 43 else 47)"

definition b64_val :: "char \<Rightarrow> nat option" where
  "b64_val c =
     (let b = byte c
      in if 65 \<le> b \<and> b \<le> 90 then Some (b - 65)
         else if 97 \<le> b \<and> b \<le> 122 then Some (b - 71)
         else if 48 \<le> b \<and> b \<le> 57 then Some (b + 4)
         else if b = 43 then Some 62
         else if b = 47 then Some 63
         else None)"

abbreviation b64_pad :: char where
  "b64_pad \<equiv> CHR ''=''"

fun b64_encode :: "string \<Rightarrow> string" where
  "b64_encode [] = []"
| "b64_encode [a] = [b64_digit (byte a div 4), b64_digit (byte a mod 4 * 16), b64_pad, b64_pad]"
| "b64_encode [a, b] =
     [b64_digit (byte a div 4), b64_digit (byte a mod 4 * 16 + byte b div 16), b64_digit (byte b mod 16 * 4), b64_pad]"
| "b64_encode (a # b # c # s) =
     [b64_digit (byte a div 4), b64_digit (byte a mod 4 * 16 + byte b div 16),
      b64_digit (byte b mod 16 * 4 + byte c div 64), b64_digit (byte c mod 64)] @ b64_encode s"

text \<open>Padding ends the text; the unused low bits of the last digit are not checked; newlines are skipped.\<close>

fun b64_groups :: "string \<Rightarrow> string option" where
  "b64_groups [] = Some []"
| "b64_groups (a # b # c # d # s) =
     (case (b64_val a, b64_val b) of
        (Some x, Some y) \<Rightarrow>
          if c = b64_pad then
            (if d = b64_pad \<and> s = [] then Some [char_of ((x * 64 + y) div 16)] else None)
          else (case b64_val c of
              None \<Rightarrow> None
            | Some z \<Rightarrow>
                if d = b64_pad then
                  (if s = [] then Some [char_of ((x * 64 + y) div 16), char_of ((y mod 16 * 64 + z) div 4)] else None)
                else (case b64_val d of
                    None \<Rightarrow> None
                  | Some w \<Rightarrow>
                      map_option (\<lambda>r. [char_of ((x * 64 + y) div 16), char_of ((y mod 16 * 64 + z) div 4), char_of (z mod 4 * 64 + w)] @ r)
                        (b64_groups s)))
      | _ \<Rightarrow> None)"
| "b64_groups _ = None"

definition b64_decode :: "string \<Rightarrow> string option" where
  "b64_decode s = b64_groups (filter (\<lambda>c. c \<noteq> CHR 0x0D \<and> c \<noteq> CHR 0x0A) s)"

lemma b64_val_digit [simp]: "n < 64 \<Longrightarrow> b64_val (b64_digit n) = Some n"
  by (auto simp: b64_val_def b64_digit_def Let_def)

lemma b64_digit_byte: "n < 64 \<Longrightarrow> byte (b64_digit n) \<in> {43, 47} \<union> {48..57} \<union> {65..90} \<union> {97..122}"
  by (auto simp: b64_digit_def)

lemma b64_digit_plain:
  assumes "n < 64"
  shows "b64_digit n \<noteq> b64_pad" "b64_digit n \<noteq> CHR 0x0D" "b64_digit n \<noteq> CHR 0x0A" "0x20 \<le> byte (b64_digit n)" "byte (b64_digit n) < 0x80"
  using b64_digit_byte [OF assms] by auto

lemma b64_ranges [simp]:
  "byte a div 4 < 64" "byte a mod 4 * 16 < 64" "byte a mod 4 * 16 + byte b div 16 < 64"
  "byte a mod 16 * 4 < 64" "byte a mod 16 * 4 + byte b div 64 < 64" "byte a mod 64 < 64"
proof -
  have r: "x div 4 < 64" "x mod 4 * 16 < 64" "x mod 4 * 16 + y div 16 < 64" "x mod 16 * 4 < 64" "x mod 16 * 4 + y div 64 < 64" if "x < 256" "y < 256" for x y :: nat
    using that mod_less_divisor [of 4 x] mod_less_divisor [of 16 x] by linarith+
  note r = r [OF byte_lt byte_lt]
  show "byte a div 4 < 64" "byte a mod 4 * 16 < 64" "byte a mod 4 * 16 + byte b div 16 < 64"
    "byte a mod 16 * 4 < 64" "byte a mod 16 * 4 + byte b div 64 < 64" "byte a mod 64 < 64" by (rule r | simp)+
qed

lemma b64_split:
  assumes "y < (256 :: nat)" "z < 256"
  shows "(x div 4 * 64 + (x mod 4 * 16 + y div 16)) div 16 = x"
    "((x mod 4 * 16 + y div 16) mod 16 * 64 + (y mod 16 * 4 + z div 64)) div 4 = y"
    "(y mod 16 * 4 + z div 64) mod 4 * 64 + z mod 64 = z"
proof -
  have q: "y div 16 < 16" "z div 64 < 4" using assms by linarith+
  have "x div 4 * 64 + (x mod 4 * 16 + y div 16) = y div 16 + 16 * x" using div_mult_mod_eq [of x 4] by linarith
  then show "(x div 4 * 64 + (x mod 4 * 16 + y div 16)) div 16 = x" using q by simp
  have "(x mod 4 * 16 + y div 16) mod 16 = y div 16" using q by (simp add: mod_mult_self4)
  moreover have "y div 16 * 64 + (y mod 16 * 4 + z div 64) = z div 64 + 4 * y" using div_mult_mod_eq [of y 16] by linarith
  ultimately show "((x mod 4 * 16 + y div 16) mod 16 * 64 + (y mod 16 * 4 + z div 64)) div 4 = y" using q by simp
  have "(y mod 16 * 4 + z div 64) mod 4 = z div 64" using q by (simp add: mod_mult_self4)
  then show "(y mod 16 * 4 + z div 64) mod 4 * 64 + z mod 64 = z" using div_mult_mod_eq [of z 64] by linarith
qed

lemma b64_bytes:
  "(byte a div 4 * 64 + (byte a mod 4 * 16 + byte b div 16)) div 16 = byte a"
  "((byte a mod 4 * 16 + byte b div 16) mod 16 * 64 + (byte b mod 16 * 4 + byte c div 64)) div 4 = byte b"
  "(byte b mod 16 * 4 + byte c div 64) mod 4 * 64 + byte c mod 64 = byte c"
  "(byte a div 4 * 64 + byte a mod 4 * 16) div 16 = byte a"
  "((byte a mod 4 * 16 + byte b div 16) mod 16 * 64 + byte b mod 16 * 4) div 4 = byte b"
  using b64_split(1,2) [OF byte_lt [of b] byte_lt [of c], of "byte a"] b64_split(3) [OF byte_lt [of b] byte_lt [of c]]
    b64_split(1) [of 0 0 "byte a"] b64_split(2) [OF byte_lt [of b], of 0 "byte a"] by simp_all

lemma b64_groups_encode: "b64_groups (b64_encode s) = Some s"
  by (induction s rule: b64_encode.induct)
     (simp_all only: b64_encode.simps append.simps b64_groups.simps b64_val_digit b64_ranges b64_digit_plain b64_bytes
        prod.case option.case option.map if_False if_True simp_thms char_of_char)

section \<open>Fields of a struct\<close>

type_synonym u64 = "64 word"

text \<open>\<^verbatim>\<open>strconv.ParseUint(s, 10, 64)\<close> on a JSON number literal.\<close>

definition json_uint :: "int \<Rightarrow> string \<Rightarrow> int option" where
  "json_uint limit s = (if s \<noteq> [] \<and> list_all is_digit s \<and> dec_value s < limit then Some (dec_value s) else None)"

text \<open>
  A field decoder takes the value and the struct so far. \<^verbatim>\<open>null\<close> leaves a number, a string or a boolean
  as it is; a value of another type is an error.
\<close>

definition uint64_field :: "(u64 \<Rightarrow> 's \<Rightarrow> 's) \<Rightarrow> json \<Rightarrow> 's \<Rightarrow> 's option" where
  "uint64_field upd v s =
     (case v of
        JNum t \<Rightarrow> map_option (\<lambda>n. upd (of_int n) s) (json_uint (2 ^ 64) t)
      | JNull \<Rightarrow> Some s
      | _ \<Rightarrow> None)"

definition int_field :: "(int \<Rightarrow> 's \<Rightarrow> 's) \<Rightarrow> json \<Rightarrow> 's \<Rightarrow> 's option" where
  "int_field upd v s =
     (case v of JNum t \<Rightarrow> map_option (\<lambda>n. upd n s) (json_int64 t) | JNull \<Rightarrow> Some s | _ \<Rightarrow> None)"

definition string_field_of :: "(string \<Rightarrow> 's \<Rightarrow> 's) \<Rightarrow> json \<Rightarrow> 's \<Rightarrow> 's option" where
  "string_field_of upd v s = (case v of JStr t \<Rightarrow> Some (upd t s) | JNull \<Rightarrow> Some s | _ \<Rightarrow> None)"

definition bool_field :: "(bool \<Rightarrow> 's \<Rightarrow> 's) \<Rightarrow> json \<Rightarrow> 's \<Rightarrow> 's option" where
  "bool_field upd v s = (case v of JBool b \<Rightarrow> Some (upd b s) | JNull \<Rightarrow> Some s | _ \<Rightarrow> None)"

text \<open>
  A slice is its cells and its length. A second array for the same field is decoded into the cells of the
  first, so a \<^verbatim>\<open>null\<close> element keeps what was there; \<^verbatim>\<open>null\<close> and the empty array give a new slice.
\<close>

type_synonym 'a slice = "'a list \<times> nat"

definition slice_value :: "'a slice \<Rightarrow> 'a list" where
  "slice_value sl = take (snd sl) (fst sl)"

fun dec_cells :: "(json \<Rightarrow> 'a \<Rightarrow> 'a option) \<Rightarrow> 'a \<Rightarrow> json list \<Rightarrow> 'a list \<Rightarrow> 'a list option" where
  "dec_cells f z [] cells = Some cells"
| "dec_cells f z (v # vs) cells =
     (case f v (case cells of [] \<Rightarrow> z | c # _ \<Rightarrow> c) of
        None \<Rightarrow> None
      | Some x \<Rightarrow> map_option (Cons x) (dec_cells f z vs (tl cells)))"

definition dec_slice :: "(json \<Rightarrow> 'a \<Rightarrow> 'a option) \<Rightarrow> 'a \<Rightarrow> json \<Rightarrow> 'a slice \<Rightarrow> 'a slice option" where
  "dec_slice f z v sl =
     (case v of
        JArr vs \<Rightarrow> if vs = [] then Some ([], 0) else map_option (\<lambda>cells. (cells, length vs)) (dec_cells f z vs (fst sl))
      | JNull \<Rightarrow> Some ([], 0)
      | _ \<Rightarrow> None)"

definition string_elem :: "json \<Rightarrow> string \<Rightarrow> string option" where
  "string_elem v x = (case v of JStr t \<Rightarrow> Some t | JNull \<Rightarrow> Some x | _ \<Rightarrow> None)"

definition byte_elem :: "json \<Rightarrow> char \<Rightarrow> char option" where
  "byte_elem v x = (case v of JNum t \<Rightarrow> map_option char_of (json_uint 256 t) | JNull \<Rightarrow> Some x | _ \<Rightarrow> None)"

definition strings_field :: "('s \<Rightarrow> string slice) \<Rightarrow> (string slice \<Rightarrow> 's \<Rightarrow> 's) \<Rightarrow> json \<Rightarrow> 's \<Rightarrow> 's option" where
  "strings_field sel upd v s = map_option (\<lambda>sl. upd sl s) (dec_slice string_elem '''' v (sel s))"

text \<open>A byte slice is a base64 text, or an array of small numbers.\<close>

definition bytes_field :: "('s \<Rightarrow> char slice) \<Rightarrow> (char slice \<Rightarrow> 's \<Rightarrow> 's) \<Rightarrow> json \<Rightarrow> 's \<Rightarrow> 's option" where
  "bytes_field sel upd v s =
     (case v of
        JStr t \<Rightarrow> map_option (\<lambda>b. upd (b, length b) s) (b64_decode t)
      | _ \<Rightarrow> map_option (\<lambda>sl. upd sl s) (dec_slice byte_elem (CHR 0x00) v (sel s)))"

text \<open>
  \<^verbatim>\<open>json.Decoder\<close> with \<^verbatim>\<open>DisallowUnknownFields\<close>: exactly one value and white space. The fields of a
  struct are given by their names and decoders.
\<close>

type_synonym 's fields = "(string \<times> (json \<Rightarrow> 's \<Rightarrow> 's option)) list"

fun set_members :: "'s fields \<Rightarrow> (string \<times> json) list \<Rightarrow> 's \<Rightarrow> 's option" where
  "set_members fs [] s = Some s"
| "set_members fs ((k, v) # ms) s =
     (case find (\<lambda>(name, _). same_field name k) fs of
        None \<Rightarrow> None
      | Some (_, f) \<Rightarrow> (case f v s of None \<Rightarrow> None | Some s' \<Rightarrow> set_members fs ms s'))"

definition decode_strict :: "'s fields \<Rightarrow> 's \<Rightarrow> string \<Rightarrow> 's option" where
  "decode_strict fs zero payload =
     (case json_parse payload of
        Some (JObj ms) \<Rightarrow> set_members fs ms zero
      | Some JNull \<Rightarrow> Some zero
      | _ \<Rightarrow> None)"

section \<open>Writing structs\<close>

definition json_u64 :: "u64 \<Rightarrow> string" where
  "json_u64 n = dec_nat (unat n)"

definition json_bytes :: "string \<Rightarrow> string" where
  "json_bytes b = json_string (b64_encode b)"

definition json_bool :: "bool \<Rightarrow> string" where
  "json_bool b = (if b then ''true'' else ''false'')"

fun json_elems :: "string list \<Rightarrow> string" where
  "json_elems [] = []"
| "json_elems [x] = x"
| "json_elems (x # y # xs) = x @ CHR '','' # json_elems (y # xs)"

definition json_strings :: "string list \<Rightarrow> string" where
  "json_strings xs = CHR ''['' # json_elems (map json_string xs) @ [CHR '']'']"

text \<open>A member left out when it is the zero value (\<^verbatim>\<open>omitempty\<close>).\<close>

definition omit_zero :: "bool \<Rightarrow> string \<Rightarrow> string \<Rightarrow> (string \<times> string) list" where
  "omit_zero zero k w = (if zero then [] else [(k, w)])"

section \<open>What was written is read back\<close>

definition reads_deep :: "string \<Rightarrow> json \<Rightarrow> bool" where
  "reads_deep vt v \<longleftrightarrow>
     (\<forall>n d t. ends_value t \<longrightarrow> Suc d < maxNestingDepth \<longrightarrow> 2 * length vt \<le> n \<longrightarrow> read_value (Suc n) d (vt @ t) = Some (v, t))"

lemma reads_deepI: "reads vt v \<Longrightarrow> reads_deep vt v"
  by (simp add: reads_def reads_deep_def)

lemma reads_u64: "reads (json_u64 n) (JNum (dec_nat (unat n)))"
  using reads_int [of "int (unat n)"] by (simp add: json_u64_def dec_int_def)

lemma reads_json_bool: "reads (json_bool b) (JBool b)"
  using reads_bool by (simp add: json_bool_def)

lemma reads_bytes: "reads (json_bytes b) (JStr (json_clean (b64_encode b)))"
  by (simp add: json_bytes_def reads_string)

lemma b64_encode_ascii: "list_all (\<lambda>c. byte c < 0x80) (b64_encode s)"
  by (induction s rule: b64_encode.induct) (simp_all add: b64_digit_plain)

lemma b64_decode_encode: "b64_decode (json_clean (b64_encode s)) = Some s"
proof -
  have "filter (\<lambda>c. c \<noteq> CHR 0x0D \<and> c \<noteq> CHR 0x0A) (b64_encode s) = b64_encode s"
    by (induction s rule: b64_encode.induct) (simp_all add: b64_digit_plain)
  then show ?thesis by (simp add: b64_decode_def b64_groups_encode clean_ascii [OF b64_encode_ascii])
qed

lemma json_uint_dec: "int n < limit \<Longrightarrow> json_uint limit (dec_nat n) = Some (int n)"
  using dec_nat_digits [of n] by (simp add: json_uint_def dec_value_nat)

lemma uint64_field_written: "uint64_field upd (JNum (dec_nat (unat n))) s = Some (upd n s)"
proof -
  have "int (unat n) < 2 ^ 64" using unsigned_less [of n, where 'a = nat] by (simp only: of_nat_less_iff [symmetric, where 'a = int]) simp
  then show ?thesis by (simp add: uint64_field_def json_uint_dec)
qed

lemma json_elems_length: "length xs \<le> Suc (length (json_elems xs))"
  by (induction xs rule: json_elems.induct) simp_all

lemma read_elems_written:
  assumes "xs \<noteq> []" "list_all (\<lambda>(vt, v). reads vt v) xs" "Suc (length xs) \<le> n"
  shows "read_elems n d (json_elems (map fst xs) @ CHR '']'' # t) = Some (map snd xs, t)"
  using assms
proof (induction xs arbitrary: n)
  case (Cons x xs)
  obtain vt v where x: "x = (vt, v)" by (cases x)
  obtain l where n: "n = Suc (Suc l)" using Cons.prems(3) by (cases n; cases "n - 1") auto
  have r: "read_value (Suc l) d (vt @ u) = Some (v, u)" if "ends_value u" for u
    using Cons.prems(2) that x by (simp add: reads_def)
  show ?case
  proof (cases xs)
    case Nil
    then show ?thesis using r [of "CHR '']'' # t"] x by (simp add: n ends_value_def json_space_def)
  next
    case (Cons y ys)
    then have "json_elems (map fst (x # xs)) = vt @ CHR '','' # json_elems (map fst xs)" using x by simp
    then show ?thesis
      using r [of "CHR '','' # json_elems (map fst xs) @ CHR '']'' # t"] Cons.IH [of "Suc l"] Cons.prems Cons x
      by (simp add: n ends_value_def json_space_def)
  qed
qed simp

lemma json_elems_head:
  assumes "xs \<noteq> []" "list_all (\<lambda>x. x \<noteq> [] \<and> hd x = quote) xs"
  obtains u where "json_elems xs = quote # u"
  using assms by (cases xs rule: json_elems.cases; cases "hd xs") auto

lemma reads_strings:
  assumes "xs \<noteq> []"
  shows "reads_deep (json_strings xs) (JArr (map (\<lambda>x. JStr (json_clean x)) xs))"
  unfolding reads_deep_def
proof (intro allI impI)
  fix n d t assume a: "ends_value t" "Suc d < maxNestingDepth" "2 * length (json_strings xs) \<le> n"
  let ?xs = "map (\<lambda>x. (json_string x, JStr (json_clean x))) xs"
  have f: "map fst ?xs = map json_string xs" "map snd ?xs = map (\<lambda>x. JStr (json_clean x)) xs" by simp_all
  have "read_elems n (Suc d) (json_elems (map json_string xs) @ CHR '']'' # t) = Some (map (\<lambda>x. JStr (json_clean x)) xs, t)"
    using read_elems_written [of ?xs n "Suc d" t, unfolded f] assms a(3) json_elems_length [of "map json_string xs"]
    by (simp add: list_all_iff reads_string json_strings_def)
  moreover obtain u where "json_elems (map json_string xs) = quote # u"
    using json_elems_head [of "map json_string xs"] assms by (auto simp: list_all_iff json_string_def)
  ultimately show "read_value (Suc n) d (json_strings xs @ t) = Some (JArr (map (\<lambda>x. JStr (json_clean x)) xs), t)"
    using a(2) by (simp add: json_strings_def json_space_def)
qed

lemma read_members_deep:
  assumes "ms \<noteq> []" "list_all (\<lambda>(k, vt, v). reads_deep vt v) ms" "2 * length (json_members (map (\<lambda>(k, vt, v). (k, vt)) ms)) \<le> n"
    and "Suc d < maxNestingDepth"
  shows "read_members n d (json_members (map (\<lambda>(k, vt, v). (k, vt)) ms) @ CHR ''}'' # t) =
    Some (map (\<lambda>(k, vt, v). (json_clean k, v)) ms, t)"
  using assms(1-3)
proof (induction ms arbitrary: n)
  case (Cons m ms)
  obtain k vt v where m: "m = (k, vt, v)" by (cases m)
  have split: "json_members (map (\<lambda>(k, vt, v). (k, vt)) (m # ms)) =
      json_string k @ CHR '':'' # vt @ (if ms = [] then [] else CHR '','' # json_members (map (\<lambda>(k, vt, v). (k, vt)) ms))"
    using m by (cases ms) auto
  have len: "2 * length vt + 2 * length (json_string k) + 2 \<le> n" "ms \<noteq> [] \<Longrightarrow> 2 * length (json_members (map (\<lambda>(k, vt, v). (k, vt)) ms)) + 2 \<le> n"
    using Cons.prems(3) split by auto
  then obtain l where n: "n = Suc (Suc l)" by (cases n; cases "n - 1") auto
  have r: "read_value (Suc l) d (vt @ u) = Some (v, u)" if "ends_value u" for u
    using Cons.prems(2) that m len n assms(4) by (simp add: reads_deep_def json_string_def)
  have step: "read_members n d (json_string k @ CHR '':'' # vt @ c # u) =
      (if c = CHR '','' then map_option (\<lambda>(m, r). ((json_clean k, v) # m, r)) (read_members (Suc l) d u)
       else if c = CHR ''}'' then Some ([(json_clean k, v)], u) else None)"
    if "c = CHR '','' \<or> c = CHR ''}''" for c u
    using that r [of "c # u"] read_str_body [of k "CHR '':'' # vt @ c # u"]
    by (auto simp: n json_string_def json_space_def ends_value_def)
  show ?case
  proof (cases "ms = []")
    case True
    then show ?thesis using step [of "CHR ''}''" t] m by simp
  next
    case False
    then show ?thesis
      using step [of "CHR '',''"] Cons.IH [of "Suc l"] Cons.prems(2) len n m split by simp
  qed
qed simp

lemma decode_written:
  assumes "ms \<noteq> []" "list_all (\<lambda>(k, vt, v). reads_deep vt v) ms" "list_all (\<lambda>(k, vt, v). json_clean k = k) ms"
  shows "decode_strict fs z (json_object (map (\<lambda>(k, vt, v). (k, vt)) ms)) = set_members fs (map (\<lambda>(k, vt, v). (k, v)) ms) z"
proof -
  let ?ms = "map (\<lambda>(k, vt, v). (k, vt)) ms"
  obtain u where q: "json_members ?ms = quote # u"
    using assms(1) by (cases ?ms rule: json_members.cases) (auto simp: json_string_def)
  then have "skip (json_members ?ms @ t) = quote # u @ t" for t
    by (simp add: json_space_def)
  moreover have "map (\<lambda>(k, vt, v). (json_clean k, v)) ms = map (\<lambda>(k, vt, v). (k, v)) ms"
    using assms(3) by (auto simp: list_all_iff)
  ultimately have "json_parse (json_object ?ms) = Some (JObj (map (\<lambda>(k, vt, v). (k, v)) ms))"
    using read_members_deep [OF assms(1,2), of "Suc (2 * length (json_object ?ms))" 1 "[]"]
    by (simp add: json_parse_def json_object_def json_space_def maxNestingDepth_def)
  then show ?thesis by (simp add: decode_strict_def)
qed

lemma dec_strings: "dec_cells string_elem '''' (map JStr xs) [] = Some xs"
  by (induction xs) (simp_all add: string_elem_def)

lemma strings_field_written:
  assumes "xs \<noteq> []" "list_all valid_utf8 xs" "sel s = ([], 0)"
  shows "strings_field sel upd (JArr (map (\<lambda>x. JStr (json_clean x)) xs)) s = Some (upd (xs, length xs) s)"
proof -
  have e: "map (\<lambda>x. JStr (json_clean x)) xs = map JStr xs" using assms(2) by (auto simp: list_all_iff clean_valid)
  show ?thesis unfolding e using assms(1,3) by (simp add: strings_field_def dec_slice_def dec_strings)
qed

lemma bytes_field_written: "bytes_field sel upd (JStr (json_clean (b64_encode b))) s = Some (upd (b, length b) s)"
  by (simp add: bytes_field_def b64_decode_encode)

lemma slice_value_all [simp]: "slice_value (xs, length xs) = xs"
  by (simp add: slice_value_def)

end
