(* ===== verification/MonitorFrame.thy ===== *)
theory MonitorFrame
  imports JsonFields
begin

text \<open>
  The monitor protocol of an SSH session, \<^verbatim>\<open>internal/sys/monitor_frame.go\<close>: length-prefixed frames, strictly
  decoded JSON payloads, digests that bind an answer to its request, and the client in the session process.
  A connection is the bytes written to it and the bytes that can still be read from it.
\<close>

section \<open>Limits and frame types\<close>

definition MaxMonitorFrame :: nat where "MaxMonitorFrame = 1048576"
definition maxMonitorArgs :: nat where "maxMonitorArgs = 4096"
definition maxMonitorArgLen :: nat where "maxMonitorArgLen = 262144"
definition MaxMonitorRunStdin :: nat where "MaxMonitorRunStdin = 65536"
definition MaxMonitorOutChunk :: nat where "MaxMonitorOutChunk = 32768"
definition MaxMonitorRunOutput :: nat where "MaxMonitorRunOutput = 1048576"

definition MonitorRunTruncated :: string where
  "MonitorRunTruncated = [CHR 0x0A] @ ''adssh: output truncated at 1 MiB'' @ [CHR 0x0A]"

definition FrameAuthorize :: char where "FrameAuthorize = CHR 0x01"
definition FramePing :: char where "FramePing = CHR 0x02"
definition FrameRun :: char where "FrameRun = CHR 0x03"
definition FrameOut :: char where "FrameOut = CHR 0x04"
definition FrameExit :: char where "FrameExit = CHR 0x05"
definition FrameCancel :: char where "FrameCancel = CHR 0x06"

lemmas frame_types = FrameAuthorize_def FramePing_def FrameRun_def FrameOut_def FrameExit_def FrameCancel_def

definition MonitorStdinNone :: string where "MonitorStdinNone = ''none''"
definition MonitorStdinBytes :: string where "MonitorStdinBytes = ''bytes''"
definition MonitorStreamStdout :: int where "MonitorStreamStdout = 1"
definition MonitorStreamStderr :: int where "MonitorStreamStderr = 2"

datatype mon_err = MEInvalid | MEDenied | MEClosed | METooLarge | MEDesync | MERemote string

section \<open>Frames\<close>

text \<open>Unsigned integers in network byte order.\<close>

definition be_bytes :: "nat \<Rightarrow> nat \<Rightarrow> string" where
  "be_bytes k n = map (\<lambda>i. char_of (n div 256 ^ i mod 256)) (rev [0..<k])"

definition be_val :: "string \<Rightarrow> nat" where
  "be_val s = foldl (\<lambda>n c. n * 256 + byte c) 0 s"

text \<open>What is read, and what is left of the input.\<close>

definition ReadMonitorFrame :: "string \<Rightarrow> (mon_err + char \<times> string) \<times> string" where
  "ReadMonitorFrame s =
     (if length s < 4 then (Inl MEClosed, [])
      else let n = be_val (take 4 s)
           in if MaxMonitorFrame < n then (Inl METooLarge, drop 4 s)
              else case drop 4 s of
                  [] \<Rightarrow> (Inl MEClosed, [])
                | t # r \<Rightarrow> if length r < n then (Inl MEClosed, []) else (Inr (t, take n r), drop n r))"

definition frame_bytes :: "char \<Rightarrow> string \<Rightarrow> string" where
  "frame_bytes typ payload = be_bytes 4 (length payload) @ [typ] @ payload"

text \<open>One write call: it takes everything, or fails after some bytes.\<close>

definition WriteMonitorFrame :: "nat option \<Rightarrow> char \<Rightarrow> string \<Rightarrow> string \<Rightarrow> mon_err option \<times> string" where
  "WriteMonitorFrame wr typ payload out =
     (if MaxMonitorFrame < length payload then (Some METooLarge, out)
      else case wr of
          None \<Rightarrow> (None, out @ frame_bytes typ payload)
        | Some k \<Rightarrow> (Some MEClosed, out @ take k (frame_bytes typ payload)))"

section \<open>Arguments and digests\<close>

definition bad_arg :: "string \<Rightarrow> bool" where
  "bad_arg a \<longleftrightarrow> maxMonitorArgLen < length a \<or> contains_byte a (CHR 0x00) \<or> \<not> valid_utf8 a"

definition ValidateMonitorArgs :: "string list \<Rightarrow> mon_err option" where
  "ValidateMonitorArgs args =
     (if args = [] \<or> maxMonitorArgs < length args then Some MEInvalid
      else if list_ex bad_arg args then Some MEInvalid
      else None)"

definition validateRunStdin :: "string \<Rightarrow> string \<Rightarrow> mon_err option" where
  "validateRunStdin mode stdin =
     (if mode = MonitorStdinNone then (if stdin \<noteq> [] then Some MEInvalid else None)
      else if mode = MonitorStdinBytes then (if MaxMonitorRunStdin < length stdin then Some MEInvalid else None)
      else Some MEInvalid)"

definition length_prefixed :: "string \<Rightarrow> string" where
  "length_prefixed b = be_bytes 8 (length b) @ b"

definition args_message :: "string list \<Rightarrow> string" where
  "args_message args = concat (map length_prefixed args)"

definition MonitorArgsDigest :: "string list \<Rightarrow> string" where
  "MonitorArgsDigest args = hex_encode (sha256 (args_message args))"

definition run_message :: "string list \<Rightarrow> string \<Rightarrow> string \<Rightarrow> string" where
  "run_message args stdinMode stdin =
     length_prefixed ''adssh-monitor-run'' @ be_bytes 8 (length args) @ concat (map length_prefixed args) @
     length_prefixed stdinMode @ length_prefixed stdin"

definition MonitorRunDigest :: "string list \<Rightarrow> string \<Rightarrow> string \<Rightarrow> string" where
  "MonitorRunDigest args stdinMode stdin = hex_encode (sha256 (run_message args stdinMode stdin))"

section \<open>Payloads\<close>

record auth_request =
  aq_ID :: u64
  aq_Args :: "string list"

record auth_response =
  ap_ID :: u64
  ap_ArgsDigest :: string
  ap_OK :: bool
  ap_Error :: string

record run_request =
  rq_ID :: u64
  rq_Args :: "string list"
  rq_StdinMode :: string
  rq_Stdin :: string

record mon_out =
  ot_ID :: u64
  ot_Seq :: u64
  ot_Stream :: int
  ot_Data :: string

record mon_exit =
  ex_ID :: u64
  ex_Digest :: string
  ex_Code :: int
  ex_Error :: string

text \<open>\<^verbatim>\<open>json.Marshal\<close> of each of them.\<close>

definition marshal_auth_request :: "auth_request \<Rightarrow> string" where
  "marshal_auth_request r = json_object [(''id'', json_u64 (aq_ID r)), (''args'', json_strings (aq_Args r))]"

definition marshal_auth_response :: "auth_response \<Rightarrow> string" where
  "marshal_auth_response r =
     json_object ([(''id'', json_u64 (ap_ID r)), (''args_sha256'', json_string (ap_ArgsDigest r)), (''ok'', json_bool (ap_OK r))] @
       omit_zero (ap_Error r = '''') ''error'' (json_string (ap_Error r)))"

definition marshal_run_request :: "run_request \<Rightarrow> string" where
  "marshal_run_request r =
     json_object ([(''id'', json_u64 (rq_ID r)), (''args'', json_strings (rq_Args r)), (''stdin_mode'', json_string (rq_StdinMode r))] @
       omit_zero (rq_Stdin r = []) ''stdin'' (json_bytes (rq_Stdin r)))"

definition marshal_out :: "mon_out \<Rightarrow> string" where
  "marshal_out r =
     json_object [(''id'', json_u64 (ot_ID r)), (''seq'', json_u64 (ot_Seq r)), (''stream'', dec_int (ot_Stream r)),
       (''data'', json_bytes (ot_Data r))]"

definition marshal_exit :: "mon_exit \<Rightarrow> string" where
  "marshal_exit r =
     json_object ([(''id'', json_u64 (ex_ID r)), (''run_sha256'', json_string (ex_Digest r)), (''code'', dec_int (ex_Code r))] @
       omit_zero (ex_Error r = '''') ''error'' (json_string (ex_Error r)))"

definition marshal_cancel :: "u64 \<Rightarrow> string" where
  "marshal_cancel c = json_object [(''id'', json_u64 c)]"

text \<open>The structs as they are decoded, slices with their cells.\<close>

definition auth_fields :: "(u64 \<times> string slice) fields" where
  "auth_fields = [(''id'', uint64_field (\<lambda>n (i, a). (n, a))), (''args'', strings_field snd (\<lambda>a (i, _). (i, a)))]"

definition response_fields :: "auth_response fields" where
  "response_fields =
     [(''id'', uint64_field (\<lambda>n s. s\<lparr>ap_ID := n\<rparr>)), (''args_sha256'', string_field_of (\<lambda>t s. s\<lparr>ap_ArgsDigest := t\<rparr>)),
      (''ok'', bool_field (\<lambda>b s. s\<lparr>ap_OK := b\<rparr>)), (''error'', string_field_of (\<lambda>t s. s\<lparr>ap_Error := t\<rparr>))]"

definition run_fields :: "(u64 \<times> string slice \<times> string \<times> char slice) fields" where
  "run_fields =
     [(''id'', uint64_field (\<lambda>n (i, r). (n, r))),
      (''args'', strings_field (\<lambda>(i, a, r). a) (\<lambda>a (i, _, r). (i, a, r))),
      (''stdin_mode'', string_field_of (\<lambda>m (i, a, _, b). (i, a, m, b))),
      (''stdin'', bytes_field (\<lambda>(i, a, m, b). b) (\<lambda>b (i, a, m, _). (i, a, m, b)))]"

definition out_fields :: "(u64 \<times> u64 \<times> int \<times> char slice) fields" where
  "out_fields =
     [(''id'', uint64_field (\<lambda>n (i, r). (n, r))), (''seq'', uint64_field (\<lambda>n (i, q, r). (i, n, r))),
      (''stream'', int_field (\<lambda>n (i, q, st, b). (i, q, n, b))),
      (''data'', bytes_field (\<lambda>(i, q, st, b). b) (\<lambda>b (i, q, st, _). (i, q, st, b)))]"

definition exit_fields :: "mon_exit fields" where
  "exit_fields =
     [(''id'', uint64_field (\<lambda>n s. s\<lparr>ex_ID := n\<rparr>)), (''run_sha256'', string_field_of (\<lambda>t s. s\<lparr>ex_Digest := t\<rparr>)),
      (''code'', int_field (\<lambda>n s. s\<lparr>ex_Code := n\<rparr>)), (''error'', string_field_of (\<lambda>t s. s\<lparr>ex_Error := t\<rparr>))]"

definition cancel_fields :: "u64 fields" where
  "cancel_fields = [(''id'', uint64_field (\<lambda>n _. n))]"

definition DecodeMonitorAuth :: "string \<Rightarrow> mon_err + auth_request" where
  "DecodeMonitorAuth payload =
     (case decode_strict auth_fields (0, [], 0) payload of
        None \<Rightarrow> Inl MEInvalid
      | Some (i, a) \<Rightarrow>
          if i = 0 then Inl MEInvalid
          else case ValidateMonitorArgs (slice_value a) of
              Some e \<Rightarrow> Inl e
            | None \<Rightarrow> Inr \<lparr>aq_ID = i, aq_Args = slice_value a\<rparr>)"

definition decodeMonitorResponse :: "string \<Rightarrow> mon_err + auth_response" where
  "decodeMonitorResponse payload =
     (case decode_strict response_fields \<lparr>ap_ID = 0, ap_ArgsDigest = '''', ap_OK = False, ap_Error = ''''\<rparr> payload of
        None \<Rightarrow> Inl MEClosed
      | Some r \<Rightarrow> Inr r)"

definition DecodeMonitorRun :: "string \<Rightarrow> mon_err + run_request" where
  "DecodeMonitorRun payload =
     (case decode_strict run_fields (0, ([], 0), '''', [], 0) payload of
        None \<Rightarrow> Inl MEInvalid
      | Some (i, a, m, b) \<Rightarrow>
          if i = 0 then Inl MEInvalid
          else case ValidateMonitorArgs (slice_value a) of
              Some e \<Rightarrow> Inl e
            | None \<Rightarrow>
                (case validateRunStdin m (slice_value b) of
                   Some e \<Rightarrow> Inl e
                 | None \<Rightarrow> Inr \<lparr>rq_ID = i, rq_Args = slice_value a, rq_StdinMode = m, rq_Stdin = slice_value b\<rparr>))"

definition DecodeMonitorCancel :: "string \<Rightarrow> mon_err + u64" where
  "DecodeMonitorCancel payload =
     (case decode_strict cancel_fields 0 payload of
        None \<Rightarrow> Inl MEInvalid
      | Some i \<Rightarrow> if i = 0 then Inl MEInvalid else Inr i)"

definition decodeMonitorOut :: "string \<Rightarrow> mon_err + mon_out" where
  "decodeMonitorOut payload =
     (case decode_strict out_fields (0, 0, 0, [], 0) payload of
        None \<Rightarrow> Inl MEInvalid
      | Some (i, q, st, b) \<Rightarrow>
          if st \<noteq> MonitorStreamStdout \<and> st \<noteq> MonitorStreamStderr then Inl MEInvalid
          else if slice_value b = [] \<or> MaxMonitorOutChunk < length (slice_value b) then Inl MEInvalid
          else Inr \<lparr>ot_ID = i, ot_Seq = q, ot_Stream = st, ot_Data = slice_value b\<rparr>)"

definition decodeMonitorExit :: "string \<Rightarrow> mon_err + mon_exit" where
  "decodeMonitorExit payload =
     (case decode_strict exit_fields \<lparr>ex_ID = 0, ex_Digest = '''', ex_Code = 0, ex_Error = ''''\<rparr> payload of
        None \<Rightarrow> Inl MEInvalid
      | Some r \<Rightarrow> if ex_Code r < 0 \<or> 255 < ex_Code r then Inl MEInvalid else Inr r)"

section \<open>Frames read back\<close>

lemma be_bytes_length [simp]: "length (be_bytes k n) = k"
  by (simp add: be_bytes_def)

lemma be_val_append: "be_val (s @ [c]) = be_val s * 256 + byte c"
  by (simp add: be_val_def)

lemma be_bytes_Suc: "be_bytes (Suc k) n = be_bytes k (n div 256) @ [char_of (n mod 256)]"
proof -
  have "rev [0..<Suc k] = map Suc (rev [0..<k]) @ [0]"
    by (simp only: upt_conv_Cons [OF zero_less_Suc] map_Suc_upt [symmetric] rev.simps rev_map)
  then show ?thesis by (simp add: be_bytes_def div_mult2_eq)
qed

lemma be_val_bytes: "n < 256 ^ k \<Longrightarrow> be_val (be_bytes k n) = n"
proof (induction k arbitrary: n)
  case 0
  then show ?case by (simp add: be_bytes_def be_val_def)
next
  case (Suc k)
  then have "n div 256 < 256 ^ k" by (simp add: less_mult_imp_div_less)
  then show ?case using Suc.IH by (simp add: be_bytes_Suc be_val_append)
qed

lemma be_bytes_inject: "m < 256 ^ k \<Longrightarrow> n < 256 ^ k \<Longrightarrow> be_bytes k m = be_bytes k n \<longleftrightarrow> m = n"
  by (metis be_val_bytes)

lemma frame_bytes_length [simp]: "length (frame_bytes typ payload) = length payload + 5"
  by (simp add: frame_bytes_def)

lemma read_frame_bytes:
  assumes "length payload \<le> MaxMonitorFrame"
  shows "ReadMonitorFrame (frame_bytes typ payload @ rest) = (Inr (typ, payload), rest)"
proof -
  have "length payload < 256 ^ 4" using assms by (simp add: MaxMonitorFrame_def)
  then have "be_val (be_bytes 4 (length payload)) = length payload" by (rule be_val_bytes)
  then show ?thesis using assms by (simp add: ReadMonitorFrame_def frame_bytes_def Let_def)
qed

text \<open>All frames of a stream, until it ends or cannot be read.\<close>

lemma read_frame_shorter: "ReadMonitorFrame s = (Inr x, r) \<Longrightarrow> length r + 5 \<le> length s"
proof -
  assume a: "ReadMonitorFrame s = (Inr x, r)"
  then obtain t u where t: "drop 4 s = t # u" by (cases "drop 4 s") (auto simp: ReadMonitorFrame_def Let_def split: if_splits)
  then have "length s = length u + 5" using length_drop [of 4 s] unfolding t by simp
  moreover have "length r \<le> length u" using a t by (auto simp: ReadMonitorFrame_def Let_def split: if_splits)
  ultimately show ?thesis by simp
qed

section \<open>Payloads read back\<close>

lemma plain_keys:
  "plain_key ''id''" "plain_key ''args''" "plain_key ''args_sha256''" "plain_key ''ok''" "plain_key ''error''" "plain_key ''stdin_mode''"
  "plain_key ''stdin''" "plain_key ''seq''" "plain_key ''stream''" "plain_key ''data''" "plain_key ''run_sha256''" "plain_key ''code''"
  by (simp_all add: plain_key_def)

lemma plain_clean: "plain_key k \<Longrightarrow> json_clean k = k"
  by (rule clean_ascii) (auto simp: plain_key_def list_all_iff)

lemmas fields_defs = auth_fields_def response_fields_def run_fields_def out_fields_def exit_fields_def cancel_fields_def

lemmas deep_reads = reads_deepI [OF reads_u64] reads_deepI [OF reads_json_bool] reads_deepI [OF reads_bytes] reads_deepI [OF reads_int]
  reads_deepI [OF reads_string] reads_strings

lemma validate_args: "ValidateMonitorArgs args = None \<Longrightarrow> args \<noteq> [] \<and> list_all valid_utf8 args \<and> \<not> list_ex bad_arg args"
  by (auto simp: ValidateMonitorArgs_def bad_arg_def list_all_iff list_ex_iff split: if_splits)

lemma auth_request_roundtrip:
  assumes "aq_ID r \<noteq> 0" "ValidateMonitorArgs (aq_Args r) = None"
  shows "DecodeMonitorAuth (marshal_auth_request r) = Inr r"
proof -
  note v = validate_args [OF assms(2)]
  let ?ms = "[(''id'', json_u64 (aq_ID r), JNum (dec_nat (unat (aq_ID r)))), (''args'', json_strings (aq_Args r), JArr (map (\<lambda>x. JStr (json_clean x)) (aq_Args r)))]"
  have "decode_strict auth_fields (0, [], 0) (marshal_auth_request r) =
      set_members auth_fields (map (\<lambda>(k, vt, v). (k, v)) ?ms) (0, [], 0)"
    using decode_written [of ?ms auth_fields "(0, [], 0)"] v by (simp add: marshal_auth_request_def deep_reads plain_clean plain_keys)
  also have "\<dots> = Some (aq_ID r, aq_Args r, length (aq_Args r))"
    using v by (simp add: auth_fields_def same_field_plain plain_keys uint64_field_written strings_field_written)
  finally show ?thesis using assms by (simp add: DecodeMonitorAuth_def)
qed

lemma field_written [simp]:
  "string_field_of upd (JStr t) s = Some (upd t s)" "bool_field upd' (JBool b) s = Some (upd' b s)"
  by (simp_all add: string_field_of_def bool_field_def)

lemma int_field_written: "- (2 ^ 63) \<le> i \<Longrightarrow> i < 2 ^ 63 \<Longrightarrow> int_field upd (JNum (dec_int i)) s = Some (upd i s)"
  by (simp add: int_field_def json_int64_dec)

definition omit_member :: "bool \<Rightarrow> string \<Rightarrow> string \<Rightarrow> json \<Rightarrow> (string \<times> string \<times> json) list" where
  "omit_member zero k w v = (if zero then [] else [(k, w, v)])"

lemma omit_member_simps:
  "map (\<lambda>(k, vt, v). (k, vt)) (omit_member zero k w v) = omit_zero zero k w"
  "map (\<lambda>(k, vt, v). (k, v)) (omit_member zero k w v) = (if zero then [] else [(k, v)])"
  "list_all P (omit_member zero k w v) \<longleftrightarrow> (zero \<or> P (k, w, v))"
  by (simp_all add: omit_member_def omit_zero_def)

lemma reads_valid: "valid_utf8 s \<Longrightarrow> reads_deep (json_string s) (JStr s)"
  using reads_deepI [OF reads_string [of s]] by (simp add: clean_valid)

lemmas roundtrip_simps = reads_valid
  omit_member_simps deep_reads plain_clean plain_keys same_field_plain uint64_field_written
  strings_field_written bytes_field_written int_field_written

lemma response_roundtrip:
  assumes "valid_utf8 (ap_ArgsDigest r)" "valid_utf8 (ap_Error r)"
  shows "decodeMonitorResponse (marshal_auth_response r) = Inr r"
proof -
  let ?ms = "[(''id'', json_u64 (ap_ID r), JNum (dec_nat (unat (ap_ID r)))), (''args_sha256'', json_string (ap_ArgsDigest r), JStr (json_clean (ap_ArgsDigest r))),
      (''ok'', json_bool (ap_OK r), JBool (ap_OK r))] @ omit_member (ap_Error r = '''') ''error'' (json_string (ap_Error r)) (JStr (json_clean (ap_Error r)))"
  show ?thesis
    using decode_written [of ?ms response_fields "\<lparr>ap_ID = 0, ap_ArgsDigest = '''', ap_OK = False, ap_Error = ''''\<rparr>"] assms
    by (simp add: decodeMonitorResponse_def marshal_auth_response_def roundtrip_simps response_fields_def clean_valid)
qed

lemma exit_roundtrip:
  assumes "valid_utf8 (ex_Digest r)" "valid_utf8 (ex_Error r)" "0 \<le> ex_Code r" "ex_Code r \<le> 255"
  shows "decodeMonitorExit (marshal_exit r) = Inr r"
proof -
  let ?ms = "[(''id'', json_u64 (ex_ID r), JNum (dec_nat (unat (ex_ID r)))), (''run_sha256'', json_string (ex_Digest r), JStr (json_clean (ex_Digest r))),
      (''code'', dec_int (ex_Code r), JNum (dec_int (ex_Code r)))] @ omit_member (ex_Error r = '''') ''error'' (json_string (ex_Error r)) (JStr (json_clean (ex_Error r)))"
  show ?thesis
    using decode_written [of ?ms exit_fields "\<lparr>ex_ID = 0, ex_Digest = '''', ex_Code = 0, ex_Error = ''''\<rparr>"] assms
    by (simp add: decodeMonitorExit_def marshal_exit_def roundtrip_simps exit_fields_def clean_valid)
qed

lemma out_roundtrip:
  assumes "ot_Stream r \<in> {MonitorStreamStdout, MonitorStreamStderr}" "ot_Data r \<noteq> []" "length (ot_Data r) \<le> MaxMonitorOutChunk"
  shows "decodeMonitorOut (marshal_out r) = Inr r"
proof -
  let ?ms = "[(''id'', json_u64 (ot_ID r), JNum (dec_nat (unat (ot_ID r)))), (''seq'', json_u64 (ot_Seq r), JNum (dec_nat (unat (ot_Seq r)))),
      (''stream'', dec_int (ot_Stream r), JNum (dec_int (ot_Stream r))), (''data'', json_bytes (ot_Data r), JStr (json_clean (b64_encode (ot_Data r))))]"
  have "- (2 ^ 63) \<le> ot_Stream r" "ot_Stream r < 2 ^ 63" using assms(1) by (auto simp: MonitorStreamStdout_def MonitorStreamStderr_def)
  then show ?thesis
    using decode_written [of ?ms out_fields "(0, 0, 0, [], 0)"] assms
    by (auto simp: decodeMonitorOut_def marshal_out_def roundtrip_simps out_fields_def)
qed

lemma cancel_roundtrip: "c \<noteq> 0 \<Longrightarrow> DecodeMonitorCancel (marshal_cancel c) = Inr c"
  using decode_written [of "[(''id'', json_u64 c, JNum (dec_nat (unat c)))]" cancel_fields 0]
  by (simp add: DecodeMonitorCancel_def marshal_cancel_def roundtrip_simps cancel_fields_def)

lemma stdin_mode_valid: "validateRunStdin m b = None \<Longrightarrow> valid_utf8 m"
  by (rule valid_ascii) (auto simp: validateRunStdin_def MonitorStdinNone_def MonitorStdinBytes_def split: if_splits)

lemma run_request_roundtrip:
  assumes "rq_ID r \<noteq> 0" "ValidateMonitorArgs (rq_Args r) = None" "validateRunStdin (rq_StdinMode r) (rq_Stdin r) = None"
  shows "DecodeMonitorRun (marshal_run_request r) = Inr r"
proof -
  let ?ms = "[(''id'', json_u64 (rq_ID r), JNum (dec_nat (unat (rq_ID r)))), (''args'', json_strings (rq_Args r), JArr (map (\<lambda>x. JStr (json_clean x)) (rq_Args r))),
      (''stdin_mode'', json_string (rq_StdinMode r), JStr (json_clean (rq_StdinMode r)))] @
      omit_member (rq_Stdin r = []) ''stdin'' (json_bytes (rq_Stdin r)) (JStr (json_clean (b64_encode (rq_Stdin r))))"
  show ?thesis
    using decode_written [of ?ms run_fields "(0, ([], 0), '''', [], 0)"] validate_args [OF assms(2)] stdin_mode_valid [OF assms(3)] assms
    by (cases "rq_Stdin r = []")
       (simp_all add: DecodeMonitorRun_def marshal_run_request_def roundtrip_simps run_fields_def clean_valid slice_value_def)
qed

lemma hex_encode_ascii: "list_all (\<lambda>c. byte c < 0x80) (hex_encode s)"
proof -
  have "list_all (\<lambda>c. byte c < 0x80) hex_digits" by (simp add: hex_digits_def)
  then show ?thesis using hex_encode_digits [of s] by (auto simp: list_all_iff)
qed

lemma digest_valid: "valid_utf8 (MonitorArgsDigest args)" "valid_utf8 (MonitorRunDigest args m b)"
  by (simp_all add: MonitorArgsDigest_def MonitorRunDigest_def valid_ascii hex_encode_ascii)

section \<open>Digests bind requests\<close>

lemma length_prefixed_append:
  assumes "length a < 2 ^ 64" "length b < 2 ^ 64"
  shows "length_prefixed a @ x = length_prefixed b @ y \<longleftrightarrow> a = b \<and> x = y"
proof -
  have "be_bytes 8 (length a) = be_bytes 8 (length b) \<longleftrightarrow> length a = length b"
    by (rule be_bytes_inject) (use assms in simp_all)
  then show ?thesis by (auto simp: length_prefixed_def)
qed

lemma length_prefixed_nonempty [simp]: "length_prefixed a \<noteq> []"
  by (simp add: length_prefixed_def be_bytes_def)

lemma prefixed_list_inject:
  assumes "\<forall>x \<in> set a. length x < 2 ^ 64" "\<forall>x \<in> set b. length x < 2 ^ 64" "length a = length b"
    and "concat (map length_prefixed a) @ x = concat (map length_prefixed b) @ y"
  shows "a = b \<and> x = y"
  using assms
proof (induction a arbitrary: b)
  case (Cons p a)
  then obtain q b' where b: "b = q # b'" by (cases b) auto
  have "p = q \<and> concat (map length_prefixed a) @ x = concat (map length_prefixed b') @ y"
    using Cons.prems length_prefixed_append [of p q] by (simp add: b)
  then show ?case using Cons.IH [of b'] Cons.prems b by simp
qed simp

lemma args_message_inject:
  assumes "\<forall>x \<in> set a. length x < 2 ^ 64" "\<forall>x \<in> set b. length x < 2 ^ 64" "args_message a = args_message b"
  shows "a = b"
  using assms
proof (induction a arbitrary: b)
  case Nil
  then show ?case by (cases b) (simp_all add: args_message_def)
next
  case (Cons p a)
  obtain q b' where b: "b = q # b'" using Cons.prems(3) by (cases b) (auto simp: args_message_def)
  have "length_prefixed p @ args_message a = length_prefixed q @ args_message b'"
    using Cons.prems(3) by (simp add: b args_message_def)
  then have "p = q \<and> args_message a = args_message b'"
    by (subst (asm) length_prefixed_append) (use Cons.prems(1,2) b in auto)
  then show ?case using Cons.IH [of b'] Cons.prems(1,2) b by simp
qed

lemma valid_arg_length: "ValidateMonitorArgs args = None \<Longrightarrow> x \<in> set args \<Longrightarrow> length x \<le> maxMonitorArgLen \<and> CHR 0x00 \<notin> set x"
  by (auto simp: ValidateMonitorArgs_def list_ex_iff bad_arg_def not_less split: if_splits)

lemma valid_args_short: "ValidateMonitorArgs args = None \<Longrightarrow> \<forall>x \<in> set args. length x < 2 ^ 64"
  using valid_arg_length [of args] by (fastforce simp: maxMonitorArgLen_def)

lemma run_message_inject:
  assumes "ValidateMonitorArgs a = None" "ValidateMonitorArgs b = None" "validateRunStdin m s = None" "validateRunStdin n t = None"
    and "run_message a m s = run_message b n t"
  shows "a = b \<and> m = n \<and> s = t"
proof -
  have l: "length m < 2 ^ 64" "length n < 2 ^ 64" "length s < 2 ^ 64" "length t < 2 ^ 64"
    using assms(3,4) by (auto simp: validateRunStdin_def MonitorStdinNone_def MonitorStdinBytes_def MaxMonitorRunStdin_def split: if_splits)
  have n: "length a < 256 ^ 8" "length b < 256 ^ 8"
    using assms(1,2) by (auto simp: ValidateMonitorArgs_def maxMonitorArgs_def split: if_splits)
  have "be_bytes 8 (length a) @ concat (map length_prefixed a) @ length_prefixed m @ length_prefixed s =
      be_bytes 8 (length b) @ concat (map length_prefixed b) @ length_prefixed n @ length_prefixed t"
    using assms(5) by (simp add: run_message_def)
  then have e: "length a = length b" and
    r: "concat (map length_prefixed a) @ length_prefixed m @ length_prefixed s = concat (map length_prefixed b) @ length_prefixed n @ length_prefixed t"
    by (simp_all add: be_bytes_inject [OF n])
  have ab: "a = b \<and> length_prefixed m @ length_prefixed s = length_prefixed n @ length_prefixed t"
    by (rule prefixed_list_inject [OF valid_args_short valid_args_short e r]) (fact assms)+
  then have mn: "m = n" "length_prefixed s = length_prefixed t" by (simp_all add: length_prefixed_append [OF l(1,2)])
  then have "s = t" using length_prefixed_append [OF l(3,4), of "[]" "[]"] by simp
  then show ?thesis using ab mn by simp
qed

lemma be_bytes_first: "n < 256 ^ k \<Longrightarrow> hd (be_bytes (Suc k) n) = CHR 0x00"
proof (induction k arbitrary: n)
  case 0
  then show ?case using char_of_is [of "CHR 0x00" 0] by (simp add: be_bytes_def)
next
  case (Suc k)
  then have "n div 256 < 256 ^ k" by (simp add: less_mult_imp_div_less)
  then have "hd (be_bytes (Suc k) (n div 256)) = CHR 0x00" by (rule Suc.IH)
  moreover have "be_bytes (Suc k) (n div 256) \<noteq> []" by (simp add: be_bytes_Suc)
  ultimately show ?case unfolding be_bytes_Suc [of "Suc k"] by (simp add: hd_append)
qed

text \<open>The tag keeps the two messages apart: a run message read as arguments has an argument with a NUL.\<close>

lemma messages_differ:
  assumes "ValidateMonitorArgs a = None" "ValidateMonitorArgs b = None"
  shows "args_message a \<noteq> run_message b m s"
proof
  assume e: "args_message a = run_message b m s"
  have s: "\<forall>x \<in> set a. length x < 2 ^ 64" "\<forall>x \<in> set b. length x < 2 ^ 64" using valid_args_short assms by auto
  obtain y a' where a: "a = y # a'" using validate_args [OF assms(1)] by (cases a) auto
  obtain z b' where b: "b = z # b'" using validate_args [OF assms(2)] by (cases b) auto
  have "length_prefixed y @ args_message a' =
      length_prefixed ''adssh-monitor-run'' @ be_bytes 8 (length b) @ concat (map length_prefixed b) @ length_prefixed m @ length_prefixed s"
    using e by (simp add: a args_message_def run_message_def)
  then have "args_message a' = be_bytes 8 (length b) @ concat (map length_prefixed b) @ length_prefixed m @ length_prefixed s"
    by (subst (asm) length_prefixed_append) (use s(1) a in auto)
  moreover obtain w a'' where a': "a' = w # a''" using calculation by (cases a') (auto simp: args_message_def be_bytes_def)
  ultimately have w: "be_bytes 8 (length w) @ w @ args_message a'' =
      be_bytes 8 (length b) @ length_prefixed z @ concat (map length_prefixed b') @ length_prefixed m @ length_prefixed s"
    by (simp add: args_message_def b length_prefixed_def)
  have l: "length w < 256 ^ 8" "length b < 256 ^ 8"
    using s(1) assms(2) by (auto simp: a a' ValidateMonitorArgs_def maxMonitorArgs_def split: if_splits)
  have "length w = length b" using w be_bytes_inject [OF l] by simp
  then obtain c w' where c: "w = c # w'" using b by (cases w) auto
  have "length z < 256 ^ 7" using valid_arg_length [OF assms(2), of z] by (simp add: b maxMonitorArgLen_def)
  then have "hd (be_bytes 8 (length z)) = CHR 0x00" using be_bytes_first [of "length z" 7] by simp
  moreover have "w @ args_message a'' =
      be_bytes 8 (length z) @ z @ concat (map length_prefixed b') @ length_prefixed m @ length_prefixed s"
    using w \<open>length w = length b\<close> by (simp add: length_prefixed_def)
  moreover have "be_bytes 8 (length z) \<noteq> []" using be_bytes_length [of 8 "length z"] by force
  ultimately have "c = CHR 0x00" unfolding c by (metis append_Cons hd_append2 list.sel(1))
  then show False using valid_arg_length [OF assms(1), of w] c by (simp add: a a')
qed

section \<open>Properties\<close>

definition sha_collision :: "string \<Rightarrow> string \<Rightarrow> bool" where
  "sha_collision x y \<longleftrightarrow> x \<noteq> y \<and> sha256 x = sha256 y"

lemma digest_equal: "hex_encode (sha256 x) = hex_encode (sha256 y) \<Longrightarrow> x = y \<or> sha_collision x y"
  by (auto simp: sha_collision_def hex_encode_inject)

text \<open>
  C21. A digest binds an answer to its request: for requests that pass validation, equal argument digests mean
  equal arguments, equal run digests mean equal arguments, standard input mode and bytes, and an argument digest
  is never a run digest, unless SHA-256 collides on the two messages.
\<close>

theorem digests_bind_requests:
  assumes "ValidateMonitorArgs a = None" "ValidateMonitorArgs b = None" "validateRunStdin m s = None" "validateRunStdin n t = None"
  shows "(MonitorArgsDigest a = MonitorArgsDigest b \<longrightarrow> a = b \<or> sha_collision (args_message a) (args_message b)) \<and>
    (MonitorRunDigest a m s = MonitorRunDigest b n t \<longrightarrow> (a = b \<and> m = n \<and> s = t) \<or> sha_collision (run_message a m s) (run_message b n t)) \<and>
    (MonitorArgsDigest a = MonitorRunDigest b n t \<longrightarrow> sha_collision (args_message a) (run_message b n t))"
  using digest_equal [of "args_message a" "args_message b"] digest_equal [of "run_message a m s" "run_message b n t"]
    digest_equal [of "args_message a" "run_message b n t"] args_message_inject [OF valid_args_short valid_args_short, OF assms(1,2)]
    run_message_inject [OF assms] messages_differ [OF assms(1,2)]
  unfolding MonitorArgsDigest_def MonitorRunDigest_def by blast

theorem digests_bind_requests_witness:
  "ValidateMonitorArgs [''ls''] = None \<and>
   \<not> (MonitorArgsDigest [''ls''] = MonitorRunDigest [''ls''] ''none'' '''' \<and>
      \<not> sha_collision (args_message [''ls'']) (run_message [''ls''] ''none'' ''''))"
proof -
  have "ValidateMonitorArgs [''ls''] = None" "validateRunStdin ''none'' '''' = None"
    by (simp_all add: ValidateMonitorArgs_def maxMonitorArgs_def bad_arg_def maxMonitorArgLen_def valid_ascii validateRunStdin_def
        MonitorStdinNone_def)
  then show ?thesis using digests_bind_requests [of "[''ls'']" "[''ls'']" "''none''" "''''" "''none''" "''''"] by blast
qed

text \<open>
  C22. The protocol is a round trip: a frame within the limit is read back with its type and payload and leaves the
  bytes after it, and the payload of every valid request, answer, chunk, exit and cancel decodes to what was sent.
\<close>

theorem monitor_roundtrip:
  assumes "ValidateMonitorArgs args = None" "validateRunStdin m b = None" "i \<noteq> 0" "valid_utf8 err" "0 \<le> code" "code \<le> 255"
    and "data \<noteq> []" "length data \<le> MaxMonitorOutChunk" "st \<in> {MonitorStreamStdout, MonitorStreamStderr}"
    and "length payload \<le> MaxMonitorFrame"
  shows "ReadMonitorFrame (frame_bytes ty payload @ rest) = (Inr (ty, payload), rest) \<and>
    DecodeMonitorAuth (marshal_auth_request \<lparr>aq_ID = i, aq_Args = args\<rparr>) = Inr \<lparr>aq_ID = i, aq_Args = args\<rparr> \<and>
    DecodeMonitorRun (marshal_run_request \<lparr>rq_ID = i, rq_Args = args, rq_StdinMode = m, rq_Stdin = b\<rparr>) =
      Inr \<lparr>rq_ID = i, rq_Args = args, rq_StdinMode = m, rq_Stdin = b\<rparr> \<and>
    decodeMonitorResponse (marshal_auth_response \<lparr>ap_ID = i, ap_ArgsDigest = MonitorArgsDigest args, ap_OK = ok, ap_Error = err\<rparr>) =
      Inr \<lparr>ap_ID = i, ap_ArgsDigest = MonitorArgsDigest args, ap_OK = ok, ap_Error = err\<rparr> \<and>
    decodeMonitorOut (marshal_out \<lparr>ot_ID = i, ot_Seq = sq, ot_Stream = st, ot_Data = data\<rparr>) =
      Inr \<lparr>ot_ID = i, ot_Seq = sq, ot_Stream = st, ot_Data = data\<rparr> \<and>
    decodeMonitorExit (marshal_exit \<lparr>ex_ID = i, ex_Digest = MonitorRunDigest args m b, ex_Code = code, ex_Error = err\<rparr>) =
      Inr \<lparr>ex_ID = i, ex_Digest = MonitorRunDigest args m b, ex_Code = code, ex_Error = err\<rparr> \<and>
    DecodeMonitorCancel (marshal_cancel i) = Inr i"
  using assms
  by (simp add: read_frame_bytes auth_request_roundtrip run_request_roundtrip response_roundtrip out_roundtrip exit_roundtrip
      cancel_roundtrip digest_valid)

theorem monitor_roundtrip_witness:
  "DecodeMonitorRun (marshal_run_request \<lparr>rq_ID = 7, rq_Args = [''cm'', ''status''], rq_StdinMode = ''bytes'', rq_Stdin = ''x''\<rparr>) =
     Inr \<lparr>rq_ID = 7, rq_Args = [''cm'', ''status''], rq_StdinMode = ''bytes'', rq_Stdin = ''x''\<rparr>"
proof -
  have "ValidateMonitorArgs [''cm'', ''status''] = None" "validateRunStdin ''bytes'' ''x'' = None"
    by (simp_all add: ValidateMonitorArgs_def maxMonitorArgs_def bad_arg_def maxMonitorArgLen_def valid_ascii validateRunStdin_def
        MonitorStdinNone_def MonitorStdinBytes_def MaxMonitorRunStdin_def)
  then show ?thesis
    using monitor_roundtrip [of "[''cm'', ''status'']" "''bytes''" "''x''" 7 "''''" 0 "''x''" MonitorStreamStdout "''''"]
    by (simp add: valid_ascii MaxMonitorOutChunk_def MaxMonitorFrame_def)
qed

end
