(* ===== verification/MonitorClient.thy ===== *)
theory MonitorClient
  imports MonitorFrame
begin

text \<open>
  The session process's end of the monitor socket: \<^verbatim>\<open>MonitorClient\<close> of \<^verbatim>\<open>internal/sys/monitor_frame.go\<close>.
  A round trip holds the lock from its first to its last step, so it is one function of the connection; what
  the listener has sent and will send is the input of the connection. \<^verbatim>\<open>Cancel\<close> takes no lock and is
  modelled with the atomic accesses of the request it races with.
\<close>

section \<open>State\<close>

record client =
  cl_next :: u64
  cl_broken :: bool
  cl_out :: string
  cl_in :: string

text \<open>The first id, from eight random bytes; without them the client starts broken.\<close>

definition NewMonitorClient :: "u64 option \<Rightarrow> string \<Rightarrow> client" where
  "NewMonitorClient rnd input =
     (case rnd of
        None \<Rightarrow> \<lparr>cl_next = 0, cl_broken = True, cl_out = [], cl_in = input\<rparr>
      | Some b \<Rightarrow> \<lparr>cl_next = drop_bit 2 b + 1, cl_broken = False, cl_out = [], cl_in = input\<rparr>)"

definition client_write :: "nat option \<Rightarrow> char \<Rightarrow> string \<Rightarrow> client \<Rightarrow> mon_err option \<times> client" where
  "client_write wr typ payload c =
     (case WriteMonitorFrame wr typ payload (cl_out c) of
        (Some _, out) \<Rightarrow> (Some MEClosed, c\<lparr>cl_broken := True, cl_out := out\<rparr>)
      | (None, out) \<Rightarrow> (None, c\<lparr>cl_out := out\<rparr>))"

definition client_fail :: "client \<Rightarrow> client" where
  "client_fail c = c\<lparr>cl_broken := True\<rparr>"

definition client_read :: "client \<Rightarrow> (mon_err + char \<times> string) \<times> client" where
  "client_read c =
     (case ReadMonitorFrame (cl_in c) of
        (Inl e, r) \<Rightarrow> (Inl (if e = METooLarge then e else MEClosed), c\<lparr>cl_in := r\<rparr>)
      | (Inr f, r) \<Rightarrow> (Inr f, c\<lparr>cl_in := r\<rparr>))"

section \<open>Round trips\<close>

definition client_Ping :: "nat option \<Rightarrow> client \<Rightarrow> mon_err option \<times> client" where
  "client_Ping wr c =
     (if cl_broken c then (Some MEClosed, c)
      else case client_write wr FramePing [] c of
          (Some e, c) \<Rightarrow> (Some e, c)
        | (None, c) \<Rightarrow>
            (case client_read c of
               (Inl e, c) \<Rightarrow> (Some e, client_fail c)
             | (Inr (typ, payload), c) \<Rightarrow>
                 if typ \<noteq> FramePing \<or> payload \<noteq> [] then (Some MEClosed, client_fail c) else (None, c)))"

definition check_response :: "u64 \<Rightarrow> string list \<Rightarrow> char \<Rightarrow> string \<Rightarrow> client \<Rightarrow> mon_err option \<times> client" where
  "check_response i args typ payload c =
     (if typ \<noteq> FrameAuthorize then (Some MEClosed, client_fail c)
      else case decodeMonitorResponse payload of
          Inl _ \<Rightarrow> (Some MEClosed, client_fail c)
        | Inr resp \<Rightarrow>
            if ap_ID resp \<noteq> i \<or> ap_ArgsDigest resp \<noteq> MonitorArgsDigest args then (Some MEDesync, client_fail c)
            else if \<not> ap_OK resp \<or> ap_Error resp \<noteq> '''' then
              (Some (if ap_Error resp = '''' then MEDenied else MERemote (ap_Error resp)), c)
            else (None, c))"

definition client_Authorize :: "nat option \<Rightarrow> string list \<Rightarrow> client \<Rightarrow> mon_err option \<times> client" where
  "client_Authorize wr args c =
     (case ValidateMonitorArgs args of
        Some e \<Rightarrow> (Some e, c)
      | None \<Rightarrow>
          if cl_broken c then (Some MEClosed, c)
          else let i = cl_next c; c = c\<lparr>cl_next := i + 1\<rparr>
               in case client_write wr FrameAuthorize (marshal_auth_request \<lparr>aq_ID = i, aq_Args = args\<rparr>) c of
                    (Some e, c) \<Rightarrow> (Some e, c)
                  | (None, c) \<Rightarrow>
                      (case client_read c of
                         (Inl e, c) \<Rightarrow> (Some e, client_fail c)
                       | (Inr (typ, payload), c) \<Rightarrow> check_response i args typ payload c))"

text \<open>
  The frames of a run, up to its exit: the code and error returned, the chunks written to stdout and stderr in
  order, and what is left of the input; \<open>None\<close> for the error part of the connection means it is still in step.
\<close>

record run_result =
  rs_code :: int
  rs_err :: "mon_err option"
  rs_broken :: bool
  rs_writes :: "(int \<times> string) list"
  rs_in :: string

definition run_broken :: "mon_err \<Rightarrow> (int \<times> string) list \<Rightarrow> string \<Rightarrow> run_result" where
  "run_broken e ws s = \<lparr>rs_code = 1, rs_err = Some e, rs_broken = True, rs_writes = ws, rs_in = s\<rparr>"

function run_loop :: "u64 \<Rightarrow> string \<Rightarrow> u64 \<Rightarrow> nat \<Rightarrow> (int \<times> string) list \<Rightarrow> string \<Rightarrow> run_result" where
  "run_loop i digest sq tot ws s =
     (case ReadMonitorFrame s of
        (Inl e, r) \<Rightarrow> run_broken (if e = METooLarge then e else MEClosed) ws r
      | (Inr (typ, payload), r) \<Rightarrow>
          if typ = FrameOut then
            (case decodeMonitorOut payload of
               Inl _ \<Rightarrow> run_broken MEClosed ws r
             | Inr ou \<Rightarrow>
                 (let sq = sq + 1; tot = tot + length (ot_Data ou)
                  in if ot_ID ou \<noteq> i \<or> ot_Seq ou \<noteq> sq \<or> MaxMonitorRunOutput + length MonitorRunTruncated < tot
                     then run_broken MEDesync ws r
                     else run_loop i digest sq tot
                            (ws @ [(if ot_Stream ou = MonitorStreamStderr then MonitorStreamStderr else MonitorStreamStdout, ot_Data ou)]) r))
          else if typ = FrameExit then
            (case decodeMonitorExit payload of
               Inl _ \<Rightarrow> run_broken MEClosed ws r
             | Inr ex \<Rightarrow>
                 if ex_ID ex \<noteq> i \<or> ex_Digest ex \<noteq> digest then run_broken MEDesync ws r
                 else \<lparr>rs_code = ex_Code ex, rs_err = (if ex_Error ex \<noteq> '''' then Some (MERemote (ex_Error ex)) else None),
                       rs_broken = False, rs_writes = ws, rs_in = r\<rparr>)
          else run_broken MEClosed ws r)"
  by pat_completeness auto
termination
  by (relation "measure (\<lambda>(_, _, _, _, _, s). length s)") (auto dest!: read_frame_shorter [OF sym])

declare run_loop.simps [simp del]

definition client_Run ::
  "nat option \<Rightarrow> string list \<Rightarrow> string \<Rightarrow> string \<Rightarrow> client \<Rightarrow> (int \<times> mon_err option \<times> (int \<times> string) list) \<times> client" where
  "client_Run wr args stdinMode stdin c =
     (case ValidateMonitorArgs args of
        Some e \<Rightarrow> ((1, Some e, []), c)
      | None \<Rightarrow>
          (case validateRunStdin stdinMode stdin of
             Some e \<Rightarrow> ((1, Some e, []), c)
           | None \<Rightarrow>
               if cl_broken c then ((1, Some MEClosed, []), c)
               else let i = cl_next c; c = c\<lparr>cl_next := i + 1\<rparr>
                    in case client_write wr FrameRun
                              (marshal_run_request \<lparr>rq_ID = i, rq_Args = args, rq_StdinMode = stdinMode, rq_Stdin = stdin\<rparr>) c of
                         (Some e, c) \<Rightarrow> ((1, Some e, []), c)
                       | (None, c) \<Rightarrow>
                           (let rs = run_loop i (MonitorRunDigest args stdinMode stdin) 0 0 [] (cl_in c)
                            in ((rs_code rs, rs_err rs, rs_writes rs), c\<lparr>cl_broken := rs_broken rs, cl_in := rs_in rs\<rparr>))))"

section \<open>Cancel beside a request\<close>

text \<open>
  The atomic steps of \<^verbatim>\<open>writeRequest\<close>, \<^verbatim>\<open>idle\<close> and \<^verbatim>\<open>Cancel\<close>. Frames are written under a lock of their
  own, so one write is one step. Round trips hold a lock, so there is one request at a time; one goroutine calls
  \<^verbatim>\<open>Cancel\<close>. Ids are counted without wrapping: the first is below \<open>2^62 + 1\<close>. The id that was in flight
  when the running (or last) \<^verbatim>\<open>Cancel\<close> was called is kept beside the state.
\<close>

datatype wire_frame = Req nat | Can nat

datatype req_pc =
    RIdle
  | RWriting nat
  | RWritten nat
  | RActive nat
  | RCheck nat
  | RCancel nat
  | RWait nat
  | RFailed
  | RLeave
  | RLeave2
  | RLeave3

datatype can_pc =
    CIdle
  | CStart
  | CLoaded nat
  | CStore nat
  | COffered nat
  | CSwap nat
  | CSend nat

record race =
  rc_next :: nat
  rc_writing :: nat
  rc_active :: nat
  rc_early :: nat
  rc_broken :: bool
  rc_wire :: "wire_frame list"
  rc_req :: req_pc
  rc_can :: can_pc
  rc_target :: nat

fun in_flight :: "req_pc \<Rightarrow> nat" where
  "in_flight (RWriting i) = i"
| "in_flight (RWritten i) = i"
| "in_flight (RActive i) = i"
| "in_flight (RCheck i) = i"
| "in_flight (RCancel i) = i"
| "in_flight (RWait i) = i"
| "in_flight _ = 0"

inductive race_step :: "race \<Rightarrow> race \<Rightarrow> bool" where
  start: "rc_req s = RIdle \<Longrightarrow> \<not> rc_broken s \<Longrightarrow>
    race_step s (s\<lparr>rc_next := rc_next s + 1, rc_writing := rc_next s, rc_req := RWriting (rc_next s)\<rparr>)"
| written: "rc_req s = RWriting i \<Longrightarrow> race_step s (s\<lparr>rc_wire := rc_wire s @ [Req i], rc_req := RWritten i\<rparr>)"
| not_written: "rc_req s = RWriting i \<Longrightarrow> race_step s (s\<lparr>rc_broken := True, rc_req := RFailed\<rparr>)"
| failed: "rc_req s = RFailed \<Longrightarrow> race_step s (s\<lparr>rc_writing := 0, rc_req := RLeave\<rparr>)"
| activate: "rc_req s = RWritten i \<Longrightarrow> race_step s (s\<lparr>rc_active := i, rc_req := RActive i\<rparr>)"
| clear: "rc_req s = RActive i \<Longrightarrow> race_step s (s\<lparr>rc_writing := 0, rc_req := RCheck i\<rparr>)"
| early: "rc_req s = RCheck i \<Longrightarrow> rc_early s = i \<Longrightarrow> race_step s (s\<lparr>rc_early := 0, rc_req := RCancel i\<rparr>)"
| not_early: "rc_req s = RCheck i \<Longrightarrow> rc_early s \<noteq> i \<Longrightarrow> race_step s (s\<lparr>rc_req := RWait i\<rparr>)"
| early_sent: "rc_req s = RCancel i \<Longrightarrow> race_step s (s\<lparr>rc_wire := rc_wire s @ [Can i], rc_req := RWait i\<rparr>)"
| early_lost: "rc_req s = RCancel i \<Longrightarrow> race_step s (s\<lparr>rc_broken := True, rc_req := RWait i\<rparr>)"
| reply: "rc_req s = RWait i \<Longrightarrow> race_step s (s\<lparr>rc_broken := rc_broken s \<or> bad, rc_req := RLeave\<rparr>)"
| leave: "rc_req s = RLeave \<Longrightarrow> race_step s (s\<lparr>rc_active := 0, rc_req := RLeave2\<rparr>)"
| leave2: "rc_req s = RLeave2 \<Longrightarrow> race_step s (s\<lparr>rc_writing := 0, rc_req := RLeave3\<rparr>)"
| leave3: "rc_req s = RLeave3 \<Longrightarrow> race_step s (s\<lparr>rc_early := 0, rc_req := RIdle\<rparr>)"
| call: "rc_can s = CIdle \<Longrightarrow> \<not> rc_broken s \<Longrightarrow> race_step s (s\<lparr>rc_can := CStart, rc_target := in_flight (rc_req s)\<rparr>)"
| load: "rc_can s = CStart \<Longrightarrow> race_step s (s\<lparr>rc_can := CLoaded (rc_writing s)\<rparr>)"
| is_active: "rc_can s = CLoaded w \<Longrightarrow> rc_active s \<noteq> 0 \<Longrightarrow> race_step s (s\<lparr>rc_can := CSend (rc_active s)\<rparr>)"
| nothing: "rc_can s = CLoaded 0 \<Longrightarrow> rc_active s = 0 \<Longrightarrow> race_step s (s\<lparr>rc_can := CIdle\<rparr>)"
| is_writing: "rc_can s = CLoaded w \<Longrightarrow> rc_active s = 0 \<Longrightarrow> w \<noteq> 0 \<Longrightarrow> race_step s (s\<lparr>rc_can := CStore w\<rparr>)"
| offer: "rc_can s = CStore w \<Longrightarrow> race_step s (s\<lparr>rc_early := w, rc_can := COffered w\<rparr>)"
| now_active: "rc_can s = COffered w \<Longrightarrow> rc_active s = w \<Longrightarrow> race_step s (s\<lparr>rc_can := CSwap w\<rparr>)"
| not_active: "rc_can s = COffered w \<Longrightarrow> rc_active s \<noteq> w \<Longrightarrow> race_step s (s\<lparr>rc_can := CIdle\<rparr>)"
| swap: "rc_can s = CSwap w \<Longrightarrow> rc_early s = w \<Longrightarrow> race_step s (s\<lparr>rc_early := 0, rc_can := CSend w\<rparr>)"
| no_swap: "rc_can s = CSwap w \<Longrightarrow> rc_early s \<noteq> w \<Longrightarrow> race_step s (s\<lparr>rc_can := CIdle\<rparr>)"
| sent: "rc_can s = CSend w \<Longrightarrow> race_step s (s\<lparr>rc_wire := rc_wire s @ [Can w], rc_can := CIdle\<rparr>)"
| not_sent: "rc_can s = CSend w \<Longrightarrow> race_step s (s\<lparr>rc_broken := True, rc_can := CIdle\<rparr>)"

definition race_start :: "nat \<Rightarrow> race" where
  "race_start n =
     \<lparr>rc_next = n, rc_writing = 0, rc_active = 0, rc_early = 0, rc_broken = False, rc_wire = [], rc_req = RIdle, rc_can = CIdle, rc_target = 0\<rparr>"

inductive race_reach :: "nat \<Rightarrow> race \<Rightarrow> bool" where
  "race_reach n (race_start n)"
| "race_reach n s \<Longrightarrow> race_step s s' \<Longrightarrow> race_reach n s'"

text \<open>What the two flags say about the request, and which frames are already written.\<close>

definition flags_ok :: "race \<Rightarrow> bool" where
  "flags_ok s \<longleftrightarrow>
     0 < rc_next s \<and>
     (case rc_req s of
        RIdle \<Rightarrow> rc_writing s = 0 \<and> rc_active s = 0
      | RWriting i \<Rightarrow> 0 < i \<and> rc_writing s = i \<and> rc_active s = 0
      | RWritten i \<Rightarrow> 0 < i \<and> rc_writing s = i \<and> rc_active s = 0
      | RActive i \<Rightarrow> 0 < i \<and> rc_writing s = i \<and> rc_active s = i
      | RCheck i \<Rightarrow> 0 < i \<and> rc_writing s = 0 \<and> rc_active s = i
      | RCancel i \<Rightarrow> 0 < i \<and> rc_writing s = 0 \<and> rc_active s = i
      | RWait i \<Rightarrow> 0 < i \<and> rc_writing s = 0 \<and> rc_active s = i
      | RFailed \<Rightarrow> rc_active s = 0
      | RLeave \<Rightarrow> rc_writing s = 0
      | RLeave2 \<Rightarrow> rc_writing s = 0 \<and> rc_active s = 0
      | RLeave3 \<Rightarrow> rc_writing s = 0 \<and> rc_active s = 0)"

definition ordered :: "wire_frame list \<Rightarrow> bool" where
  "ordered ws \<longleftrightarrow> (\<forall>a i b. ws = a @ Can i # b \<longrightarrow> Req i \<in> set a)"

definition sent_ok :: "race \<Rightarrow> bool" where
  "sent_ok s \<longleftrightarrow>
     (rc_active s \<noteq> 0 \<longrightarrow> Req (rc_active s) \<in> set (rc_wire s)) \<and>
     (\<forall>i. rc_req s = RWritten i \<or> rc_req s = RActive i \<or> rc_req s = RCheck i \<or> rc_req s = RCancel i \<longrightarrow> Req i \<in> set (rc_wire s)) \<and>
     (\<forall>w. rc_can s = CSend w \<or> rc_can s = CSwap w \<longrightarrow> Req w \<in> set (rc_wire s)) \<and>
     (\<forall>w. rc_can s = COffered w \<or> rc_can s = CStore w \<longrightarrow> w \<noteq> 0) \<and>
     ordered (rc_wire s)"

lemma ordered_Nil [simp]: "ordered []"
  by (simp add: ordered_def)

lemma ordered_snoc [simp]:
  "ordered (ws @ [Req i]) \<longleftrightarrow> ordered ws"
  "ordered (ws @ [Can i]) \<longleftrightarrow> ordered ws \<and> Req i \<in> set ws"
proof -
  have "(\<exists>b. ws @ [f] = a @ Can j # b) \<longleftrightarrow> (\<exists>b. ws = a @ Can j # b) \<or> ws = a \<and> f = Can j" for a j f
  proof
    assume "\<exists>b. ws @ [f] = a @ Can j # b"
    then obtain b where b: "ws @ [f] = a @ Can j # b" ..
    then show "(\<exists>b. ws = a @ Can j # b) \<or> ws = a \<and> f = Can j" by (cases b rule: rev_cases) auto
  qed auto
  then have "ordered (ws @ [f]) \<longleftrightarrow> ordered ws \<and> (\<forall>j. f = Can j \<longrightarrow> Req j \<in> set ws)" for f
    unfolding ordered_def by metis
  then show "ordered (ws @ [Req i]) \<longleftrightarrow> ordered ws" "ordered (ws @ [Can i]) \<longleftrightarrow> ordered ws \<and> Req i \<in> set ws"
    by simp_all
qed

lemma flags_step: "race_step s s' \<Longrightarrow> flags_ok s \<Longrightarrow> flags_ok s'"
  by (induction rule: race_step.induct) (auto simp: flags_ok_def split: req_pc.splits)

lemma sent_step: "race_step s s' \<Longrightarrow> flags_ok s \<Longrightarrow> sent_ok s \<Longrightarrow> sent_ok s'"
  by (induction rule: race_step.induct) (auto simp: sent_ok_def flags_ok_def split: req_pc.splits)

lemma race_invariants: "race_reach n s \<Longrightarrow> 0 < n \<Longrightarrow> flags_ok s \<and> sent_ok s"
  by (induction rule: race_reach.induct) (auto simp: race_start_def flags_ok_def sent_ok_def dest: flags_step sent_step)

text \<open>Where the cancellation of the request in flight is, as long as the connection works.\<close>

definition delivered :: "race \<Rightarrow> nat \<Rightarrow> bool" where
  "delivered s i \<longleftrightarrow>
     Can i \<in> set (rc_wire s) \<or> rc_req s = RCancel i \<or>
     rc_early s = i \<and> rc_req s \<in> {RWriting i, RWritten i, RActive i, RCheck i}"

definition can_ok :: "race \<Rightarrow> nat \<Rightarrow> bool" where
  "can_ok s i \<longleftrightarrow>
     (case rc_can s of
        CIdle \<Rightarrow> delivered s i
      | CStart \<Rightarrow> True
      | CLoaded w \<Rightarrow> w = i \<or> w = 0 \<and> rc_active s = i
      | CStore w \<Rightarrow> w = i
      | COffered w \<Rightarrow> w = i \<and> (delivered s i \<or> rc_early s = i)
      | CSwap w \<Rightarrow> w = i \<and> (delivered s i \<or> rc_early s = i)
      | CSend w \<Rightarrow> w = i)"

definition cancel_ok :: "race \<Rightarrow> bool" where
  "cancel_ok s \<longleftrightarrow>
     (rc_target s \<noteq> 0 \<longrightarrow> rc_target s = in_flight (rc_req s) \<longrightarrow> \<not> rc_broken s \<longrightarrow> can_ok s (rc_target s)) \<and>
     rc_target s < rc_next s \<and> in_flight (rc_req s) < rc_next s"

lemma cancel_step: "race_step s s' \<Longrightarrow> flags_ok s \<Longrightarrow> cancel_ok s \<Longrightarrow> cancel_ok s'"
  by (induction rule: race_step.induct)
     (auto simp: cancel_ok_def can_ok_def delivered_def flags_ok_def split: can_pc.splits req_pc.splits)

lemma race_cancel: "race_reach n s \<Longrightarrow> 0 < n \<Longrightarrow> cancel_ok s"
  by (induction rule: race_reach.induct) (auto simp: race_start_def cancel_ok_def dest: cancel_step race_invariants)

section \<open>The client fails closed\<close>

datatype client_op =
    OpPing "nat option"
  | OpAuthorize "nat option" "string list"
  | OpRun "nat option" "string list" string string

fun client_step :: "client_op \<Rightarrow> client \<Rightarrow> mon_err option \<times> client" where
  "client_step (OpPing wr) c = client_Ping wr c"
| "client_step (OpAuthorize wr args) c = client_Authorize wr args c"
| "client_step (OpRun wr args m b) c = (case client_Run wr args m b c of ((_, e, _), c) \<Rightarrow> (e, c))"

fun client_steps :: "client_op list \<Rightarrow> client \<Rightarrow> mon_err option list \<times> client" where
  "client_steps [] c = ([], c)"
| "client_steps (x # xs) c =
     (case client_step x c of (e, c) \<Rightarrow> (case client_steps xs c of (es, c) \<Rightarrow> (e # es, c)))"

text \<open>Errors that are answers of the listener, or that are found before the connection is touched.\<close>

definition in_step :: "mon_err option \<Rightarrow> bool" where
  "in_step e \<longleftrightarrow> e = None \<or> e = Some MEInvalid \<or> e = Some MEDenied \<or> (\<exists>t. e = Some (MERemote t))"

lemma client_sel [simp]:
  "cl_broken (client_fail c)" "cl_in (client_fail c) = cl_in c" "cl_out (client_fail c) = cl_out c"
  by (simp_all add: client_fail_def)

lemma client_write_None:
  "client_write wr typ payload c = (None, c') \<longleftrightarrow>
     wr = None \<and> length payload \<le> MaxMonitorFrame \<and> c' = c\<lparr>cl_out := cl_out c @ frame_bytes typ payload\<rparr>"
  by (auto simp: client_write_def WriteMonitorFrame_def split: option.splits)

lemma client_write_Some: "client_write wr typ payload c = (Some e, c') \<Longrightarrow> e = MEClosed \<and> cl_broken c'"
  by (auto simp: client_write_def split: prod.splits option.splits)

lemma client_read_err: "client_read c = (Inl e, c') \<Longrightarrow> e = METooLarge \<or> e = MEClosed"
  by (auto simp: client_read_def split: prod.splits sum.splits if_splits)

lemma run_loop_broken: "rs_broken (run_loop i digest sq tot ws s) \<longleftrightarrow> \<not> in_step (rs_err (run_loop i digest sq tot ws s))"
proof (induction i digest sq tot ws s rule: run_loop.induct)
  case (1 i digest sq tot ws s)
  show ?case
    by (subst (1 2) run_loop.simps)
       (use 1 in \<open>auto simp: run_broken_def in_step_def Let_def split: prod.splits sum.splits\<close>)
qed

lemma client_in_step:
  assumes "client_step x c = (e, c')" "\<not> cl_broken c"
  shows "cl_broken c' \<longleftrightarrow> \<not> in_step e"
proof (cases x)
  case (OpPing wr)
  then show ?thesis using assms
    by (auto simp: client_Ping_def in_step_def client_write_None split: prod.splits option.splits sum.splits if_splits
        dest: client_write_Some client_read_err) (auto simp: client_read_def split: prod.splits sum.splits)
next
  case (OpAuthorize wr args)
  then show ?thesis using assms
    by (auto simp: client_Authorize_def in_step_def client_write_None Let_def check_response_def ValidateMonitorArgs_def
        split: prod.splits option.splits sum.splits if_splits
        dest: client_write_Some client_read_err) (auto simp: client_read_def split: prod.splits sum.splits)
next
  case (OpRun wr args m b)
  then show ?thesis using assms
    by (auto simp: client_Run_def client_write_None Let_def run_loop_broken ValidateMonitorArgs_def validateRunStdin_def
        split: prod.splits option.splits if_splits) (auto simp: in_step_def dest!: client_write_Some)
qed

lemma broken_step:
  assumes "cl_broken c"
  shows "snd (client_step x c) = c \<and> fst (client_step x c) \<noteq> None"
proof (cases x)
  case (OpAuthorize wr args)
  then show ?thesis using assms by (cases "ValidateMonitorArgs args") (simp_all add: client_Authorize_def)
next
  case (OpRun wr args m b)
  then show ?thesis using assms
    by (cases "ValidateMonitorArgs args"; cases "validateRunStdin m b") (simp_all add: client_Run_def)
qed (use assms in \<open>simp add: client_Ping_def\<close>)

lemma broken_steps: "cl_broken c \<Longrightarrow> client_steps xs c = (es, c') \<Longrightarrow> c' = c \<and> list_all (\<lambda>e. e \<noteq> None) es"
proof (induction xs arbitrary: es c')
  case (Cons x xs)
  obtain e c1 where e: "client_step x c = (e, c1)" by fastforce
  then have b: "c1 = c \<and> e \<noteq> None" using broken_step [of c x] Cons.prems by simp
  obtain es1 c2 where r: "client_steps xs c = (es1, c2)" by fastforce
  then show ?case using Cons.IH [OF Cons.prems(1) r] Cons.prems b e by auto
qed simp

lemma client_steps_append:
  "client_steps (xs @ ys) c = (case client_steps xs c of (es, c) \<Rightarrow> (case client_steps ys c of (es', c) \<Rightarrow> (es @ es', c)))"
  by (induction xs arbitrary: c) (auto split: prod.splits)

definition out_write :: "mon_out \<Rightarrow> int \<times> string" where
  "out_write ou = (if ot_Stream ou = MonitorStreamStderr then MonitorStreamStderr else MonitorStreamStdout, ot_Data ou)"

definition written :: "(int \<times> string) list \<Rightarrow> nat" where
  "written ws = sum_list (map (\<lambda>w. length (snd w)) ws)"

lemma written_snoc [simp]: "written [] = 0" "written (ws @ [w]) = written ws + length (snd w)"
  by (simp_all add: written_def)

lemma run_loop_cases:
  obtains (stop) "rs_writes (run_loop i digest sq tot ws s) = ws"
  | (out) payload ou r where "ReadMonitorFrame s = (Inr (FrameOut, payload), r)" "decodeMonitorOut payload = Inr ou" "ot_ID ou = i"
      "ot_Seq ou = sq + 1" "tot + length (ot_Data ou) \<le> MaxMonitorRunOutput + length MonitorRunTruncated"
      "run_loop i digest sq tot ws s = run_loop i digest (sq + 1) (tot + length (ot_Data ou)) (ws @ [out_write ou]) r"
proof (cases "\<exists>payload ou r. ReadMonitorFrame s = (Inr (FrameOut, payload), r) \<and> decodeMonitorOut payload = Inr ou \<and> ot_ID ou = i \<and>
    ot_Seq ou = sq + 1 \<and> tot + length (ot_Data ou) \<le> MaxMonitorRunOutput + length MonitorRunTruncated")
  case True
  then obtain payload ou r where o: "ReadMonitorFrame s = (Inr (FrameOut, payload), r)" "decodeMonitorOut payload = Inr ou" "ot_ID ou = i"
      "ot_Seq ou = sq + 1" "tot + length (ot_Data ou) \<le> MaxMonitorRunOutput + length MonitorRunTruncated" by blast
  then show thesis by (intro out [OF o]) (subst run_loop.simps, simp add: out_write_def Let_def)
next
  case False
  then have "rs_writes (run_loop i digest sq tot ws s) = ws"
    by (subst run_loop.simps) (auto simp: run_broken_def Let_def not_less split: prod.splits sum.splits)
  then show thesis by (rule stop)
qed

lemma run_loop_written:
  assumes "written ws = tot" "tot \<le> MaxMonitorRunOutput + length MonitorRunTruncated"
  shows "written (rs_writes (run_loop i digest sq tot ws s)) \<le> MaxMonitorRunOutput + length MonitorRunTruncated"
  using assms
proof (induction "length s" arbitrary: sq tot ws s rule: less_induct)
  case less
  show ?case
  proof (cases rule: run_loop_cases [of i digest sq tot ws s])
    case stop
    then show ?thesis using less.prems by simp
  next
    case (out payload ou r)
    then have "length r < length s" using read_frame_shorter by fastforce
    then show ?thesis using less.hyps [of r "ws @ [out_write ou]"] out less.prems by (simp add: out_write_def)
  qed
qed

text \<open>A cancel that arrives while the request is being written.\<close>

definition early_cancel :: race where
  "early_cancel =
     \<lparr>rc_next = 8, rc_writing = 0, rc_active = 7, rc_early = 0, rc_broken = False, rc_wire = [Req 7, Can 7], rc_req = RWait 7,
      rc_can = CIdle, rc_target = 7\<rparr>"

lemma early_cancel_reached: "race_reach 7 early_cancel"
proof -
  note step = race_reach.intros(2)
  note r = race_reach.intros(1) [of 7, unfolded race_start_def]
  note r = step [OF r race_step.start, simplified]
  note r = step [OF r race_step.call, simplified]
  note r = step [OF r race_step.load, simplified]
  note r = step [OF r race_step.is_writing [where w = 7], simplified]
  note r = step [OF r race_step.offer [where w = 7], simplified]
  note r = step [OF r race_step.written [where i = 7], simplified]
  note r = step [OF r race_step.not_active [where w = 7], simplified]
  note r = step [OF r race_step.activate [where i = 7], simplified]
  note r = step [OF r race_step.clear [where i = 7], simplified]
  note r = step [OF r race_step.early [where i = 7], simplified]
  note r = step [OF r race_step.early_sent [where i = 7], simplified]
  show ?thesis unfolding early_cancel_def by (rule r)
qed

section \<open>Properties\<close>

text \<open>
  A cancel is never written before the request it names, whichever way the steps of \<^verbatim>\<open>Cancel\<close> and of the
  requests interleave; and it is not lost: when a call of \<^verbatim>\<open>Cancel\<close> has returned, the request that was in
  flight when it was called is still waiting for its answer and no write failed, the cancel is on the wire.
\<close>

theorem cancel_ordered_and_delivered:
  assumes "race_reach n s" "0 < n"
  shows "(rc_wire s = a @ Can i # b \<longrightarrow> Req i \<in> set a) \<and>
    (rc_can s = CIdle \<and> \<not> rc_broken s \<and> rc_req s = RWait k \<and> rc_target s = k \<longrightarrow> Can k \<in> set (rc_wire s))"
proof -
  have "sent_ok s" "flags_ok s" "cancel_ok s" using race_invariants race_cancel assms by blast+
  then show ?thesis by (auto simp: sent_ok_def ordered_def flags_ok_def cancel_ok_def can_ok_def delivered_def)
qed

theorem cancel_ordered_and_delivered_witness:
  "Req 7 \<in> set [Req 7] \<and> Can 7 \<in> set (rc_wire early_cancel)"
  using cancel_ordered_and_delivered [OF early_cancel_reached, of "[Req 7]" 7 "[]" 7] by (simp add: early_cancel_def)

text \<open>
  C23. The client fails closed: an operation that ends with anything but an answer of the listener or a refused
  argument breaks the client, and a broken client refuses every later operation without touching the connection.
\<close>

theorem client_fails_closed:
  assumes "client_steps xs c = (es, c1)" "client_step x c1 = (e, c2)" "\<not> in_step e" "client_steps ys c2 = (es', c3)"
  shows "cl_broken c2 \<and> c3 = c2 \<and> list_all (\<lambda>e. e \<noteq> None) es'"
proof -
  have "cl_broken c2" using client_in_step [OF assms(2)] assms(2,3) broken_step [of c1 x] by (cases "cl_broken c1") auto
  then show ?thesis using broken_steps assms(4) by blast
qed

theorem client_fails_closed_witness:
  "cl_broken (snd (client_step (OpPing None) (NewMonitorClient (Some 0) '''')))"
proof -
  let ?c = "NewMonitorClient (Some 0) ''''"
  have p: "client_step (OpPing None) ?c = (Some MEClosed, snd (client_step (OpPing None) ?c))"
    by (simp add: NewMonitorClient_def client_Ping_def client_write_def WriteMonitorFrame_def client_read_def ReadMonitorFrame_def)
  show ?thesis
    using client_fails_closed [of "[]" ?c "[]" ?c "OpPing None" _ _ "[]", OF _ p] by (simp add: in_step_def)
qed

text \<open>
  C24. The client takes a command as allowed exactly when its arguments are valid, the connection is in step, the
  request was written, and the next frame is an authorize response with the id and the argument digest of this
  request that says OK and carries no error.
\<close>

theorem authorize_allows_iff:
  "fst (client_Authorize wr args c) = None \<longleftrightarrow>
     ValidateMonitorArgs args = None \<and> \<not> cl_broken c \<and> wr = None \<and>
     length (marshal_auth_request \<lparr>aq_ID = cl_next c, aq_Args = args\<rparr>) \<le> MaxMonitorFrame \<and>
     (\<exists>payload rest. ReadMonitorFrame (cl_in c) = (Inr (FrameAuthorize, payload), rest) \<and>
        decodeMonitorResponse payload = Inr \<lparr>ap_ID = cl_next c, ap_ArgsDigest = MonitorArgsDigest args, ap_OK = True, ap_Error = ''''\<rparr>)"
proof -
  have "fst (check_response i args ty payload c1) = None \<longleftrightarrow>
      ty = FrameAuthorize \<and> decodeMonitorResponse payload = Inr \<lparr>ap_ID = i, ap_ArgsDigest = MonitorArgsDigest args, ap_OK = True, ap_Error = ''''\<rparr>"
    for i ty payload c1
    by (cases "decodeMonitorResponse payload"; cases "projr (decodeMonitorResponse payload)") (auto simp: check_response_def)
  then show ?thesis
    by (cases "ReadMonitorFrame (cl_in c)"; cases "fst (ReadMonitorFrame (cl_in c))")
       (auto simp: client_Authorize_def Let_def client_write_def WriteMonitorFrame_def client_read_def split: option.split prod.split)
qed

text \<open>
  Whatever the listener sends, a run writes at most 1 MiB and the truncation marker to stdout and stderr
  together.
\<close>

theorem run_writes_bounded:
  "written (snd (snd (fst (client_Run wr args m b c)))) \<le> MaxMonitorRunOutput + length MonitorRunTruncated"
proof -
  have "written (rs_writes (run_loop i d 0 0 [] s)) \<le> MaxMonitorRunOutput + length MonitorRunTruncated" for i d s
    by (rule run_loop_written) simp_all
  then show ?thesis by (auto simp: client_Run_def Let_def split: option.split prod.split)
qed

end
