(* ===== verification/Monitor.thy ===== *)
theory Monitor
  imports Gate MonitorClient "HOL-Library.Multiset"
begin

text \<open>
  The listener's end of the monitor socket: \<^verbatim>\<open>ServeSSHMonitorRun\<close> of \<^verbatim>\<open>security/ssh_monitor.go\<close> as a step
  relation. The read loop, the goroutine of each request, its writes and what other sessions do to the engine
  interleave freely; a write may fail at any time. The gate is the command gate of \<open>Gate\<close> for the session the
  socket is bound to. What a virtual binary writes and does to the engine, and the clock and approvals a gated
  command meets, are given for every call.
\<close>

section \<open>State\<close>

datatype mframe = MPing | MAuthResp auth_response | MOutF mon_out | MExitF mon_exit

fun mframe_type :: "mframe \<Rightarrow> char" where
  "mframe_type MPing = FramePing"
| "mframe_type (MAuthResp _) = FrameAuthorize"
| "mframe_type (MOutF _) = FrameOut"
| "mframe_type (MExitF _) = FrameExit"

fun mframe_payload :: "mframe \<Rightarrow> string" where
  "mframe_payload MPing = []"
| "mframe_payload (MAuthResp r) = marshal_auth_response r"
| "mframe_payload (MOutF r) = marshal_out r"
| "mframe_payload (MExitF r) = marshal_exit r"

definition mframe_bytes :: "mframe \<Rightarrow> string" where
  "mframe_bytes f = frame_bytes (mframe_type f) (mframe_payload f)"

text \<open>\<^verbatim>\<open>monitorOutWriter\<close>: the sequence number, the bytes sent, and whether the rest is dropped.\<close>

record out_writer =
  ow_seq :: u64
  ow_total :: nat
  ow_truncated :: bool
  ow_broken :: bool

text \<open>
  The goroutine of a request: before its first step, running a virtual binary with output still to be written,
  with its answer computed, and after it released the in-flight slot.
\<close>

datatype mtask =
    TAuth u64 "string list"
  | TRun run_request
  | TRunning u64 string "(int \<times> string) list" out_writer int "string option"
  | TDone u64 mframe
  | TReply mframe

text \<open>What the gate decided and which virtual binary was run, with which arguments, newest last.\<close>

datatype mevent = EvGate u64 "string list" bool | EvRun u64 "string list"

record monitor =
  mn_open :: bool
  mn_broken :: bool
  mn_cancelled :: bool
  mn_last :: u64
  mn_inflight :: u64
  mn_early :: u64
  mn_earlyAt :: time
  mn_tasks :: "(bool \<times> mtask) list"
  mn_out :: "mframe list"
  mn_world :: world
  mn_calls :: nat
  mn_events :: "mevent list"

record run_effect =
  re_writes :: "(bool \<times> string) list"
  re_code :: int
  re_err :: "string option"

record mon_env =
  me_session :: string
  me_cfg :: gate_cfg
  me_gate :: "nat \<Rightarrow> gate_env"
  me_run :: "(nat \<Rightarrow> bool \<Rightarrow> string list \<Rightarrow> string \<Rightarrow> world \<Rightarrow> run_effect \<times> world) option"
  me_gate_text :: "gate_err \<Rightarrow> string"
  me_deny_text :: "denial_msg \<Rightarrow> string"

definition errMonitorCancelled :: string where "errMonitorCancelled = ''adssh: ssh monitor: request canceled''"
definition errMonitorBusy :: string where "errMonitorBusy = ''adssh: ssh monitor: a request is already in flight''"
definition errSessionGone :: string where "errSessionGone = ''adssh: ssh monitor: session is gone''"

definition earlyCancelWindow :: duration where
  "earlyCancelWindow = 2 * second"

section \<open>Writes and the in-flight slot\<close>

definition breakConn :: "monitor \<Rightarrow> monitor" where
  "breakConn m = m\<lparr>mn_broken := True, mn_cancelled := True, mn_open := False, mn_tasks := map (\<lambda>(_, t). (True, t)) (mn_tasks m)\<rparr>"

definition mon_write :: "bool \<Rightarrow> mframe \<Rightarrow> monitor \<Rightarrow> bool \<times> monitor" where
  "mon_write works f m =
     (if mn_broken m then (False, m)
      else if \<not> works \<or> MaxMonitorFrame < length (mframe_payload f) then (False, breakConn m)
      else (True, m\<lparr>mn_out := mn_out m @ [f]\<rparr>))"

text \<open>The slot is claimed together with a context that may be cancelled from the start.\<close>

definition mon_begin :: "time \<Rightarrow> u64 \<Rightarrow> monitor \<Rightarrow> (bool \<times> monitor) option" where
  "mon_begin now i m =
     (if mn_inflight m \<noteq> 0 then None
      else let hit = (mn_early m = i \<and> mn_early m \<noteq> 0)
           in Some (mn_cancelled m \<or> hit \<and> time_Sub now (mn_earlyAt m) \<le> earlyCancelWindow,
                    m\<lparr>mn_inflight := i, mn_early := (if hit then 0 else mn_early m)\<rparr>))"

definition mon_end :: "u64 \<Rightarrow> monitor \<Rightarrow> monitor" where
  "mon_end i m = (if mn_inflight m = i then m\<lparr>mn_inflight := 0\<rparr> else m)"

fun task_id :: "mtask \<Rightarrow> u64" where
  "task_id (TAuth i _) = i"
| "task_id (TRun r) = rq_ID r"
| "task_id (TRunning i _ _ _ _ _) = i"
| "task_id (TDone i _) = i"
| "task_id (TReply _) = 0"

definition cancelID :: "time \<Rightarrow> u64 \<Rightarrow> monitor \<Rightarrow> monitor" where
  "cancelID now i m =
     (if mn_inflight m = i then m\<lparr>mn_tasks := map (\<lambda>(c, t). (c \<or> task_id t = i, t)) (mn_tasks m)\<rparr>
      else if mn_last m \<noteq> 0 \<and> i = mn_last m + 1 then m\<lparr>mn_early := i, mn_earlyAt := now\<rparr>
      else m)"

section \<open>The read loop\<close>

definition inSequence :: "u64 \<Rightarrow> monitor \<Rightarrow> monitor option" where
  "inSequence i m = (if mn_last m \<noteq> 0 \<and> i \<noteq> mn_last m + 1 then None else Some (m\<lparr>mn_last := i\<rparr>))"

text \<open>The loop returns: requests are cancelled and the connection is closed.\<close>

definition mon_close :: "monitor \<Rightarrow> monitor" where
  "mon_close m = m\<lparr>mn_open := False, mn_cancelled := True, mn_tasks := map (\<lambda>(_, t). (True, t)) (mn_tasks m)\<rparr>"

text \<open>A request that passed decoding: a sequence error closes, a held slot is answered at once.\<close>

definition accept_request :: "bool \<Rightarrow> time \<Rightarrow> u64 \<Rightarrow> mtask \<Rightarrow> mframe \<Rightarrow> monitor \<Rightarrow> monitor" where
  "accept_request works now i t busy m =
     (case inSequence i m of
        None \<Rightarrow> mon_close m
      | Some m \<Rightarrow>
          (case mon_begin now i m of
             None \<Rightarrow> (case mon_write works busy m of (True, m) \<Rightarrow> m | (False, m) \<Rightarrow> mon_close m)
           | Some (c, m) \<Rightarrow> m\<lparr>mn_tasks := mn_tasks m @ [(c, t)]\<rparr>))"

definition busy_response :: "auth_request \<Rightarrow> mframe" where
  "busy_response r =
     MAuthResp \<lparr>ap_ID = aq_ID r, ap_ArgsDigest = MonitorArgsDigest (aq_Args r), ap_OK = False, ap_Error = errMonitorBusy\<rparr>"

definition run_digest :: "run_request \<Rightarrow> string" where
  "run_digest r = MonitorRunDigest (rq_Args r) (rq_StdinMode r) (rq_Stdin r)"

definition busy_exit :: "run_request \<Rightarrow> mframe" where
  "busy_exit r = MExitF \<lparr>ex_ID = rq_ID r, ex_Digest = run_digest r, ex_Code = 1, ex_Error = errMonitorBusy\<rparr>"

definition serve_frame :: "bool \<Rightarrow> time \<Rightarrow> char \<Rightarrow> string \<Rightarrow> monitor \<Rightarrow> monitor" where
  "serve_frame works now typ payload m =
     (if typ = FramePing then
        (if payload \<noteq> [] then mon_close m
         else case mon_write works MPing m of (True, m) \<Rightarrow> m | (False, m) \<Rightarrow> mon_close m)
      else if typ = FrameAuthorize then
        (case DecodeMonitorAuth payload of
           Inl _ \<Rightarrow> mon_close m
         | Inr r \<Rightarrow> accept_request works now (aq_ID r) (TAuth (aq_ID r) (aq_Args r)) (busy_response r) m)
      else if typ = FrameRun then
        (case DecodeMonitorRun payload of
           Inl _ \<Rightarrow> mon_close m
         | Inr r \<Rightarrow> accept_request works now (rq_ID r) (TRun r) (busy_exit r) m)
      else if typ = FrameCancel then
        (case DecodeMonitorCancel payload of
           Inl _ \<Rightarrow> mon_close m
         | Inr i \<Rightarrow> cancelID now i m)
      else mon_close m)"

section \<open>The goroutine of a request\<close>

definition session_gone :: "mon_env \<Rightarrow> world \<Rightarrow> bool" where
  "session_gone env w \<longleftrightarrow> GetSession (en_reg (wo_engine w)) (me_session env) = None"

text \<open>\<^verbatim>\<open>recordSSHRefusal\<close>: the refused command is recorded as a denied one.\<close>

definition recordSSHRefusal :: "mon_env \<Rightarrow> gate_env \<Rightarrow> string list \<Rightarrow> string \<Rightarrow> world \<Rightarrow> string \<times> world" where
  "recordSSHRefusal env genv args refusal w =
     (let user = (case GetSession (en_reg (wo_engine w)) (me_session env) of None \<Rightarrow> '''' | Some s \<Rightarrow> sess_User s)
      in case wlog (LogCommand (gv_log genv) ''BASH'' (join args '' '')) w of
           (Some err, w) \<Rightarrow> (me_deny_text env (joinDeny refusal (Some err)), w)
         | (None, w) \<Rightarrow>
             (let w = rememberDeniedCommand (me_cfg env) genv (me_session env) args w
              in case wlog (LogPolicyDecision (gv_log genv) user (join args '' '') False refusal) w of
                   (err, w) \<Rightarrow> (me_deny_text env (joinDeny refusal err), w)))"

text \<open>The gate the listener installs: the session must still exist. \<open>None\<close>: it has not answered yet.\<close>

definition listener_gate :: "mon_env \<Rightarrow> gate_env \<Rightarrow> string list \<Rightarrow> world \<Rightarrow> string option option \<times> world" where
  "listener_gate env genv args w =
     (if session_gone env w then (Some (Some errSessionGone), w)
      else case AuthorizeCommand (me_cfg env) genv args (me_session env) w of
          (Allow, w) \<Rightarrow> (Some None, w)
        | (Deny e, w) \<Rightarrow> (Some (Some (me_gate_text env e)), w)
        | (Waiting, w) \<Rightarrow> (None, w))"

text \<open>\<^verbatim>\<open>authorize\<close>: the error of the answer; \<open>None\<close> while the gate has not answered.\<close>

definition mon_authorize :: "mon_env \<Rightarrow> gate_env \<Rightarrow> bool \<Rightarrow> string list \<Rightarrow> world \<Rightarrow> string option option \<times> world" where
  "mon_authorize env genv cancelled args w =
     (if cancelled then (Some (Some errMonitorCancelled), w)
      else if session_gone env w then (Some (Some errSessionGone), w)
      else case sshSessionRefusal args of
          Some refusal \<Rightarrow> (case recordSSHRefusal env genv args refusal w of (t, w) \<Rightarrow> (Some (Some t), w))
        | None \<Rightarrow> listener_gate env genv args w)"

definition auth_answer :: "u64 \<Rightarrow> string list \<Rightarrow> string option \<Rightarrow> mframe" where
  "auth_answer i args e =
     MAuthResp \<lparr>ap_ID = i, ap_ArgsDigest = MonitorArgsDigest args, ap_OK = (e = None), ap_Error = (case e of None \<Rightarrow> '''' | Some t \<Rightarrow> t)\<rparr>"

definition run_failure :: "run_request \<Rightarrow> string \<Rightarrow> mtask" where
  "run_failure r e = TDone (rq_ID r) (MExitF \<lparr>ex_ID = rq_ID r, ex_Digest = run_digest r, ex_Code = 1, ex_Error = e\<rparr>)"

definition run_pending :: "(bool \<times> string) list \<Rightarrow> (int \<times> string) list" where
  "run_pending ws = map (\<lambda>(err, p). (if err then MonitorStreamStderr else MonitorStreamStdout, p)) ws"

text \<open>One call of the function that runs a virtual binary, with the event that it was called and on what.\<close>

definition call_run ::
  "(nat \<Rightarrow> bool \<Rightarrow> string list \<Rightarrow> string \<Rightarrow> world \<Rightarrow> run_effect \<times> world) \<Rightarrow> u64 \<Rightarrow> nat \<Rightarrow> bool \<Rightarrow> string list \<Rightarrow> string \<Rightarrow> world \<Rightarrow>
   (run_effect \<times> mevent) \<times> world" where
  "call_run run i call cancelled args stdin w = (case run call cancelled args stdin w of (eff, w) \<Rightarrow> ((eff, EvRun i args), w))"

text \<open>The first half of \<^verbatim>\<open>runVBin\<close>: up to the run of the virtual binary. Only an allowed command is run.\<close>

definition start_run ::
  "mon_env \<Rightarrow> gate_env \<Rightarrow> nat \<Rightarrow> bool \<Rightarrow> run_request \<Rightarrow> world \<Rightarrow> (mtask \<times> mevent list) option \<times> world" where
  "start_run env genv call cancelled r w =
     (if cancelled then (Some (run_failure r errMonitorCancelled, []), w)
      else if session_gone env w then (Some (run_failure r errSessionGone, []), w)
      else case sshListenerRunArgs (me_session env) (rq_Args r) of
          Inl refusal \<Rightarrow> (case recordSSHRefusal env genv (rq_Args r) refusal w of (t, w) \<Rightarrow> (Some (run_failure r t, []), w))
        | Inr args \<Rightarrow>
            (case me_run env of
               None \<Rightarrow> (case recordSSHRefusal env genv (rq_Args r) (sshRefusal (hd (rq_Args r))) w of (t, w) \<Rightarrow> (Some (run_failure r t, []), w))
             | Some run \<Rightarrow>
                 (case listener_gate env genv args w of
                    (None, w) \<Rightarrow> (None, w)
                  | (Some (Some e), w) \<Rightarrow> (Some (run_failure r e, [EvGate (rq_ID r) args False]), w)
                  | (Some None, w) \<Rightarrow>
                      (case call_run run (rq_ID r) call cancelled args (rq_Stdin r) w of
                         ((eff, done_run), w) \<Rightarrow>
                           (Some (TRunning (rq_ID r) (run_digest r) (run_pending (re_writes eff))
                                    \<lparr>ow_seq = 0, ow_total = 0, ow_truncated = False, ow_broken = False\<rparr> (re_code eff) (re_err eff),
                                  [EvGate (rq_ID r) args True, done_run]), w)))))"

text \<open>One frame of output.\<close>

definition out_send :: "bool \<Rightarrow> u64 \<Rightarrow> int \<Rightarrow> string \<Rightarrow> out_writer \<Rightarrow> monitor \<Rightarrow> out_writer \<times> monitor" where
  "out_send works i st data ow m =
     (let ow = ow\<lparr>ow_seq := ow_seq ow + 1\<rparr>
      in case mon_write works (MOutF \<lparr>ot_ID = i, ot_Seq = ow_seq ow, ot_Stream = st, ot_Data = data\<rparr>) m of
           (True, m) \<Rightarrow> (ow, m)
         | (False, m) \<Rightarrow> (ow\<lparr>ow_broken := True\<rparr>, m))"

text \<open>One round of the loop in \<^verbatim>\<open>emit\<close>, for the first pending write.\<close>

definition emit_round ::
  "bool \<Rightarrow> u64 \<Rightarrow> (int \<times> string) list \<Rightarrow> out_writer \<Rightarrow> monitor \<Rightarrow> (int \<times> string) list \<times> out_writer \<times> monitor" where
  "emit_round works i ps ow m =
     (case ps of
        [] \<Rightarrow> ([], ow, m)
      | (st, p) # ps \<Rightarrow>
          if p = [] \<or> ow_broken ow then (ps, ow, m)
          else if MaxMonitorRunOutput \<le> ow_total ow then (ps, ow\<lparr>ow_truncated := True\<rparr>, m)
          else (let n = min (min (length p) MaxMonitorOutChunk) (MaxMonitorRunOutput - ow_total ow)
                in case out_send works i st (take n p) ow m of
                     (ow, m) \<Rightarrow> ((st, drop n p) # ps, ow\<lparr>ow_total := ow_total ow + n\<rparr>, m)))"

text \<open>The marker after truncated output, and the exit.\<close>

definition run_exit :: "u64 \<Rightarrow> string \<Rightarrow> int \<Rightarrow> string option \<Rightarrow> mframe" where
  "run_exit i digest code e =
     (let code = (if e \<noteq> None \<and> code = 0 then 1 else code)
      in MExitF \<lparr>ex_ID = i, ex_Digest = digest, ex_Code = (if code < 0 \<or> 255 < code then 1 else code),
                ex_Error = (case e of None \<Rightarrow> '''' | Some t \<Rightarrow> t)\<rparr>)"

definition finish_run :: "bool \<Rightarrow> u64 \<Rightarrow> string \<Rightarrow> out_writer \<Rightarrow> int \<Rightarrow> string option \<Rightarrow> monitor \<Rightarrow> mtask \<times> monitor" where
  "finish_run works i digest ow code e m =
     (if ow_truncated ow \<and> \<not> ow_broken ow then
        (case out_send works i MonitorStreamStderr MonitorRunTruncated ow m of (_, m) \<Rightarrow> (TDone i (run_exit i digest code e), m))
      else (TDone i (run_exit i digest code e), m))"

section \<open>Steps\<close>

definition set_task :: "nat \<Rightarrow> mtask \<Rightarrow> monitor \<Rightarrow> monitor" where
  "set_task k t m = m\<lparr>mn_tasks := (mn_tasks m)[k := (fst (mn_tasks m ! k), t)]\<rparr>"

definition drop_task :: "nat \<Rightarrow> monitor \<Rightarrow> monitor" where
  "drop_task k m = m\<lparr>mn_tasks := take k (mn_tasks m) @ drop (Suc k) (mn_tasks m)\<rparr>"

definition note_call :: "world \<Rightarrow> mevent list \<Rightarrow> monitor \<Rightarrow> monitor" where
  "note_call w evs m = m\<lparr>mn_world := w, mn_calls := Suc (mn_calls m), mn_events := mn_events m @ evs\<rparr>"

definition has_task :: "monitor \<Rightarrow> nat \<Rightarrow> bool \<Rightarrow> mtask \<Rightarrow> bool" where
  "has_task m k c t \<longleftrightarrow> k < length (mn_tasks m) \<and> mn_tasks m ! k = (c, t)"

text \<open>The steps that read nothing from the connection: its end, other sessions, and the goroutines of requests.\<close>

inductive mon_local :: "mon_env \<Rightarrow> monitor \<Rightarrow> monitor \<Rightarrow> bool" for env where
  read_error: "mn_open m \<Longrightarrow> mon_local env m (mon_close m)"
| others: "mon_local env m (m\<lparr>mn_world := w\<rparr>)"
| authorize: "has_task m k c (TAuth i args) \<Longrightarrow>
    mon_authorize env (me_gate env (mn_calls m)) c args (mn_world m) = (Some e, w) \<Longrightarrow>
    mon_local env m (set_task k (TDone i (auth_answer i args e)) (note_call w [EvGate i args (e = None)] m))"
| run: "has_task m k c (TRun r) \<Longrightarrow>
    start_run env (me_gate env (mn_calls m)) (mn_calls m) c r (mn_world m) = (Some (t, evs), w) \<Longrightarrow>
    mon_local env m (set_task k t (note_call w evs m))"
| emit: "has_task m k c (TRunning i d (p # ps) ow code e) \<Longrightarrow> emit_round works i (p # ps) ow m = (ps', ow', m') \<Longrightarrow>
    mon_local env m (set_task k (TRunning i d ps' ow' code e) m')"
| finish: "has_task m k c (TRunning i d [] ow code e) \<Longrightarrow> finish_run works i d ow code e m = (t, m') \<Longrightarrow>
    mon_local env m (set_task k t m')"
| release: "has_task m k c (TDone i f) \<Longrightarrow> mon_local env m (set_task k (TReply f) (mon_end i m))"
| reply: "has_task m k c (TReply f) \<Longrightarrow> mon_write works f m = (ok, m') \<Longrightarrow> mon_local env m (drop_task k m')"

inductive mon_step :: "mon_env \<Rightarrow> monitor \<Rightarrow> monitor \<Rightarrow> bool" for env where
  frame: "mn_open m \<Longrightarrow> mon_step env m (serve_frame works now ty payload m)"
| local: "mon_local env m m' \<Longrightarrow> mon_step env m m'"

definition mon_start :: "world \<Rightarrow> monitor" where
  "mon_start w =
     \<lparr>mn_open = True, mn_broken = False, mn_cancelled = False, mn_last = 0, mn_inflight = 0, mn_early = 0, mn_earlyAt = zero_time,
      mn_tasks = [], mn_out = [], mn_world = w, mn_calls = 0, mn_events = []\<rparr>"

text \<open>\<^verbatim>\<open>ServeSSHMonitorRun\<close> serves a bound session only.\<close>

inductive mon_reach :: "mon_env \<Rightarrow> monitor \<Rightarrow> bool" for env where
  start: "me_session env \<noteq> '''' \<Longrightarrow> mon_reach env (mon_start w)"
| step: "mon_reach env m \<Longrightarrow> mon_step env m m' \<Longrightarrow> mon_reach env m'"

section \<open>What was gated\<close>

text \<open>An allowed event is a decision of the command gate for the bound session, which existed at that moment.\<close>

definition gate_allowed :: "mon_env \<Rightarrow> string list \<Rightarrow> bool" where
  "gate_allowed env args \<longleftrightarrow>
     (\<exists>n w w'. AuthorizeCommand (me_cfg env) (me_gate env n) args (me_session env) w = (Allow, w') \<and>
        GetSession (en_reg (wo_engine w)) (me_session env) \<noteq> None)"

fun said_ok :: "mframe \<Rightarrow> (u64 \<times> string) option" where
  "said_ok (MAuthResp r) = (if ap_OK r then Some (ap_ID r, ap_ArgsDigest r) else None)"
| "said_ok _ = None"

fun reply_of :: "mtask \<Rightarrow> mframe list" where
  "reply_of (TDone _ f) = [f]"
| "reply_of (TReply f) = [f]"
| "reply_of _ = []"

definition all_frames :: "monitor \<Rightarrow> mframe list" where
  "all_frames m = mn_out m @ concat (map (reply_of \<circ> snd) (mn_tasks m))"

definition frame_gated :: "mevent list \<Rightarrow> mframe \<Rightarrow> bool" where
  "frame_gated evs f \<longleftrightarrow>
     (\<forall>i d. said_ok f = Some (i, d) \<longrightarrow> (\<exists>args. EvGate i args True \<in> set evs \<and> d = MonitorArgsDigest args))"

definition events_ok :: "mon_env \<Rightarrow> mevent list \<Rightarrow> bool" where
  "events_ok env evs \<longleftrightarrow>
     (\<forall>i args. EvGate i args True \<in> set evs \<longrightarrow> gate_allowed env args) \<and>
     (\<forall>i args. EvRun i args \<in> set evs \<longrightarrow> EvGate i args True \<in> set evs)"

definition gated :: "mon_env \<Rightarrow> monitor \<Rightarrow> bool" where
  "gated env m \<longleftrightarrow> (\<forall>f \<in> set (all_frames m). frame_gated (mn_events m) f) \<and> events_ok env (mn_events m)"

lemma frame_gated_None: "said_ok f = None \<Longrightarrow> frame_gated evs f"
  by (simp add: frame_gated_def)

lemma frame_gated_append: "frame_gated evs f \<Longrightarrow> frame_gated (evs @ evs') f"
  by (auto simp: frame_gated_def)

lemma events_ok_append: "events_ok env evs \<Longrightarrow> events_ok env evs' \<Longrightarrow> events_ok env (evs @ evs')"
  by (auto simp: events_ok_def)

lemma listener_gate_allowed:
  assumes "listener_gate env (me_gate env n) args w = (Some None, w')"
  shows "gate_allowed env args"
  using assms
  by (auto simp: listener_gate_def session_gone_def gate_allowed_def split: if_splits prod.splits gate_out.splits)

lemma mon_authorize_allowed: "mon_authorize env (me_gate env n) c args w = (Some None, w') \<Longrightarrow> gate_allowed env args"
  by (auto simp: mon_authorize_def split: if_splits option.splits prod.splits intro: listener_gate_allowed)

lemma start_run_allowed:
  assumes "start_run env (me_gate env n) n c r w = (Some (t, evs), w')"
  shows "events_ok env evs \<and> (\<forall>f \<in> set (reply_of t). said_ok f = None)"
  using assms
  by (auto simp: events_ok_def start_run_def call_run_def run_failure_def split: if_splits option.splits prod.splits sum.splits intro: listener_gate_allowed)

text \<open>What the listener does depends on the run of virtual binaries only where the gate allowed the arguments.\<close>

lemma gone_run [simp]: "session_gone (env\<lparr>me_run := f\<rparr>) w = session_gone env w"
  by (simp add: session_gone_def)

lemma gate_run [simp]: "listener_gate (env\<lparr>me_run := f\<rparr>) = listener_gate env"
  by (intro ext) (simp add: listener_gate_def split: prod.split gate_out.split)

lemma refusal_run [simp]: "recordSSHRefusal (env\<lparr>me_run := f\<rparr>) = recordSSHRefusal env"
  by (intro ext) (simp add: recordSSHRefusal_def Let_def split: prod.split option.split)

lemma authorize_run [simp]: "mon_authorize (env\<lparr>me_run := f\<rparr>) = mon_authorize env"
  by (intro ext) (simp add: mon_authorize_def split: option.split)

definition agree_allowed :: "mon_env \<Rightarrow> (nat \<Rightarrow> bool \<Rightarrow> string list \<Rightarrow> string \<Rightarrow> world \<Rightarrow> run_effect \<times> world) \<Rightarrow> bool" where
  "agree_allowed env run' \<longleftrightarrow>
     (\<exists>run. me_run env = Some run \<and> (\<forall>args. gate_allowed env args \<longrightarrow> (\<forall>n c stdin w. run' n c args stdin w = run n c args stdin w)))"

lemma start_run_agree:
  assumes "agree_allowed env run'"
  shows "start_run (env\<lparr>me_run := Some run'\<rparr>) (me_gate env n) k c r w = start_run env (me_gate env n) k c r w"
proof -
  obtain run where run: "me_run env = Some run" "\<And>args n c stdin w. gate_allowed env args \<Longrightarrow> run' n c args stdin w = run n c args stdin w"
    using assms by (auto simp: agree_allowed_def)
  show ?thesis
  proof (cases "sshListenerRunArgs (me_session env) (rq_Args r)")
    case (Inl e)
    then show ?thesis by (simp add: start_run_def run(1) split: prod.split)
  next
    case (Inr args)
    obtain g v where g: "listener_gate env (me_gate env n) args w = (g, v)" by fastforce
    show ?thesis
    proof (cases "g = Some None")
      case True
      then have "run' k c args s v = run k c args s v" for s using run(2) [OF listener_gate_allowed] g by simp
      then show ?thesis using True g Inr by (cases c) (simp_all add: start_run_def run(1) call_run_def)
    next
      case False
      then show ?thesis using g Inr by (auto simp: start_run_def run(1) split: option.split)
    qed
  qed
qed

lemma local_agree: "mon_local env m m' \<Longrightarrow> agree_allowed env run' \<Longrightarrow> mon_local (env\<lparr>me_run := Some run'\<rparr>) m m'"
proof (induction rule: mon_local.induct)
  case (run m k c r t evs w)
  show ?case by (rule mon_local.run [OF run(1)]) (use run(2) start_run_agree [OF run(3)] in simp)
qed (auto intro: mon_local.intros)

lemma reach_agree: "mon_reach env m \<Longrightarrow> agree_allowed env run' \<Longrightarrow> mon_reach (env\<lparr>me_run := Some run'\<rparr>) m"
proof (induction rule: mon_reach.induct)
  case (start w)
  then show ?case by (intro mon_reach.start) simp
next
  case (step m m')
  have "mon_step (env\<lparr>me_run := Some run'\<rparr>) m m'"
    using step.hyps(2) by cases (auto intro: mon_step.intros local_agree [OF _ step.prems])
  then show ?case using mon_reach.step step by blast
qed

subsection \<open>Frames of an operation\<close>

definition keeps_frames :: "monitor \<Rightarrow> monitor \<Rightarrow> mframe set \<Rightarrow> bool" where
  "keeps_frames m m' new \<longleftrightarrow> mn_events m' = mn_events m \<and> set (all_frames m') \<subseteq> set (all_frames m) \<union> new"

lemma keeps_trans: "keeps_frames m m1 a \<Longrightarrow> keeps_frames m1 m2 b \<Longrightarrow> keeps_frames m m2 (a \<union> b)"
  by (auto simp: keeps_frames_def)

lemma all_frames_upd [simp]:
  "all_frames (m\<lparr>mn_open := a\<rparr>) = all_frames m" "all_frames (m\<lparr>mn_broken := a\<rparr>) = all_frames m"
  "all_frames (m\<lparr>mn_cancelled := a\<rparr>) = all_frames m" "all_frames (m\<lparr>mn_last := i\<rparr>) = all_frames m"
  "all_frames (m\<lparr>mn_inflight := i\<rparr>) = all_frames m" "all_frames (m\<lparr>mn_early := i\<rparr>) = all_frames m"
  "all_frames (m\<lparr>mn_earlyAt := ti\<rparr>) = all_frames m" "all_frames (m\<lparr>mn_world := w\<rparr>) = all_frames m"
  "all_frames (m\<lparr>mn_calls := n\<rparr>) = all_frames m" "all_frames (m\<lparr>mn_events := evs\<rparr>) = all_frames m"
  by (simp_all add: all_frames_def)

lemma all_frames_flags [simp]: "all_frames (m\<lparr>mn_tasks := map (\<lambda>(c, t). (g c t, t)) (mn_tasks m)\<rparr>) = all_frames m"
  by (simp add: all_frames_def comp_def case_prod_beta)

lemma breakConn_frames [simp]: "all_frames (breakConn m) = all_frames m" "mn_events (breakConn m) = mn_events m"
  by (simp_all add: breakConn_def all_frames_def comp_def case_prod_beta)

lemma mon_close_frames [simp]: "all_frames (mon_close m) = all_frames m" "mn_events (mon_close m) = mn_events m"
  by (simp_all add: mon_close_def all_frames_def comp_def case_prod_beta)

lemma mon_end_frames [simp]: "all_frames (mon_end i m) = all_frames m" "mn_events (mon_end i m) = mn_events m"
  by (simp_all add: mon_end_def)

lemma cancelID_frames [simp]: "all_frames (cancelID now i m) = all_frames m" "mn_events (cancelID now i m) = mn_events m"
  by (simp_all add: cancelID_def all_frames_def comp_def case_prod_beta)

lemma mon_write_frames: "mon_write works f m = (ok, m') \<Longrightarrow> keeps_frames m m' {f}"
  by (auto simp: mon_write_def keeps_frames_def all_frames_def split: if_splits) (auto simp: breakConn_def comp_def case_prod_beta)

lemma set_task_frames: "keeps_frames m (set_task k t m) (set (reply_of t))"
  by (auto simp: keeps_frames_def set_task_def all_frames_def dest!: set_update_subset_insert [THEN subsetD])

lemma drop_task_frames: "keeps_frames m (drop_task k m) {}"
  by (auto simp: keeps_frames_def drop_task_def all_frames_def dest: in_set_takeD in_set_dropD)

text \<open>What becomes of an accepted request.\<close>

lemma accept_cases:
  obtains (close) "mn_last m \<noteq> 0" "i \<noteq> mn_last m + 1" "accept_request works now i t busy m = mon_close m"
  | (busy) ok m' where "mn_last m = 0 \<or> i = mn_last m + 1" "mn_inflight m \<noteq> 0" "mon_write works busy (m\<lparr>mn_last := i\<rparr>) = (ok, m')"
      "accept_request works now i t busy m = (if ok then m' else mon_close m')"
  | (start) c e where "mn_last m = 0 \<or> i = mn_last m + 1" "mn_inflight m = 0"
      "accept_request works now i t busy m = m\<lparr>mn_last := i, mn_inflight := i, mn_early := e, mn_tasks := mn_tasks m @ [(c, t)]\<rparr>"
proof (cases "mn_last m \<noteq> 0 \<and> i \<noteq> mn_last m + 1")
  case True
  then show thesis using close by (simp add: accept_request_def inSequence_def)
next
  case False
  then have q: "inSequence i m = Some (m\<lparr>mn_last := i\<rparr>)" "mn_last m = 0 \<or> i = mn_last m + 1" by (simp_all add: inSequence_def)
  show thesis
  proof (cases "mn_inflight m = 0")
    case True
    then obtain c e where "mon_begin now i (m\<lparr>mn_last := i\<rparr>) = Some (c, m\<lparr>mn_last := i, mn_inflight := i, mn_early := e\<rparr>)"
      by (simp add: mon_begin_def Let_def)
    then show thesis using start [of c e] q True by (simp add: accept_request_def)
  next
    case False
    obtain ok m' where w: "mon_write works busy (m\<lparr>mn_last := i\<rparr>) = (ok, m')" by fastforce
    have "accept_request works now i t busy m = (if ok then m' else mon_close m')"
      using False q w by (simp add: accept_request_def mon_begin_def split: bool.split)
    then show thesis using busy [OF q(2) False w] by blast
  qed
qed

lemma accept_frames:
  assumes "reply_of t = []"
  shows "keeps_frames m (accept_request works now i t busy m) {busy}"
proof (cases rule: accept_cases [of m i works now t busy])
  case close
  then show ?thesis by (simp add: keeps_frames_def subset_insertI)
next
  case (busy ok m')
  then show ?thesis using mon_write_frames [OF busy(3)] by (auto simp: keeps_frames_def)
next
  case (start c e)
  then show ?thesis using assms by (auto simp: keeps_frames_def all_frames_def)
qed

lemma serve_cases:
  obtains (close) "serve_frame works now ty payload m = mon_close m"
  | (ping) ok m' where "mon_write works MPing m = (ok, m')" "serve_frame works now ty payload m = (if ok then m' else mon_close m')"
  | (cancel) i where "i \<noteq> 0" "serve_frame works now ty payload m = cancelID now i m"
  | (auth) r where "aq_ID r \<noteq> 0" "ValidateMonitorArgs (aq_Args r) = None"
      "serve_frame works now ty payload m = accept_request works now (aq_ID r) (TAuth (aq_ID r) (aq_Args r)) (busy_response r) m"
  | (run) r where "rq_ID r \<noteq> 0" "ValidateMonitorArgs (rq_Args r) = None"
      "serve_frame works now ty payload m = accept_request works now (rq_ID r) (TRun r) (busy_exit r) m"
proof -
  have A: "aq_ID r \<noteq> 0 \<and> ValidateMonitorArgs (aq_Args r) = None" if "DecodeMonitorAuth payload = Inr r" for r
    using that by (auto simp: DecodeMonitorAuth_def split: option.splits prod.splits if_splits)
  have R: "rq_ID r \<noteq> 0 \<and> ValidateMonitorArgs (rq_Args r) = None" if "DecodeMonitorRun payload = Inr r" for r
    using that by (auto simp: DecodeMonitorRun_def split: option.splits prod.splits if_splits)
  have C: "i \<noteq> 0" if "DecodeMonitorCancel payload = Inr i" for i
    using that by (auto simp: DecodeMonitorCancel_def split: option.splits if_splits)
  consider "ty = FramePing" | "ty = FrameAuthorize" | "ty = FrameRun" | "ty = FrameCancel"
    | "ty \<notin> {FramePing, FrameAuthorize, FrameRun, FrameCancel}" by blast
  then show thesis
  proof cases
    case 1
    obtain ok m' where w: "mon_write works MPing m = (ok, m')" by fastforce
    then have "serve_frame works now ty payload m = (if payload \<noteq> [] then mon_close m else if ok then m' else mon_close m')"
      using 1 by (simp add: serve_frame_def split: bool.split)
    then show ?thesis using close ping [OF w] by (cases "payload = []") simp_all
  next
    case 2
    then show ?thesis using close auth A by (cases "DecodeMonitorAuth payload") (auto simp: serve_frame_def frame_types)
  next
    case 3
    then show ?thesis using close run R by (cases "DecodeMonitorRun payload") (auto simp: serve_frame_def frame_types)
  next
    case 4
    then show ?thesis using close cancel C by (cases "DecodeMonitorCancel payload") (auto simp: serve_frame_def frame_types)
  next
    case 5
    then show ?thesis using close by (simp add: serve_frame_def)
  qed
qed

lemma serve_frames: "\<exists>f. keeps_frames m (serve_frame works now ty payload m) {f} \<and> said_ok f = None"
proof (cases rule: serve_cases [of works now ty payload m])
  case close
  then show ?thesis by (intro exI [of _ MPing]) (auto simp: keeps_frames_def)
next
  case (ping ok m')
  then show ?thesis using mon_write_frames [OF ping(1)] by (intro exI [of _ MPing]) (auto simp: keeps_frames_def)
next
  case (cancel i)
  then show ?thesis by (intro exI [of _ MPing]) (auto simp: keeps_frames_def)
next
  case (auth r)
  then show ?thesis using accept_frames by (intro exI [of _ "busy_response r"]) (simp add: busy_response_def)
next
  case (run r)
  then show ?thesis using accept_frames by (intro exI [of _ "busy_exit r"]) (simp add: busy_exit_def)
qed

lemma out_send_frames: "out_send works i st data ow m = (ow', m') \<Longrightarrow> \<exists>r. keeps_frames m m' {MOutF r}"
  by (auto simp: out_send_def Let_def split: prod.splits bool.splits dest!: mon_write_frames)

lemma emit_frames: "emit_round works i ps ow m = (ps', ow', m') \<Longrightarrow> \<exists>r. keeps_frames m m' {MOutF r}"
  by (auto simp: emit_round_def Let_def split: list.splits if_splits prod.splits dest!: out_send_frames) (auto simp: keeps_frames_def)

lemma finish_frames: "finish_run works i d ow code e m = (t, m') \<Longrightarrow> \<exists>r. keeps_frames m m' {MOutF r} \<and> t = TDone i (run_exit i d code e)"
  by (auto simp: finish_run_def split: if_splits prod.splits dest!: out_send_frames) (auto simp: keeps_frames_def)

subsection \<open>The invariant\<close>

lemma gated_keeps:
  assumes "gated env m" "keeps_frames m m' new" "\<forall>f \<in> new. said_ok f = None \<or> f \<in> set (all_frames m)"
  shows "gated env m'"
proof -
  have "frame_gated (mn_events m) f" if "f \<in> set (all_frames m')" for f
  proof (cases "f \<in> set (all_frames m)")
    case False
    then have "f \<in> new" using that assms(2) by (auto simp: keeps_frames_def)
    then show ?thesis using False assms(3) frame_gated_None by blast
  qed (use assms(1) in \<open>simp add: gated_def\<close>)
  then show ?thesis using assms by (simp add: keeps_frames_def gated_def)
qed

lemma gated_note:
  assumes "gated env m" "events_ok env evs"
  shows "gated env (note_call w evs m)"
proof -
  have "all_frames (note_call w evs m) = all_frames m" by (simp add: note_call_def)
  then show ?thesis using assms by (simp add: gated_def events_ok_append frame_gated_append note_call_def)
qed

lemma has_task_reply: "has_task m k c t \<Longrightarrow> f \<in> set (reply_of t) \<Longrightarrow> f \<in> set (all_frames m)"
  using nth_mem [of k "mn_tasks m"] by (auto simp: has_task_def all_frames_def intro!: bexI [of _ "(c, t)"])

lemma gated_task:
  assumes "gated env m" "\<forall>f \<in> set (reply_of t). said_ok f = None \<or> f \<in> set (all_frames m)"
  shows "gated env (set_task k t m)"
  by (rule gated_keeps [OF assms(1) set_task_frames assms(2)])

lemma gated_local:
  assumes "mon_local env m m'" "gated env m"
  shows "gated env m'"
  using assms(1)
proof (cases rule: mon_local.cases)
  case read_error
  then show ?thesis using assms(2) by (simp add: gated_def)
next
  case (others w)
  then show ?thesis using assms(2) by (simp add: gated_def)
next
  case (authorize k c i args e w)
  let ?evs = "[EvGate i args (e = None)]"
  have "events_ok env ?evs" using authorize(3) by (auto simp: events_ok_def intro: mon_authorize_allowed)
  then have n: "gated env (note_call w ?evs m)" by (rule gated_note [OF assms(2)])
  have "frame_gated (mn_events (note_call w ?evs m)) (auth_answer i args e)"
    by (auto simp: frame_gated_def auth_answer_def note_call_def)
  then show ?thesis using n set_task_frames [of "note_call w ?evs m" k "TDone i (auth_answer i args e)"]
    unfolding authorize(1) gated_def keeps_frames_def by auto
next
  case (run k c r t evs w)
  note a = start_run_allowed [OF run(3)]
  have "gated env (note_call w evs m)" using gated_note [OF assms(2)] a by blast
  then show ?thesis unfolding run(1) by (rule gated_task) (use a in blast)
next
  case (emit k c i d p ps ow code e works ps' ow' m1)
  obtain r where "keeps_frames m m1 {MOutF r}" using emit_frames [OF emit(3)] by blast
  then have "gated env m1" by (rule gated_keeps [OF assms(2)]) simp
  then show ?thesis unfolding emit(1) by (rule gated_task) simp
next
  case (finish k c i d ow code e works t m1)
  obtain r where f: "keeps_frames m m1 {MOutF r}" "t = TDone i (run_exit i d code e)" using finish_frames [OF finish(3)] by blast
  from f(1) have "gated env m1" by (rule gated_keeps [OF assms(2)]) simp
  then show ?thesis unfolding finish(1) by (rule gated_task) (simp add: f(2) run_exit_def Let_def)
next
  case (release k c i f)
  have "gated env (mon_end i m)" using assms(2) by (simp add: gated_def)
  then show ?thesis unfolding release(1) by (rule gated_task) (use has_task_reply [OF release(2)] in simp)
next
  case (reply k c f works ok m1)
  have "f \<in> set (all_frames m)" using has_task_reply [OF reply(2)] by simp
  then have "gated env m1" using gated_keeps [OF assms(2) mon_write_frames [OF reply(3)]] by simp
  then show ?thesis unfolding reply(1) by (rule gated_keeps [OF _ drop_task_frames]) simp
qed

lemma gated_step:
  assumes "mon_step env m m'" "gated env m"
  shows "gated env m'"
  using assms(1)
proof (cases rule: mon_step.cases)
  case (frame works now ty payload)
  obtain f where "keeps_frames m m' {f}" "said_ok f = None" using serve_frames frame(1) by blast
  then show ?thesis using gated_keeps [OF assms(2)] by blast
next
  case local
  then show ?thesis by (rule gated_local [OF _ assms(2)])
qed

lemma start_gated: "gated env (mon_start w)"
  by (simp add: mon_start_def gated_def all_frames_def events_ok_def)

lemma reach_gated: "mon_reach env m \<Longrightarrow> gated env m"
  by (induction rule: mon_reach.induct) (blast intro: start_gated gated_step)+

section \<open>Order and bounds\<close>

text \<open>
  The tasks without their contexts, and what an operation other than a step of a task may do: write one frame,
  or break or close the connection.
\<close>

abbreviation tasks :: "monitor \<Rightarrow> mtask list" where
  "tasks m \<equiv> map snd (mn_tasks m)"

definition only_writes :: "monitor \<Rightarrow> monitor \<Rightarrow> mframe list \<Rightarrow> bool" where
  "only_writes m m' fs \<longleftrightarrow>
     tasks m' = tasks m \<and> mn_out m' = mn_out m @ fs \<and> mn_last m' = mn_last m \<and> mn_inflight m' = mn_inflight m \<and>
     (mn_broken m \<longrightarrow> mn_broken m') \<and> (\<forall>f \<in> set fs. length (mframe_payload f) \<le> MaxMonitorFrame)"

lemma only_writes_Nil:
  "only_writes m (breakConn m) []" "only_writes m (mon_close m) []" "only_writes m (cancelID now i m) []"
  "only_writes m (note_call w evs m) []" "only_writes m (m\<lparr>mn_world := w\<rparr>) []" "only_writes m m []"
  by (simp_all add: only_writes_def breakConn_def mon_close_def cancelID_def note_call_def comp_def case_prod_beta)

lemma mon_write_only:
  assumes "mon_write works f m = (ok, m')"
  shows "only_writes m m' (if ok then [f] else []) \<and> (\<not> ok \<longrightarrow> mn_broken m')"
  using assms only_writes_Nil(1) [of m]
  by (auto simp: mon_write_def only_writes_def breakConn_def split: if_splits)

definition outs :: "u64 \<Rightarrow> mframe list \<Rightarrow> mon_out list" where
  "outs i fs = concat (map (\<lambda>f. case f of MOutF r \<Rightarrow> if ot_ID r = i then [r] else [] | _ \<Rightarrow> []) fs)"

definition out_total :: "mon_out list \<Rightarrow> nat" where
  "out_total rs = sum_list (map (\<lambda>r. length (ot_Data r)) rs)"

fun in_order :: "u64 \<Rightarrow> mon_out list \<Rightarrow> bool" where
  "in_order q [] \<longleftrightarrow> True"
| "in_order q (r # rs) \<longleftrightarrow> ot_Seq r = q \<and> in_order (q + 1) rs"

definition chunk_ok :: "mon_out \<Rightarrow> bool" where
  "chunk_ok r \<longleftrightarrow> ot_Data r \<noteq> [] \<and> length (ot_Data r) \<le> MaxMonitorOutChunk \<and> ot_Stream r \<in> {MonitorStreamStdout, MonitorStreamStderr}"

definition good_outs :: "mon_out list \<Rightarrow> bool" where
  "good_outs rs \<longleftrightarrow> in_order 1 rs \<and> list_all chunk_ok rs \<and> out_total rs \<le> MaxMonitorRunOutput + length MonitorRunTruncated"

fun answer_id :: "mframe \<Rightarrow> u64" where
  "answer_id (MAuthResp r) = ap_ID r"
| "answer_id (MExitF r) = ex_ID r"
| "answer_id _ = 0"

fun exit_ok :: "mframe \<Rightarrow> bool" where
  "exit_ok (MExitF r) \<longleftrightarrow> 0 \<le> ex_Code r \<and> ex_Code r \<le> 255 \<and> valid_utf8 (ex_Digest r)"
| "exit_ok _ \<longleftrightarrow> True"

text \<open>The request a task stands for, and the requests that were accepted so far.\<close>

fun task_claim :: "mtask \<Rightarrow> u64" where
  "task_claim (TReply f) = answer_id f"
| "task_claim t = task_id t"

definition claims :: "mtask list \<Rightarrow> mframe list \<Rightarrow> u64 list" where
  "claims ts fs = filter (\<lambda>i. i \<noteq> 0) (map answer_id fs) @ map task_claim ts"

definition live_ids :: "mtask list \<Rightarrow> u64 list" where
  "live_ids ts = filter (\<lambda>i. i \<noteq> 0) (map task_id ts)"

fun task_ok :: "bool \<Rightarrow> mframe list \<Rightarrow> mtask \<Rightarrow> bool" where
  "task_ok broken fs (TAuth i _) \<longleftrightarrow> outs i fs = []"
| "task_ok broken fs (TRun r) \<longleftrightarrow> outs (rq_ID r) fs = []"
| "task_ok broken fs (TRunning i d ps ow _ _) \<longleftrightarrow>
     valid_utf8 d \<and> (\<forall>p \<in> set ps. fst p \<in> {MonitorStreamStdout, MonitorStreamStderr}) \<and> (ow_broken ow \<longrightarrow> broken) \<and>
     (\<not> ow_broken ow \<longrightarrow>
        ow_seq ow = of_nat (length (outs i fs)) \<and> ow_total ow = out_total (outs i fs) \<and> ow_total ow \<le> MaxMonitorRunOutput)"
| "task_ok broken fs (TDone i f) \<longleftrightarrow> answer_id f = i \<and> exit_ok f"
| "task_ok broken fs (TReply f) \<longleftrightarrow> answer_id f \<noteq> 0 \<and> exit_ok f"

definition slot_ok :: "mtask list \<Rightarrow> u64 \<Rightarrow> bool" where
  "slot_ok ts i \<longleftrightarrow> live_ids ts = (if i = 0 then [] else [i])"

definition ids_ok :: "mtask list \<Rightarrow> mframe list \<Rightarrow> u64 \<Rightarrow> bool" where
  "ids_ok ts fs hi \<longleftrightarrow>
     distinct (claims ts fs) \<and> (\<forall>i \<in> set (claims ts fs). i \<noteq> 0 \<and> i \<le> hi) \<and> (\<forall>r. MOutF r \<in> set fs \<longrightarrow> ot_ID r \<noteq> 0 \<and> ot_ID r \<le> hi)"

definition mon_ok :: "monitor \<Rightarrow> bool" where
  "mon_ok m \<longleftrightarrow>
     slot_ok (tasks m) (mn_inflight m) \<and> ids_ok (tasks m) (mn_out m) (mn_last m) \<and>
     list_all (task_ok (mn_broken m) (mn_out m)) (tasks m) \<and> (\<forall>i. good_outs (outs i (mn_out m))) \<and>
     (\<forall>f \<in> set (mn_out m). length (mframe_payload f) \<le> MaxMonitorFrame \<and> exit_ok f)"

lemma outs_append [simp]: "outs i (a @ b) = outs i a @ outs i b" "outs i [] = []"
  by (simp_all add: outs_def)

lemma outs_single [simp]:
  "outs i [MPing] = []" "outs i [MAuthResp a] = []" "outs i [MExitF x] = []" "outs i [MOutF r] = (if ot_ID r = i then [r] else [])"
  by (simp_all add: outs_def)

lemma outs_fresh: "(\<forall>r. MOutF r \<in> set fs \<longrightarrow> ot_ID r \<noteq> i) \<Longrightarrow> outs i fs = []"
  by (auto simp: outs_def split: mframe.splits)

lemma outs_ids: "r \<in> set (outs i fs) \<Longrightarrow> ot_ID r = i \<and> MOutF r \<in> set fs"
  by (auto simp: outs_def split: mframe.splits if_splits)

lemma in_order_snoc: "in_order q (rs @ [r]) \<longleftrightarrow> in_order q rs \<and> ot_Seq r = q + of_nat (length rs)"
  by (induction rs arbitrary: q) (auto simp: algebra_simps)

lemma out_total_snoc [simp]: "out_total [] = 0" "out_total (rs @ [r]) = out_total rs + length (ot_Data r)"
  by (simp_all add: out_total_def)

text \<open>A break of the connection and an answer frame keep the tasks consistent.\<close>

lemma task_ok_broken: "task_ok broken fs t \<Longrightarrow> (broken \<longrightarrow> broken') \<Longrightarrow> task_ok broken' fs t"
  by (cases t) auto

lemma task_ok_answer: "(\<forall>i. outs i [f] = []) \<Longrightarrow> task_ok broken (fs @ [f]) t = task_ok broken fs t"
  by (cases t) auto

lemma distinct_sub_mset: "mset xs \<subseteq># mset ys \<Longrightarrow> distinct ys \<Longrightarrow> distinct xs"
proof -
  assume a: "mset xs \<subseteq># mset ys" "distinct ys"
  have "count (mset xs) x = (if x \<in> set xs then 1 else 0)" for x
  proof (cases "x \<in> set xs")
    case True
    have "count (mset xs) x \<le> count (mset ys) x" using a(1) by (rule mset_subset_eq_count)
    also have "\<dots> \<le> 1" using a(2) by (simp add: distinct_count_atmost_1)
    finally show ?thesis using True by (simp add: le_antisym Suc_le_eq)
  qed simp
  then show ?thesis by (simp add: distinct_count_atmost_1)
qed

lemma ids_sub:
  assumes "ids_ok ts fs hi" "mset (claims ts' fs') \<subseteq># mset (claims ts fs)" "\<forall>r. MOutF r \<in> set fs' \<longrightarrow> MOutF r \<in> set fs \<or> ot_ID r \<noteq> 0 \<and> ot_ID r \<le> hi"
  shows "ids_ok ts' fs' hi"
proof -
  have "distinct (claims ts' fs')" using assms(1,2) distinct_sub_mset by (auto simp: ids_ok_def)
  moreover have "set (claims ts' fs') \<subseteq> set (claims ts fs)" using assms(2) by (metis set_mset_mono set_mset_mset)
  ultimately show ?thesis using assms(1,3) unfolding ids_ok_def by blast
qed

lemma claims_snoc: "claims ts (fs @ [f]) = filter (\<lambda>i. i \<noteq> 0) (map answer_id fs) @ (if answer_id f = 0 then [] else [answer_id f]) @ map task_claim ts"
  by (simp add: claims_def)

lemma map_update_same: "k < length ts \<Longrightarrow> g t = g (ts ! k) \<Longrightarrow> map g (ts[k := t]) = map g ts"
  by (metis list_update_id map_update)

text \<open>A task replaced by one for the same request.\<close>

lemma update_task:
  assumes "slot_ok ts i" "ids_ok ts fs hi" "k < length ts" "task_id t = task_id (ts ! k)" "task_claim t = task_claim (ts ! k)"
  shows "slot_ok (ts[k := t]) i" "ids_ok (ts[k := t]) fs hi"
proof -
  have m: "map task_id (ts[k := t]) = map task_id ts" "map task_claim (ts[k := t]) = map task_claim ts"
    using assms(3-5) by (simp_all only: map_update_same)
  show "slot_ok (ts[k := t]) i" "ids_ok (ts[k := t]) fs hi"
    using assms(1,2) unfolding slot_ok_def ids_ok_def live_ids_def claims_def m by blast+
qed

lemma filter_single_update:
  "filter P xs = [y] \<Longrightarrow> k < length xs \<Longrightarrow> P (xs ! k) \<Longrightarrow> \<not> P z \<Longrightarrow> filter P (xs[k := z]) = []"
proof (induction xs arbitrary: k)
  case (Cons x xs)
  show ?case
  proof (cases k)
    case 0
    then show ?thesis using Cons.prems by simp
  next
    case (Suc l)
    then have "P (xs ! l)" "l < length xs" using Cons.prems by auto
    then have "filter P xs \<noteq> []" by (metis filter_empty_conv nth_mem)
    then show ?thesis using Cons Suc by (auto split: if_splits)
  qed
qed simp

lemma in_live: "slot_ok ts i \<Longrightarrow> k < length ts \<Longrightarrow> task_id (ts ! k) \<noteq> 0 \<Longrightarrow> i = task_id (ts ! k)"
proof -
  assume a: "slot_ok ts i" "k < length ts" "task_id (ts ! k) \<noteq> 0"
  then have "task_id (ts ! k) \<in> set (live_ids ts)" by (simp add: live_ids_def)
  then show ?thesis using a by (auto simp: slot_ok_def split: if_splits)
qed

lemma release_slot:
  assumes "slot_ok ts i" "k < length ts" "task_id (ts ! k) \<noteq> 0"
  shows "slot_ok (ts[k := TReply f]) 0"
proof -
  have "filter (\<lambda>i. i \<noteq> 0) (map task_id ts) = [i]" using assms in_live [OF assms] by (simp add: slot_ok_def live_ids_def)
  then show ?thesis using assms filter_single_update [of "\<lambda>i. i \<noteq> 0" "map task_id ts" i k 0] by (simp add: slot_ok_def live_ids_def map_update)
qed

lemma drop_reply:
  assumes "slot_ok ts i" "k < length ts" "ts ! k = TReply f"
  shows "slot_ok (take k ts @ drop (Suc k) ts) i"
proof -
  have "ts = take k ts @ TReply f # drop (Suc k) ts" using assms id_take_nth_drop by metis
  then have "live_ids ts = live_ids (take k ts @ TReply f # drop (Suc k) ts)" by (rule arg_cong)
  then have "live_ids ts = live_ids (take k ts @ drop (Suc k) ts)" by (simp only: live_ids_def map_append list.map filter_append) simp
  then show ?thesis using assms(1) by (simp add: slot_ok_def)
qed

lemma claim_in: "k < length ts \<Longrightarrow> task_claim (ts ! k) \<in> set (claims ts fs)"
  by (simp add: claims_def)

lemma drop_claims: "k < length ts \<Longrightarrow> mset (claims (take k ts @ drop (Suc k) ts) fs) + {#task_claim (ts ! k)#} = mset (claims ts fs)"
proof -
  assume "k < length ts"
  then have "ts = take k ts @ ts ! k # drop (Suc k) ts" by (rule id_take_nth_drop)
  then have "mset (claims ts fs) = mset (claims (take k ts @ ts ! k # drop (Suc k) ts) fs)" by (rule arg_cong)
  then show ?thesis unfolding claims_def by (simp only: map_append list.map mset_append) simp
qed

lemma list_all_update:
  assumes "\<And>j. j < length ts \<Longrightarrow> j \<noteq> k \<Longrightarrow> P (ts ! j)" "k < length ts \<Longrightarrow> P t"
  shows "list_all P (ts[k := t])"
  unfolding list_all_length
proof (intro allI impI)
  fix n assume "n < length (ts[k := t])"
  then show "P (ts[k := t] ! n)" using assms by (cases "n = k") simp_all
qed

lemma task_ok_out: "task_claim t \<noteq> ot_ID r \<Longrightarrow> task_ok broken (fs @ [MOutF r]) t = task_ok broken fs t"
  by (cases t) auto

lemma other_claim:
  assumes "ids_ok ts fs hi" "j < length ts" "k < length ts" "j \<noteq> k"
  shows "task_claim (ts ! j) \<noteq> task_claim (ts ! k)"
proof -
  have "distinct (map task_claim ts)" using assms(1) by (simp add: ids_ok_def claims_def)
  then show ?thesis using assms(2-4) by (metis length_map nth_eq_iff_index_eq nth_map)
qed

lemma ok_only_writes: "only_writes m m' [] \<Longrightarrow> mon_ok m \<Longrightarrow> mon_ok m'"
  unfolding mon_ok_def only_writes_def list_all_iff by (metis append_Nil2 task_ok_broken)

lemma tasks_set_task [simp]: "tasks (set_task k t m) = (tasks m)[k := t]"
  by (simp add: set_task_def map_update)

lemma set_task_sel [simp]:
  "mn_out (set_task k t m) = mn_out m" "mn_last (set_task k t m) = mn_last m" "mn_inflight (set_task k t m) = mn_inflight m"
  "mn_broken (set_task k t m) = mn_broken m"
  by (simp_all add: set_task_def)

lemma has_task_tasks: "has_task m k c t \<Longrightarrow> k < length (tasks m) \<and> tasks m ! k = t"
  by (simp add: has_task_def)

lemma ok_set_task:
  assumes "mon_ok m" "has_task m k c t" "only_writes m m' []" "task_id t' = task_id t" "task_claim t' = task_claim t"
    "task_ok (mn_broken m') (mn_out m) t'"
  shows "mon_ok (set_task k t' m')"
proof -
  have m': "mon_ok m'" by (rule ok_only_writes [OF assms(3,1)])
  have e: "tasks m' = tasks m" "mn_out m' = mn_out m" using assms(3) by (simp_all add: only_writes_def)
  have h: "k < length (tasks m')" "tasks m' ! k = t" using has_task_tasks [OF assms(2)] e by simp_all
  have "slot_ok ((tasks m')[k := t']) (mn_inflight m')" "ids_ok ((tasks m')[k := t']) (mn_out m') (mn_last m')"
    using update_task [of "tasks m'" "mn_inflight m'" "mn_out m'" "mn_last m'" k t'] m' h assms(4,5) by (simp_all add: mon_ok_def)
  moreover have "list_all (task_ok (mn_broken m') (mn_out m')) ((tasks m')[k := t'])"
    by (rule list_all_update) (use m' assms(6) e in \<open>simp_all add: mon_ok_def list_all_length\<close>)
  ultimately show ?thesis using m' by (simp add: mon_ok_def)
qed

lemma ok_out:
  assumes "mon_ok m" "has_task m k c t" "only_writes m m' [MOutF r]" "task_id t' = task_id t" "task_claim t' = task_id t" "task_claim t = task_id t"
    "ot_ID r = task_id t" "task_ok (mn_broken m') (mn_out m @ [MOutF r]) t'" "good_outs (outs (ot_ID r) (mn_out m) @ [r])"
  shows "mon_ok (set_task k t' m')"
proof -
  have e: "tasks m' = tasks m" "mn_out m' = mn_out m @ [MOutF r]" "mn_last m' = mn_last m" "mn_inflight m' = mn_inflight m"
    "mn_broken m \<longrightarrow> mn_broken m'" "length (mframe_payload (MOutF r)) \<le> MaxMonitorFrame"
    using assms(3) by (simp_all add: only_writes_def)
  have h: "k < length (tasks m)" "tasks m ! k = t" using has_task_tasks [OF assms(2)] by simp_all
  have ids: "ids_ok (tasks m) (mn_out m) (mn_last m)" using assms(1) by (simp add: mon_ok_def)
  have "task_claim t \<in> set (claims (tasks m) (mn_out m))" using claim_in [of k "tasks m"] h by simp
  then have r: "ot_ID r \<noteq> 0 \<and> ot_ID r \<le> mn_last m" using ids assms(6,7) by (simp add: ids_ok_def)
  have "slot_ok ((tasks m)[k := t']) (mn_inflight m)" "ids_ok ((tasks m)[k := t']) (mn_out m) (mn_last m)"
    using update_task [of "tasks m" "mn_inflight m" "mn_out m" "mn_last m" k t'] assms h by (simp_all add: mon_ok_def)
  moreover have "claims ts (mn_out m @ [MOutF r]) = claims ts (mn_out m)" for ts by (simp add: claims_def)
  ultimately have "slot_ok ((tasks m)[k := t']) (mn_inflight m)" "ids_ok ((tasks m)[k := t']) (mn_out m @ [MOutF r]) (mn_last m)"
    using r by (auto simp: ids_ok_def)
  moreover have "list_all (task_ok (mn_broken m') (mn_out m @ [MOutF r])) ((tasks m)[k := t'])"
  proof (rule list_all_update)
    fix j assume j: "j < length (tasks m)" "j \<noteq> k"
    have "task_ok (mn_broken m) (mn_out m) (tasks m ! j)" using assms(1) j by (simp add: mon_ok_def list_all_length)
    moreover have "task_claim (tasks m ! j) \<noteq> ot_ID r" using other_claim [OF ids j(1) h(1) j(2)] h assms(6,7) by simp
    ultimately show "task_ok (mn_broken m') (mn_out m @ [MOutF r]) (tasks m ! j)"
      using task_ok_broken e(5) by (simp add: task_ok_out)
  qed (use assms(8) in simp)
  moreover have "good_outs (outs i (mn_out m @ [MOutF r]))" for i
    using assms(1,9) by (cases "ot_ID r = i") (auto simp: mon_ok_def)
  ultimately show ?thesis using assms(1) e by (simp add: mon_ok_def)
qed

lemma out_send_cases:
  assumes "out_send works i st data ow m = (ow', m')"
  obtains (sent) "only_writes m m' [MOutF \<lparr>ot_ID = i, ot_Seq = ow_seq ow + 1, ot_Stream = st, ot_Data = data\<rparr>]"
      "ow' = ow\<lparr>ow_seq := ow_seq ow + 1\<rparr>"
  | (lost) "only_writes m m' []" "mn_broken m'" "ow' = ow\<lparr>ow_seq := ow_seq ow + 1, ow_broken := True\<rparr>"
proof -
  let ?f = "MOutF \<lparr>ot_ID = i, ot_Seq = ow_seq ow + 1, ot_Stream = st, ot_Data = data\<rparr>"
  obtain ok m1 where w: "mon_write works ?f m = (ok, m1)" by fastforce
  note o = mon_write_only [OF w]
  show thesis
    using assms w o sent lost by (cases ok) (auto simp: out_send_def Let_def)
qed

lemma good_snoc:
  assumes "good_outs rs" "chunk_ok r" "ot_Seq r = of_nat (length rs) + 1" "out_total rs + length (ot_Data r) \<le> MaxMonitorRunOutput + length MonitorRunTruncated"
  shows "good_outs (rs @ [r])"
  using assms by (simp add: good_outs_def in_order_snoc)

lemma ok_running:
  assumes "mon_ok m" "has_task m k c (TRunning i d ps ow code e)"
  shows "i \<noteq> 0" "i \<le> mn_last m" "valid_utf8 d" "task_ok (mn_broken m) (mn_out m) (TRunning i d ps ow code e)" "good_outs (outs i (mn_out m))"
proof -
  note h = has_task_tasks [OF assms(2)]
  have "i \<in> set (claims (tasks m) (mn_out m))" using claim_in [of k "tasks m"] h by simp
  then show "i \<noteq> 0" "i \<le> mn_last m" using assms(1) by (simp_all add: mon_ok_def ids_ok_def)
  show t: "task_ok (mn_broken m) (mn_out m) (TRunning i d ps ow code e)" using assms(1) h by (metis mon_ok_def list_all_length)
  then show "valid_utf8 d" by simp
  show "good_outs (outs i (mn_out m))" using assms(1) by (simp add: mon_ok_def)
qed

lemma truncated_length: "length MonitorRunTruncated \<le> MaxMonitorOutChunk" "MonitorRunTruncated \<noteq> []"
  by (simp_all add: MonitorRunTruncated_def MaxMonitorOutChunk_def)

lemma ok_emit:
  assumes "mon_ok m" "has_task m k c (TRunning i d (p # ps) ow code e)" "emit_round works i (p # ps) ow m = (ps', ow', m')"
  shows "mon_ok (set_task k (TRunning i d ps' ow' code e) m')"
proof -
  note r = ok_running [OF assms(1,2)]
  obtain st q where p: "p = (st, q)" by fastforce
  consider (drop) "ps' = ps" "ow' = ow" "m' = m" | (cut) "ps' = ps" "ow' = ow\<lparr>ow_truncated := True\<rparr>" "m' = m"
    | (send) n ow1 where "q \<noteq> []" "\<not> ow_broken ow" "ow_total ow < MaxMonitorRunOutput" "n = min (min (length q) MaxMonitorOutChunk) (MaxMonitorRunOutput - ow_total ow)"
        "out_send works i st (take n q) ow m = (ow1, m')" "ps' = (st, drop n q) # ps" "ow' = ow1\<lparr>ow_total := ow_total ow1 + n\<rparr>"
  proof (cases "q = [] \<or> ow_broken ow")
    case True
    then show thesis using drop assms(3) by (simp add: emit_round_def p)
  next
    case False
    show thesis
    proof (cases "MaxMonitorRunOutput \<le> ow_total ow")
      case True
      then show thesis using cut False assms(3) by (simp add: emit_round_def p)
    next
      case room: False
      let ?n = "min (min (length q) MaxMonitorOutChunk) (MaxMonitorRunOutput - ow_total ow)"
      obtain ow1 m1 where o: "out_send works i st (take ?n q) ow m = (ow1, m1)" by fastforce
      then have "ps' = (st, drop ?n q) # ps \<and> ow' = ow1\<lparr>ow_total := ow_total ow1 + ?n\<rparr> \<and> m' = m1"
        using assms(3) False room unfolding emit_round_def p by (simp only: list.case prod.case if_False Let_def simp_thms) simp
      then show thesis using send [of ?n ow1] False room o by simp
    qed
  qed
  then show ?thesis
  proof cases
    case drop
    show ?thesis unfolding drop by (rule ok_set_task [OF assms(1,2) only_writes_Nil(6)]) (use r(4) in auto)
  next
    case cut
    show ?thesis unfolding cut by (rule ok_set_task [OF assms(1,2) only_writes_Nil(6)]) (use r(4) in auto)
  next
    case send
    have n: "0 < n" "n \<le> length q" "n \<le> MaxMonitorOutChunk" "n \<le> MaxMonitorRunOutput - ow_total ow"
      using send(1,3,4) by (auto simp: MaxMonitorOutChunk_def)
    have st: "st \<in> {MonitorStreamStdout, MonitorStreamStderr}" using r(4) by (simp add: p)
    have o: "ow_seq ow = of_nat (length (outs i (mn_out m)))" "ow_total ow = out_total (outs i (mn_out m))"
      using r(4) send(2) by simp_all
    have t: "out_total (outs i (mn_out m)) + n \<le> MaxMonitorRunOutput" "length (take n q) = n" using n send(3) o(2) by simp_all
    show ?thesis using send(5)
    proof (cases rule: out_send_cases)
      case sent
      let ?r = "\<lparr>ot_ID = i, ot_Seq = ow_seq ow + 1, ot_Stream = st, ot_Data = take n q\<rparr>"
      have g: "good_outs (outs i (mn_out m) @ [?r])"
        by (rule good_snoc [OF r(5)]) (use n st o send(3) in \<open>auto simp: chunk_ok_def\<close>)
      show ?thesis
        by (rule ok_out [OF assms(1,2) sent(1)]) (use r(4) g t o send(2,6,7) sent(2) in \<open>auto simp: p\<close>)
    next
      case lost
      show ?thesis by (rule ok_set_task [OF assms(1,2) lost(1)]) (use r(4) send lost in \<open>auto simp: p\<close>)
    qed
  qed
qed

lemma ok_finish:
  assumes "mon_ok m" "has_task m k c (TRunning i d [] ow code e)" "finish_run works i d ow code e m = (t, m')"
  shows "mon_ok (set_task k t m')"
proof -
  note r = ok_running [OF assms(1,2)]
  have x: "answer_id (run_exit i d code e) = i" "exit_ok (run_exit i d code e)"
    using r(3) by (simp_all add: run_exit_def Let_def)
  consider (quiet) "t = TDone i (run_exit i d code e)" "m' = m"
    | (mark) ow1 where "\<not> ow_broken ow" "out_send works i MonitorStreamStderr MonitorRunTruncated ow m = (ow1, m')" "t = TDone i (run_exit i d code e)"
    using assms(3) by (auto simp: finish_run_def split: if_splits prod.splits)
  then show ?thesis
  proof cases
    case quiet
    show ?thesis unfolding quiet by (rule ok_set_task [OF assms(1,2) only_writes_Nil(6)]) (use x in auto)
  next
    case mark
    have o: "ow_seq ow = of_nat (length (outs i (mn_out m)))" "ow_total ow = out_total (outs i (mn_out m))" "ow_total ow \<le> MaxMonitorRunOutput"
      using r(4) mark(1) by simp_all
    show ?thesis using mark(2)
    proof (cases rule: out_send_cases)
      case sent
      let ?r = "\<lparr>ot_ID = i, ot_Seq = ow_seq ow + 1, ot_Stream = MonitorStreamStderr, ot_Data = MonitorRunTruncated\<rparr>"
      have g: "good_outs (outs i (mn_out m) @ [?r])"
        by (rule good_snoc [OF r(5)]) (use o truncated_length in \<open>auto simp: chunk_ok_def\<close>)
      show ?thesis unfolding mark(3) by (rule ok_out [OF assms(1,2) sent(1)]) (use g x in auto)
    next
      case lost
      show ?thesis unfolding mark(3) by (rule ok_set_task [OF assms(1,2) lost(1)]) (use x in auto)
    qed
  qed
qed

lemma start_run_task:
  assumes "start_run env genv call c r w = (Some (t, evs), w')"
  shows "task_id t = rq_ID r" "task_claim t = task_id t" "outs (rq_ID r) fs = [] \<Longrightarrow> task_ok broken fs t"
  using assms digest_valid(2)
  by (auto simp: start_run_def call_run_def run_failure_def run_digest_def run_pending_def
      split: if_splits option.splits prod.splits sum.splits)

lemma ok_release:
  assumes "mon_ok m" "has_task m k c (TDone i f)"
  shows "mon_ok (set_task k (TReply f) (mon_end i m))"
proof -
  note h = has_task_tasks [OF assms(2)]
  have t: "answer_id f = i" "exit_ok f" using assms(1) h by (metis mon_ok_def list_all_length task_ok.simps(4))+
  have "i \<in> set (claims (tasks m) (mn_out m))" using claim_in [of k "tasks m"] h by simp
  then have i: "i \<noteq> 0" using assms(1) by (simp add: mon_ok_def ids_ok_def)
  have s: "slot_ok (tasks m) (mn_inflight m)" using assms(1) by (simp add: mon_ok_def)
  have e: "mn_inflight m = i" using in_live [OF s conjunct1 [OF h], unfolded conjunct2 [OF h]] i by simp
  have ts: "tasks (mon_end i m) = tasks m" "mn_out (mon_end i m) = mn_out m" "mn_last (mon_end i m) = mn_last m"
    "mn_inflight (mon_end i m) = 0" "mn_broken (mon_end i m) = mn_broken m" using e by (simp_all add: mon_end_def)
  have "slot_ok ((tasks m)[k := TReply f]) 0" using release_slot [OF s conjunct1 [OF h], unfolded conjunct2 [OF h]] i by simp
  moreover have "ids_ok ((tasks m)[k := TReply f]) (mn_out m) (mn_last m)"
  proof -
    have "map task_claim ((tasks m)[k := TReply f]) = map task_claim (tasks m)"
      by (rule map_update_same) (use h t in auto)
    then have "claims ((tasks m)[k := TReply f]) (mn_out m) = claims (tasks m) (mn_out m)" unfolding claims_def by (rule arg_cong)
    moreover have "ids_ok (tasks m) (mn_out m) (mn_last m)" using assms(1) by (simp add: mon_ok_def)
    ultimately show ?thesis unfolding ids_ok_def by simp
  qed
  moreover have "list_all (task_ok (mn_broken m) (mn_out m)) ((tasks m)[k := TReply f])"
    by (rule list_all_update) (use assms(1) t i in \<open>simp_all add: mon_ok_def list_all_length\<close>)
  ultimately show ?thesis using assms(1) ts by (simp add: mon_ok_def)
qed

lemma claims_answer:
  assumes "answer_id f \<noteq> 0"
  shows "mset (claims ts (fs @ [f])) = mset (claims ts fs) + {#answer_id f#}"
  using assms by (simp add: claims_def)

lemma answer_no_outs: "answer_id f \<noteq> 0 \<Longrightarrow> outs i [f] = []"
  by (cases f) auto

lemma task_of_ok: "mon_ok m \<Longrightarrow> x \<in> set (tasks m) \<Longrightarrow> task_ok (mn_broken m) (mn_out m) x"
  unfolding mon_ok_def list_all_iff by blast

lemma task_ok_add:
  assumes "task_ok b fs x" "b \<longrightarrow> b'" "fs' = fs @ (if ok then [f] else [])" "answer_id f \<noteq> 0"
  shows "task_ok b' fs' x"
proof -
  have x: "task_ok b' fs x" using task_ok_broken [OF assms(1,2)] .
  show ?thesis
  proof (cases ok)
    case True
    then show ?thesis using task_ok_answer [of f b' fs x] x answer_no_outs [OF assms(4)] assms(3,4) by simp
  qed (use x assms(3) in simp)
qed

lemma ok_reply:
  assumes "mon_ok m" "has_task m k c (TReply f)" "mon_write works f m = (ok, m')"
  shows "mon_ok (drop_task k m')"
proof -
  note h = has_task_tasks [OF assms(2)]
  have t: "answer_id f \<noteq> 0" "exit_ok f" using assms(1) h by (metis mon_ok_def list_all_length task_ok.simps(5))+
  have w: "tasks m' = tasks m" "mn_out m' = mn_out m @ (if ok then [f] else [])" "mn_last m' = mn_last m" "mn_inflight m' = mn_inflight m"
    "mn_broken m \<longrightarrow> mn_broken m'" "ok \<Longrightarrow> length (mframe_payload f) \<le> MaxMonitorFrame"
    using mon_write_only [OF assms(3)] by (auto simp: only_writes_def)
  let ?ts = "take k (tasks m) @ drop (Suc k) (tasks m)"
  have "tasks (drop_task k m') = take k (tasks m') @ drop (Suc k) (tasks m')" by (simp add: drop_task_def take_map drop_map)
  then have d: "tasks (drop_task k m') = ?ts" unfolding w(1) .
  have "slot_ok ?ts (mn_inflight m)" using drop_reply assms(1) h by (simp add: mon_ok_def)
  moreover have "ids_ok ?ts (mn_out m') (mn_last m)"
  proof (rule ids_sub)
    show "ids_ok (tasks m) (mn_out m) (mn_last m)" using assms(1) by (simp add: mon_ok_def)
    have "mset (claims ?ts (mn_out m')) \<subseteq># mset (claims ?ts (mn_out m)) + {#answer_id f#}"
      using w(2) claims_answer [OF t(1)] by (cases ok) simp_all
    then show "mset (claims ?ts (mn_out m')) \<subseteq># mset (claims (tasks m) (mn_out m))"
      using drop_claims [of k "tasks m" "mn_out m"] h by simp
    show "\<forall>r. MOutF r \<in> set (mn_out m') \<longrightarrow> MOutF r \<in> set (mn_out m) \<or> ot_ID r \<noteq> 0 \<and> ot_ID r \<le> mn_last m"
      using w(2) t(1) by (auto split: if_splits)
  qed
  moreover have "list_all (task_ok (mn_broken m') (mn_out m')) ?ts"
  proof -
    have "task_ok (mn_broken m') (mn_out m') x" if x: "x \<in> set (tasks m)" for x
      by (rule task_ok_add [OF task_of_ok [OF assms(1) x] w(5,2) t(1)])
    then show ?thesis by (auto simp: list_all_iff dest: in_set_takeD in_set_dropD)
  qed
  moreover have "good_outs (outs i (mn_out m'))" for i
    using assms(1) w(2) answer_no_outs [OF t(1)] by (simp add: mon_ok_def)
  ultimately show ?thesis using assms(1) w t d by (auto simp: mon_ok_def drop_task_def split: if_splits)
qed

lemma next_id: "i = hi + 1 \<Longrightarrow> i \<noteq> 0 \<Longrightarrow> j \<le> hi \<Longrightarrow> (j :: u64) < i"
  by (simp add: word_less_nat_alt word_le_nat_alt unatSuc add.commute)

lemma ids_new:
  assumes "ids_ok ts fs hi" "hi = 0 \<or> i = hi + 1" "i \<noteq> 0"
  shows "i \<notin> set (claims ts fs)" "ids_ok ts fs i" "\<forall>r. MOutF r \<in> set fs \<longrightarrow> ot_ID r \<noteq> i"
proof -
  have l: "j < i" if "j \<noteq> 0" "j \<le> hi" for j using assms(2,3) that next_id [of i hi j] by auto
  show "i \<notin> set (claims ts fs)" "\<forall>r. MOutF r \<in> set fs \<longrightarrow> ot_ID r \<noteq> i" using assms(1) l unfolding ids_ok_def by blast+
  show "ids_ok ts fs i" using assms(1) l unfolding ids_ok_def by (meson order_less_imp_le)
qed

lemma ok_accept:
  assumes "mon_ok m" "i \<noteq> 0" "task_id t = i" "task_claim t = i" "\<And>fs broken. outs i fs = [] \<Longrightarrow> task_ok broken fs t"
    "answer_id busy = i" "exit_ok busy"
  shows "mon_ok (accept_request works now i t busy m)"
proof (cases rule: accept_cases [of m i works now t busy])
  case close
  then show ?thesis using ok_only_writes [OF only_writes_Nil(2) assms(1)] by simp
next
  case (busy ok m')
  have ids: "ids_ok (tasks m) (mn_out m) (mn_last m)" using assms(1) by (simp add: mon_ok_def)
  note n = ids_new [OF ids busy(1) assms(2)]
  have w: "tasks m' = tasks m" "mn_out m' = mn_out m @ (if ok then [busy] else [])" "mn_last m' = i" "mn_inflight m' = mn_inflight m"
    "mn_broken m \<longrightarrow> mn_broken m'" "ok \<Longrightarrow> length (mframe_payload busy) \<le> MaxMonitorFrame"
    using mon_write_only [OF busy(3)] by (auto simp: only_writes_def)
  have "ids_ok (tasks m) (mn_out m') i"
  proof (cases ok)
    case True
    have q: "mset (claims (tasks m) (mn_out m')) = mset (i # claims (tasks m) (mn_out m))"
      using claims_answer [of busy "tasks m" "mn_out m"] w(2) True assms(2,6) by simp
    have "distinct (i # claims (tasks m) (mn_out m))" using n(1,2) by (simp add: ids_ok_def)
    then have "distinct (claims (tasks m) (mn_out m'))" using mset_eq_imp_distinct_iff [OF q] by blast
    moreover have "set (claims (tasks m) (mn_out m')) = insert i (set (claims (tasks m) (mn_out m)))" using mset_eq_setD [OF q] by simp
    moreover have "MOutF r \<in> set (mn_out m') \<longrightarrow> MOutF r \<in> set (mn_out m)" for r using w(2) True assms(2,6) by auto
    ultimately show ?thesis using n(2) assms(2) unfolding ids_ok_def by auto
  qed (use n w in simp)
  moreover have "list_all (task_ok (mn_broken m') (mn_out m')) (tasks m)"
    unfolding list_all_iff using task_ok_add [OF task_of_ok [OF assms(1)] w(5,2)] assms(2,6) by blast
  moreover have "good_outs (outs j (mn_out m'))" for j
    using assms(1,2,6) w(2) answer_no_outs [of busy] by (simp add: mon_ok_def)
  moreover have "\<forall>f \<in> set (mn_out m'). length (mframe_payload f) \<le> MaxMonitorFrame \<and> exit_ok f"
    unfolding w(2) using assms(1,7) w(6) by (cases ok) (simp_all add: mon_ok_def)
  moreover have "slot_ok (tasks m) (mn_inflight m)" using assms(1) unfolding mon_ok_def by blast
  ultimately have "mon_ok m'" unfolding mon_ok_def w(1,3,4) by blast
  then show ?thesis using busy(4) ok_only_writes [OF only_writes_Nil(2)] by simp
next
  case (start c e)
  have ids: "ids_ok (tasks m) (mn_out m) (mn_last m)" using assms(1) by (simp add: mon_ok_def)
  note n = ids_new [OF ids start(1) assms(2)]
  let ?m = "m\<lparr>mn_last := i, mn_inflight := i, mn_early := e, mn_tasks := mn_tasks m @ [(c, t)]\<rparr>"
  have sl: "slot_ok (tasks m) 0" using assms(1) start(2) unfolding mon_ok_def by metis
  have ts: "tasks ?m = tasks m @ [t]" by simp
  have "slot_ok (tasks m @ [t]) i" using sl assms(2,3) by (simp add: slot_ok_def live_ids_def)
  moreover have "ids_ok (tasks m @ [t]) (mn_out m) i"
  proof -
    have q: "claims (tasks m @ [t]) (mn_out m) = claims (tasks m) (mn_out m) @ [i]" using assms(4) by (simp add: claims_def)
    show ?thesis using n(1,2) assms(2) unfolding ids_ok_def q by simp
  qed
  moreover have "list_all (task_ok (mn_broken m) (mn_out m)) (tasks m @ [t])"
    using assms(1,5) outs_fresh [OF n(3)] by (simp add: mon_ok_def)
  moreover have "(\<forall>i. good_outs (outs i (mn_out m))) \<and> (\<forall>f \<in> set (mn_out m). length (mframe_payload f) \<le> MaxMonitorFrame \<and> exit_ok f)"
    using assms(1) unfolding mon_ok_def by blast
  ultimately have "mon_ok ?m" unfolding mon_ok_def ts by simp
  then show ?thesis unfolding start(3) .
qed

lemma ok_task: "mon_ok m \<Longrightarrow> has_task m k c t \<Longrightarrow> task_ok (mn_broken m) (mn_out m) t"
  using has_task_tasks [of m k c t] task_of_ok [of m t] by (metis nth_mem)

lemma ok_ping:
  assumes "mon_ok m" "only_writes m m' (if ok then [MPing] else []) \<and> (\<not> ok \<longrightarrow> mn_broken m')"
  shows "mon_ok m'"
proof (cases ok)
  case True
  have w: "tasks m' = tasks m" "mn_out m' = mn_out m @ [MPing]" "mn_last m' = mn_last m" "mn_inflight m' = mn_inflight m"
    "mn_broken m \<longrightarrow> mn_broken m'" using assms(2) True by (simp_all add: only_writes_def)
  have "task_ok (mn_broken m') (mn_out m @ [MPing]) x" if "x \<in> set (tasks m)" for x
    using task_ok_broken [OF task_of_ok [OF assms(1) that] w(5)] task_ok_answer [of MPing] by simp
  moreover have "claims (tasks m) (mn_out m @ [MPing]) = claims (tasks m) (mn_out m)" by (simp add: claims_def)
  then have "ids_ok (tasks m) (mn_out m @ [MPing]) (mn_last m)" using assms(1) unfolding mon_ok_def ids_ok_def by simp
  ultimately show ?thesis using assms(1) unfolding mon_ok_def w list_all_iff by simp
next
  case False
  then show ?thesis using assms ok_only_writes [of m m'] by simp
qed

lemma run_digest_valid: "valid_utf8 (run_digest r)"
  by (simp add: run_digest_def digest_valid)

lemma ok_serve: "mon_ok m \<Longrightarrow> mon_ok (serve_frame works now ty payload m)"
proof (cases rule: serve_cases [of works now ty payload m])
  case close
  assume "mon_ok m"
  then show ?thesis unfolding close by (rule ok_only_writes [OF only_writes_Nil(2)])
next
  case (ping ok m')
  assume "mon_ok m"
  then have "mon_ok m'" using mon_write_only [OF ping(1)] ok_ping by blast
  then show ?thesis using ping(2) ok_only_writes [OF only_writes_Nil(2)] by simp
next
  case (cancel i)
  assume "mon_ok m"
  then show ?thesis unfolding cancel(2) by (rule ok_only_writes [OF only_writes_Nil(3)])
next
  case (auth r)
  assume m: "mon_ok m"
  show ?thesis unfolding auth(3) by (rule ok_accept [OF m auth(1)]) (simp_all add: busy_response_def)
next
  case (run r)
  assume m: "mon_ok m"
  show ?thesis unfolding run(3) by (rule ok_accept [OF m run(1)]) (use run_digest_valid in \<open>simp_all add: busy_exit_def\<close>)
qed

lemma ok_local:
  assumes "mon_local env m m'" "mon_ok m"
  shows "mon_ok m'"
  using assms(1)
proof (cases rule: mon_local.cases)
  case read_error
  then show ?thesis using ok_only_writes [OF only_writes_Nil(2) assms(2)] by simp
next
  case (others w)
  then show ?thesis using ok_only_writes [OF only_writes_Nil(5) assms(2)] by simp
next
  case (authorize k c i args e w)
  show ?thesis unfolding authorize(1)
    by (rule ok_set_task [OF assms(2) authorize(2) only_writes_Nil(4)]) (simp_all add: auth_answer_def)
next
  case (run k c r t evs w)
  note t = start_run_task [OF run(3)]
  have "task_ok (mn_broken m) (mn_out m) (TRun r)" using ok_task [OF assms(2) run(2)] .
  then have "task_ok (mn_broken (note_call w evs m)) (mn_out m) t" using t(3) by simp
  then show ?thesis unfolding run(1)
    by (rule ok_set_task [OF assms(2) run(2) only_writes_Nil(4), rotated -1]) (use t in simp_all)
next
  case (emit k c i d p ps ow code e works ps' ow' m1)
  then show ?thesis using ok_emit [OF assms(2)] by blast
next
  case (finish k c i d ow code e works t m1)
  then show ?thesis using ok_finish [OF assms(2)] by blast
next
  case (release k c i f)
  then show ?thesis using ok_release [OF assms(2)] by blast
next
  case (reply k c f works ok m1)
  then show ?thesis using ok_reply [OF assms(2)] by blast
qed

lemma ok_step: "mon_step env m m' \<Longrightarrow> mon_ok m \<Longrightarrow> mon_ok m'"
  by (erule mon_step.cases) (auto intro: ok_serve ok_local)

lemma ok_start: "mon_ok (mon_start w)"
  by (simp add: mon_start_def mon_ok_def slot_ok_def live_ids_def ids_ok_def claims_def good_outs_def out_total_def)

lemma reach_ok: "mon_reach env m \<Longrightarrow> mon_ok m"
  by (induction rule: mon_reach.induct) (blast intro: ok_start ok_step)+

end
