(* ===== verification/GateExample.thy ===== *)
theory GateExample
  imports Gate
begin

text \<open>
  An example the witnesses share: an engine with one registered session of root, no entitlements, rules or
  policy, and a healthy ledger. The gate lets every short plain command of it run.
\<close>

definition mx_world :: world where
  "mx_world = gx_world\<lparr>wo_engine := gx_engine\<lparr>en_reg :=
     \<lparr>globalSessions = [(''s1'', demo_session\<lparr>sess_User := ''root''\<rparr>)], sessionCap = 8, sessionCapRefuse = False\<rparr>\<rparr>\<rparr>"

lemma mx_session: "GetSession (en_reg (wo_engine mx_world)) ''s1'' = Some (demo_session\<lparr>sess_User := ''root''\<rparr>)"
  by (simp add: mx_world_def GetSession_def)

text \<open>A short command word of plain characters, which an example ledger takes.\<close>

definition plain_word :: "string \<Rightarrow> bool" where
  "plain_word cmd \<longleftrightarrow> list_all (\<lambda>c. byte c < 0x80 \<and> esc_byte c = [c]) cmd \<and> length cmd \<le> 100 \<and> CHR 0x00 \<notin> set cmd"

lemma mx_good:
  assumes "plain_word cmd"
  shows "good_append demo_cfg (li_chain ex_io, zero_entry\<lparr>ce_Type := ''cmd'', ce_Source := ''BASH'', ce_Command := cmd, ce_ChangeID := ''''\<rparr>)"
proof -
  have "valid_utf8 cmd" using assms by (intro valid_ascii) (auto simp: plain_word_def list_all_iff)
  then show ?thesis
    using assms json_body_plain [of cmd]
    by (simp add: plain_word_def good_append_def no_errors_def ex_io_def demo_cfg_def zero_entry_def stamp_entry_def valid_entry_def texts_fit_def
        body_texts_def valid_ascii json_body_plain esc_byte_def)
qed

lemma mx_logs:
  assumes "plain_word cmd"
  shows "\<exists>au1 au2. LogCommand (gv_log ex_env) ''BASH'' cmd (en_audit gx_engine) = (None, au1) \<and>
     LogPolicyDecisionDetail (gv_log ex_env) ''root'' cmd (no_decision\<lparr>pd_Allowed := True\<rparr>) au1 = (None, au2)"
proof -
  let ?c = "zero_entry\<lparr>ce_Type := ''cmd'', ce_Source := ''BASH'', ce_Command := cmd, ce_ChangeID := ''''\<rparr>"
  have r: "le_redact (gv_log ex_env) s = s" for s by (simp add: ex_env_def)
  have l0: "au_ledger (en_audit gx_engine) = Some (ledger_text [])" "au_cfg (en_audit gx_engine) = demo_cfg" "au_change (en_audit gx_engine) = ''''"
    by (simp_all add: gx_engine_def ledger_text_def ex_audit_def)
  obtain au1 where a1: "LogCommand (gv_log ex_env) ''BASH'' cmd (en_audit gx_engine) = (None, au1)" "au_cfg au1 = demo_cfg"
      "au_ledger au1 = Some (ledger_text [sealed (li_chain ex_io) demo_cfg ''k'' [] ?c])"
    using ex_log_both [OF _ l0(2,1)] l0(3) sinks_only_rules(1) by (fastforce simp: LogCommand_def Let_def r)
  have k: "linked ''k'' '''' 0 [sealed (li_chain ex_io) demo_cfg ''k'' [] ?c]"
    using sealed_linked [of "''k''" "[]", OF _ _ mx_good [OF assms]] by simp
  obtain au2 where "LogPolicyDecisionDetail (gv_log ex_env) ''root'' cmd (no_decision\<lparr>pd_Allowed := True\<rparr>) au1 = (None, au2)"
    using ex_log_both [OF _ a1(2,3) k] sinks_only_rules(1) by (fastforce simp: LogPolicyDecisionDetail_def Let_def)
  then show ?thesis using a1(1) by blast
qed

text \<open>A registered session of root runs any short plain command its restricted flag lets through.\<close>

lemma mx_gate:
  assumes p: "plain_word (join args '' '')" and n: "args \<noteq> []" "list_all (\<lambda>a. \<not> contains_byte a (CHR 0x00)) args"
    and r: "restricted \<Longrightarrow> CHR ''/'' \<notin> set (hd args) \<and> hd args \<noteq> ''cd'' \<and> hd args \<noteq> ''export''"
  shows "\<exists>w'. gateCommand gx_cfg ex_env restricted args ''s1'' mx_world = (Allow, w')"
proof -
  let ?cmd = "join args '' ''"
  obtain au1 au2 where l: "LogCommand (gv_log ex_env) ''BASH'' ?cmd (en_audit gx_engine) = (None, au1)"
      "LogPolicyDecisionDetail (gv_log ex_env) ''root'' ?cmd (no_decision\<lparr>pd_Allowed := True\<rparr>) au1 = (None, au2)" using mx_logs [OF p] by blast
  have d: "(no_decision\<lparr>pd_Allowed := True\<rparr>)\<lparr>pd_DenyReason := ''''\<rparr> = no_decision\<lparr>pd_Allowed := True\<rparr>" by (simp add: no_decision_def)
  let ?e = "wo_engine mx_world"
  let ?s = "demo_session\<lparr>sess_User := ''root''\<rparr>"
  have e: "en_query ?e = None" "\<not> hasEntitlements (en_ents ?e)" "en_cmDefault ?e = []" "en_cmPatterns ?e = []"
    "en_rules ?e = RulesMissing" "en_ids ?e = []" "en_audit ?e = en_audit gx_engine" "en_tickets ?e = en_tickets gx_engine"
    by (simp_all add: gx_plain gx_engine_def ex_engine_def mx_world_def gx_world_def hasEntitlements_def)
  have a: "addSessionClaims (gv_policy ex_env) ?s p = (p, ?s)" for p
    by (simp add: addSessionClaims_def ActiveElevation_def activeElevationLocked_def demo_session_def ManagedAgent_def Let_def)
  have g: "GetSession (en_reg ?e) ''s1'' = Some ?s" by (rule mx_session)
  have o: "on_session ''s1'' (\<lambda>_. ?s) (en_reg ?e) = en_reg ?e"
    by (simp add: on_session_def mx_world_def)
  have c: "\<exists>q. gate_context ex_env no_extra ''s1'' args (?e\<lparr>en_audit := a\<rparr>) = (q, ?e\<lparr>en_audit := a\<rparr>) \<and> pc_User q = ''root'' \<and> \<not> pc_IdentityUnknown q" for a
    using g by (simp add: gate_context_def buildPolicyContext_def no_extra_def base_context_def Let_def boundIdentity_def e(6) a o)
  have ck: "core_Check ex_env (?e\<lparr>en_audit := a\<rparr>) ''s1'' args = (Some None, ?e\<lparr>en_audit := a\<rparr>)" for a
    by (simp add: core_Check_def cm_defs e matchFourEyes_def LoadFourEyesRules_def Let_def)
  have ag: "agent_refusal ex_env (en_reg ?e) ''s1'' args = None"
    by (simp add: agent_refusal_def g ManagedAgent_def demo_session_def)
  have ct: "controllerTag (en_reg ?e) ''s1'' = ''''" by (simp add: controllerTag_def g demo_session_def)
  obtain q where q: "gate_context ex_env no_extra ''s1'' args (?e\<lparr>en_audit := au1\<rparr>) = (q, ?e\<lparr>en_audit := au1\<rparr>)"
    "pc_User q = ''root''" "\<not> pc_IdentityUnknown q" using c by blast
  have nul: "\<not> list_ex (\<lambda>a. CHR 0x00 \<in> set a) args" using n(2) by (auto simp: list_all_iff list_ex_iff)
  show ?thesis
    using n(1) r by (simp add: nul gateCommand_def gateCommandContext_def gx_cfg_def RemoteGateProcess_def gate_run_defs ag ct l q
        EvaluatePolicyDecision_def e d currentApprovalGate_def currentAdminPlaneGate_def ck)
qed

lemma mx_allows:
  assumes "plain_word cmd"
  shows "\<exists>w'. AuthorizeCommand gx_cfg ex_env [cmd] ''s1'' mx_world = (Allow, w')"
  using mx_gate [of "[cmd]" False] assms
  by (simp add: AuthorizeCommand_def plain_word_def mx_world_def gx_engine_def ex_engine_def)

end
