(* ===== verification/MonitorRun.thy ===== *)
theory MonitorRun
  imports Monitor GateExample
begin

text \<open>
  The two ends of the monitor socket together: what the listener writes for a request is what its client reads.
  Properties of \<^verbatim>\<open>ServeSSHMonitorRun\<close>: every answer was gated, one request at a time, output in order
  and bounded.
\<close>

section \<open>A client reads what a run wrote\<close>

definition chunk_write :: "mon_out \<Rightarrow> int \<times> string" where
  "chunk_write r = (ot_Stream r, ot_Data r)"

lemma run_loop_out:
  assumes "chunk_ok r" "length (marshal_out r) \<le> MaxMonitorFrame" "ot_ID r = i" "ot_Seq r = sq + 1"
    "tot + length (ot_Data r) \<le> MaxMonitorRunOutput + length MonitorRunTruncated"
  shows "run_loop i d sq tot ws (mframe_bytes (MOutF r) @ rest) = run_loop i d (sq + 1) (tot + length (ot_Data r)) (ws @ [chunk_write r]) rest"
proof -
  have c: "ot_Data r \<noteq> []" "length (ot_Data r) \<le> MaxMonitorOutChunk" "ot_Stream r \<in> {MonitorStreamStdout, MonitorStreamStderr}"
    using assms(1) by (simp_all add: chunk_ok_def)
  have "ReadMonitorFrame (mframe_bytes (MOutF r) @ rest) = (Inr (FrameOut, marshal_out r), rest)"
    using read_frame_bytes [OF assms(2)] by (simp add: mframe_bytes_def)
  moreover have "chunk_write r = (if ot_Stream r = MonitorStreamStderr then MonitorStreamStderr else MonitorStreamStdout, ot_Data r)"
    using c(3) by (auto simp: chunk_write_def)
  ultimately show ?thesis
    using out_roundtrip [OF c(3,1,2)] assms(3-5) by (subst run_loop.simps) (simp add: Let_def)
qed

lemma run_loop_outs:
  assumes "list_all chunk_ok rs" "\<forall>r \<in> set rs. length (marshal_out r) \<le> MaxMonitorFrame \<and> ot_ID r = i" "in_order (sq + 1) rs"
    "tot + out_total rs \<le> MaxMonitorRunOutput + length MonitorRunTruncated"
  shows "run_loop i d sq tot ws (concat (map (\<lambda>r. mframe_bytes (MOutF r)) rs) @ rest) =
    run_loop i d (sq + of_nat (length rs)) (tot + out_total rs) (ws @ map chunk_write rs) rest"
  using assms
proof (induction rs arbitrary: sq tot ws)
  case (Cons r rs)
  have t: "out_total (r # rs) = length (ot_Data r) + out_total rs" by (simp add: out_total_def)
  have "run_loop i d sq tot ws (mframe_bytes (MOutF r) @ concat (map (\<lambda>r. mframe_bytes (MOutF r)) rs) @ rest) =
      run_loop i d (sq + 1) (tot + length (ot_Data r)) (ws @ [chunk_write r]) (concat (map (\<lambda>r. mframe_bytes (MOutF r)) rs) @ rest)"
    by (rule run_loop_out) (use Cons.prems t in simp_all)
  also have "\<dots> = run_loop i d (sq + 1 + of_nat (length rs)) (tot + length (ot_Data r) + out_total rs) ((ws @ [chunk_write r]) @ map chunk_write rs) rest"
    by (rule Cons.IH) (use Cons.prems t in simp_all)
  finally show ?case using t by (simp add: algebra_simps)
qed (simp add: out_total_def)

lemma run_loop_exit:
  assumes "exit_ok (MExitF x)" "valid_utf8 (ex_Error x)" "length (marshal_exit x) \<le> MaxMonitorFrame"
  shows "run_loop (ex_ID x) (ex_Digest x) sq tot ws (mframe_bytes (MExitF x) @ rest) =
    \<lparr>rs_code = ex_Code x, rs_err = (if ex_Error x \<noteq> '''' then Some (MERemote (ex_Error x)) else None), rs_broken = False,
     rs_writes = ws, rs_in = rest\<rparr>"
proof -
  have "ReadMonitorFrame (mframe_bytes (MExitF x) @ rest) = (Inr (FrameExit, marshal_exit x), rest)"
    using read_frame_bytes [OF assms(3)] by (simp add: mframe_bytes_def)
  then show ?thesis using exit_roundtrip [of x] assms(1,2) by (subst run_loop.simps) (simp add: frame_types)
qed

definition answered :: "mframe list \<Rightarrow> u64 list" where
  "answered fs = filter (\<lambda>i. i \<noteq> 0) (map answer_id fs)"

lemma ok_answered:
  assumes "mon_ok m"
  shows "distinct (answered (mn_out m)) \<and> (\<forall>i \<in> set (answered (mn_out m)). i \<le> mn_last m)"
proof -
  have i: "ids_ok (tasks m) (mn_out m) (mn_last m)" using assms unfolding mon_ok_def by blast
  have c: "claims (tasks m) (mn_out m) = answered (mn_out m) @ map task_claim (tasks m)" by (simp only: claims_def answered_def)
  show ?thesis using i unfolding ids_ok_def c distinct_append set_append by blast
qed

section \<open>One client\<close>

text \<open>
  A run of the listener with the frames it read, oldest first. The client of a connection sends one request at a time:
  it holds a lock until it has read the answer, and only \<^verbatim>\<open>Cancel\<close> writes beside it.
\<close>

inductive mon_path :: "mon_env \<Rightarrow> monitor \<Rightarrow> (char \<times> string) list \<Rightarrow> monitor \<Rightarrow> bool" for env m0 where
  here: "mon_path env m0 [] m0"
| reads: "mon_path env m0 fs m \<Longrightarrow> mn_open m \<Longrightarrow> mon_path env m0 (fs @ [(ty, payload)]) (serve_frame works now ty payload m)"
| acts: "mon_path env m0 fs m \<Longrightarrow> mon_local env m m' \<Longrightarrow> mon_path env m0 fs m'"

lemma path_reach: "mon_path env m0 fs m \<Longrightarrow> mon_reach env m0 \<Longrightarrow> mon_reach env m"
  by (induction rule: mon_path.induct) (blast intro: mon_reach.step mon_step.frame mon_step.local)+

text \<open>The only task of the connection is the run of \<open>r\<close>.\<close>

fun run_task :: "run_request \<Rightarrow> mtask \<Rightarrow> bool" where
  "run_task r (TAuth _ _) \<longleftrightarrow> False"
| "run_task r (TRun r') \<longleftrightarrow> r' = r"
| "run_task r (TRunning i d _ _ _ _) \<longleftrightarrow> i = rq_ID r \<and> d = run_digest r"
| "run_task r (TDone i f) \<longleftrightarrow> (\<exists>x. f = MExitF x \<and> ex_ID x = rq_ID r \<and> ex_Digest x = run_digest r)"
| "run_task r (TReply f) \<longleftrightarrow> (\<exists>x. f = MExitF x \<and> ex_ID x = rq_ID r \<and> ex_Digest x = run_digest r)"

definition adds_outs :: "u64 \<Rightarrow> monitor \<Rightarrow> monitor \<Rightarrow> bool" where
  "adds_outs i m m' \<longleftrightarrow> tasks m' = tasks m \<and> (\<exists>rs. mn_out m' = mn_out m @ map MOutF rs \<and> (\<forall>r \<in> set rs. ot_ID r = i))"

lemma adds_none: "tasks m' = tasks m \<Longrightarrow> mn_out m' = mn_out m \<Longrightarrow> adds_outs i m m'"
  unfolding adds_outs_def by (intro conjI exI [of _ "[]"]) simp_all

lemma send_adds:
  assumes "out_send works i st data ow m = (ow', m')"
  shows "adds_outs i m m'"
  using assms
proof (cases rule: out_send_cases)
  case sent
  show ?thesis unfolding adds_outs_def
    by (intro conjI exI [of _ "[\<lparr>ot_ID = i, ot_Seq = ow_seq ow + 1, ot_Stream = st, ot_Data = data\<rparr>]"])
      (use sent(1) in \<open>simp_all add: only_writes_def\<close>)
next
  case lost
  then show ?thesis by (intro adds_none) (simp_all add: only_writes_def)
qed

lemma emit_adds: "emit_round works i ps ow m = (ps', ow', m') \<Longrightarrow> adds_outs i m m'"
  by (auto simp: emit_round_def Let_def adds_none split: list.splits if_splits prod.splits dest!: send_adds)

lemma finish_adds: "finish_run works i d ow code e m = (t, m') \<Longrightarrow> adds_outs i m m' \<and> t = TDone i (run_exit i d code e)"
  by (auto simp: finish_run_def adds_none split: if_splits prod.splits dest!: send_adds)

lemma start_run_kind: "start_run env genv n c r w = (Some (t, evs), w') \<Longrightarrow> run_task r t"
  by (auto simp: start_run_def call_run_def run_failure_def split: if_splits option.splits prod.splits sum.splits)

definition run_served :: "run_request \<Rightarrow> monitor \<Rightarrow> monitor \<Rightarrow> bool" where
  "run_served r m0 m \<longleftrightarrow>
     (\<exists>rs fs. mn_out m = mn_out m0 @ map MOutF rs @ fs \<and> (\<forall>u \<in> set rs. ot_ID u = rq_ID r) \<and>
        (fs = [] \<and> (tasks m = [] \<or> (\<exists>t. tasks m = [t] \<and> run_task r t)) \<or>
         tasks m = [] \<and> (\<exists>x. fs = [MExitF x] \<and> ex_ID x = rq_ID r \<and> ex_Digest x = run_digest r)))"

lemma served_same: "run_served r m0 m \<Longrightarrow> tasks m' = tasks m \<Longrightarrow> mn_out m' = mn_out m \<Longrightarrow> run_served r m0 m'"
  by (simp add: run_served_def)

lemma served_task:
  assumes "run_served r m0 m" "has_task m k c t"
  obtains rs where "mn_out m = mn_out m0 @ map MOutF rs" "\<forall>u \<in> set rs. ot_ID u = rq_ID r" "tasks m = [t]" "k = 0" "run_task r t"
proof -
  have h: "k < length (tasks m)" "tasks m ! k = t" using has_task_tasks [OF assms(2)] by simp_all
  then obtain rs u where "mn_out m = mn_out m0 @ map MOutF rs" "\<forall>u \<in> set rs. ot_ID u = rq_ID r" "tasks m = [u]" "run_task r u"
    using assms(1) unfolding run_served_def by fastforce
  then show thesis using that [of rs] h by simp
qed

lemma served_adds:
  assumes "run_served r m0 m" "has_task m k c t" "adds_outs (rq_ID r) m m'" "run_task r t'"
  shows "run_served r m0 (set_task k t' m')"
proof -
  obtain rs where m: "mn_out m = mn_out m0 @ map MOutF rs" "\<forall>u \<in> set rs. ot_ID u = rq_ID r" "tasks m = [t]" "k = 0"
    by (rule served_task [OF assms(1,2)])
  obtain us where u: "tasks m' = tasks m" "mn_out m' = mn_out m @ map MOutF us" "\<forall>u \<in> set us. ot_ID u = rq_ID r"
    using assms(3) unfolding adds_outs_def by blast
  have t: "tasks (set_task k t' m') = [t']" unfolding tasks_set_task u(1) m(3,4) by simp
  have "mn_out (set_task k t' m') = mn_out m0 @ map MOutF (rs @ us) @ []" using m(1) u(2) by simp
  then show ?thesis unfolding run_served_def t using m(2) u(3) assms(4)
    by (intro exI [of _ "rs @ us"] exI [of _ "[]"]) auto
qed

lemma served_local:
  assumes "mon_local env m m'" "run_served r m0 m"
  shows "run_served r m0 m'"
  using assms(1)
proof (cases rule: mon_local.cases)
  case read_error
  then show ?thesis using served_same [OF assms(2)] only_writes_Nil(2) [of m] by (simp add: only_writes_def)
next
  case (others w)
  then show ?thesis using served_same [OF assms(2)] by simp
next
  case (authorize k c i args e w)
  then show ?thesis using served_task [OF assms(2) authorize(2)] by auto
next
  case (run k c r' t evs w)
  have "r' = r" using served_task [OF assms(2) run(2)] by auto
  then show ?thesis unfolding run(1) using start_run_kind [OF run(3)]
    by (intro served_adds [OF assms(2) run(2)] adds_none) (simp_all add: note_call_def)
next
  case (emit k c i d p ps ow code e works ps' ow' m1)
  have "i = rq_ID r \<and> d = run_digest r" using served_task [OF assms(2) emit(2)] by auto
  then show ?thesis unfolding emit(1) using emit_adds [OF emit(3)] by (intro served_adds [OF assms(2) emit(2)]) simp_all
next
  case (finish k c i d ow code e works t m1)
  have "i = rq_ID r \<and> d = run_digest r" using served_task [OF assms(2) finish(2)] by auto
  then show ?thesis unfolding finish(1) using finish_adds [OF finish(3)]
    by (intro served_adds [OF assms(2) finish(2)]) (simp_all add: run_exit_def Let_def)
next
  case (release k c i f)
  have "run_task r (TReply f)" using served_task [OF assms(2) release(2)] by auto
  then show ?thesis unfolding release(1)
    by (intro served_adds [OF assms(2) release(2)] adds_none) (simp_all add: mon_end_def)
next
  case (reply k c f works ok m1)
  obtain rs where m: "mn_out m = mn_out m0 @ map MOutF rs" "\<forall>u \<in> set rs. ot_ID u = rq_ID r" "tasks m = [TReply f]" "k = 0"
      "run_task r (TReply f)"
    by (rule served_task [OF assms(2) reply(2)])
  have w: "tasks m1 = [TReply f]" "mn_out m1 = mn_out m @ (if ok then [f] else [])"
    using mon_write_only [OF reply(3)] m(3) by (auto simp: only_writes_def)
  have d: "tasks (drop_task k m1) = []" "mn_out (drop_task k m1) = mn_out m1"
    using w(1) m(4) by (auto simp: drop_task_def)
  show ?thesis unfolding reply(1) run_served_def
    by (intro exI [of _ rs] exI [of _ "if ok then [f] else []"]) (use m w d in auto)
qed

lemma cancel_only: "only_writes m (serve_frame works now FrameCancel payload m) []"
proof (cases "DecodeMonitorCancel payload")
  case (Inl e)
  then show ?thesis using only_writes_Nil(2) by (simp add: serve_frame_def frame_types)
next
  case (Inr i)
  then show ?thesis using only_writes_Nil(3) by (simp add: serve_frame_def frame_types)
qed

lemma served_path:
  assumes "mon_path env m1 fs m" "run_served r m0 m1" "\<forall>f \<in> set fs. fst f = FrameCancel"
  shows "run_served r m0 m"
  using assms(1,3)
proof (induction rule: mon_path.induct)
  case (reads fs m ty payload works now)
  then have "run_served r m0 m" "ty = FrameCancel" by simp_all
  then show ?case using served_same cancel_only [of m works now payload] by (simp add: only_writes_def)
next
  case (acts fs m m')
  then show ?case using served_local by blast
qed (use assms(2) in simp)

lemma idle_path:
  assumes "mon_path env m1 fs m" "tasks m1 = []" "\<forall>f \<in> set fs. fst f = FrameCancel"
  shows "mn_out m = mn_out m1 \<and> tasks m = []"
  using assms(1,3)
proof (induction rule: mon_path.induct)
  case (reads fs m ty payload works now)
  then have "mn_out m = mn_out m1 \<and> tasks m = []" "ty = FrameCancel" by simp_all
  then show ?case using cancel_only [of m works now payload] by (simp add: only_writes_def)
next
  case (acts fs m m')
  then have m: "mn_out m = mn_out m1" "mn_tasks m = []" by simp_all
  from acts(2) show ?case by cases (use m in \<open>simp_all add: has_task_def mon_close_def\<close>)
qed (use assms(2) in simp)

lemma served_request:
  assumes "mon_ok m0" "mn_tasks m0 = []"
    and "rq_ID r \<noteq> 0" "ValidateMonitorArgs (rq_Args r) = None" "validateRunStdin (rq_StdinMode r) (rq_Stdin r) = None"
    and "mon_path env (serve_frame works now FrameRun (marshal_run_request r) m0) fs m" "\<forall>f \<in> set fs. fst f = FrameCancel"
    and "MExitF x \<in> set (drop (length (mn_out m0)) (mn_out m))"
  shows "outs (rq_ID r) (mn_out m0) = [] \<and> (\<exists>rs. mn_out m = mn_out m0 @ map MOutF rs @ [MExitF x] \<and>
    (\<forall>u \<in> set rs. ot_ID u = rq_ID r) \<and> ex_ID x = rq_ID r \<and> ex_Digest x = run_digest r)"
proof -
  let ?m1 = "serve_frame works now FrameRun (marshal_run_request r) m0"
  have m1: "?m1 = accept_request works now (rq_ID r) (TRun r) (busy_exit r) m0"
    using run_request_roundtrip [OF assms(3-5)] by (simp add: serve_frame_def frame_types)
  have free: "mn_inflight m0 = 0" using assms(1,2) by (simp add: mon_ok_def slot_ok_def live_ids_def split: if_splits)
  have ids: "ids_ok (tasks m0) (mn_out m0) (mn_last m0)" using assms(1) by (simp add: mon_ok_def)
  show ?thesis
  proof (cases rule: accept_cases [of m0 "rq_ID r" works now "TRun r" "busy_exit r"])
    case close
    then have "tasks ?m1 = []" "mn_out ?m1 = mn_out m0" using m1 assms(2) by (simp_all add: mon_close_def)
    then have "mn_out m = mn_out m0" using idle_path [OF assms(6) _ assms(7)] by simp
    then show ?thesis using assms(8) by simp
  next
    case (busy ok m')
    then show ?thesis using free by simp
  next
    case (start c e)
    have "run_served r m0 ?m1" unfolding run_served_def
      by (intro exI [of _ "[]"]) (use start(3) m1 assms(2) in simp)
    then have "run_served r m0 m" by (rule served_path [OF assms(6) _ assms(7)])
    moreover have "outs (rq_ID r) (mn_out m0) = []" using outs_fresh [OF ids_new(3) [OF ids start(1) assms(3)]] .
    ultimately show ?thesis using assms(8) unfolding run_served_def by fastforce
  qed
qed

lemma client_run_sent:
  assumes "rq_ID r \<noteq> 0" "ValidateMonitorArgs (rq_Args r) = None" "validateRunStdin (rq_StdinMode r) (rq_Stdin r) = None"
    and "length (marshal_run_request r) \<le> MaxMonitorFrame" "cl_next c = rq_ID r" "\<not> cl_broken c"
    and "run_loop (rq_ID r) (MonitorRunDigest (rq_Args r) (rq_StdinMode r) (rq_Stdin r)) 0 0 [] (cl_in c) =
      \<lparr>rs_code = code, rs_err = e, rs_broken = False, rs_writes = ws, rs_in = rest\<rparr>"
  shows "client_Run None (rq_Args r) (rq_StdinMode r) (rq_Stdin r) c =
    ((code, e, ws), c\<lparr>cl_next := rq_ID r + 1, cl_out := cl_out c @ frame_bytes FrameRun (marshal_run_request r), cl_in := rest\<rparr>)"
proof -
  have r: "\<lparr>rq_ID = rq_ID r, rq_Args = rq_Args r, rq_StdinMode = rq_StdinMode r, rq_Stdin = rq_Stdin r\<rparr> = r" by simp
  have "client_write None FrameRun (marshal_run_request r) (c\<lparr>cl_next := rq_ID r + 1\<rparr>) =
      (None, c\<lparr>cl_next := rq_ID r + 1, cl_out := cl_out c @ frame_bytes FrameRun (marshal_run_request r)\<rparr>)"
    using assms(4) by (simp add: client_write_None)
  then show ?thesis using assms(2,3,5-7) by (simp add: client_Run_def Let_def r)
qed

section \<open>Properties\<close>

text \<open>A listener whose engine has one session and nothing that denies a plain command of it.\<close>

definition mx_env :: mon_env where
  "mx_env = \<lparr>me_session = ''s1'', me_cfg = gx_cfg, me_gate = (\<lambda>n. ex_env),
     me_run = Some (\<lambda>n c args stdin w. (\<lparr>re_writes = [(False, ''ok'')], re_code = 0, re_err = None\<rparr>, w)),
     me_gate_text = (\<lambda>e. ''denied''), me_deny_text = (\<lambda>e. ''denied'')\<rparr>"

lemma mx_reach: "mon_reach mx_env (mon_start mx_world)"
  by (rule mon_reach.start) (simp add: mx_env_def)

lemma object_length: "ms \<noteq> [] \<Longrightarrow> length (json_object ms) = member_cost ms + 1"
  using length_members [of ms] by (simp add: json_object_def member_cost_def)

lemma hex_plain: "json_body (hex_encode s) = hex_encode s"
proof -
  have "byte c < 0x80 \<and> esc_byte c = [c]" if "c \<in> set hex_digits" for c
    using that by (auto simp: hex_digits_def esc_byte_def)
  then show ?thesis using hex_encode_digits by (intro json_body_plain) (fastforce simp: list_all_iff)
qed

lemma u64_length: "length (json_u64 n) \<le> 20"
proof -
  have "unat n < 2 ^ LENGTH(64)" by (rule unsigned_less)
  then have "unat n < 10 ^ Suc 19" by simp
  then show ?thesis using length_dec_nat [of "unat n" 19] by (simp add: json_u64_def)
qed

lemma answer_fits:
  "length (marshal_auth_response \<lparr>ap_ID = i, ap_ArgsDigest = MonitorArgsDigest args, ap_OK = ok, ap_Error = ''''\<rparr>) \<le> MaxMonitorFrame"
proof -
  have "length (marshal_auth_response \<lparr>ap_ID = i, ap_ArgsDigest = MonitorArgsDigest args, ap_OK = ok, ap_Error = ''''\<rparr>) =
    member_cost [(''id'', json_u64 i), (''args_sha256'', json_string (MonitorArgsDigest args)), (''ok'', json_bool ok)] + 1"
    unfolding marshal_auth_response_def by (subst object_length) (simp_all add: omit_zero_def)
  then show ?thesis
    using u64_length [of i] plain_keys [THEN plain_key_length]
    by (simp add: length_json_string MonitorArgsDigest_def hex_plain hex_encode_length sha256_length json_bool_def MaxMonitorFrame_def)
qed

text \<open>A chunk always fits a frame.\<close>

lemma b64_plain: "n < 64 \<Longrightarrow> byte (b64_digit n) < 0x80 \<and> esc_byte (b64_digit n) = [b64_digit n]"
  using b64_digit_byte [of n] by (auto simp: esc_byte_def Let_def)

lemma b64_body: "json_body (b64_encode s) = b64_encode s"
proof (rule json_body_plain, induction s rule: b64_encode.induct)
  case 1
  then show ?case by simp
qed (simp_all add: b64_plain b64_ranges, simp_all add: esc_byte_def Let_def)

lemma b64_length: "length (b64_encode s) \<le> 2 * length s + 2"
  by (induction s rule: b64_encode.induct) simp_all

lemma chunk_fits:
  assumes "chunk_ok r"
  shows "length (marshal_out r) \<le> MaxMonitorFrame"
proof -
  have "length (dec_int (ot_Stream r)) = 1" using assms
    by (auto simp: chunk_ok_def MonitorStreamStdout_def MonitorStreamStderr_def dec_int_def dec_nat.simps)
  moreover have "length (marshal_out r) = member_cost [(''id'', json_u64 (ot_ID r)), (''seq'', json_u64 (ot_Seq r)),
      (''stream'', dec_int (ot_Stream r)), (''data'', json_bytes (ot_Data r))] + 1"
    unfolding marshal_out_def by (subst object_length) simp_all
  ultimately show ?thesis
    using assms u64_length [of "ot_ID r"] u64_length [of "ot_Seq r"] plain_keys [THEN plain_key_length] b64_length [of "ot_Data r"]
    by (simp add: length_json_string json_bytes_def b64_body chunk_ok_def MaxMonitorOutChunk_def MaxMonitorFrame_def)
qed

section \<open>The output of a run\<close>

text \<open>The writes of a run over a connection that stays up: the rounds of \<^verbatim>\<open>emit\<close> until nothing is pending.\<close>

definition pending_work :: "(int \<times> string) list \<Rightarrow> nat" where
  "pending_work ps = sum_list (map (\<lambda>p. length (snd p) + 1) ps)"

lemma emit_work: "ps \<noteq> [] \<Longrightarrow> emit_round works i ps ow m = (ps', ow', m') \<Longrightarrow> pending_work ps' < pending_work ps"
  by (auto simp: emit_round_def pending_work_def Let_def MaxMonitorOutChunk_def split: list.splits if_splits prod.splits)

function emit_all :: "u64 \<Rightarrow> (int \<times> string) list \<Rightarrow> out_writer \<Rightarrow> monitor \<Rightarrow> out_writer \<times> monitor" where
  "emit_all i ps ow m =
     (if ps = [] then (ow, m) else case emit_round True i ps ow m of (ps', ow', m') \<Rightarrow> emit_all i ps' ow' m')"
  by pat_completeness auto
termination
  by (relation "measure (\<lambda>(i, ps, ow, m). pending_work ps)") (auto split: prod.splits dest: emit_work)

declare emit_all.simps [simp del]

definition tagged :: "(int \<times> string) list \<Rightarrow> (int \<times> char) list" where
  "tagged ps = concat (map (\<lambda>(st, p). map (Pair st) p) ps)"

lemma tagged_simps [simp]: "tagged [] = []" "tagged ((st, p) # ps) = map (Pair st) p @ tagged ps" "tagged (a @ b) = tagged a @ tagged b"
  by (simp_all add: tagged_def)

definition streams_ok :: "(int \<times> string) list \<Rightarrow> bool" where
  "streams_ok ps \<longleftrightarrow> (\<forall>p \<in> set ps. fst p \<in> {MonitorStreamStdout, MonitorStreamStderr})"

definition run_chunk :: "u64 \<Rightarrow> mon_out \<Rightarrow> bool" where
  "run_chunk i r \<longleftrightarrow> chunk_ok r \<and> ot_ID r = i"

lemma send_up:
  assumes "\<not> mn_broken m" "chunk_ok \<lparr>ot_ID = i, ot_Seq = ow_seq ow + 1, ot_Stream = st, ot_Data = p\<rparr>"
  shows "out_send True i st p ow m = (ow\<lparr>ow_seq := ow_seq ow + 1\<rparr>,
    m\<lparr>mn_out := mn_out m @ [MOutF \<lparr>ot_ID = i, ot_Seq = ow_seq ow + 1, ot_Stream = st, ot_Data = p\<rparr>]\<rparr>)"
  using assms chunk_fits [OF assms(2)] by (simp add: out_send_def mon_write_def Let_def)

lemma take_tagged: "n \<le> length p \<Longrightarrow> n \<le> r \<Longrightarrow> map (Pair st) (take n p) @ take (r - n) (tagged ((st, drop n p) # ps)) = take r (tagged ((st, p) # ps))"
proof -
  assume n: "n \<le> length p" "n \<le> r"
  have "map (Pair st) p @ tagged ps = map (Pair st) (take n p) @ map (Pair st) (drop n p) @ tagged ps"
    by (simp flip: append_assoc map_append)
  then show ?thesis using n by simp
qed

definition emitted :: "u64 \<Rightarrow> (int \<times> string) list \<Rightarrow> out_writer \<Rightarrow> monitor \<Rightarrow> mon_out list \<Rightarrow> bool" where
  "emitted i ps ow m rs \<longleftrightarrow>
     emit_all i ps ow m =
       (ow\<lparr>ow_seq := ow_seq ow + of_nat (length rs), ow_total := ow_total ow + out_total rs,
           ow_truncated := ow_truncated ow \<or> MaxMonitorRunOutput - ow_total ow < length (tagged ps)\<rparr>,
        m\<lparr>mn_out := mn_out m @ map MOutF rs\<rparr>) \<and>
     tagged (map chunk_write rs) = take (MaxMonitorRunOutput - ow_total ow) (tagged ps) \<and>
     in_order (ow_seq ow + 1) rs \<and> list_all (run_chunk i) rs \<and> out_total rs = length (tagged (map chunk_write rs))"

lemma emit_all_writes:
  assumes "\<not> mn_broken m" "\<not> ow_broken ow" "ow_total ow \<le> MaxMonitorRunOutput" "streams_ok ps"
  shows "\<exists>rs. emitted i ps ow m rs"
  using assms
proof (induction i ps ow m rule: emit_all.induct)
  case (1 i ps ow m)
  show ?case
  proof (cases ps)
    case Nil
    then show ?thesis by (intro exI [of _ "[]"]) (simp add: emitted_def emit_all.simps out_total_def)
  next
    case (Cons q qs)
    obtain st p where q: "q = (st, p)" by fastforce
    have st: "st \<in> {MonitorStreamStdout, MonitorStreamStderr}" and sq: "streams_ok qs" using "1.prems"(4) Cons q by (simp_all add: streams_ok_def)
    consider (empty) "p = []" | (full) "p \<noteq> []" "ow_total ow = MaxMonitorRunOutput" | (room) "p \<noteq> []" "ow_total ow < MaxMonitorRunOutput"
      using "1.prems"(3) by linarith
    then show ?thesis
    proof cases
      case empty
      have e: "emit_round True i ps ow m = (qs, ow, m)" using empty by (simp add: emit_round_def Cons q)
      obtain rs where "emitted i qs ow m rs" using "1.IH" [OF _ e [symmetric] refl] Cons "1.prems" sq by auto
      moreover have "emit_all i ps ow m = emit_all i qs ow m" using e Cons by (subst emit_all.simps) simp
      moreover have "tagged ps = tagged qs" using Cons q empty by simp
      ultimately show ?thesis unfolding emitted_def by (intro exI [of _ rs]) simp
    next
      case full
      have e: "emit_round True i ps ow m = (qs, ow\<lparr>ow_truncated := True\<rparr>, m)" using full "1.prems" by (simp add: emit_round_def Cons q)
      obtain rs where "emitted i qs (ow\<lparr>ow_truncated := True\<rparr>) m rs" using "1.IH" [OF _ e [symmetric] refl] Cons "1.prems" sq by auto
      then have rs: "emit_all i qs (ow\<lparr>ow_truncated := True\<rparr>) m = (ow\<lparr>ow_truncated := True\<rparr>, m)" "rs = []"
        using full(2) by (cases rs; simp add: emitted_def run_chunk_def chunk_ok_def chunk_write_def)+
      have "emit_all i ps ow m = emit_all i qs (ow\<lparr>ow_truncated := True\<rparr>) m" using e Cons by (subst emit_all.simps) simp
      moreover have "0 < length (tagged ps)" using Cons q full(1) by simp
      ultimately show ?thesis using rs full(2) unfolding emitted_def by (intro exI [of _ "[]"]) (simp add: out_total_def)
    next
      case room
      define n where "n = min (min (length p) MaxMonitorOutChunk) (MaxMonitorRunOutput - ow_total ow)"
      have n: "0 < n" "n \<le> length p" "n \<le> MaxMonitorOutChunk" "n \<le> MaxMonitorRunOutput - ow_total ow"
        using room by (auto simp: n_def MaxMonitorOutChunk_def)
      let ?r = "\<lparr>ot_ID = i, ot_Seq = ow_seq ow + 1, ot_Stream = st, ot_Data = take n p\<rparr>"
      let ?ow = "ow\<lparr>ow_seq := ow_seq ow + 1, ow_total := ow_total ow + n\<rparr>"
      let ?m = "m\<lparr>mn_out := mn_out m @ [MOutF ?r]\<rparr>"
      have c: "chunk_ok ?r" using n st by (auto simp: chunk_ok_def)
      have e: "emit_round True i ps ow m = ((st, drop n p) # qs, ?ow, ?m)"
        using room "1.prems" send_up [OF "1.prems"(1) c] by (simp add: emit_round_def Cons q Let_def n_def [symmetric])
      have b: "ow_total ?ow \<le> MaxMonitorRunOutput" using n(4) "1.prems"(3) by simp
      have so: "streams_ok ((st, drop n p) # qs)" using st sq by (simp add: streams_ok_def)
      obtain rs where rs: "emitted i ((st, drop n p) # qs) ?ow ?m rs"
        using "1.IH" [OF _ e [symmetric] refl _ _ b so] Cons "1.prems"(1,2) by auto
      have t: "map (Pair st) (take n p) @ take (MaxMonitorRunOutput - ow_total ow - n) (tagged ((st, drop n p) # qs)) =
          take (MaxMonitorRunOutput - ow_total ow) (tagged ps)" using take_tagged [OF n(2,4)] Cons q by simp
      have len: "length (tagged ((st, drop n p) # qs)) + n = length (tagged ps)" using n(2) Cons q by simp
      have tr: "MaxMonitorRunOutput - (ow_total ow + n) < length (tagged ((st, drop n p) # qs)) \<longleftrightarrow>
          MaxMonitorRunOutput - ow_total ow < length (tagged ps)" using len n(4) by linarith
      show ?thesis
      proof (intro exI [of _ "?r # rs"], unfold emitted_def, intro conjI)
        show "emit_all i ps ow m = (ow\<lparr>ow_seq := ow_seq ow + of_nat (length (?r # rs)), ow_total := ow_total ow + out_total (?r # rs),
           ow_truncated := ow_truncated ow \<or> MaxMonitorRunOutput - ow_total ow < length (tagged ps)\<rparr>,
          m\<lparr>mn_out := mn_out m @ map MOutF (?r # rs)\<rparr>)"
        proof -
          note ea = conjunct1 [OF rs [unfolded emitted_def]]
          have "emit_all i ps ow m = emit_all i ((st, drop n p) # qs) ?ow ?m" using e Cons by (subst emit_all.simps) simp
          moreover have "out_total (?r # rs) = n + out_total rs" using n(2) by (simp add: out_total_def)
          ultimately show ?thesis unfolding ea using tr by (simp add: add.assoc)
        qed
        show "tagged (map chunk_write (?r # rs)) = take (MaxMonitorRunOutput - ow_total ow) (tagged ps)"
          using rs t by (simp add: emitted_def chunk_write_def)
      qed (use rs c n(2) in \<open>simp_all add: emitted_def run_chunk_def out_total_def chunk_write_def\<close>)
    qed
  qed
qed

lemma truncated_chunk: "chunk_ok \<lparr>ot_ID = i, ot_Seq = sq, ot_Stream = MonitorStreamStderr, ot_Data = MonitorRunTruncated\<rparr>"
  using truncated_length by (simp add: chunk_ok_def)

text \<open>All the frames of a run: its output, the marker when it was cut, its exit.\<close>

definition run_frames :: "u64 \<Rightarrow> string \<Rightarrow> (int \<times> string) list \<Rightarrow> int \<Rightarrow> string option \<Rightarrow> monitor \<Rightarrow> mframe list" where
  "run_frames i d ps code e m =
     (case emit_all i ps \<lparr>ow_seq = 0, ow_total = 0, ow_truncated = False, ow_broken = False\<rparr> m of
        (ow, m1) \<Rightarrow>
          (case finish_run True i d ow code e m1 of
             (t, m2) \<Rightarrow> (case reply_of t of [] \<Rightarrow> [] | f # _ \<Rightarrow> mn_out (snd (mon_write True f m2)))))"

lemma exit_fits:
  assumes "exit_ok (MExitF x)" "length (json_body (ex_Error x)) + length (json_body (ex_Digest x)) \<le> 1000000"
  shows "length (marshal_exit x) \<le> MaxMonitorFrame"
proof -
  have "nat \<bar>ex_Code x\<bar> < 10 ^ Suc 2" using assms(1) by auto
  then have "length (dec_int (ex_Code x)) \<le> 4" using length_dec_nat [of "nat \<bar>ex_Code x\<bar>" 2] assms(1) by (simp add: dec_int_def)
  moreover have "length (marshal_exit x) = member_cost ([(''id'', json_u64 (ex_ID x)), (''run_sha256'', json_string (ex_Digest x)),
      (''code'', dec_int (ex_Code x))] @ omit_zero (ex_Error x = '''') ''error'' (json_string (ex_Error x))) + 1"
    unfolding marshal_exit_def by (subst object_length) simp_all
  ultimately show ?thesis
    using assms(2) u64_length [of "ex_ID x"] plain_keys [THEN plain_key_length]
    by (simp add: length_json_string omit_zero_def MaxMonitorFrame_def)
qed

definition exit_code :: "int \<Rightarrow> string option \<Rightarrow> int" where
  "exit_code code e = (let code = (if e \<noteq> None \<and> code = 0 then 1 else code) in if code < 0 \<or> 255 < code then 1 else code)"

lemma run_frames_are:
  assumes "\<not> mn_broken m" "streams_ok ps" "valid_utf8 d"
    and "\<forall>t. e = Some t \<longrightarrow> length (json_body t) \<le> 900000" "length (json_body d) \<le> 100000"
  shows "\<exists>rs x. run_frames i d ps code e m = mn_out m @ map MOutF rs @ [MExitF x] \<and>
    x = \<lparr>ex_ID = i, ex_Digest = d, ex_Code = exit_code code e, ex_Error = (case e of None \<Rightarrow> '''' | Some t \<Rightarrow> t)\<rparr> \<and>
    exit_ok (MExitF x) \<and> length (marshal_exit x) \<le> MaxMonitorFrame \<and>
    in_order 1 rs \<and> list_all (run_chunk i) rs \<and> out_total rs \<le> MaxMonitorRunOutput + length MonitorRunTruncated \<and>
    tagged (map chunk_write rs) = take MaxMonitorRunOutput (tagged ps) @
      (if MaxMonitorRunOutput < length (tagged ps) then map (Pair MonitorStreamStderr) MonitorRunTruncated else [])"
proof -
  let ?ow = "\<lparr>ow_seq = 0, ow_total = 0, ow_truncated = False, ow_broken = False\<rparr>"
  let ?x = "\<lparr>ex_ID = i, ex_Digest = d, ex_Code = exit_code code e, ex_Error = (case e of None \<Rightarrow> '''' | Some t \<Rightarrow> t)\<rparr>"
  have x: "run_exit i d code e = MExitF ?x" by (simp add: run_exit_def exit_code_def Let_def)
  have xo: "exit_ok (MExitF ?x)" using assms(3) by (simp add: exit_code_def Let_def)
  have nil: "json_body [] = []" by (simp add: json_body.simps)
  have xf: "length (marshal_exit ?x) \<le> MaxMonitorFrame"
    by (rule exit_fits [OF xo]) (use assms(4,5) nil in \<open>cases e; force\<close>)
  obtain rs where rs: "emitted i ps ?ow m rs" using emit_all_writes [of m ?ow ps i] assms(1,2) by auto
  let ?t = "MaxMonitorRunOutput < length (tagged ps)"
  let ?ow1 = "\<lparr>ow_seq = of_nat (length rs), ow_total = out_total rs, ow_truncated = ?t, ow_broken = False\<rparr>"
  let ?m1 = "m\<lparr>mn_out := mn_out m @ map MOutF rs\<rparr>"
  have a: "emit_all i ps ?ow m = (?ow1, ?m1)" and g: "tagged (map chunk_write rs) = take MaxMonitorRunOutput (tagged ps)"
    "in_order 1 rs" "list_all (run_chunk i) rs" "out_total rs \<le> MaxMonitorRunOutput"
    using rs by (simp_all add: emitted_def)
  show ?thesis
  proof (cases ?t)
    case False
    have "run_frames i d ps code e m = mn_out m @ map MOutF rs @ [MExitF ?x]"
      using False xf assms(1) by (simp add: run_frames_def a finish_run_def x mon_write_def)
    then show ?thesis using g xo xf False by (intro exI [of _ rs] exI [of _ ?x]) simp
  next
    case True
    let ?r = "\<lparr>ot_ID = i, ot_Seq = of_nat (length rs) + 1, ot_Stream = MonitorStreamStderr, ot_Data = MonitorRunTruncated\<rparr>"
    have s: "out_send True i MonitorStreamStderr MonitorRunTruncated ?ow1 ?m1 =
        (?ow1\<lparr>ow_seq := of_nat (length rs) + 1\<rparr>, ?m1\<lparr>mn_out := mn_out ?m1 @ [MOutF ?r]\<rparr>)"
      using send_up [of ?m1 i ?ow1 MonitorStreamStderr MonitorRunTruncated] assms(1) truncated_chunk by simp
    have "run_frames i d ps code e m = mn_out m @ map MOutF (rs @ [?r]) @ [MExitF ?x]"
      using True xf assms(1) s by (simp add: run_frames_def a finish_run_def x mon_write_def)
    moreover have "run_chunk i ?r" using truncated_chunk by (simp add: run_chunk_def)
    ultimately show ?thesis using g xo xf True
      by (intro exI [of _ "rs @ [?r]"] exI [of _ ?x]) (simp add: in_order_snoc chunk_write_def)
  qed
qed

definition mx_auth :: auth_request where
  "mx_auth = \<lparr>aq_ID = 7, aq_Args = [''ls'']\<rparr>"

text \<open>A run of the listener: a request for \<^verbatim>\<open>ls\<close> arrives, is gated, and is answered.\<close>

lemma mx_served:
  "\<exists>m r. mon_reach mx_env m \<and> mn_out m = [MAuthResp r] \<and> ap_ID r = 7 \<and> ap_OK r \<and> ap_ArgsDigest r = MonitorArgsDigest [''ls'']"
proof -
  let ?s1 = "serve_frame True 1 FrameAuthorize (marshal_auth_request mx_auth) (mon_start mx_world)"
  let ?m1 = "(mon_start mx_world)\<lparr>mn_last := 7, mn_inflight := 7, mn_tasks := [(False, TAuth 7 [''ls''])]\<rparr>"
  have s1: "mon_reach mx_env ?s1" by (rule mon_reach.step [OF mx_reach mon_step.frame]) (simp add: mon_start_def)
  have v: "ValidateMonitorArgs [''ls''] = None"
    by (simp add: ValidateMonitorArgs_def maxMonitorArgs_def bad_arg_def maxMonitorArgLen_def valid_ascii)
  have "DecodeMonitorAuth (marshal_auth_request mx_auth) = Inr mx_auth"
    using auth_request_roundtrip [of mx_auth] v by (simp add: mx_auth_def)
  then have m1: "?s1 = ?m1"
    by (simp add: serve_frame_def frame_types accept_request_def inSequence_def mon_begin_def mon_start_def mx_auth_def)
  have r1: "mon_reach mx_env ?m1" using s1 unfolding m1 .
  have calls: "mn_calls ?m1 = 0" "mn_world ?m1 = mx_world" by (simp_all add: mon_start_def)
  obtain w where w: "AuthorizeCommand gx_cfg ex_env [''ls''] ''s1'' mx_world = (Allow, w)" using mx_allows [of "''ls''"] by (auto simp: plain_word_def esc_byte_def)
  have s: "sshSessionRefusal [''ls''] = None" by (simp add: sshSessionRefusal_def sshSessionRefusedVBins_def)
  have a: "mon_authorize mx_env (me_gate mx_env (mn_calls ?m1)) False [''ls''] (mn_world ?m1) = (Some None, w)"
    using w mx_session s calls by (simp add: mon_authorize_def listener_gate_def session_gone_def mx_env_def)
  have t: "has_task ?m1 0 False (TAuth 7 [''ls''])" by (simp add: has_task_def)
  let ?f = "auth_answer 7 [''ls''] None"
  let ?m2 = "set_task 0 (TDone 7 ?f) (note_call w [EvGate 7 [''ls''] True] ?m1)"
  have r2: "mon_reach mx_env ?m2"
    using mon_reach.step [OF r1 mon_step.local [OF mon_local.authorize [OF t a]]] by simp
  have t2: "has_task ?m2 0 False (TDone 7 ?f)" by (simp add: has_task_def set_task_def note_call_def)
  let ?m3 = "set_task 0 (TReply ?f) (mon_end 7 ?m2)"
  have r3: "mon_reach mx_env ?m3" by (rule mon_reach.step [OF r2 mon_step.local [OF mon_local.release [OF t2]]])
  have t3: "has_task ?m3 0 False (TReply ?f)" by (simp add: has_task_def set_task_def note_call_def mon_end_def)
  have l: "length (mframe_payload ?f) \<le> MaxMonitorFrame"
    using answer_fits by (simp add: auth_answer_def)
  obtain m4 where m4: "mon_write True ?f ?m3 = (True, m4)" "mn_out m4 = [?f]"
    using l by (simp add: mon_write_def set_task_def note_call_def mon_end_def mon_start_def)
  have "mon_reach mx_env (drop_task 0 m4)" by (rule mon_reach.step [OF r3 mon_step.local [OF mon_local.reply [OF t3 m4(1)]]])
  moreover have "mn_out (drop_task 0 m4) = [?f]" by (simp add: drop_task_def m4(2))
  ultimately show ?thesis unfolding auth_answer_def by fastforce
qed

text \<open>
  C17. Nothing is granted or run without the gate. In every state a listener serving a bound session can reach, each
  answer that grants a request carries the digest of arguments the command gate allowed for that session, under the id
  of the answer, and each call of a virtual binary was allowed by the gate for that request with exactly the arguments
  it got. Moreover the function that runs virtual binaries is called on no other arguments: replaced by any
  function that agrees with it on the arguments the gate allows, it leaves every reachable state reachable.
\<close>

theorem monitor_grants_are_gated:
  assumes "mon_reach env m"
  shows "(\<forall>r. MAuthResp r \<in> set (mn_out m) \<and> ap_OK r \<longrightarrow>
       (\<exists>args. ap_ArgsDigest r = MonitorArgsDigest args \<and> EvGate (ap_ID r) args True \<in> set (mn_events m) \<and> gate_allowed env args)) \<and>
     (\<forall>i args. EvRun i args \<in> set (mn_events m) \<longrightarrow> EvGate i args True \<in> set (mn_events m) \<and> gate_allowed env args) \<and>
     (\<forall>run'. agree_allowed env run' \<longrightarrow> mon_reach (env\<lparr>me_run := Some run'\<rparr>) m)"
proof -
  have g: "gated env m" by (rule reach_gated [OF assms])
  have "\<exists>args. ap_ArgsDigest r = MonitorArgsDigest args \<and> EvGate (ap_ID r) args True \<in> set (mn_events m) \<and> gate_allowed env args"
    if "MAuthResp r \<in> set (mn_out m)" "ap_OK r" for r
  proof -
    have "frame_gated (mn_events m) (MAuthResp r)" using g that(1) by (simp add: gated_def all_frames_def)
    then show ?thesis using that(2) g by (fastforce simp: frame_gated_def gated_def events_ok_def)
  qed
  moreover have "\<forall>i args. EvRun i args \<in> set (mn_events m) \<longrightarrow> EvGate i args True \<in> set (mn_events m) \<and> gate_allowed env args"
    using g unfolding gated_def events_ok_def by blast
  ultimately show ?thesis using reach_agree [OF assms] by blast
qed

theorem monitor_grants_are_gated_witness:
  "\<exists>m r args. mon_reach mx_env m \<and> MAuthResp r \<in> set (mn_out m) \<and> ap_OK r \<and> ap_ArgsDigest r = MonitorArgsDigest args \<and> gate_allowed mx_env args"
proof -
  obtain m r where m: "mon_reach mx_env m" "mn_out m = [MAuthResp r]" "ap_OK r" using mx_served by blast
  then show ?thesis using monitor_grants_are_gated [OF m(1)] by (metis list.set_intros(1))
qed

text \<open>
  C18. One request at a time, each answered once. In every reachable state at most one request is between its
  acceptance and its release, and it is the one in the slot; no two answers carry the same id, no answer has an id
  above the last one accepted; the output of a request is numbered from one without a gap, in chunks within the
  limit, at most 1 MiB and the marker in all; every frame fits the frame limit.
\<close>

theorem monitor_requests_in_order:
  assumes "mon_reach env m"
  shows "live_ids (tasks m) = (if mn_inflight m = 0 then [] else [mn_inflight m]) \<and>
    distinct (answered (mn_out m)) \<and> (\<forall>i \<in> set (answered (mn_out m)). i \<le> mn_last m) \<and>
    (\<forall>i. good_outs (outs i (mn_out m))) \<and> (\<forall>f \<in> set (mn_out m). length (mframe_payload f) \<le> MaxMonitorFrame)"
proof -
  have o: "mon_ok m" by (rule reach_ok [OF assms])
  then show ?thesis using ok_answered [OF o] unfolding mon_ok_def slot_ok_def by blast
qed

theorem monitor_requests_in_order_witness:
  "\<exists>m. mon_reach mx_env m \<and> answered (mn_out m) = [7] \<and> 7 \<le> mn_last m"
proof -
  obtain m r where m: "mon_reach mx_env m" "mn_out m = [MAuthResp r]" "ap_ID r = 7" using mx_served by blast
  have a: "answered (mn_out m) = [7]" using m by (simp add: answered_def)
  show ?thesis using monitor_requests_in_order [OF m(1)] a m(1) by auto
qed

text \<open>
  C19. A run is delivered to the client that asked for it. Let a client on an open connection, all of its earlier requests
  answered, send a well-formed run request to a listener in any reachable state, and nothing but cancel frames until it
  is answered; the goroutine of the run, its failing or working writes and whatever other sessions do to the engine
  interleave with them in any way. Once the exit is on the wire, with an error text that is valid UTF-8, all the
  listener wrote since the request is the output of that run and then its exit, and \<^verbatim>\<open>Run\<close>, reading exactly these
  bytes, sends the request the listener read, writes every chunk in order, returns the exit code and error, and leaves
  what follows unread on a connection still in step.
\<close>

theorem monitor_run_delivered:
  assumes "mon_reach env m0" "mn_open m0" "mn_tasks m0 = []"
    and "rq_ID r \<noteq> 0" "ValidateMonitorArgs (rq_Args r) = None" "validateRunStdin (rq_StdinMode r) (rq_Stdin r) = None"
    and "length (marshal_run_request r) \<le> MaxMonitorFrame" "cl_next c = rq_ID r" "\<not> cl_broken c"
    and "mon_path env (serve_frame works now FrameRun (marshal_run_request r) m0) fs m" "\<forall>f \<in> set fs. fst f = FrameCancel"
    and "MExitF x \<in> set (drop (length (mn_out m0)) (mn_out m))" "valid_utf8 (ex_Error x)"
    and "cl_in c = concat (map mframe_bytes (drop (length (mn_out m0)) (mn_out m))) @ rest"
  shows "\<exists>rs. mn_out m = mn_out m0 @ map MOutF rs @ [MExitF x] \<and> (\<forall>u \<in> set rs. ot_ID u = rq_ID r) \<and>
    client_Run None (rq_Args r) (rq_StdinMode r) (rq_Stdin r) c =
      ((ex_Code x, if ex_Error x \<noteq> '''' then Some (MERemote (ex_Error x)) else None, map chunk_write rs),
       c\<lparr>cl_next := rq_ID r + 1, cl_out := cl_out c @ frame_bytes FrameRun (marshal_run_request r), cl_in := rest\<rparr>)"
proof -
  let ?m1 = "serve_frame works now FrameRun (marshal_run_request r) m0"
  have o0: "mon_ok m0" by (rule reach_ok [OF assms(1)])
  have "mon_reach env ?m1" by (rule mon_reach.step [OF assms(1) mon_step.frame [OF assms(2)]])
  then have o: "mon_ok m" using path_reach [OF assms(10)] reach_ok by blast
  obtain rs where rs: "outs (rq_ID r) (mn_out m0) = []" "mn_out m = mn_out m0 @ map MOutF rs @ [MExitF x]"
      "\<forall>u \<in> set rs. ot_ID u = rq_ID r" "ex_ID x = rq_ID r" "ex_Digest x = run_digest r"
    using served_request [OF o0 assms(3-6,10-12)] by blast
  have "outs (rq_ID r) (map MOutF us) = us" if "\<forall>u \<in> set us. ot_ID u = rq_ID r" for us
    using that by (induction us) (simp_all add: outs_def)
  then have "outs (rq_ID r) (mn_out m) = rs" using rs by simp
  then have g: "good_outs rs" using o unfolding mon_ok_def by metis
  then have c: "list_all chunk_ok rs" "in_order (0 + 1) rs" "0 + out_total rs \<le> MaxMonitorRunOutput + length MonitorRunTruncated"
    by (simp_all add: good_outs_def)
  have s: "\<forall>u \<in> set rs. length (marshal_out u) \<le> MaxMonitorFrame \<and> ot_ID u = rq_ID r"
    using rs(3) c(1) chunk_fits by (auto simp: list_all_iff)
  have x: "exit_ok (MExitF x)" "length (marshal_exit x) \<le> MaxMonitorFrame" using o rs(2) by (force simp: mon_ok_def)+
  have i: "cl_in c = concat (map (\<lambda>u. mframe_bytes (MOutF u)) rs) @ mframe_bytes (MExitF x) @ rest"
    unfolding assms(14) rs(2) by (simp add: comp_def)
  have "run_loop (rq_ID r) (run_digest r) 0 0 [] (cl_in c) =
      \<lparr>rs_code = ex_Code x, rs_err = (if ex_Error x \<noteq> '''' then Some (MERemote (ex_Error x)) else None), rs_broken = False,
       rs_writes = map chunk_write rs, rs_in = rest\<rparr>"
    unfolding i using run_loop_outs [OF c(1) s c(2,3), of "run_digest r" "[]" "mframe_bytes (MExitF x) @ rest"]
      run_loop_exit [OF x(1) assms(13) x(2)] rs(4,5) by simp
  then have "client_Run None (rq_Args r) (rq_StdinMode r) (rq_Stdin r) c =
      ((ex_Code x, if ex_Error x \<noteq> '''' then Some (MERemote (ex_Error x)) else None, map chunk_write rs),
       c\<lparr>cl_next := rq_ID r + 1, cl_out := cl_out c @ frame_bytes FrameRun (marshal_run_request r), cl_in := rest\<rparr>)"
    by (intro client_run_sent [OF assms(4-9)]) (simp add: run_digest_def)
  then show ?thesis using rs(2,3) by blast
qed

text \<open>
  C20. What a virtual binary writes is what the session reads. Over a connection that stays up, the frames of a run
  make the client write the first mebibyte of what the binary wrote, every byte to the stream it was written to and
  in the order of the writes, then the truncation marker on standard error exactly when something was cut, and
  return the exit code in range and the error. The loop of \<^verbatim>\<open>emit\<close> ends, whatever was written.
\<close>

theorem run_output_reaches_client:
  assumes "\<not> mn_broken m" "streams_ok ps" "mn_out m = []"
    and "\<forall>t. e = Some t \<longrightarrow> valid_utf8 t \<and> t \<noteq> '''' \<and> length (json_body t) \<le> 900000"
  shows "\<exists>ws. run_loop i (run_digest r) 0 0 [] (concat (map mframe_bytes (run_frames i (run_digest r) ps code e m)) @ rest) =
      \<lparr>rs_code = exit_code code e, rs_err = map_option MERemote e, rs_broken = False, rs_writes = ws, rs_in = rest\<rparr> \<and>
    tagged ws = take MaxMonitorRunOutput (tagged ps) @
      (if MaxMonitorRunOutput < length (tagged ps) then map (Pair MonitorStreamStderr) MonitorRunTruncated else [])"
proof -
  have d: "valid_utf8 (run_digest r)" "length (json_body (run_digest r)) \<le> 100000"
    by (rule run_digest_valid) (simp add: run_digest_def MonitorRunDigest_def hex_plain hex_encode_length sha256_length)
  have e: "\<forall>t. e = Some t \<longrightarrow> length (json_body t) \<le> 900000" using assms(4) by blast
  obtain rs x where R: "run_frames i (run_digest r) ps code e m = mn_out m @ map MOutF rs @ [MExitF x] \<and>
      x = \<lparr>ex_ID = i, ex_Digest = run_digest r, ex_Code = exit_code code e, ex_Error = (case e of None \<Rightarrow> '''' | Some t \<Rightarrow> t)\<rparr> \<and>
      exit_ok (MExitF x) \<and> length (marshal_exit x) \<le> MaxMonitorFrame \<and>
      in_order 1 rs \<and> list_all (run_chunk i) rs \<and> out_total rs \<le> MaxMonitorRunOutput + length MonitorRunTruncated \<and>
      tagged (map chunk_write rs) = take MaxMonitorRunOutput (tagged ps) @
        (if MaxMonitorRunOutput < length (tagged ps) then map (Pair MonitorStreamStderr) MonitorRunTruncated else [])"
    using run_frames_are [OF assms(1,2) d(1) e d(2), where i = i and code = code] by (elim exE) (rule that)
  then have rs: "run_frames i (run_digest r) ps code e m = map MOutF rs @ [MExitF x]"
      "x = \<lparr>ex_ID = i, ex_Digest = run_digest r, ex_Code = exit_code code e, ex_Error = (case e of None \<Rightarrow> '''' | Some t \<Rightarrow> t)\<rparr>"
      "exit_ok (MExitF x)" "length (marshal_exit x) \<le> MaxMonitorFrame"
      "in_order (0 + 1) rs" "list_all (run_chunk i) rs" "0 + out_total rs \<le> MaxMonitorRunOutput + length MonitorRunTruncated"
      "tagged (map chunk_write rs) = take MaxMonitorRunOutput (tagged ps) @
         (if MaxMonitorRunOutput < length (tagged ps) then map (Pair MonitorStreamStderr) MonitorRunTruncated else [])"
    unfolding assms(3) append_Nil add_0_left by - (elim conjE, assumption)+
  have c: "list_all chunk_ok rs" "\<forall>r \<in> set rs. length (marshal_out r) \<le> MaxMonitorFrame \<and> ot_ID r = i"
    using rs(6) chunk_fits by (auto simp: list_all_iff run_chunk_def)
  have v: "valid_utf8 (ex_Error x)" using assms(4) rs(2) by (cases e) (auto simp: valid_ascii)
  have "run_loop i (run_digest r) 0 0 [] (concat (map mframe_bytes (run_frames i (run_digest r) ps code e m)) @ rest) =
      run_loop i (run_digest r) 0 0 [] (concat (map (\<lambda>r. mframe_bytes (MOutF r)) rs) @ mframe_bytes (MExitF x) @ rest)"
    unfolding rs(1) by (simp add: comp_def)
  also have "\<dots> = \<lparr>rs_code = exit_code code e, rs_err = map_option MERemote e, rs_broken = False, rs_writes = map chunk_write rs, rs_in = rest\<rparr>"
    using run_loop_outs [OF c rs(5,7), of "run_digest r" "[]" "mframe_bytes (MExitF x) @ rest"] run_loop_exit [OF rs(3) v rs(4)] rs(2) assms(4)
    by (cases e) simp_all
  finally show ?thesis using rs(8) by blast
qed

lemma exit_signalled: "exit_code (- 1) None = 1" "exit_code 300 None = 1" "exit_code 0 (Some t) = 1" "exit_code 3 None = 3"
  by (simp_all add: exit_code_def)

theorem run_output_reaches_client_witness:
  "\<exists>ws. run_loop 7 (run_digest \<lparr>rq_ID = 7, rq_Args = [''whoami''], rq_StdinMode = ''none'', rq_Stdin = ''''\<rparr>) 0 0 []
      (concat (map mframe_bytes (run_frames 7 (run_digest \<lparr>rq_ID = 7, rq_Args = [''whoami''], rq_StdinMode = ''none'', rq_Stdin = ''''\<rparr>)
         [(MonitorStreamStdout, ''root''), (MonitorStreamStderr, ''!'')] 3 None (mon_start mx_world))) @ ''next'') =
      \<lparr>rs_code = 3, rs_err = None, rs_broken = False, rs_writes = ws, rs_in = ''next''\<rparr> \<and>
    tagged ws = map (Pair MonitorStreamStdout) ''root'' @ [(MonitorStreamStderr, CHR ''!'')]"
  using run_output_reaches_client [of "mon_start mx_world" "[(MonitorStreamStdout, ''root''), (MonitorStreamStderr, ''!'')]" None 7
      "\<lparr>rq_ID = 7, rq_Args = [''whoami''], rq_StdinMode = ''none'', rq_Stdin = ''''\<rparr>" 3 "''next''"]
  by (simp add: mon_start_def streams_ok_def exit_signalled MaxMonitorRunOutput_def)

text \<open>A run of \<^verbatim>\<open>whoami\<close> in the listener, from its frame to its exit.\<close>

definition mx_run :: run_request where
  "mx_run = \<lparr>rq_ID = 7, rq_Args = [''whoami''], rq_StdinMode = ''none'', rq_Stdin = ''''\<rparr>"

lemma has_task_set:
  "has_task m k c t \<Longrightarrow> has_task (set_task k u m) k c u"
  "has_task (m\<lparr>mn_out := fs\<rparr>) k c t = has_task m k c t" "has_task (note_call w evs m) k c t = has_task m k c t"
  "has_task (mon_end i m) k c t = has_task m k c t"
  by (auto simp: has_task_def set_task_def note_call_def mon_end_def)

lemma mx_run_fits: "length (marshal_run_request mx_run) \<le> MaxMonitorFrame"
proof -
  have "length (marshal_run_request mx_run) =
    member_cost [(''id'', json_u64 7), (''args'', json_strings [''whoami'']), (''stdin_mode'', json_string ''none'')] + 1"
    unfolding marshal_run_request_def by (subst object_length) (simp_all add: mx_run_def omit_zero_def)
  moreover have "json_body ''whoami'' = ''whoami''" "json_body ''none'' = ''none''"
    by (rule json_body_plain, simp add: esc_byte_def)+
  ultimately show ?thesis
    using u64_length [of 7] plain_keys [THEN plain_key_length]
    by (simp add: length_json_string json_strings_def MaxMonitorFrame_def)
qed

lemma mx_ran:
  "\<exists>m x. mon_path mx_env (serve_frame True 1 FrameRun (marshal_run_request mx_run) (mon_start mx_world)) [] m \<and> mn_out m = [MOutF \<lparr>ot_ID = 7, ot_Seq = 1, ot_Stream = MonitorStreamStdout, ot_Data = ''ok''\<rparr>, MExitF x] \<and>
     x = \<lparr>ex_ID = 7, ex_Digest = run_digest mx_run, ex_Code = 0, ex_Error = ''''\<rparr>"
proof -
  let ?s1 = "serve_frame True 1 FrameRun (marshal_run_request mx_run) (mon_start mx_world)"
  let ?m1 = "(mon_start mx_world)\<lparr>mn_last := 7, mn_inflight := 7, mn_tasks := [(False, TRun mx_run)]\<rparr>"
  have v: "ValidateMonitorArgs [''whoami''] = None" "validateRunStdin ''none'' '''' = None"
    by (simp_all add: ValidateMonitorArgs_def maxMonitorArgs_def bad_arg_def maxMonitorArgLen_def valid_ascii validateRunStdin_def MonitorStdinNone_def)
  have "DecodeMonitorRun (marshal_run_request mx_run) = Inr mx_run"
    using run_request_roundtrip [of mx_run] v by (simp add: mx_run_def)
  then have m1: "?s1 = ?m1"
    by (simp add: serve_frame_def frame_types accept_request_def inSequence_def mon_begin_def mon_start_def mx_run_def)
  let ?path = "mon_path mx_env ?s1 []"
  have r1: "?path ?m1" using mon_path.here [of mx_env ?s1] unfolding m1 .
  have calls: "mn_calls ?m1 = 0" "mn_world ?m1 = mx_world" by (simp_all add: mon_start_def)
  obtain w where w: "AuthorizeCommand gx_cfg ex_env [''whoami''] ''s1'' mx_world = (Allow, w)"
    using mx_allows [of "''whoami''"] by (auto simp: plain_word_def esc_byte_def)
  have a: "sshListenerRunArgs ''s1'' [''whoami''] = Inr [''whoami'']"
    by (simp add: sshListenerRunArgs_def sshListenerRunRefusal_def sshListenerRuns_def)
  let ?ow = "\<lparr>ow_seq = 0, ow_total = 0, ow_truncated = False, ow_broken = False\<rparr>"
  let ?d = "run_digest mx_run"
  let ?t = "TRunning 7 ?d [(MonitorStreamStdout, ''ok'')] ?ow 0 None"
  let ?evs = "[EvGate 7 [''whoami''] True, EvRun 7 [''whoami'']]"
  have st: "start_run mx_env (me_gate mx_env (mn_calls ?m1)) (mn_calls ?m1) False mx_run (mn_world ?m1) = (Some (?t, ?evs), w)"
    using w mx_session a calls
    by (simp add: start_run_def call_run_def listener_gate_def session_gone_def mx_env_def mx_run_def run_pending_def)
  have h1: "has_task ?m1 0 False (TRun mx_run)" by (simp add: has_task_def)
  obtain m2 where m2: "?path m2" "has_task m2 0 False ?t" "mn_out m2 = []" "\<not> mn_broken m2"
  proof (rule that [of "set_task 0 ?t (note_call w ?evs ?m1)"])
    show "?path (set_task 0 ?t (note_call w ?evs ?m1))" by (rule mon_path.acts [OF r1 mon_local.run [OF h1 st]])
    show "has_task (set_task 0 ?t (note_call w ?evs ?m1)) 0 False ?t" using h1 by (intro has_task_set(1)) (simp only: has_task_set)
  qed (simp_all add: note_call_def mon_start_def)
  let ?o = "MOutF \<lparr>ot_ID = 7, ot_Seq = 1, ot_Stream = MonitorStreamStdout, ot_Data = ''ok''\<rparr>"
  let ?ow1 = "\<lparr>ow_seq = 1, ow_total = 2, ow_truncated = False, ow_broken = False\<rparr>"
  have e1: "emit_round True 7 [(MonitorStreamStdout, ''ok'')] ?ow m2 = ([(MonitorStreamStdout, '''')], ?ow1, m2\<lparr>mn_out := [?o]\<rparr>)"
    using send_up [of m2 7 ?ow MonitorStreamStdout "''ok''"] m2(3,4)
    by (simp add: emit_round_def chunk_ok_def MaxMonitorOutChunk_def MaxMonitorRunOutput_def Let_def)
  obtain m3 where m3: "?path m3" "has_task m3 0 False (TRunning 7 ?d [(MonitorStreamStdout, '''')] ?ow1 0 None)"
      "mn_out m3 = [?o]" "\<not> mn_broken m3"
  proof (rule that)
    show "?path (set_task 0 (TRunning 7 ?d [(MonitorStreamStdout, '''')] ?ow1 0 None) (m2\<lparr>mn_out := [?o]\<rparr>))"
      by (rule mon_path.acts [OF m2(1) mon_local.emit [OF m2(2) e1]])
  qed (use m2 in \<open>simp_all add: has_task_set\<close>)
  obtain m4 where m4: "?path m4" "has_task m4 0 False (TRunning 7 ?d [] ?ow1 0 None)" "mn_out m4 = [?o]" "\<not> mn_broken m4"
  proof (rule that)
    have "emit_round True 7 [(MonitorStreamStdout, '''')] ?ow1 m3 = ([], ?ow1, m3)" by (simp add: emit_round_def)
    then show "?path (set_task 0 (TRunning 7 ?d [] ?ow1 0 None) m3)"
      by (rule mon_path.acts [OF m3(1) mon_local.emit [OF m3(2)]])
  qed (use m3 in \<open>simp_all add: has_task_set\<close>)
  let ?x = "\<lparr>ex_ID = 7, ex_Digest = ?d, ex_Code = 0, ex_Error = ''''\<rparr>"
  have f: "finish_run True 7 ?d ?ow1 0 None m4 = (TDone 7 (MExitF ?x), m4)" by (simp add: finish_run_def run_exit_def)
  obtain m5 where m5: "?path m5" "has_task m5 0 False (TDone 7 (MExitF ?x))" "mn_out m5 = [?o]" "\<not> mn_broken m5"
  proof (rule that)
    show "?path (set_task 0 (TDone 7 (MExitF ?x)) m4)" by (rule mon_path.acts [OF m4(1) mon_local.finish [OF m4(2) f]])
  qed (use m4 in \<open>simp_all add: has_task_set\<close>)
  obtain m6 where m6: "?path m6" "has_task m6 0 False (TReply (MExitF ?x))" "mn_out m6 = [?o]" "\<not> mn_broken m6"
  proof (rule that)
    show "?path (set_task 0 (TReply (MExitF ?x)) (mon_end 7 m5))" by (rule mon_path.acts [OF m5(1) mon_local.release [OF m5(2)]])
    show "has_task (set_task 0 (TReply (MExitF ?x)) (mon_end 7 m5)) 0 False (TReply (MExitF ?x))"
      using m5(2) by (intro has_task_set(1)) (simp only: has_task_set)
  qed (use m5 in \<open>simp_all add: mon_end_def\<close>)
  have l: "length (marshal_exit ?x) \<le> MaxMonitorFrame"
  proof (rule exit_fits)
    have "json_body [] = []" by (simp add: json_body.simps)
    then show "length (json_body (ex_Error ?x)) + length (json_body (ex_Digest ?x)) \<le> 1000000"
      by (simp add: run_digest_def MonitorRunDigest_def hex_plain hex_encode_length sha256_length)
  qed (simp add: run_digest_valid)
  then have "mon_write True (MExitF ?x) m6 = (True, m6\<lparr>mn_out := [?o, MExitF ?x]\<rparr>)" using m6 by (simp add: mon_write_def)
  then have "?path (drop_task 0 (m6\<lparr>mn_out := [?o, MExitF ?x]\<rparr>))"
    by (rule mon_path.acts [OF m6(1) mon_local.reply [OF m6(2)]])
  moreover have "mn_out (drop_task 0 (m6\<lparr>mn_out := [?o, MExitF ?x]\<rparr>)) = [?o, MExitF ?x]" by (simp add: drop_task_def)
  ultimately show ?thesis by blast
qed

theorem monitor_run_delivered_witness:
  "\<exists>m x bytes rs. mon_path mx_env (serve_frame True 1 FrameRun (marshal_run_request mx_run) (mon_start mx_world)) [] m \<and>
     bytes = concat (map mframe_bytes (mn_out m)) \<and> mn_out m = map MOutF rs @ [MExitF x] \<and> length rs = 1 \<and>
     client_Run None [''whoami''] ''none'' '''' \<lparr>cl_next = 7, cl_broken = False, cl_out = '''', cl_in = bytes @ ''rest''\<rparr> =
      ((0, None, map chunk_write rs),
       \<lparr>cl_next = 8, cl_broken = False, cl_out = frame_bytes FrameRun (marshal_run_request mx_run), cl_in = ''rest''\<rparr>)"
proof -
  obtain m x where m: "mon_path mx_env (serve_frame True 1 FrameRun (marshal_run_request mx_run) (mon_start mx_world)) [] m"
      "mn_out m = [MOutF \<lparr>ot_ID = 7, ot_Seq = 1, ot_Stream = MonitorStreamStdout, ot_Data = ''ok''\<rparr>, MExitF x]"
      "x = \<lparr>ex_ID = 7, ex_Digest = run_digest mx_run, ex_Code = 0, ex_Error = ''''\<rparr>" using mx_ran by blast
  have v: "rq_ID mx_run \<noteq> 0" "ValidateMonitorArgs (rq_Args mx_run) = None" "validateRunStdin (rq_StdinMode mx_run) (rq_Stdin mx_run) = None"
      "valid_utf8 (ex_Error x)"
    by (simp_all add: mx_run_def m(3) ValidateMonitorArgs_def maxMonitorArgs_def bad_arg_def maxMonitorArgLen_def valid_ascii
        validateRunStdin_def MonitorStdinNone_def)
  have s: "mn_open (mon_start mx_world)" "mn_tasks (mon_start mx_world) = []" "mn_out (mon_start mx_world) = []" by (simp_all add: mon_start_def)
  let ?c = "\<lparr>cl_next = 7, cl_broken = False, cl_out = '''', cl_in = concat (map mframe_bytes (mn_out m)) @ ''rest''\<rparr>"
  have e: "MExitF x \<in> set (drop (length (mn_out (mon_start mx_world))) (mn_out m))" by (simp add: m(2) s(3))
  have c: "cl_next ?c = rq_ID mx_run" "\<not> cl_broken ?c"
      "cl_in ?c = concat (map mframe_bytes (drop (length (mn_out (mon_start mx_world))) (mn_out m))) @ ''rest''"
    by (simp_all add: mx_run_def s(3))
  obtain rs where rs: "mn_out m = mn_out (mon_start mx_world) @ map MOutF rs @ [MExitF x]"
      "client_Run None (rq_Args mx_run) (rq_StdinMode mx_run) (rq_Stdin mx_run) ?c =
      ((ex_Code x, if ex_Error x \<noteq> '''' then Some (MERemote (ex_Error x)) else None, map chunk_write rs),
       ?c\<lparr>cl_next := rq_ID mx_run + 1, cl_out := cl_out ?c @ frame_bytes FrameRun (marshal_run_request mx_run), cl_in := ''rest''\<rparr>)"
    using monitor_run_delivered [OF mx_reach s(1,2) v(1-3) mx_run_fits c(1,2) m(1) _ e v(4) c(3)] by auto
  have "length rs = 1" using rs(1) m(2) s(3) by (cases rs) auto
  then show ?thesis using rs m(1,3) s(3)
    by (intro exI [of _ m] exI [of _ x] exI [of _ "concat (map mframe_bytes (mn_out m))"] exI [of _ rs]) (simp add: mx_run_def)
qed

end
