(* ===== verification/Interceptor.thy ===== *)
theory Interceptor
  imports GateExample MonitorFrame
begin

text \<open>
  The shell middleware of a session, \<^verbatim>\<open>security/interceptor.go\<close>: the call handler that gates every
  command the interpreter routes to it, the scan that gates declaration keywords before a program runs, and the
  exec handler that dispatches a gated command to a custom command, a builtin of the shell, a virtual binary, the
  listener or the next handler. The interpreter, the next handler, Starlark and the virtual binaries are given:
  their n-th use returns an error and new values of what they may change.
\<close>

section \<open>State\<close>

text \<open>
  Starlark values as the handlers read them. A dictionary keeps insertion order and may be frozen; a callable is
  known by a number; any other value by how it prints.
\<close>

datatype sval =
    VStr string
  | VBool bool
  | VDict bool "(sval \<times> sval) list"
  | VCallable nat
  | VOther string

definition dict_get :: "(sval \<times> sval) list \<Rightarrow> sval \<Rightarrow> sval option" where
  "dict_get d k = map_of d k"

definition dict_SetKey :: "sval \<Rightarrow> sval \<Rightarrow> bool \<times> (sval \<times> sval) list \<Rightarrow> bool \<times> (sval \<times> sval) list" where
  "dict_SetKey k v fd = (if fst fd then fd else (fst fd, AList.update k v (snd fd)))"

definition dict_Delete :: "sval \<Rightarrow> bool \<times> (sval \<times> sval) list \<Rightarrow> bool \<times> (sval \<times> sval) list" where
  "dict_Delete k fd = (if fst fd then fd else (fst fd, AList.delete k (snd fd)))"

type_synonym sglobals = "sval smap"

text \<open>\<^verbatim>\<open>SessionState\<close>; \<open>None\<close> stands for nil globals and for the process-wide directory stack.\<close>

record session_state =
  ss_Restricted :: bool
  ss_Globals :: "sglobals option"
  ss_Dirs :: "dir_stack option"
  ss_SessionID :: string

text \<open>
  A shell: its session, the directory stack and environment of the process, its streams, the directory of the
  interpreter, the uses of given code so far, the commands handed to the next handler and the questions asked of
  the gate (session id, command, whether allowed). Standard input is what each read of it returns, whether it is a terminal, and whether it ends in an
  error.
\<close>

datatype stdin_src = NoStdin | Source bool "string list" bool

record shell =
  sh_state :: session_state
  sh_world :: world
  sh_dirs :: dir_stack
  sh_env :: "string smap"
  sh_out :: string
  sh_err :: string
  sh_stdin :: stdin_src
  sh_dir :: string
  sh_calls :: nat
  sh_next :: "string list list"
  sh_gates :: "(string \<times> string list \<times> bool) list"

datatype shell_err =
    SHText string
  | SHNext string
  | SHGate gate_err
  | SHAlias denial_msg
  | SHEnv sess_err
  | SHUnregistered string
  | SHSetenv
  | SHUsage string
  | SHReserved string string
  | SHNotFound string string
  | SHExit nat
  | SHReadError
  | SHStdinTooLarge
  | SHPanic

text \<open>
  What the handlers use: the gate of the process, how values print, the next handler, callables, binaries. The
  interpreter either runs an argv that passed the call handler itself, on its streams and directory, or hands an argv
  to the exec handler, without asking the call handler again.
\<close>

record shell_cfg =
  sx_gate_cfg :: gate_cfg
  sx_gate_env :: "nat \<Rightarrow> gate_env"
  sx_show :: "sval \<Rightarrow> string"
  sx_elapsed :: "nat \<Rightarrow> string"
  sx_interp :: "string list \<Rightarrow> string list option"
  sx_builtin :: "nat \<Rightarrow> string list \<Rightarrow> stdin_src \<times> string \<Rightarrow> string option \<times> stdin_src \<times> string \<times> string \<times> string"
  sx_path :: "string \<Rightarrow> string option"
  sx_next :: "nat \<Rightarrow> string list \<Rightarrow> world \<Rightarrow> string option \<times> world"
  sx_call :: "nat \<Rightarrow> nat \<Rightarrow> string list \<Rightarrow> sglobals \<Rightarrow> world \<times> string smap \<Rightarrow> string option \<times> sglobals \<times> world \<times> string smap"
  sx_vbin :: "nat \<Rightarrow> string \<Rightarrow> bool \<Rightarrow> string list \<Rightarrow> sglobals option \<Rightarrow> world \<times> string smap \<Rightarrow>
    string option \<times> sglobals option \<times> world \<times> string smap"
  sx_help :: "string \<Rightarrow> string"
  sx_remote_run :: "(nat \<Rightarrow> string list \<Rightarrow> string \<Rightarrow> string \<Rightarrow> (nat \<times> string \<times> string) + string) option"

definition is_vbin :: "shell_cfg \<Rightarrow> string \<Rightarrow> bool" where
  "is_vbin cfg name = (name \<in> set (gx_vbins (sx_gate_cfg cfg)))"

abbreviation globals_of :: "shell \<Rightarrow> sglobals option" where
  "globals_of s \<equiv> ss_Globals (sh_state s)"

definition with_globals :: "sglobals option \<Rightarrow> shell \<Rightarrow> shell" where
  "with_globals g s = s\<lparr>sh_state := (sh_state s)\<lparr>ss_Globals := g\<rparr>\<rparr>"

definition say :: "string \<Rightarrow> shell \<Rightarrow> shell" where
  "say t s = s\<lparr>sh_out := sh_out s @ t\<rparr>"

definition complain :: "string \<Rightarrow> shell \<Rightarrow> shell" where
  "complain t s = s\<lparr>sh_err := sh_err s @ t\<rparr>"

abbreviation newline_byte :: char where
  "newline_byte \<equiv> CHR 0x0A"

section \<open>Identity of a session\<close>

fun sessionIDFromGlobals :: "sglobals option \<Rightarrow> string" where
  "sessionIDFromGlobals None = ''''"
| "sessionIDFromGlobals (Some g) = (case mget g ''SESSION_ID'' of Some (VStr sid) \<Rightarrow> sid | _ \<Rightarrow> '''')"

definition gateSessionID :: "session_state \<Rightarrow> string" where
  "gateSessionID st = (if ss_SessionID st \<noteq> '''' then ss_SessionID st else sessionIDFromGlobals (ss_Globals st))"

definition reservedSessionName :: "string \<Rightarrow> bool" where
  "reservedSessionName name = (name = ''SESSION_ID'' \<or> hasPrefix name ''__'' \<or> hasPrefix name ''ADSSH_SESSION'')"

text \<open>\<^verbatim>\<open>os.Setenv\<close> refuses an empty name, a name with an equals sign or a NUL and a value with a NUL.\<close>

definition os_Setenv :: "string \<Rightarrow> string \<Rightarrow> string smap \<Rightarrow> shell_err option \<times> string smap" where
  "os_Setenv key value env =
     (if key = '''' \<or> contains_byte key (CHR ''='') \<or> contains_byte key (CHR 0x00) \<or> contains_byte value (CHR 0x00)
      then (Some SHSetenv, env) else (None, mput env key value))"

definition assignProcessOrSessionEnv :: "string \<Rightarrow> string \<Rightarrow> string \<Rightarrow> shell \<Rightarrow> shell_err option \<times> shell" where
  "assignProcessOrSessionEnv i key value s =
     (if i = '''' then (case os_Setenv key value (sh_env s) of (e, env) \<Rightarrow> (e, s\<lparr>sh_env := env\<rparr>))
      else
        (let w = sh_world s; reg = en_reg (wo_engine w)
         in case GetSession reg i of
              None \<Rightarrow> (Some (SHUnregistered i), s)
            | Some se \<Rightarrow>
                (map_option SHEnv (fst (SetEnv key value se)),
                 s\<lparr>sh_world := w\<lparr>wo_engine := (wo_engine w)\<lparr>en_reg := on_session i (\<lambda>se. snd (SetEnv key value se)) reg\<rparr>\<rparr>\<rparr>)))"

text \<open>\<open>None\<close>: not an assignment form of \<^verbatim>\<open>set\<close>.\<close>

definition set_target :: "string list \<Rightarrow> (string \<times> string) option" where
  "set_target args =
     (case str_cut (args ! 1) (CHR ''='') of
        Some nv \<Rightarrow> Some nv
      | None \<Rightarrow> if length args \<ge> 3 then Some (args ! 1, args ! 2) else None)"

definition applySetAssignment :: "string list \<Rightarrow> shell \<Rightarrow> shell_err option option \<times> shell" where
  "applySetAssignment args s =
     (if length args < 2 \<or> args ! 0 \<noteq> ''set'' then (None, s)
      else if hasPrefix (args ! 1) ''-'' \<or> hasPrefix (args ! 1) ''+'' then (None, s)
      else case set_target args of
          None \<Rightarrow> (Some (Some (SHUsage ''set'')), s)
        | Some (name, value) \<Rightarrow>
            if reservedSessionName name then (Some (Some (SHReserved ''set'' name)), s)
            else (case assignProcessOrSessionEnv (gateSessionID (sh_state s)) name value s of
                    (Some e, s) \<Rightarrow> (Some (Some e), s)
                  | (None, s) \<Rightarrow> (Some None, with_globals (map_option (\<lambda>g. mput g name (VStr value)) (globals_of s)) s)))"

section \<open>The call handler\<close>

definition builtinNamedVBins :: "string list" where
  "builtinNamedVBins = [''fc'', ''help'', ''history'']"

definition shadowPrefix :: string where
  "shadowPrefix = CHR 0x00 # ''adssh-vbin:''"

definition shadowBuiltinVBin :: "shell_cfg \<Rightarrow> string list \<Rightarrow> string list" where
  "shadowBuiltinVBin cfg args =
     (case args of
        [] \<Rightarrow> args
      | name # rest \<Rightarrow> if name \<notin> set builtinNamedVBins \<or> \<not> is_vbin cfg name then args else (shadowPrefix @ name) # rest)"

definition unshadowBuiltinVBin :: "string list \<Rightarrow> string list" where
  "unshadowBuiltinVBin args =
     (case args of
        [] \<Rightarrow> args
      | name # rest \<Rightarrow>
          if \<not> hasPrefix name shadowPrefix then args
          else if trimPrefix name shadowPrefix \<notin> set builtinNamedVBins then args
          else trimPrefix name shadowPrefix # rest)"

definition ask_gate :: "shell_cfg \<Rightarrow> bool \<Rightarrow> string list \<Rightarrow> string \<Rightarrow> shell \<Rightarrow> gate_out \<times> shell" where
  "ask_gate cfg restricted args sid s =
     (case gateCommand (sx_gate_cfg cfg) (sx_gate_env cfg (length (sh_gates s))) restricted args sid (sh_world s) of
        (o', w) \<Rightarrow> (o', s\<lparr>sh_world := w, sh_gates := sh_gates s @ [(sid, args, o' = Allow)]\<rparr>))"

text \<open>\<open>None\<close> is a gate that has not answered yet.\<close>

definition callHandler :: "shell_cfg \<Rightarrow> string list \<Rightarrow> shell \<Rightarrow> (shell_err + string list) option \<times> shell" where
  "callHandler cfg args s =
     (if args = [] then (Some (Inr args), s)
      else case currentAdminPlaneRewrite (gx_plane (sx_gate_cfg cfg)) args of
          Inl err \<Rightarrow>
            (case wlog (LogEvent (gv_log (sx_gate_env cfg (length (sh_gates s)))) (''ALIAS_REFUSED '' @ err)) (sh_world s) of
               (lerr, w) \<Rightarrow> (Some (Inl (if lerr = None then SHText err else SHAlias (joinDeny err lerr))), s\<lparr>sh_world := w\<rparr>))
        | Inr (args, note) \<Rightarrow>
            if RemoteGateProcess (sx_gate_cfg cfg) \<and> sshRunsInListener args then (Some (Inr (shadowBuiltinVBin cfg args)), s)
            else (case ask_gate cfg (ss_Restricted (sh_state s)) args (gateSessionID (sh_state s)) s of
                    (Waiting, s) \<Rightarrow> (None, s)
                  | (Deny e, s) \<Rightarrow> (Some (Inl (SHGate e)), s)
                  | (Allow, s) \<Rightarrow>
                      (Some (Inr (shadowBuiltinVBin cfg args)), if note = '''' then s else complain (note @ [newline_byte]) s)))"

section \<open>The scan of a program\<close>

text \<open>
  A syntax tree as the scan sees it: redirects with the number before them, declaration keywords with their
  arguments as printed, anything else. \<^verbatim>\<open>syntax.Walk\<close> visits a node and then, if the visitor says so, its
  children; the visitor says no once the gate has failed.
\<close>

datatype node = Node node_kind "node list"
and node_kind = NRedirect "string option" | NDecl "string option" "(string option \<times> string option) list" | NOther

text \<open>An argument that prints to nothing is its name, if it has one.\<close>

fun declArgs :: "node_kind \<Rightarrow> string list" where
  "declArgs (NDecl (Some variant) as) =
     variant # concat (map (\<lambda>(printed, name).
       case printed of
         Some t \<Rightarrow> if t \<noteq> '''' then [t] else (case name of Some n \<Rightarrow> [n] | None \<Rightarrow> [])
       | None \<Rightarrow> (case name of Some n \<Rightarrow> [n] | None \<Rightarrow> [])) as)"
| "declArgs _ = []"

datatype scan_err = ScanFd string | ScanGate gate_out

definition scan_node :: "shell_cfg \<Rightarrow> bool \<Rightarrow> string \<Rightarrow> node_kind \<Rightarrow> shell \<Rightarrow> scan_err option \<times> shell" where
  "scan_node cfg restricted sid k s =
     (case k of
        NRedirect (Some n) \<Rightarrow> (if n \<in> {''0'', ''1'', ''2''} then (None, s) else (Some (ScanFd n), s))
      | _ \<Rightarrow>
          if declArgs k = [] then (None, s)
          else (case ask_gate cfg restricted (declArgs k) sid s of (o', s) \<Rightarrow> (if o' = Allow then None else Some (ScanGate o'), s)))"

fun gateProgram :: "shell_cfg \<Rightarrow> bool \<Rightarrow> string \<Rightarrow> node \<Rightarrow> shell \<Rightarrow> scan_err option \<times> shell"
and gatePrograms :: "shell_cfg \<Rightarrow> bool \<Rightarrow> string \<Rightarrow> node list \<Rightarrow> shell \<Rightarrow> scan_err option \<times> shell" where
  "gateProgram cfg restricted sid (Node k ns) s =
     (case scan_node cfg restricted sid k s of
        (Some e, s) \<Rightarrow> (Some e, s)
      | (None, s) \<Rightarrow> gatePrograms cfg restricted sid ns s)"
| "gatePrograms cfg restricted sid [] s = (None, s)"
| "gatePrograms cfg restricted sid (n # ns) s =
     (case gateProgram cfg restricted sid n s of
        (Some e, s) \<Rightarrow> (Some e, s)
      | (None, s) \<Rightarrow> gatePrograms cfg restricted sid ns s)"

definition GateProgramSession :: "shell_cfg \<Rightarrow> node \<Rightarrow> shell \<Rightarrow> scan_err option \<times> shell" where
  "GateProgramSession cfg n s = gateProgram cfg (ss_Restricted (sh_state s)) (gateSessionID (sh_state s)) n s"

section \<open>Builtins of the shell\<close>

definition call_next :: "shell_cfg \<Rightarrow> string list \<Rightarrow> shell \<Rightarrow> shell_err option \<times> shell" where
  "call_next cfg args s =
     (case sx_next cfg (sh_calls s) args (sh_world s) of
        (err, w) \<Rightarrow> (map_option SHNext err, s\<lparr>sh_world := w, sh_calls := Suc (sh_calls s), sh_next := sh_next s @ [args]\<rparr>))"

text \<open>The dictionary kept under a name of the globals; made and stored when there is none.\<close>

definition global_dict :: "string \<Rightarrow> shell \<Rightarrow> (bool \<times> (sval \<times> sval) list) option \<times> shell" where
  "global_dict key s =
     (case globals_of s of
        None \<Rightarrow> (None, s)
      | Some g \<Rightarrow>
          (case mget g key of
             Some (VDict f d) \<Rightarrow> (Some (f, d), s)
           | _ \<Rightarrow> (Some (False, []), with_globals (Some (mput g key (VDict False []))) s)))"

definition put_dict :: "string \<Rightarrow> bool \<times> (sval \<times> sval) list \<Rightarrow> shell \<Rightarrow> shell" where
  "put_dict key fd s = with_globals (map_option (\<lambda>g. mput g key (VDict (fst fd) (snd fd))) (globals_of s)) s"

definition do_set_list :: "shell_cfg \<Rightarrow> shell \<Rightarrow> shell_err option \<times> shell" where
  "do_set_list cfg s =
     (None, say (concat (map (\<lambda>(k, v). k @ ''='' @ sx_show cfg v @ [newline_byte])
       (filter (\<lambda>(k, v). \<not> (hasPrefix k ''__'' \<and> hasSuffix k ''__'')) (case globals_of s of None \<Rightarrow> [] | Some g \<Rightarrow> g)))) s)"

definition set_option :: "string list \<Rightarrow> string option" where
  "set_option args =
     (let flag = tl (args ! 1)
      in if flag = ''e'' then Some ''errexit''
         else if flag = ''u'' then Some ''nounset''
         else if flag = ''x'' then Some ''xtrace''
         else if flag = ''o'' \<and> length args \<ge> 3 \<and> args ! 2 = ''pipefail'' then Some ''pipefail''
         else None)"

definition do_set :: "shell_cfg \<Rightarrow> string list \<Rightarrow> shell \<Rightarrow> shell_err option \<times> shell" where
  "do_set cfg args s =
     (if length args = 1 then do_set_list cfg s
      else if hasPrefix (args ! 1) ''-'' \<or> hasPrefix (args ! 1) ''+'' then
        (case global_dict ''__shopts__'' s of
           (None, s) \<Rightarrow> (None, s)
         | (Some d, s) \<Rightarrow>
             (case set_option args of
                None \<Rightarrow> (None, s)
              | Some opt \<Rightarrow> (None, put_dict ''__shopts__'' (dict_SetKey (VStr opt) (VBool (hd (args ! 1) = CHR ''-'')) d) s)))
      else (case applySetAssignment args s of (Some e, s) \<Rightarrow> (e, s) | (None, s) \<Rightarrow> (None, s)))"

definition alias_line :: "string \<Rightarrow> string \<Rightarrow> string" where
  "alias_line k v = ''alias '' @ k @ ''='' @ [CHR 0x27] @ v @ [CHR 0x27, newline_byte]"

text \<open>The list of aliases; a key or value that is not a string stops it with a panic.\<close>

fun list_aliases :: "shell_cfg \<Rightarrow> (sval \<times> sval) list \<Rightarrow> shell \<Rightarrow> shell_err option \<times> shell" where
  "list_aliases cfg [] s = (None, s)"
| "list_aliases cfg ((VStr k, VStr v) # d) s = list_aliases cfg d (say (alias_line (sx_show cfg (VStr k)) (sx_show cfg (VStr v))) s)"
| "list_aliases cfg (_ # d) s = (Some SHPanic, s)"

definition trim_set :: "char list \<Rightarrow> string \<Rightarrow> string" where
  "trim_set cs t = trim_right_set cs (dropWhile (\<lambda>c. c \<in> set cs) t)"

definition do_alias :: "shell_cfg \<Rightarrow> string list \<Rightarrow> shell \<Rightarrow> shell_err option \<times> shell" where
  "do_alias cfg args s =
     (if length args = 1 then
        (case global_dict ''__aliases__'' s of (None, s) \<Rightarrow> (None, s) | (Some (f, d), s) \<Rightarrow> list_aliases cfg d s)
      else case str_cut (args ! 1) (CHR ''='') of
          None \<Rightarrow>
            (case global_dict ''__aliases__'' s of
               (None, s) \<Rightarrow> (None, s)
             | (Some (f, d), s) \<Rightarrow>
                 (case dict_get d (VStr (args ! 1)) of
                    None \<Rightarrow> (Some (SHNotFound ''alias'' (args ! 1)), s)
                  | Some (VStr v) \<Rightarrow> (None, say (alias_line (args ! 1) (sx_show cfg (VStr v))) s)
                  | Some _ \<Rightarrow> (Some SHPanic, s)))
        | Some (name, v) \<Rightarrow>
            (let v = trim_set [CHR 0x27, CHR 0x22] v
             in case global_dict ''__aliases__'' s of
                  (None, s) \<Rightarrow> (None, s)
                | (Some d, s) \<Rightarrow> (None, say (alias_line name v) (put_dict ''__aliases__'' (dict_SetKey (VStr name) (VStr v) d) s))))"

definition do_unalias :: "string list \<Rightarrow> shell \<Rightarrow> shell_err option \<times> shell" where
  "do_unalias args s =
     (if length args < 2 then (Some (SHUsage ''unalias''), s)
      else case global_dict ''__aliases__'' s of
          (None, s) \<Rightarrow> (None, s)
        | (Some d, s) \<Rightarrow> (None, put_dict ''__aliases__'' (dict_Delete (VStr (args ! 1)) d) s))"

definition lookup_in :: "string \<Rightarrow> string \<Rightarrow> shell \<Rightarrow> sval option" where
  "lookup_in key name s =
     (case globals_of s of
        None \<Rightarrow> None
      | Some g \<Rightarrow> (case mget g key of Some (VDict f d) \<Rightarrow> dict_get d (VStr name) | _ \<Rightarrow> None))"

definition resolveType :: "shell_cfg \<Rightarrow> string \<Rightarrow> bool \<Rightarrow> shell \<Rightarrow> shell_err option \<times> shell" where
  "resolveType cfg name scripting s =
     (let line = (\<lambda>terse long. (None, say ((if scripting then terse else long) @ [newline_byte]) s))
      in if is_vbin cfg name then line name (name @ '' is a virtual binary'')
         else if lookup_in ''__custom_commands__'' name s \<noteq> None then line name (name @ '' is a shell function'')
         else case lookup_in ''__aliases__'' name s of
             Some (VStr v) \<Rightarrow> (None, say (alias_line name (sx_show cfg (VStr v))) s)
           | Some _ \<Rightarrow> (Some SHPanic, s)
           | None \<Rightarrow>
               (case sx_path cfg name of
                  Some p \<Rightarrow> line p (name @ '' is '' @ p)
                | None \<Rightarrow> (Some (SHNotFound ''type'' name), s)))"

definition do_time :: "shell_cfg \<Rightarrow> string list \<Rightarrow> shell \<Rightarrow> shell_err option \<times> shell" where
  "do_time cfg args s =
     (if length args < 2 then (Some (SHUsage ''time''), s)
      else case call_next cfg (tl args) s of
          (err, s) \<Rightarrow> (err, complain ([newline_byte] @ ''real'' @ [CHR 0x09] @ sx_elapsed cfg (sh_calls s) @ [newline_byte]) s))"

text \<open>
  \<^verbatim>\<open>bufio.Reader.ReadString\<close> on a reader made for this one line: reads until one holds a newline; what
  that read returned beyond the newline is lost with the reader.
\<close>

fun read_line :: "string \<Rightarrow> string list \<Rightarrow> string option \<times> string list" where
  "read_line acc [] = (None, [])"
| "read_line acc (p # ps) =
     (case str_cut p newline_byte of
        Some (line, _) \<Rightarrow> (Some (acc @ line @ [newline_byte]), ps)
      | None \<Rightarrow> read_line (acc @ p) ps)"

definition read_args :: "string list \<Rightarrow> (string \<times> string) option" where
  "read_args args =
     (if length args \<ge> 4 \<and> args ! 1 = ''-p'' then Some (args ! 2, args ! 3)
      else if length args \<ge> 2 then Some ('''', args ! 1) else None)"

definition do_read :: "string list \<Rightarrow> shell \<Rightarrow> shell_err option \<times> shell" where
  "do_read args s =
     (case read_args args of
        None \<Rightarrow> (Some (SHUsage ''read''), s)
      | Some (prompt, name) \<Rightarrow>
          (let s = say prompt s
           in case sh_stdin s of
                NoStdin \<Rightarrow> (Some SHPanic, s)
              | Source tty ps bad \<Rightarrow>
                  (case read_line '''' ps of
                     (None, ps) \<Rightarrow> (Some SHReadError, s\<lparr>sh_stdin := Source tty ps bad\<rparr>)
                   | (Some line, ps) \<Rightarrow>
                       (let value = trim_right_set [newline_byte] line; s = s\<lparr>sh_stdin := Source tty ps bad\<rparr>
                        in if reservedSessionName name then (Some (SHReserved ''read'' name), s)
                           else (case assignProcessOrSessionEnv (gateSessionID (sh_state s)) name value s of
                                   (Some e, s) \<Rightarrow> (Some e, s)
                                 | (None, s) \<Rightarrow> (None, with_globals (map_option (\<lambda>g. mput g name (VStr value)) (globals_of s)) s))))))"

section \<open>The directory stack\<close>

definition stack_of :: "shell \<Rightarrow> dir_stack" where
  "stack_of s = (case ss_Dirs (sh_state s) of None \<Rightarrow> sh_dirs s | Some d \<Rightarrow> d)"

definition with_stack :: "dir_stack \<Rightarrow> shell \<Rightarrow> shell" where
  "with_stack d s = (case ss_Dirs (sh_state s) of None \<Rightarrow> s\<lparr>sh_dirs := d\<rparr> | Some _ \<Rightarrow> s\<lparr>sh_state := (sh_state s)\<lparr>ss_Dirs := Some d\<rparr>\<rparr>)"

definition printDirStack :: "string \<Rightarrow> shell \<Rightarrow> shell" where
  "printDirStack dir s = say (join (dir # ds_Dirs (stack_of s)) '' '' @ [newline_byte]) s"

definition do_pushd :: "shell_cfg \<Rightarrow> string list \<Rightarrow> shell \<Rightarrow> shell_err option \<times> shell" where
  "do_pushd cfg args s =
     (let cwd = sh_dir s
      in if length args \<ge> 2 then
           (case call_next cfg [''cd'', args ! 1] (with_stack (ds_Push cwd (stack_of s)) s) of
              (Some e, s) \<Rightarrow> (Some e, s)
            | (None, s) \<Rightarrow> (None, printDirStack cwd s))
         else
           (case ds_Pop (stack_of s) of
              (prev, d) \<Rightarrow>
                if prev = '''' then (Some (SHText ''pushd: no other directory''), with_stack d s)
                else (case call_next cfg [''cd'', prev] (with_stack (ds_Push cwd d) s) of
                        (Some e, s) \<Rightarrow> (Some e, s)
                      | (None, s) \<Rightarrow> (None, printDirStack cwd s))))"

definition do_popd :: "shell_cfg \<Rightarrow> shell \<Rightarrow> shell_err option \<times> shell" where
  "do_popd cfg s =
     (let cwd = sh_dir s
      in case ds_Pop (stack_of s) of
           (prev, d) \<Rightarrow>
             if prev = '''' then (Some (SHText ''popd: directory stack empty''), with_stack d s)
             else (case call_next cfg [''cd'', prev] (with_stack d s) of
                     (Some e, s) \<Rightarrow> (Some e, s)
                   | (None, s) \<Rightarrow> (None, printDirStack cwd (with_stack (ds_SetOldPwd cwd (stack_of s)) s))))"

definition do_dirs :: "shell \<Rightarrow> shell_err option \<times> shell" where
  "do_dirs s = (None, say (join (ds_Dirs (stack_of s)) '' '' @ [newline_byte]) s)"

section \<open>Commands of the listener and virtual binaries\<close>

text \<open>
  Standard input for a run: all of it up to one byte over the limit. What is left unread after an error stays
  with the stream, which nothing reads again.
\<close>

definition runStdin :: "stdin_src \<Rightarrow> shell_err + (string \<times> string)" where
  "runStdin src =
     (case src of
        NoStdin \<Rightarrow> Inr (MonitorStdinNone, '''')
      | Source tty ps bad \<Rightarrow>
          if tty then Inr (MonitorStdinNone, '''')
          else let data = take (Suc MaxMonitorRunStdin) (concat ps)
               in if bad \<and> length (concat ps) \<le> MaxMonitorRunStdin then Inl SHReadError
                  else if MaxMonitorRunStdin < length data then Inl SHStdinTooLarge
                  else if data = '''' then Inr (MonitorStdinNone, '''')
                  else Inr (MonitorStdinBytes, data))"

definition refuse_here :: "shell_cfg \<Rightarrow> string list \<Rightarrow> shell \<Rightarrow> shell_err option \<times> shell" where
  "refuse_here cfg args s =
     (case refuseInRemoteGateProcess (sx_gate_cfg cfg) (ss_Restricted (sh_state s)) args (gateSessionID (sh_state s)) (sh_world s) of
        (e, w) \<Rightarrow> (map_option SHGate e, s\<lparr>sh_world := w\<rparr>))"

definition runInListener :: "shell_cfg \<Rightarrow> string list \<Rightarrow> shell \<Rightarrow> shell_err option \<times> shell" where
  "runInListener cfg args s =
     (case sx_remote_run cfg of
        None \<Rightarrow>
          (case refuse_here cfg args s of
             (Some e, s) \<Rightarrow> (Some e, s)
           | (None, s) \<Rightarrow> (Some (SHText (sshRefusal (hd args))), s))
      | Some run \<Rightarrow>
          (case runStdin (sh_stdin s) of
             Inl e \<Rightarrow> (Some e, s)
           | Inr (mode, stdin) \<Rightarrow>
               (case run (sh_calls s) args mode stdin of
                  Inr err \<Rightarrow> (Some (SHText err), s\<lparr>sh_calls := Suc (sh_calls s)\<rparr>)
                | Inl (code, so, se) \<Rightarrow>
                    (if code \<noteq> 0 then Some (SHExit (code mod 256)) else None,
                     complain se (say so (s\<lparr>sh_calls := Suc (sh_calls s)\<rparr>))))))"

definition dispatchVBin :: "shell_cfg \<Rightarrow> string list \<Rightarrow> shell \<Rightarrow> shell_err option \<times> shell" where
  "dispatchVBin cfg args s =
     (if length args > 1 \<and> (args ! 1 = ''--help'' \<or> args ! 1 = ''help'') then (None, say (sx_help cfg (hd args)) s)
      else case sx_vbin cfg (sh_calls s) (gateSessionID (sh_state s)) (ss_Restricted (sh_state s)) args (globals_of s) (sh_world s, sh_env s) of
          (err, g, w, env) \<Rightarrow> (map_option SHNext err, with_globals g (s\<lparr>sh_world := w, sh_env := env, sh_calls := Suc (sh_calls s)\<rparr>)))"

section \<open>The exec handler\<close>

definition is_xtrace :: "shell \<Rightarrow> bool" where
  "is_xtrace s = (lookup_in ''__shopts__'' ''xtrace'' s = Some (VBool True))"

definition restricted_refusal :: "bool \<Rightarrow> string \<Rightarrow> shell_err option" where
  "restricted_refusal restricted name =
     (if \<not> restricted then None
      else if contains_byte name (CHR ''/'') then Some (SHGate GESlash)
      else if name = ''cd'' \<or> name = ''export'' then Some (SHGate (GERestricted name))
      else None)"

text \<open>After the builtins: a virtual binary, or the next handler.\<close>

definition dispatch_rest :: "shell_cfg \<Rightarrow> string list \<Rightarrow> shell \<Rightarrow> shell_err option \<times> shell" where
  "dispatch_rest cfg args s =
     (if is_vbin cfg (hd args) then
        (case refuse_here cfg args s of (Some e, s) \<Rightarrow> (Some e, s) | (None, s) \<Rightarrow> dispatchVBin cfg args s)
      else case restricted_refusal (ss_Restricted (sh_state s)) (hd args) of
          Some e \<Rightarrow> (Some e, s)
        | None \<Rightarrow> call_next cfg args s)"

definition dispatch_builtin :: "shell_cfg \<Rightarrow> string list \<Rightarrow> shell \<Rightarrow> shell_err option \<times> shell" where
  "dispatch_builtin cfg args s =
     (let name = hd args
      in if name = ''set'' then do_set cfg args s
         else if name = ''alias'' then do_alias cfg args s
         else if name = ''unalias'' then do_unalias args s
         else if name = ''type'' then (if length args < 2 then (Some (SHUsage ''type''), s) else resolveType cfg (args ! 1) False s)
         else if name = ''command'' then
           (if length args \<ge> 3 \<and> args ! 1 = ''-v'' then resolveType cfg (args ! 2) True s else call_next cfg args s)
         else if name = ''time'' then do_time cfg args s
         else if name = ''read'' then do_read args s
         else if name = ''pushd'' then do_pushd cfg args s
         else if name = ''popd'' then do_popd cfg s
         else if name = ''dirs'' then do_dirs s
         else dispatch_rest cfg args s)"

text \<open>A custom command: the callable registered under the name, run by Starlark on the arguments.\<close>

definition custom_command :: "string \<Rightarrow> shell \<Rightarrow> nat option" where
  "custom_command name s = (case lookup_in ''__custom_commands__'' name s of Some (VCallable c) \<Rightarrow> Some c | _ \<Rightarrow> None)"

definition run_custom :: "shell_cfg \<Rightarrow> nat \<Rightarrow> string list \<Rightarrow> shell \<Rightarrow> shell_err option \<times> shell" where
  "run_custom cfg c args s =
     (case sx_call cfg (sh_calls s) c args (the (globals_of s)) (sh_world s, sh_env s) of
        (err, g, w, env) \<Rightarrow> (map_option SHNext err, with_globals (Some g) (s\<lparr>sh_world := w, sh_env := env, sh_calls := Suc (sh_calls s)\<rparr>)))"

definition execHandlerSession :: "shell_cfg \<Rightarrow> string list \<Rightarrow> shell \<Rightarrow> shell_err option \<times> shell" where
  "execHandlerSession cfg args s =
     (if args = [] then call_next cfg args s
      else let args = unshadowBuiltinVBin args
           in case applySetAssignment args s of
                (Some e, s) \<Rightarrow> (e, s)
              | (None, s) \<Rightarrow>
                  (let s = (if is_xtrace s then complain (''+ '' @ join args '' '' @ [newline_byte]) s else s)
                   in if RemoteGateProcess (sx_gate_cfg cfg) \<and> sshRunsInListener args then runInListener cfg args s
                      else case custom_command (hd args) s of
                          Some c \<Rightarrow> run_custom cfg c args s
                        | None \<Rightarrow> dispatch_builtin cfg args s))"


section \<open>A command of the session\<close>

text \<open>
  A command of a program: the call handler, then, if it let the command through, the interpreter, which runs what the
  call handler returned itself or passes an argv on to the exec handler. \<open>None\<close> is a command whose gate has not
  answered; nothing after it runs.
\<close>

definition run_builtin :: "shell_cfg \<Rightarrow> string list \<Rightarrow> shell \<Rightarrow> shell_err option \<times> shell" where
  "run_builtin cfg args s =
     (case sx_builtin cfg (sh_calls s) args (sh_stdin s, sh_dir s) of
        (err, src, so, se, dir) \<Rightarrow>
          (map_option SHText err, complain se (say so (s\<lparr>sh_stdin := src, sh_dir := dir, sh_calls := Suc (sh_calls s)\<rparr>))))"

definition shell_command :: "shell_cfg \<Rightarrow> string list \<Rightarrow> shell \<Rightarrow> shell_err option option \<times> shell" where
  "shell_command cfg args s =
     (case callHandler cfg args s of
        (None, s) \<Rightarrow> (None, s)
      | (Some (Inl e), s) \<Rightarrow> (Some (Some e), s)
      | (Some (Inr args), s) \<Rightarrow>
          (case (case sx_interp cfg args of None \<Rightarrow> run_builtin cfg args s | Some argv \<Rightarrow> execHandlerSession cfg argv s) of
             (e, s) \<Rightarrow> (Some e, s)))"

text \<open>
  What the interpreter documents, as a hypothesis: the exec handler gets the argv the call handler returned, or, for
  the wrappers \<^verbatim>\<open>command\<close>, \<^verbatim>\<open>exec\<close> and \<^verbatim>\<open>builtin\<close>, the end of it.
\<close>

definition wrapped :: "string list \<Rightarrow> string list \<Rightarrow> bool" where
  "wrapped a b \<longleftrightarrow> hd a \<in> {''command'', ''exec'', ''builtin''} \<and> b \<noteq> [] \<and> (\<exists>p. p \<noteq> [] \<and> a = p @ b)"

definition interp_documented :: "shell_cfg \<Rightarrow> bool" where
  "interp_documented cfg \<longleftrightarrow> (\<forall>a b. sx_interp cfg a = Some b \<longrightarrow> b = a \<or> wrapped a b)"

fun shell_run :: "shell_cfg \<Rightarrow> string list list \<Rightarrow> shell \<Rightarrow> shell" where
  "shell_run cfg [] s = s"
| "shell_run cfg (args # cs) s = (case shell_command cfg args s of (None, s) \<Rightarrow> s | (Some _, s) \<Rightarrow> shell_run cfg cs s)"

section \<open>What the builtins leave alone\<close>

text \<open>\<open>quiet\<close>: nothing handed to the next handler, nothing asked of the gate, the fixed identity kept.\<close>

definition quiet :: "shell \<Rightarrow> shell \<Rightarrow> bool" where
  "quiet s s' \<longleftrightarrow> sh_next s' = sh_next s \<and> sh_gates s' = sh_gates s \<and>
     ss_SessionID (sh_state s') = ss_SessionID (sh_state s) \<and> ss_Restricted (sh_state s') = ss_Restricted (sh_state s)"

text \<open>\<open>own\<close>: the session the commands run under is kept, and with one the environment of the process is.\<close>

definition own :: "shell \<Rightarrow> shell \<Rightarrow> bool" where
  "own s s' \<longleftrightarrow> gateSessionID (sh_state s') = gateSessionID (sh_state s) \<and>
     (gateSessionID (sh_state s) \<noteq> '''' \<longrightarrow> sh_env s' = sh_env s)"

lemma quiet_refl [simp]: "quiet s s" by (simp add: quiet_def)

lemma quiet_trans [trans]: "quiet s t \<Longrightarrow> quiet t u \<Longrightarrow> quiet s u" by (simp add: quiet_def)

lemma own_refl [simp]: "own s s" by (simp add: own_def)

lemma own_trans [trans]: "own s t \<Longrightarrow> own t u \<Longrightarrow> own s u" by (auto simp: own_def)

lemma output_quiet [simp]:
  "quiet s (say t s')= quiet s s'" "quiet s (complain t s') = quiet s s'" "quiet s (with_globals g s') = quiet s s'"
  "quiet s (s'\<lparr>sh_stdin := i\<rparr>) = quiet s s'" "quiet s (s'\<lparr>sh_env := v\<rparr>) = quiet s s'" "quiet s (s'\<lparr>sh_world := w\<rparr>) = quiet s s'"
  "quiet s (with_stack d s') = quiet s s'"
  by (auto simp: quiet_def say_def complain_def with_globals_def with_stack_def split: option.splits)

lemma output_own [simp]:
  "own s (say t s')= own s s'" "own s (complain t s') = own s s'"
  "own s (s'\<lparr>sh_stdin := i\<rparr>) = own s s'" "own s (s'\<lparr>sh_world := w\<rparr>) = own s s'" "own s (with_stack d s') = own s s'"
  by (auto simp: own_def say_def complain_def with_stack_def gateSessionID_def split: option.splits)

lemma put_global_own [simp]:
  assumes "k \<noteq> ''SESSION_ID''"
  shows "own s (with_globals (map_option (\<lambda>g. mput g k v) (globals_of s')) s') = own s s'"
    "globals_of s' = Some g \<Longrightarrow> own s (with_globals (Some (mput g k v)) s') = own s s'"
  using assms by (auto simp: own_def with_globals_def gateSessionID_def cong: option.case_cong) (cases "globals_of s'"; simp)+


lemma put_own:
  assumes "k \<noteq> ''SESSION_ID''" "own s t \<and> sh_state t = sh_state s"
  shows "own s (with_globals (map_option (AList.update k v) (globals_of s)) t)"
  using put_global_own(1) [OF assms(1), of s v t] assms(2) by simp

lemma reserved_id: "\<not> reservedSessionName n \<Longrightarrow> n \<noteq> ''SESSION_ID''"
  by (auto simp: reservedSessionName_def)

lemma env_assigned:
  assumes "assignProcessOrSessionEnv i key value s = (e, s')"
  shows "quiet s s' \<and> (i = gateSessionID (sh_state s) \<longrightarrow> own s s') \<and> sh_state s' = sh_state s"
  using assms by (auto simp: assignProcessOrSessionEnv_def own_def quiet_def Let_def split: if_splits option.splits prod.splits)

lemma set_assigned:
  assumes "applySetAssignment args s = (e, s')"
  shows "quiet s s' \<and> own s s'"
proof -
  have "quiet s t \<and> own s t \<and> sh_state t = sh_state s" if "assignProcessOrSessionEnv (gateSessionID (sh_state s)) n v s = (x, t)" for n v x t
    using env_assigned [OF that] by simp
  then show ?thesis
    using assms by (auto simp: applySetAssignment_def dest!: reserved_id intro: put_own split: if_splits option.splits prod.splits)
qed

lemma global_dict_kept:
  assumes "global_dict key s = (d, s')" "key \<noteq> ''SESSION_ID''"
  shows "quiet s s' \<and> own s s'"
  using assms by (auto simp: global_dict_def split: option.splits sval.splits)

lemma put_dict_kept [simp]:
  "quiet s (put_dict key d s') = quiet s s'" "key \<noteq> ''SESSION_ID'' \<Longrightarrow> own s (put_dict key d s') = own s s'"
  by (simp_all add: put_dict_def)

lemma set_kept: "do_set cfg args s = (e, s') \<Longrightarrow> quiet s s' \<and> own s s'"
  by (auto simp: do_set_def do_set_list_def dest: set_assigned dest!: global_dict_kept split: if_splits prod.splits option.splits)

lemma list_aliases_kept: "list_aliases cfg d s = (e, s') \<Longrightarrow> quiet s s' \<and> own s s'"
proof (induction cfg d s rule: list_aliases.induct)
  case (2 cfg k v d s)
  then show ?case by (auto dest!: "2.IH" simp: quiet_def own_def say_def)
qed simp_all

lemma alias_kept: "do_alias cfg args s = (e, s') \<Longrightarrow> quiet s s' \<and> own s s'"
  by (auto simp: do_alias_def Let_def dest!: global_dict_kept list_aliases_kept intro: quiet_trans own_trans
      split: if_splits prod.splits option.splits sval.splits)

lemma unalias_kept: "do_unalias args s = (e, s') \<Longrightarrow> quiet s s' \<and> own s s'"
  by (auto simp: do_unalias_def dest!: global_dict_kept split: if_splits prod.splits option.splits)

lemma type_kept: "resolveType cfg name scripting s = (e, s') \<Longrightarrow> quiet s s' \<and> own s s'"
  by (auto simp: resolveType_def Let_def split: if_splits option.splits sval.splits)

lemma read_kept:
  assumes "do_read args s = (e, s')"
  shows "quiet s s' \<and> own s s'"
proof -
  have *: "quiet s t \<and> own s t \<and> sh_state t = sh_state s"
    if "assignProcessOrSessionEnv (gateSessionID (sh_state s)) n v (say p s\<lparr>sh_stdin := i\<rparr>) = (x, t)" for n v p i x t
    using env_assigned [OF that] by (auto simp: quiet_def own_def say_def)
  have st: "sh_state (say p s\<lparr>sh_stdin := i\<rparr>) = sh_state s" for p i by (simp add: say_def)
  show ?thesis
    using assms by (auto simp: do_read_def Let_def st dest!: reserved_id dest: * split: if_splits option.splits prod.splits stdin_src.splits)
qed


lemma refuse_here_kept:
  assumes "refuse_here cfg args s = (e, s')"
  shows "quiet s s' \<and> own s s' \<and> sh_state s' = sh_state s"
  using assms by (auto simp: refuse_here_def quiet_def own_def split: prod.splits)

lemma listener_kept: "runInListener cfg args s = (e, s') \<Longrightarrow> quiet s s' \<and> own s s'"
  by (auto simp: runInListener_def Let_def quiet_def own_def complain_def say_def dest!: refuse_here_kept
      split: if_splits prod.splits option.splits sum.splits)

lemma vbin_quiet: "dispatchVBin cfg args s = (e, s') \<Longrightarrow> quiet s s'"
  by (auto simp: dispatchVBin_def quiet_def with_globals_def say_def split: if_splits prod.splits)

lemma custom_quiet: "run_custom cfg c args s = (e, s') \<Longrightarrow> quiet s s'"
  by (auto simp: run_custom_def quiet_def with_globals_def split: prod.splits)

section \<open>What reaches the next handler\<close>

text \<open>\<open>handed s c s'\<close>: \<open>c\<close> was handed to the next handler and nothing else that \<open>quiet\<close> keeps changed.\<close>

definition handed :: "shell \<Rightarrow> string list \<Rightarrow> shell \<Rightarrow> bool" where
  "handed s c s' \<longleftrightarrow> sh_next s' = sh_next s @ [c] \<and> sh_gates s' = sh_gates s \<and>
     ss_SessionID (sh_state s') = ss_SessionID (sh_state s) \<and> ss_Restricted (sh_state s') = ss_Restricted (sh_state s)"

text \<open>In a restricted session only \<^verbatim>\<open>time\<close> hands over a name with a slash.\<close>

definition derived :: "bool \<Rightarrow> string list \<Rightarrow> string list \<Rightarrow> bool" where
  "derived restricted b c \<longleftrightarrow>
     c = b \<and> (restricted \<longrightarrow> CHR ''/'' \<notin> set (hd b)) \<or> hd b = ''time'' \<and> c = tl b \<or> hd b \<in> {''pushd'', ''popd''} \<and> hd c = ''cd''"

text \<open>What one dispatch of \<open>b\<close> may do: nothing of the kind, or hand one command derived from \<open>b\<close> over.\<close>

definition dispatched :: "string list \<Rightarrow> shell \<Rightarrow> shell \<Rightarrow> bool" where
  "dispatched b s s' \<longleftrightarrow> quiet s s' \<or> (\<exists>c. derived (ss_Restricted (sh_state s)) b c \<and> handed s c s')"

lemma quiet_dispatched [intro]: "quiet s s' \<Longrightarrow> dispatched a s s'"
  by (simp add: dispatched_def)

lemma handed_output [simp]: "handed s c (say t s') = handed s c s'" "handed s c (complain t s') = handed s c s'"
  "handed s c (with_stack d s') = handed s c s'"
  by (auto simp: handed_def say_def complain_def with_stack_def split: option.splits)

lemma handed_from [simp]: "handed (say t s) c s' = handed s c s'" "handed (complain t s) c s' = handed s c s'"
  "handed (with_stack d s) c s' = handed s c s'"
  by (auto simp: handed_def say_def complain_def with_stack_def split: option.splits)

lemma next_handed: "call_next cfg c s = (e, s') \<Longrightarrow> handed s c s' \<and> own s s'"
  by (auto simp: call_next_def handed_def own_def split: prod.splits)

lemma own_from_stack: "own (with_stack d s) s' = own s s'"
  by (auto simp: own_def with_stack_def gateSessionID_def split: option.splits)

lemma time_dispatched: "do_time cfg args s = (e, s') \<Longrightarrow> hd args = ''time'' \<Longrightarrow> dispatched args s s' \<and> own s s'"
  by (auto simp: do_time_def dispatched_def derived_def dest!: next_handed split: if_splits prod.splits)

lemma stack_dispatched:
  assumes "hd args \<in> {''pushd'', ''popd''}" "do_pushd cfg args s = (e, s') \<or> do_popd cfg s = (e, s')"
  shows "dispatched args s s' \<and> own s s'"
proof -
  have d: "derived q args [''cd'', x]" for q x using assms(1) by (simp add: derived_def)
  show ?thesis
    using assms(2) by (auto simp: do_pushd_def do_popd_def Let_def printDirStack_def dispatched_def own_from_stack
        dest!: next_handed intro: d split: if_splits prod.splits option.splits)
qed

lemma pushd_dispatched: "do_pushd cfg args s = (e, s') \<Longrightarrow> hd args = ''pushd'' \<Longrightarrow> dispatched args s s' \<and> own s s'"
  and popd_dispatched: "do_popd cfg s = (e, s') \<Longrightarrow> hd args = ''popd'' \<Longrightarrow> dispatched args s s' \<and> own s s'"
  using stack_dispatched by blast+

lemma next_dispatched:
  "call_next cfg args s = (e, s') \<Longrightarrow> (ss_Restricted (sh_state s) \<longrightarrow> CHR ''/'' \<notin> set (hd args)) \<Longrightarrow> dispatched args s s' \<and> own s s'"
  by (auto simp: dispatched_def derived_def dest!: next_handed)

lemma rest_dispatched:
  assumes "dispatch_rest cfg args s = (e, s')"
  shows "dispatched args s s' \<and> (\<not> is_vbin cfg (hd args) \<longrightarrow> own s s')"
proof (cases "is_vbin cfg (hd args)")
  case True
  then have "quiet s s'"
    using assms by (auto simp: dispatch_rest_def dest!: refuse_here_kept vbin_quiet intro: quiet_trans split: prod.splits option.splits)
  then show ?thesis using True by auto
next
  case False
  then consider x where "restricted_refusal (ss_Restricted (sh_state s)) (hd args) = Some x" "s' = s"
    | "restricted_refusal (ss_Restricted (sh_state s)) (hd args) = None" "call_next cfg args s = (e, s')"
    using assms by (auto simp: dispatch_rest_def split: option.splits)
  then show ?thesis
  proof cases
    case 2
    then have "ss_Restricted (sh_state s) \<longrightarrow> CHR ''/'' \<notin> set (hd args)"
      by (auto simp: restricted_refusal_def contains_byte_def split: if_splits)
    then show ?thesis using next_dispatched [OF 2(2)] by blast
  qed auto
qed

lemma dispatch_builtin_dispatched:
  assumes "dispatch_builtin cfg args s = (e, s')"
  shows "dispatched args s s' \<and> (\<not> is_vbin cfg (hd args) \<longrightarrow> own s s')"
  using assms
  by (auto simp: dispatch_builtin_def do_dirs_def Let_def dest!: set_kept alias_kept unalias_kept type_kept
      time_dispatched read_kept pushd_dispatched next_dispatched rest_dispatched dest: popd_dispatched split: if_splits)

text \<open>A command for the exec handler after its marker is removed and the assignment form of \<^verbatim>\<open>set\<close> is done.\<close>

lemma exec_dispatched:
  assumes "execHandlerSession cfg args s = (e, s')" "args \<noteq> []"
  shows "dispatched (unshadowBuiltinVBin args) s s' \<and>
    (custom_command (hd (unshadowBuiltinVBin args)) s = None \<and> \<not> is_vbin cfg (hd (unshadowBuiltinVBin args)) \<longrightarrow> own s s') \<and>
    (RemoteGateProcess (sx_gate_cfg cfg) \<and> sshRunsInListener (unshadowBuiltinVBin args) \<longrightarrow> quiet s s')"
proof -
  let ?a = "unshadowBuiltinVBin args"
  obtain r t where t: "applySetAssignment ?a s = (r, t)" by fastforce
  show ?thesis
  proof (cases r)
    case (Some x)
    then show ?thesis using assms t by (auto simp: execHandlerSession_def dest!: set_assigned)
  next
    case None
    then have ts: "t = s" using t by (auto simp: applySetAssignment_def split: if_splits option.splits prod.splits)
    define u where "u = (if is_xtrace s then complain (''+ '' @ join ?a '' '' @ [newline_byte]) s else s)"
    have u: "u = s \<or> (\<exists>x. u = complain x s)"
      unfolding u_def by (cases "is_xtrace s") (simp_all only: if_True if_False, blast+)
    have run: "(if RemoteGateProcess (sx_gate_cfg cfg) \<and> sshRunsInListener ?a then runInListener cfg ?a u
        else case custom_command (hd ?a) u of Some c \<Rightarrow> run_custom cfg c ?a u | None \<Rightarrow> dispatch_builtin cfg ?a u) = (e, s')"
      using assms(1) unfolding execHandlerSession_def Let_def t None ts
      by (simp only: assms(2) if_False prod.case option.case u_def)
    have q: "quiet u s' = quiet s s'" "own u s' = own s s'" "dispatched ?a u s' = dispatched ?a s s'"
      "custom_command (hd ?a) u = custom_command (hd ?a) s"
      using u by (auto simp: quiet_def own_def dispatched_def complain_def handed_def custom_command_def lookup_in_def)
    show ?thesis
      using run unfolding q(4) [symmetric] q(1-3) [symmetric]
      by (auto dest!: listener_kept custom_quiet dispatch_builtin_dispatched split: if_splits option.splits)
  qed
qed


section \<open>The call handler and the gate\<close>

lemma gate_no_nul:
  assumes "gateCommand gcfg env restricted args sid w = (Allow, w')" "a \<in> set args"
  shows "CHR 0x00 \<notin> set a"
  using assms by (auto simp: gateCommand_def gateCommandContext_def list_ex_iff split: if_splits)

lemma unshadow_plain: "CHR 0x00 \<notin> set (hd args) \<Longrightarrow> unshadowBuiltinVBin args = args"
  by (cases args; cases "hd args") (auto simp: unshadowBuiltinVBin_def shadowPrefix_def hasPrefix_def)

lemma unshadow_shadow:
  assumes "CHR 0x00 \<notin> set (hd args)"
  shows "unshadowBuiltinVBin (shadowBuiltinVBin cfg args) = args"
proof (cases args)
  case (Cons name rest)
  have "hasPrefix (shadowPrefix @ name) shadowPrefix" "trimPrefix (shadowPrefix @ name) shadowPrefix = name"
    by (simp_all add: hasPrefix_def trimPrefix_def)
  then show ?thesis
    using unshadow_plain [of args] assms Cons by (simp add: shadowBuiltinVBin_def unshadowBuiltinVBin_def)
qed (simp add: shadowBuiltinVBin_def unshadowBuiltinVBin_def)

lemma listener_no_nul:
  assumes "sshRunsInListener args"
  shows "CHR 0x00 \<notin> set (hd args) \<and> args \<noteq> []"
proof (cases args)
  case (Cons name rest)
  have "name = ''mirror'' \<or> name \<in> fst ` set sshListenerRuns"
    using assms Cons map_of_eq_None_iff [of sshListenerRuns name] by (auto simp: sshRunsInListener_def split: if_splits)
  then show ?thesis using Cons by (auto simp: sshListenerRuns_def)
qed (use assms in \<open>simp add: sshRunsInListener_def\<close>)

text \<open>The gate said yes to a command under a session.\<close>

definition granted :: "shell_cfg \<Rightarrow> bool \<Rightarrow> string \<Rightarrow> string list \<Rightarrow> bool" where
  "granted cfg restricted sid a \<longleftrightarrow>
     (\<exists>n w w'. gateCommand (sx_gate_cfg cfg) (sx_gate_env cfg n) restricted a sid w = (Allow, w'))"

text \<open>A question of the gate leaves everything else alone.\<close>

definition asked :: "shell_cfg \<Rightarrow> shell \<Rightarrow> (string \<times> string list \<times> bool) list \<Rightarrow> shell \<Rightarrow> bool" where
  "asked cfg s g s' \<longleftrightarrow> sh_next s' = sh_next s \<and> sh_state s' = sh_state s \<and> sh_env s' = sh_env s \<and> sh_gates s' = sh_gates s @ g \<and>
     (\<forall>(sid, a, ok) \<in> set g. ok \<longrightarrow> granted cfg (ss_Restricted (sh_state s)) sid a)"

lemma ask_gate_asked:
  assumes "ask_gate cfg (ss_Restricted (sh_state s)) args sid s = (x, s')"
  shows "asked cfg s [(sid, args, x = Allow)] s' \<and> (x = Allow \<longrightarrow> (\<forall>a\<in>set args. CHR 0x00 \<notin> set a))"
  using assms gate_no_nul by (fastforce simp: ask_gate_def asked_def granted_def split: prod.splits)

lemma call_refused:
  assumes "callHandler cfg args s = (r, s')" "\<forall>b. r \<noteq> Some (Inr b)"
  shows "\<exists>g. asked cfg s g s' \<and> (\<forall>(sid, a, ok) \<in> set g. sid = gateSessionID (sh_state s))"
  using assms
  by (auto simp: callHandler_def complain_def asked_def dest!: ask_gate_asked split: if_splits prod.splits sum.splits gate_out.splits option.splits)

lemma call_passed:
  assumes "callHandler cfg args s = (Some (Inr b), s')"
  obtains "args = []" "b = []" "s' = s"
  | a nt where "args \<noteq> []" "currentAdminPlaneRewrite (gx_plane (sx_gate_cfg cfg)) args = Inr (a, nt)" "unshadowBuiltinVBin b = a"
    "b = shadowBuiltinVBin cfg a" "RemoteGateProcess (sx_gate_cfg cfg)" "sshRunsInListener a" "s' = s"
  | a nt where "args \<noteq> []" "currentAdminPlaneRewrite (gx_plane (sx_gate_cfg cfg)) args = Inr (a, nt)" "unshadowBuiltinVBin b = a"
    "b = shadowBuiltinVBin cfg a" "asked cfg s [(gateSessionID (sh_state s), a, True)] s'" "\<forall>x \<in> set a. CHR 0x00 \<notin> set x"
proof (cases "args = []")
  case False
  then obtain a nt where r: "currentAdminPlaneRewrite (gx_plane (sx_gate_cfg cfg)) args = Inr (a, nt)"
    using assms by (auto simp: callHandler_def split: sum.splits prod.splits)
  show ?thesis
  proof (cases "RemoteGateProcess (sx_gate_cfg cfg) \<and> sshRunsInListener a")
    case True
    then show ?thesis
      using that(2) [OF False r] assms False r unshadow_shadow [of a cfg] listener_no_nul [of a] by (auto simp: callHandler_def)
  next
    case False2: False
    obtain x t where x: "ask_gate cfg (ss_Restricted (sh_state s)) a (gateSessionID (sh_state s)) s = (x, t)" by fastforce
    then have xa: "x = Allow" "b = shadowBuiltinVBin cfg a" "s' = t \<or> (\<exists>y. s' = complain y t)"
      using assms False r False2 by (auto simp: callHandler_def split: gate_out.splits if_splits)
    have "CHR 0x00 \<notin> set (hd a)" if "a \<noteq> []" using ask_gate_asked [OF x] xa(1) that by auto
    then have u: "unshadowBuiltinVBin b = a"
      using unshadow_shadow [of a cfg] xa(2) by (cases a) (auto simp: shadowBuiltinVBin_def unshadowBuiltinVBin_def)
    have "asked cfg s [(gateSessionID (sh_state s), a, True)] s'"
      using ask_gate_asked [OF x] xa(1,3) by (auto simp: asked_def complain_def)
    moreover have "\<forall>x \<in> set a. CHR 0x00 \<notin> set x" using ask_gate_asked [OF x] xa(1) by blast
    ultimately show ?thesis by (rule that(3) [OF False r u xa(2)])
  qed
qed (use assms that(1) in \<open>simp add: callHandler_def\<close>)


text \<open>
  The invariant of a run of the session \<open>sid\<close>: every command handed over is empty or derived from one the
  gate granted to \<open>sid\<close>, or from what it wraps, and every question was asked for \<open>sid\<close>.
\<close>

definition gated :: "shell_cfg \<Rightarrow> bool \<Rightarrow> string \<Rightarrow> shell \<Rightarrow> bool" where
  "gated cfg restricted sid s \<longleftrightarrow> ss_SessionID (sh_state s) = sid \<and> ss_Restricted (sh_state s) = restricted \<and>
     (\<forall>(i, a, ok) \<in> set (sh_gates s). i = sid \<and> (ok \<longrightarrow> granted cfg restricted sid a)) \<and>
     (\<forall>c \<in> set (sh_next s). c = [] \<or> (\<exists>a b. (sid, a, True) \<in> set (sh_gates s) \<and> (b = a \<or> wrapped a b) \<and> derived restricted b c))"

lemma gated_asked:
  assumes "gated cfg r sid s" "asked cfg s g s'" "\<forall>(i, a, ok) \<in> set g. i = sid"
  shows "gated cfg r sid s'"
  using assms by (fastforce simp: gated_def asked_def)

lemma gated_dispatched:
  assumes "gated cfg r sid s" "dispatched b s s'" "quiet s s' \<or> (sid, a, True) \<in> set (sh_gates s) \<and> (b = a \<or> wrapped a b)"
  shows "gated cfg r sid s'"
proof (cases "quiet s s'")
  case True
  then show ?thesis using assms(1) by (simp add: gated_def quiet_def)
next
  case False
  have "ss_Restricted (sh_state s) = r" using assms(1) by (simp add: gated_def)
  then obtain c where "derived r b c" "handed s c s'" using assms(2) False by (auto simp: dispatched_def)
  then show ?thesis using assms(1,3) False by (auto simp: gated_def handed_def)
qed

lemma builtin_run_kept: "run_builtin cfg args s = (e, s') \<Longrightarrow> quiet s s' \<and> own s s' \<and> sh_state s' = sh_state s"
  by (auto simp: run_builtin_def quiet_def own_def say_def complain_def split: prod.splits)

text \<open>What the exec handler gets for a granted command: the command, or what it wraps.\<close>

lemma interp_cases:
  assumes "interp_documented cfg" "sx_interp cfg (shadowBuiltinVBin cfg a) = Some b" "\<forall>x \<in> set a. CHR 0x00 \<notin> set x" "a \<noteq> []"
  shows "b \<noteq> [] \<and> (unshadowBuiltinVBin b = a \<or> wrapped a (unshadowBuiltinVBin b))"
proof -
  have h: "CHR 0x00 \<notin> set (hd a)" using assms(3,4) by simp
  have n: "shadowBuiltinVBin cfg a \<noteq> []" using assms(4) by (auto simp: shadowBuiltinVBin_def split: list.splits)
  consider "b = shadowBuiltinVBin cfg a" | "wrapped (shadowBuiltinVBin cfg a) b"
    using assms(1,2) by (auto simp: interp_documented_def)
  then show ?thesis
  proof cases
    case 1
    then show ?thesis using unshadow_shadow [OF h] n by simp
  next
    case 2
    then have "hd (shadowBuiltinVBin cfg a) \<noteq> shadowPrefix @ hd a"
      by (auto simp: wrapped_def shadowPrefix_def)
    then have "shadowBuiltinVBin cfg a = a" by (auto simp: shadowBuiltinVBin_def split: list.splits if_splits)
    then have w: "wrapped a b" using 2 by simp
    then have "b \<noteq> []" "set b \<subseteq> set a" by (auto simp: wrapped_def)
    then have "CHR 0x00 \<notin> set (hd b)" using assms(3) by (meson hd_in_set subsetD)
    then show ?thesis using unshadow_plain w \<open>b \<noteq> []\<close> by simp
  qed
qed

text \<open>A command the listener runs is no wrapper, so the exec handler gets it as it is.\<close>

lemma listener_interp:
  assumes "interp_documented cfg" "sx_interp cfg (shadowBuiltinVBin cfg a) = Some b" "sshRunsInListener a"
  shows "b \<noteq> [] \<and> unshadowBuiltinVBin b = a"
proof -
  note n = listener_no_nul [OF assms(3)]
  have "hd (shadowBuiltinVBin cfg a) \<notin> {''command'', ''exec'', ''builtin''}"
  proof (cases a)
    case (Cons name rest)
    have "name = ''mirror'' \<or> name \<in> fst ` set sshListenerRuns"
      using assms(3) Cons map_of_eq_None_iff [of sshListenerRuns name] by (auto simp: sshRunsInListener_def split: if_splits)
    then have "name \<notin> {''command'', ''exec'', ''builtin''}" by (auto simp: sshListenerRuns_def)
    then show ?thesis using Cons by (simp add: shadowBuiltinVBin_def shadowPrefix_def)
  qed (use n in simp)
  then have b: "b = shadowBuiltinVBin cfg a" using assms(1,2) by (auto simp: interp_documented_def wrapped_def)
  then show ?thesis using unshadow_shadow [of a cfg] n by (auto simp: shadowBuiltinVBin_def split: list.splits)
qed

text \<open>A command as a call handler step and, when it passed, what the interpreter did with it.\<close>

lemma shell_command_passed:
  assumes "shell_command cfg args s = (e, s')" "callHandler cfg args s = (Some (Inr b), t)"
  obtains "sx_interp cfg b = None" "quiet t s'" "own t s'"
  | c y where "sx_interp cfg b = Some c" "execHandlerSession cfg c t = (y, s')"
  using assms builtin_run_kept by (cases "sx_interp cfg b") (force simp: shell_command_def split: prod.splits)+

lemma gated_command:
  assumes "gated cfg r sid s" "sid \<noteq> ''''" "shell_command cfg args s = (e, s')" "interp_documented cfg"
  shows "gated cfg r sid s'"
proof -
  obtain x t where c: "callHandler cfg args s = (x, t)" by fastforce
  have sid: "gateSessionID (sh_state s) = sid" using assms(1,2) by (simp add: gated_def gateSessionID_def)
  have still: "gated cfg r sid s'" if "gated cfg r sid t" "quiet t s'" for t
    using gated_dispatched [OF that(1)] that(2) by blast
  have empty: "gated cfg r sid s'" if "gated cfg r sid t" "execHandlerSession cfg [] t = (y, s')" for t y
  proof -
    have "handed t [] s'" using that(2) by (auto simp: execHandlerSession_def dest: next_handed)
    then show ?thesis using that(1) by (auto simp: gated_def handed_def)
  qed
  show ?thesis
  proof (cases "\<exists>b. x = Some (Inr b)")
    case False
    then have "s' = t" using assms(3) c by (auto simp: shell_command_def split: option.splits sum.splits)
    moreover obtain g where "asked cfg s g t" "\<forall>(i, a, ok) \<in> set g. i = sid" using call_refused [OF c] False sid by auto
    ultimately show ?thesis using gated_asked [OF assms(1)] by blast
  next
    case True
    then obtain b where b: "callHandler cfg args s = (Some (Inr b), t)" using c by blast
    show ?thesis
    proof (cases rule: call_passed [OF b])
      case 1
      have tx: "gated cfg r sid t" using 1 assms(1) by simp
      show ?thesis
      proof (cases rule: shell_command_passed [OF assms(3) b])
        case 1 then show ?thesis using still [OF tx] by simp
      next
        case (2 c' y)
        have "c' = []" using assms(4) 2(1) \<open>b = []\<close> by (auto simp: interp_documented_def wrapped_def)
        then show ?thesis using empty tx 2 by blast
      qed
    next
      case (2 a nt)
      have tx: "gated cfg r sid t" using 2 assms(1) by simp
      show ?thesis
      proof (cases rule: shell_command_passed [OF assms(3) b])
        case 1 then show ?thesis using still [OF tx] by simp
      next
        case x: (2 c' y)
        have "c' \<noteq> []" "unshadowBuiltinVBin c' = a" using listener_interp [OF assms(4) _ 2(6)] x(1) 2(4) by simp_all
        then have "quiet t s'" using exec_dispatched [OF x(2)] 2(5,6) by simp
        then show ?thesis using still [OF tx] by simp
      qed
    next
      case (3 a nt)
      have g: "gated cfg r sid t" by (rule gated_asked [OF assms(1) 3(5)]) (simp add: sid)
      have m: "(sid, a, True) \<in> set (sh_gates t)" using 3(5) sid by (simp add: asked_def)
      show ?thesis
      proof (cases rule: shell_command_passed [OF assms(3) b])
        case 1 then show ?thesis using still [OF g] by simp
      next
        case x: (2 c' y)
        show ?thesis
        proof (cases "a = []")
          case True
          then have "c' = []" using assms(4) x(1) 3(4) by (auto simp: interp_documented_def wrapped_def shadowBuiltinVBin_def)
          then show ?thesis using empty g x by blast
        next
          case False
          have "\<forall>x \<in> set a. CHR 0x00 \<notin> set x" using 3(6) .
          note i = interp_cases [OF assms(4) x(1) [unfolded 3(4)] this False]
          then show ?thesis using gated_dispatched [OF g, of "unshadowBuiltinVBin c'" s' a] exec_dispatched [OF x(2)] m by blast
        qed
      qed
    qed
  qed
qed

lemma gated_run: "gated cfg r sid s \<Longrightarrow> sid \<noteq> '''' \<Longrightarrow> interp_documented cfg \<Longrightarrow> gated cfg r sid (shell_run cfg cs s)"
proof (induction cs arbitrary: s)
  case (Cons args cs)
  obtain e t where e: "shell_command cfg args s = (e, t)" by fastforce
  have "gated cfg r sid t" using gated_command Cons.prems e by blast
  then show ?case using Cons e by (cases e) simp_all
qed simp

text \<open>Identity: a command that is no custom command and no virtual binary.\<close>

lemma own_command:
  assumes "shell_command cfg args s = (e, s')" "interp_documented cfg"
    and "\<And>a nt b. currentAdminPlaneRewrite (gx_plane (sx_gate_cfg cfg)) args = Inr (a, nt) \<Longrightarrow> b = a \<or> wrapped a b \<Longrightarrow>
      custom_command (hd b) s = None \<and> \<not> is_vbin cfg (hd b)"
  shows "own s s'"
proof -
  obtain x t where c: "callHandler cfg args s = (x, t)" by fastforce
  have o: "own s t" if "asked cfg s g t" for g t using that by (simp add: asked_def own_def)
  show ?thesis
  proof (cases "\<exists>b. x = Some (Inr b)")
    case False
    then show ?thesis
      using assms(1) c call_refused [OF c] o by (fastforce simp: shell_command_def split: option.splits sum.splits)
  next
    case True
    then obtain b where b: "callHandler cfg args s = (Some (Inr b), t)" using c by blast
    have st: "own s t \<and> sh_state t = sh_state s" by (cases rule: call_passed [OF b]) (auto simp: asked_def own_def)
    have "own t s'"
    proof (cases rule: shell_command_passed [OF assms(1) b])
      case x: (2 c' y)
      have e: "own t s'" if "c' = []" using that x(2) by (auto simp: execHandlerSession_def dest: next_handed)
      have n: "own t s'" if "currentAdminPlaneRewrite (gx_plane (sx_gate_cfg cfg)) args = Inr (a, nt)" "c' \<noteq> []"
          "unshadowBuiltinVBin c' = a \<or> wrapped a (unshadowBuiltinVBin c')" for a nt
      proof -
        have "custom_command (hd (unshadowBuiltinVBin c')) s = None \<and> \<not> is_vbin cfg (hd (unshadowBuiltinVBin c'))"
          by (rule assms(3) [OF that(1)]) (use that(3) in auto)
        then have "custom_command (hd (unshadowBuiltinVBin c')) t = None \<and> \<not> is_vbin cfg (hd (unshadowBuiltinVBin c'))"
          using st by (simp add: custom_command_def lookup_in_def)
        then show ?thesis using exec_dispatched [OF x(2) that(2)] by blast
      qed
      show ?thesis
      proof (cases rule: call_passed [OF b])
        case 1
        then have "c' = []" using assms(2) x(1) by (auto simp: interp_documented_def wrapped_def)
        then show ?thesis using e by simp
      next
        case (2 a nt)
        then show ?thesis using n [OF 2(2)] listener_interp [OF assms(2) x(1) [unfolded 2(4)] 2(6)] by blast
      next
        case (3 a nt)
        show ?thesis
        proof (cases "a = []")
          case True
          then have "c' = []" using assms(2) x(1) 3(4) by (auto simp: interp_documented_def wrapped_def shadowBuiltinVBin_def)
          then show ?thesis using e by simp
        next
          case False
          then show ?thesis using n [OF 3(2)] interp_cases [OF assms(2) x(1) [unfolded 3(4)] 3(6)] by blast
        qed
      qed
    qed blast
    then show ?thesis using st own_trans by blast
  qed
qed


section \<open>The scan as a list\<close>

text \<open>The nodes of a tree in the order \<^verbatim>\<open>syntax.Walk\<close> visits them, and a scan of them one by one.\<close>

fun kinds :: "node \<Rightarrow> node_kind list" and kinds_of :: "node list \<Rightarrow> node_kind list" where
  "kinds (Node k ns) = k # kinds_of ns"
| "kinds_of [] = []"
| "kinds_of (n # ns) = kinds n @ kinds_of ns"

fun scan_all :: "shell_cfg \<Rightarrow> bool \<Rightarrow> string \<Rightarrow> node_kind list \<Rightarrow> shell \<Rightarrow> scan_err option \<times> shell" where
  "scan_all cfg r sid [] s = (None, s)"
| "scan_all cfg r sid (k # ks) s = (case scan_node cfg r sid k s of (Some e, s) \<Rightarrow> (Some e, s) | (None, s) \<Rightarrow> scan_all cfg r sid ks s)"

lemma scan_all_append:
  "scan_all cfg r sid (ks @ ls) s = (case scan_all cfg r sid ks s of (Some e, s) \<Rightarrow> (Some e, s) | (None, s) \<Rightarrow> scan_all cfg r sid ls s)"
  by (induction ks arbitrary: s) (auto split: prod.splits option.splits)

lemma scan_linear:
  "gateProgram cfg r sid n s = scan_all cfg r sid (kinds n) s"
  "gatePrograms cfg r sid ns s = scan_all cfg r sid (kinds_of ns) s"
  by (induction cfg r sid n s and cfg r sid ns s rule: gateProgram_gatePrograms.induct)
     (auto simp: scan_all_append split: prod.splits option.splits)

definition fds_ok :: "node_kind \<Rightarrow> bool" where
  "fds_ok k = (case k of NRedirect (Some n) \<Rightarrow> n \<in> {''0'', ''1'', ''2''} | _ \<Rightarrow> True)"

lemma redirect_no_decl [simp]: "declArgs (NRedirect n) = []" "declArgs NOther = []"
  by simp_all

lemma scan_node_passed:
  assumes "scan_node cfg (ss_Restricted (sh_state s)) sid k s = (None, s')"
  shows "fds_ok k \<and> asked cfg s (if declArgs k = [] then [] else [(sid, declArgs k, True)]) s'"
proof (cases "\<exists>n. k = NRedirect (Some n)")
  case True
  then show ?thesis using assms by (auto simp: scan_node_def fds_ok_def asked_def split: if_splits)
next
  case False
  then have o: "fds_ok k" and d: "scan_node cfg (ss_Restricted (sh_state s)) sid k s = (if declArgs k = [] then (None, s)
      else (case ask_gate cfg (ss_Restricted (sh_state s)) (declArgs k) sid s of (o', s) \<Rightarrow> (if o' = Allow then None else Some (ScanGate o'), s)))"
    by (auto simp: scan_node_def fds_ok_def split: node_kind.splits option.splits)
  show ?thesis
    using assms o unfolding d by (auto simp: asked_def dest!: ask_gate_asked split: if_splits prod.splits)
qed

lemma asked_append: "asked cfg s g t \<Longrightarrow> asked cfg t h u \<Longrightarrow> asked cfg s (g @ h) u"
  by (auto simp: asked_def)

lemma scan_all_passed:
  assumes "scan_all cfg (ss_Restricted (sh_state s)) sid ks s = (None, s')"
  shows "list_all fds_ok ks \<and> asked cfg s (map (\<lambda>k. (sid, declArgs k, True)) (filter (\<lambda>k. declArgs k \<noteq> []) ks)) s'"
  using assms
proof (induction ks arbitrary: s)
  case Nil
  then show ?case by (simp add: asked_def)
next
  case (Cons k ks)
  then obtain t where t: "scan_node cfg (ss_Restricted (sh_state s)) sid k s = (None, t)"
    "scan_all cfg (ss_Restricted (sh_state s)) sid ks t = (None, s')"
    by (auto split: prod.splits option.splits)
  note n = scan_node_passed [OF t(1)]
  then have r: "ss_Restricted (sh_state t) = ss_Restricted (sh_state s)" by (simp add: asked_def)
  note i = Cons.IH [of t, unfolded r, OF t(2)]
  show ?case using n i asked_append [OF conjunct2 [OF n] conjunct2 [OF i]] by (cases "declArgs k = []") simp_all
qed


section \<open>Reading in a session that is gone\<close>

lemma env_unregistered:
  "i \<noteq> '''' \<Longrightarrow> GetSession (en_reg (wo_engine (sh_world s))) i = None \<Longrightarrow>
   assignProcessOrSessionEnv i key value s = (Some (SHUnregistered i), s)"
  by (simp add: assignProcessOrSessionEnv_def Let_def)

lemma read_unregistered:
  assumes "gateSessionID (sh_state s) = sid" "sid \<noteq> ''''" "GetSession (en_reg (wo_engine (sh_world s))) sid = None"
  shows "\<exists>e src so. do_read args s = (Some e, s\<lparr>sh_stdin := src, sh_out := so\<rparr>)"
proof (cases "read_args args")
  case None
  then show ?thesis by (intro exI [of _ "SHUsage ''read''"] exI [of _ "sh_stdin s"] exI [of _ "sh_out s"]) (simp add: do_read_def)
next
  case (Some pn)
  obtain p n where pn: "read_args args = Some (p, n)" using Some by (cases pn) simp
  have u: "assignProcessOrSessionEnv sid n v (say p s\<lparr>sh_stdin := i\<rparr>) = (Some (SHUnregistered sid), say p s\<lparr>sh_stdin := i\<rparr>)" for v i
    by (rule env_unregistered) (use assms in \<open>simp_all add: say_def\<close>)
  have g: "gateSessionID (sh_state (say p s)) = sid" using assms(1) by (simp add: say_def)
  show ?thesis
  proof (cases "sh_stdin s")
    case NoStdin
    have "do_read args s = (Some SHPanic, s\<lparr>sh_stdin := sh_stdin s, sh_out := sh_out s @ p\<rparr>)"
      using NoStdin pn by (simp add: do_read_def say_def)
    then show ?thesis by blast
  next
    case (Source tty ps bad)
    obtain l qs where l: "read_line '''' ps = (l, qs)" by fastforce
    have "\<exists>e. do_read args s = (Some e, say p s\<lparr>sh_stdin := Source tty qs bad\<rparr>)"
    proof (cases l)
      case None
      then show ?thesis using Source pn l by (simp add: do_read_def say_def)
    next
      case (Some line)
      then show ?thesis using Source pn l g u by (cases "reservedSessionName n") (simp_all add: do_read_def Let_def, simp_all add: say_def)
    qed
    moreover have "say p s\<lparr>sh_stdin := Source tty qs bad\<rparr> = s\<lparr>sh_stdin := Source tty qs bad, sh_out := sh_out s @ p\<rparr>"
      by (simp add: say_def)
    ultimately show ?thesis by metis
  qed
qed

section \<open>An example shell\<close>

definition ix_cfg :: shell_cfg where
  "ix_cfg = \<lparr>sx_gate_cfg = gx_cfg, sx_gate_env = (\<lambda>n. ex_env), sx_show = (\<lambda>v. case v of VStr t \<Rightarrow> t | _ \<Rightarrow> ''?''),
     sx_elapsed = (\<lambda>n. ''1ms''), sx_interp = Some, sx_builtin = (\<lambda>n a (i, d). (None, i, [], [], d)), sx_path = (\<lambda>n. None),
     sx_next = (\<lambda>n c w. (if hd c = ''cd'' then Some ''no such directory'' else None, w)),
     sx_call = (\<lambda>n c a g w. (None, g, w)), sx_vbin = (\<lambda>n i r a g w. (None, g, w)), sx_help = (\<lambda>n. n), sx_remote_run = None\<rparr>"

definition ix_shell :: "bool \<Rightarrow> shell" where
  "ix_shell r = \<lparr>sh_state = \<lparr>ss_Restricted = r, ss_Globals = Some [], ss_Dirs = Some \<lparr>ds_stack = [''/''], ds_oldpwd = ''''\<rparr>, ss_SessionID = ''s1''\<rparr>,
     sh_world = mx_world, sh_dirs = \<lparr>ds_stack = [], ds_oldpwd = ''''\<rparr>, sh_env = [(''HOME'', ''/root'')], sh_out = '''', sh_err = '''',
     sh_stdin = NoStdin, sh_dir = ''/'', sh_calls = 0, sh_next = [], sh_gates = []\<rparr>"

lemma ix_documented: "interp_documented ix_cfg"
  by (simp add: interp_documented_def ix_cfg_def)

lemma ix_fields [simp]:
  "sx_interp ix_cfg = Some"
  "sh_state (ix_shell r) = \<lparr>ss_Restricted = r, ss_Globals = Some [], ss_Dirs = Some \<lparr>ds_stack = [''/''], ds_oldpwd = ''''\<rparr>, ss_SessionID = ''s1''\<rparr>"
  "sh_next (ix_shell r) = []" "sh_gates (ix_shell r) = []" "sh_world (ix_shell r) = mx_world" "sh_err (ix_shell r) = ''''"
  "sx_gate_cfg ix_cfg = gx_cfg" "sx_gate_env ix_cfg = (\<lambda>n. ex_env)"
  by (simp_all add: ix_shell_def ix_cfg_def)

text \<open>A command of three plain words at most goes through to the gate as it is.\<close>

lemma ix_asked:
  assumes "plain_word (join args '' '')" "args \<noteq> []" "list_all (\<lambda>a. \<not> contains_byte a (CHR 0x00)) args"
    and "r \<Longrightarrow> CHR ''/'' \<notin> set (hd args) \<and> hd args \<noteq> ''cd'' \<and> hd args \<noteq> ''export''"
  obtains w where "gateCommand gx_cfg ex_env r args ''s1'' mx_world = (Allow, w)"
    "ask_gate ix_cfg r args ''s1'' (ix_shell q) = (Allow, (ix_shell q)\<lparr>sh_world := w, sh_gates := [(''s1'', args, True)]\<rparr>)"
  using mx_gate [OF assms] by (auto simp: ask_gate_def)

lemma ix_command:
  assumes "plain_word (join args '' '')" "args \<noteq> []" "list_all (\<lambda>a. \<not> contains_byte a (CHR 0x00)) args"
    and "r \<Longrightarrow> CHR ''/'' \<notin> set (hd args) \<and> hd args \<noteq> ''cd'' \<and> hd args \<noteq> ''export''" "hd args \<noteq> ''help''"
  obtains w where "gateCommand gx_cfg ex_env r args ''s1'' mx_world = (Allow, w)"
    "shell_command ix_cfg args (ix_shell r) =
      (case execHandlerSession ix_cfg args ((ix_shell r)\<lparr>sh_world := w, sh_gates := [(''s1'', args, True)]\<rparr>) of (e, s) \<Rightarrow> (Some e, s))"
proof -
  have "shadowBuiltinVBin ix_cfg args = args"
    using assms(5) by (auto simp: shadowBuiltinVBin_def is_vbin_def gx_cfg_def split: list.splits)
  moreover obtain w where "gateCommand gx_cfg ex_env r args ''s1'' mx_world = (Allow, w)"
    "ask_gate ix_cfg r args ''s1'' (ix_shell r) = (Allow, (ix_shell r)\<lparr>sh_world := w, sh_gates := [(''s1'', args, True)]\<rparr>)"
    by (rule ix_asked [OF assms(1-4)])
  ultimately show thesis
    using that [of w] assms(2)
    by (simp add: shell_command_def callHandler_def currentAdminPlaneRewrite_def gateSessionID_def RemoteGateProcess_def gx_cfg_def)
qed

lemma ix_plain [simp]: "plain_word ''time ls''" "plain_word ''time /bin/sh''" "plain_word ''set A=1''" "plain_word ''export A=1''"
    "plain_word ''pushd /x''"
  by (simp_all add: plain_word_def esc_byte_def)

lemma ix_exec:
  "p \<noteq> ''cd'' \<Longrightarrow> \<exists>s'. execHandlerSession ix_cfg [''time'', p] ((ix_shell r)\<lparr>sh_world := w, sh_gates := g\<rparr>) = (None, s') \<and> sh_next s' = [[p]] \<and> sh_gates s' = g"
  by (simp add: execHandlerSession_def unshadowBuiltinVBin_def hasPrefix_def shadowPrefix_def applySetAssignment_def is_xtrace_def lookup_in_def
      Let_def RemoteGateProcess_def gx_cfg_def custom_command_def dispatch_builtin_def do_time_def call_next_def ix_cfg_def ix_shell_def complain_def)


section \<open>Properties\<close>



text \<open>C6. A command that is neither a custom command nor a virtual binary, and wraps none, cannot change the session the
  shell's commands are gated under, neither through the names \<^verbatim>\<open>set\<close>, \<^verbatim>\<open>read\<close> and
  \<^verbatim>\<open>alias\<close> write nor through options; and in a session it never writes the environment of the
  process.\<close>

theorem session_identity_kept:
  assumes "interp_documented cfg"
    and "\<And>a nt b. currentAdminPlaneRewrite (gx_plane (sx_gate_cfg cfg)) args = Inr (a, nt) \<Longrightarrow> b = a \<or> wrapped a b \<Longrightarrow>
      custom_command (hd b) s = None \<and> \<not> is_vbin cfg (hd b)"
    and "shell_command cfg args s = (e, s')"
  shows "gateSessionID (sh_state s') = gateSessionID (sh_state s) \<and> (gateSessionID (sh_state s) \<noteq> '''' \<longrightarrow> sh_env s' = sh_env s)"
  using own_command [OF assms(3,1,2)] by (simp add: own_def)

lemma not_wrapped [simp]: "\<not> wrapped (''set'' # x) b"
  by (simp add: wrapped_def)

theorem session_identity_kept_witness:
  "\<exists>e s'. shell_command ix_cfg [''set'', ''A=1''] (ix_shell False) = (e, s') \<and> gateSessionID (sh_state s') = ''s1'' \<and> sh_env s' = [(''HOME'', ''/root'')]"
proof -
  obtain e s' where r: "shell_command ix_cfg [''set'', ''A=1''] (ix_shell False) = (e, s')" by fastforce
  have "gateSessionID (sh_state s') = gateSessionID (sh_state (ix_shell False)) \<and>
      (gateSessionID (sh_state (ix_shell False)) \<noteq> '''' \<longrightarrow> sh_env s' = sh_env (ix_shell False))"
    by (rule session_identity_kept [OF ix_documented _ r])
       (auto simp: not_wrapped currentAdminPlaneRewrite_def gx_cfg_def custom_command_def lookup_in_def is_vbin_def ix_shell_def ix_cfg_def)
  then show ?thesis using r by (simp add: gateSessionID_def) (simp add: ix_shell_def)
qed

text \<open>C7. The scan of a program passes only if every declaration in it, in the order of the tree and whether it
  would run or not, was granted by the gate exactly once, and every numbered redirect names descriptor 0, 1 or 2.\<close>

theorem passed_program_gated:
  assumes "GateProgramSession cfg n s = (None, s')" "gateSessionID (sh_state s) = sid"
  shows "list_all fds_ok (kinds n) \<and>
    sh_gates s' = sh_gates s @ map (\<lambda>k. (sid, declArgs k, True)) (filter (\<lambda>k. declArgs k \<noteq> []) (kinds n)) \<and>
    (\<forall>k \<in> set (kinds n). declArgs k \<noteq> [] \<longrightarrow> granted cfg (ss_Restricted (sh_state s)) sid (declArgs k))"
  using scan_all_passed [of cfg s sid "kinds n" s'] assms by (auto simp: GateProgramSession_def scan_linear(1) asked_def)

theorem passed_program_gated_witness:
  "\<exists>s'. GateProgramSession ix_cfg (Node NOther [Node (NRedirect (Some ''2'')) [], Node (NDecl (Some ''export'') [(Some ''A=1'', None)]) []])
      (ix_shell False) = (None, s') \<and> sh_gates s' = [(''s1'', [''export'', ''A=1''], True)] \<and> granted ix_cfg False ''s1'' [''export'', ''A=1'']"
proof -
  let ?n = "Node NOther [Node (NRedirect (Some ''2'')) [], Node (NDecl (Some ''export'') [(Some ''A=1'', None)]) []]"
  obtain w where "ask_gate ix_cfg False [''export'', ''A=1''] ''s1'' (ix_shell False) =
      (Allow, (ix_shell False)\<lparr>sh_world := w, sh_gates := [(''s1'', [''export'', ''A=1''], True)]\<rparr>)"
    by (rule ix_asked [of "[''export'', ''A=1'']" False False]) simp_all
  then have "GateProgramSession ix_cfg ?n (ix_shell False) =
      (None, (ix_shell False)\<lparr>sh_world := w, sh_gates := [(''s1'', [''export'', ''A=1''], True)]\<rparr>)"
    by (simp add: GateProgramSession_def scan_node_def gateSessionID_def)
  then show ?thesis using passed_program_gated [of ix_cfg ?n "ix_shell False" _ "''s1''"] by (simp add: gateSessionID_def)
qed

text \<open>C8. In a session whose id is not registered any more, no assignment succeeds. The assignment form of
  \<^verbatim>\<open>set\<close> fails and changes nothing at all; \<^verbatim>\<open>read\<close>, whatever its arguments and input, fails and
  changes nothing but the streams it prompted on and read from: no variable of the process, of the session or of
  Starlark, no directory and no question of the gate.\<close>

theorem unregistered_session_assigns_nothing:
  assumes "gateSessionID (sh_state s) = sid" "sid \<noteq> ''''" "GetSession (en_reg (wo_engine (sh_world s))) sid = None"
    and "hd args = ''set''" "length args \<ge> 2" "\<not> hasPrefix (args ! 1) ''-''" "\<not> hasPrefix (args ! 1) ''+''"
    and "custom_command ''read'' s = None"
  shows "(\<exists>e. execHandlerSession cfg args s = (Some e, s)) \<and>
    (\<exists>e src so se. execHandlerSession cfg (''read'' # rargs) s = (Some e, s\<lparr>sh_stdin := src, sh_out := so, sh_err := se\<rparr>))"
proof
  have u: "unshadowBuiltinVBin args = args" "args \<noteq> []" "args ! 0 = ''set''"
    using unshadow_plain [of args] assms(4,5) by (cases args; simp)+
  then obtain e where "applySetAssignment args s = (Some (Some e), s)"
    using assms by (fastforce simp: applySetAssignment_def assignProcessOrSessionEnv_def Let_def split: option.splits prod.splits)
  then show "\<exists>e. execHandlerSession cfg args s = (Some e, s)" using u by (simp add: execHandlerSession_def)
next
  let ?r = "''read'' # rargs"
  define t where "t = (if is_xtrace s then complain (''+ '' @ join ?r '' '' @ [newline_byte]) s else s)"
  have t: "\<exists>x. t = s\<lparr>sh_err := x\<rparr>" by (cases "is_xtrace s") (auto simp: t_def complain_def intro: exI [of _ "sh_err s"])
  have x: "unshadowBuiltinVBin ?r = ?r" by (rule unshadow_plain) simp
  have l: "\<not> sshRunsInListener ?r" by (simp add: sshRunsInListener_def sshListenerRuns_def)
  have c: "custom_command ''read'' t = None" using t assms(8) by (auto simp: custom_command_def lookup_in_def)
  have "execHandlerSession cfg ?r s = do_read ?r t"
    by (simp add: execHandlerSession_def x l c applySetAssignment_def Let_def dispatch_builtin_def flip: t_def)
  moreover obtain e src so where "do_read ?r t = (Some e, t\<lparr>sh_stdin := src, sh_out := so\<rparr>)"
    using read_unregistered [of t sid ?r] t assms(1-3) by auto
  moreover obtain x where "t = s\<lparr>sh_err := x\<rparr>" using t by blast
  ultimately show "\<exists>e src so se. execHandlerSession cfg ?r s = (Some e, s\<lparr>sh_stdin := src, sh_out := so, sh_err := se\<rparr>)"
    by (intro exI [of _ e] exI [of _ src] exI [of _ so] exI [of _ x]) simp
qed

theorem unregistered_session_assigns_nothing_witness:
  "\<exists>e e' src so se. execHandlerSession ix_cfg [''set'', ''A=1''] ((ix_shell False)\<lparr>sh_world := gx_world\<rparr>) =
      (Some e, (ix_shell False)\<lparr>sh_world := gx_world\<rparr>) \<and>
    execHandlerSession ix_cfg [''read'', ''A''] ((ix_shell False)\<lparr>sh_world := gx_world\<rparr>) =
      (Some e', (ix_shell False)\<lparr>sh_world := gx_world, sh_stdin := src, sh_out := so, sh_err := se\<rparr>)"
  using unregistered_session_assigns_nothing [of "(ix_shell False)\<lparr>sh_world := gx_world\<rparr>" "''s1''" "[''set'', ''A=1'']" ix_cfg "[''A'']"]
  by (simp add: gateSessionID_def hasPrefix_def gx_world_def gx_engine_def ex_engine_def GetSession_def custom_command_def lookup_in_def)

text \<open>C9. A restricted session may not name a command by its path: the gate never grants one. But
  \<^verbatim>\<open>time\<close> hands its arguments to the operating system without that check, so a granted
  \<^verbatim>\<open>time\<close> command (quoted, so that the interpreter passes it on) runs a path the gate refuses on its
  own.\<close>

theorem time_runs_refused_path:
  assumes "\<not> RemoteGateProcess (sx_gate_cfg cfg)" "CHR ''/'' \<in> set p" "ss_Restricted (sh_state s)"
    and "gx_plane (sx_gate_cfg cfg) = None" "custom_command ''time'' s = None" "\<not> is_xtrace s"
    and "sx_interp cfg [''time'', p] = Some [''time'', p]"
    and "ask_gate cfg True [''time'', p] (gateSessionID (sh_state s)) s = (Allow, t)"
  shows "\<not> granted cfg True sid [p] \<and> sh_next (snd (shell_command cfg [''time'', p] s)) = sh_next s @ [[p]]"
proof
  have "gx_remote (sx_gate_cfg cfg) = None" using assms(1) by (simp add: RemoteGateProcess_def)
  then show "\<not> granted cfg True sid [p]"
    using assms(2) unfolding granted_def gateCommand_def by (auto elim!: allowed_stages [OF _ _ _ refl])
  have c: "callHandler cfg [''time'', p] s = (Some (Inr [''time'', p]), t)"
    using assms(8) by (simp add: callHandler_def currentAdminPlaneRewrite_def assms(1,3,4) shadowBuiltinVBin_def builtinNamedVBins_def)
  have a: "asked cfg s [(gateSessionID (sh_state s), [''time'', p], True)] t"
    using ask_gate_asked [of cfg s "[''time'', p]" "gateSessionID (sh_state s)" Allow t] assms(3,8) by simp
  have u: "unshadowBuiltinVBin [''time'', p] = [''time'', p]" by (rule unshadow_plain) simp
  have e: "execHandlerSession cfg [''time'', p] t = do_time cfg [''time'', p] t"
    using assms(1,5,6) a by (simp add: execHandlerSession_def u applySetAssignment_def Let_def dispatch_builtin_def asked_def custom_command_def
        lookup_in_def is_xtrace_def)
  show "sh_next (snd (shell_command cfg [''time'', p] s)) = sh_next s @ [[p]]"
    using a by (auto simp: shell_command_def c e assms(7) do_time_def call_next_def complain_def asked_def split: prod.splits)
qed

theorem time_runs_refused_path_witness:
  "\<not> granted ix_cfg True ''s1'' [''/bin/sh''] \<and> sh_next (snd (shell_command ix_cfg [''time'', ''/bin/sh''] (ix_shell True))) = [[''/bin/sh'']]"
proof -
  obtain w where "ask_gate ix_cfg True [''time'', ''/bin/sh''] ''s1'' (ix_shell True) =
      (Allow, (ix_shell True)\<lparr>sh_world := w, sh_gates := [(''s1'', [''time'', ''/bin/sh''], True)]\<rparr>)"
    by (rule ix_asked [of "[''time'', ''/bin/sh'']" True True]) simp_all
  then show ?thesis
    using time_runs_refused_path [of ix_cfg "''/bin/sh''" "ix_shell True" _ "''s1''"]
    by (simp add: RemoteGateProcess_def gx_cfg_def custom_command_def lookup_in_def is_xtrace_def gateSessionID_def)
qed


text \<open>C10. What the shell sends to the listener with a command is well formed and is the input of the command. A command
  without standard input, or on a terminal, sends none; any other sends all of its standard input, marked as bytes
  exactly when there are some. A request with it, valid arguments and an id decodes to itself.\<close>

theorem run_input_well_formed:
  assumes "runStdin src = Inr (mode, stdin)" "ValidateMonitorArgs args = None" "i \<noteq> 0"
  shows "(case src of
      NoStdin \<Rightarrow> mode = MonitorStdinNone \<and> stdin = ''''
    | Source tty ps bad \<Rightarrow>
        if tty then mode = MonitorStdinNone \<and> stdin = ''''
        else stdin = concat ps \<and> mode = (if concat ps = '''' then MonitorStdinNone else MonitorStdinBytes)) \<and>
    validateRunStdin mode stdin = None \<and>
    DecodeMonitorRun (marshal_run_request \<lparr>rq_ID = i, rq_Args = args, rq_StdinMode = mode, rq_Stdin = stdin\<rparr>) =
      Inr \<lparr>rq_ID = i, rq_Args = args, rq_StdinMode = mode, rq_Stdin = stdin\<rparr>"
proof -
  have v: "validateRunStdin mode stdin = None"
    using assms(1) by (auto simp: runStdin_def validateRunStdin_def MonitorStdinNone_def MonitorStdinBytes_def MaxMonitorRunStdin_def Let_def
        split: stdin_src.splits if_splits)
  have d: "stdin = concat ps \<and> mode = (if concat ps = '''' then MonitorStdinNone else MonitorStdinBytes)" if "src = Source False ps bad" for ps bad
  proof -
    let ?d = "take (Suc MaxMonitorRunStdin) (concat ps)"
    have "length ?d \<le> MaxMonitorRunStdin" "stdin = ?d" "mode = (if ?d = '''' then MonitorStdinNone else MonitorStdinBytes)"
      using assms(1) that by (auto simp: runStdin_def Let_def split: if_splits)
    then show ?thesis by simp
  qed
  have n: "mode = MonitorStdinNone \<and> stdin = ''''" if "src = NoStdin \<or> src = Source True ps bad" for ps bad
    using assms(1) that by (auto simp: runStdin_def)
  show ?thesis using v d n run_request_roundtrip [of "\<lparr>rq_ID = i, rq_Args = args, rq_StdinMode = mode, rq_Stdin = stdin\<rparr>"] assms(2,3)
    by (auto split: stdin_src.split)
qed

theorem run_input_well_formed_witness:
  "validateRunStdin MonitorStdinBytes ''yes'' = None \<and>
   DecodeMonitorRun (marshal_run_request \<lparr>rq_ID = 7, rq_Args = [''whoami''], rq_StdinMode = MonitorStdinBytes, rq_Stdin = ''yes''\<rparr>) =
     Inr \<lparr>rq_ID = 7, rq_Args = [''whoami''], rq_StdinMode = MonitorStdinBytes, rq_Stdin = ''yes''\<rparr>"
proof -
  have "runStdin (Source False [''ye'', ''s''] False) = Inr (MonitorStdinBytes, ''yes'')"
    by (simp add: runStdin_def MaxMonitorRunStdin_def)
  moreover have "ValidateMonitorArgs [''whoami''] = None"
    by (simp add: ValidateMonitorArgs_def maxMonitorArgs_def bad_arg_def maxMonitorArgLen_def valid_ascii)
  ultimately show ?thesis using run_input_well_formed [of "Source False [''ye'', ''s''] False" MonitorStdinBytes "''yes''" "[''whoami'']" 7] by simp
qed

end
