(* ===== verification/Spec2Isabelle.thy ===== *)
theory Spec2Isabelle
  imports Sessions Entitlements Capabilities Identity Guard_Admit Policy FourEyes Gate MonitorRun Interceptor
begin

text \<open>
  Verification of the governance core of adssh, a shell that gates every command of a session.

  \<^bold>\<open>The program.\<close> A session runs commands in an embedded interpreter. Each command goes through a call handler,
  which asks the gate of the engine: the command is recorded, judged by a Rego policy for the principal of the
  session, by role-based entitlements, by an approval gate (change-management tickets and four-eyes rules), by the
  admin plane and by restricted mode, and only then reaches an exec handler that dispatches it. An SSH session runs
  in a process of its own that cannot see the engine: it asks the listener over a socket, the monitor. In front
  of the listener a jail counts and bans peers. Everything the gate decides goes to an audit log and to a ledger
  chained by HMACs.

  \<^bold>\<open>The theories\<close>, with what they model under src/. A Go struct is a record with the names of its fields
  behind a prefix, a function or method the definition of its name, an error a value of a sum or option type; state is
  passed and returned.

  \<^item> \<^verbatim>\<open>Prelude\<close>: strings, maps, words and times as Go has them; functions of the packages strings,
    path and sort.
  \<^item> \<^verbatim>\<open>Json\<close>, \<^verbatim>\<open>JsonFields\<close>, \<^verbatim>\<open>Sha256\<close>, \<^verbatim>\<open>Glob\<close>: what the source uses of encoding/json,
    encoding/base64, crypto/sha256, crypto/hmac, encoding/hex, unicode/utf8 and path/filepath.
  \<^item> \<^verbatim>\<open>Sessions\<close>: internal/sys/session.go and dirstack.go. The environment of a session refines its
    lookup, one controller at a time, elevation ends with its time, the table keeps its capacity.
  \<^item> \<^verbatim>\<open>Entitlements\<close>, \<^verbatim>\<open>Capabilities\<close>, \<^verbatim>\<open>Identity\<close>: security/entitlements.go, roles.go, capabilities.go and
    the identity table of engine.go.
  \<^item> \<^verbatim>\<open>Guard_Net\<close>, \<^verbatim>\<open>Guard\<close>, \<^verbatim>\<open>Guard_Admit\<close>: internal/guard/guard.go and internal/safefile. Bounds of every
    configured value, the bound of the tables, which connection is admitted, that a ban holds and that a failure to
    store one closes the listener.
  \<^item> \<^verbatim>\<open>AuditChain\<close>, \<^verbatim>\<open>AuditLog\<close>: security/audit_chain.go on the bytes of the ledger, and the records of
    audit.go. A ledger the code wrote verifies, one it did not write does not unless a MAC collides, what was
    written stays a prefix of the file, reading the tail backwards finds the last line.
  \<^item> \<^verbatim>\<open>Policy\<close>: security/policy.go and the policy of engine.go. No result and no error lets a command through.
  \<^item> \<^verbatim>\<open>FourEyes\<close>, \<^verbatim>\<open>Approval\<close>: approval_gate.go, foureyes_ee.go, foureyes_pending_ee.go, cm_ee.go and their hooks.
    Deciding a request is a protocol on files that several processes run at once (an inductive step relation over
    the single operations); nobody decides a request twice, for himself or against its rule.
  \<^item> \<^verbatim>\<open>AdminPlane\<close>, \<^verbatim>\<open>Remote\<close>: adminplane_ee.go, quarantine_ee.go, agentbudget_ee.go, and which
    virtual binaries ssh_monitor.go refuses or sends to the listener.
  \<^item> \<^verbatim>\<open>Gate\<close>: gateCommandContext of interceptor.go, explain.go and denial.go. What an allowed command has passed,
    that it is recorded first, and that its explanation predicts the gate.
  \<^item> \<^verbatim>\<open>MonitorFrame\<close>, \<^verbatim>\<open>MonitorClient\<close>, \<^verbatim>\<open>Monitor\<close>, \<^verbatim>\<open>MonitorRun\<close>: internal/sys/monitor_frame.go and the server of
    security/ssh_monitor.go. The server is a step relation of its read loop, the goroutine of a request and the rest
    of the listener; \<open>mon_reach\<close> are its reachable states. Every grant was gated, requests are
    answered in order and once, a client reads what was written for it and fails closed otherwise.
  \<^item> \<^verbatim>\<open>GateExample\<close>, \<^verbatim>\<open>Interceptor\<close>: the call handler, the scan of declarations and the exec handler of
    interceptor.go. What reaches the operating system was gated, and no builtin changes who is asked about.

  \<^bold>\<open>Interfaces.\<close> Where several definitions share a contract it is a locale, interpreted on them: maps with
  string keys and stores whose operations touch one key (\<open>go_map\<close>, \<open>keyed_store\<close>, \<open>keyed_local\<close> in
  \<^verbatim>\<open>Prelude\<close>; association lists, identity bindings, agent budgets, change-management tables), the records of the
  audit log (\<open>audit_record\<close>: one line and one sealed entry each, or an error), and the approval gates of the core
  and of the enterprise build (\<open>approval_contract\<close>: what a gate explains is what it checks).

  \<^bold>\<open>Parameters\<close> stand for code that is not under src/ and for the operating system: the evaluation of Rego, the
  YAML decoder, the redaction of log lines and the printing of quoted strings (\<open>le_redact\<close>,
  \<open>le_quote\<close>: regular expressions and \<^verbatim>\<open>strconv\<close> tables), the ticket system, what files, sockets
  and clocks return, the interpreter, the next exec handler, Starlark and the bodies of virtual binaries. No theorem
  assumes more of them than its statement says.

  \<^bold>\<open>Simplifications that hold everywhere.\<close> One gated command sees one instant of the clock. Lower-casing is that of
  ASCII. A method that locks a mutex is one step; interleavings are modelled where several processes share files
  and where the goroutines of the monitor share a connection.

  \<^bold>\<open>Fuel and termination.\<close> Every definition is total. The JSON reader takes fuel \<open>2 * length + 2\<close>, which
  \<open>read_fuel\<close> shows to be enough for every text the model writes; a text that exhausts it is reported as ill formed.
  Loops that poll (waiting for an approval, reading a socket) recurse on the list of what the polls return.

  \<^bold>\<open>Not modelled\<close>: the parts listed as such in the manifest. They are clients of the core above (the prompts, the
  editor, the completion, the Starlark library, the cloud clients, the MCP server), wire code whose behaviour is that
  of a library (SSH, terminals, HTTP), or reports that print what the core keeps.
\<close>

end
